(* ===== verification/Prelude.thy ===== *)
theory Prelude
  imports Complex_Main "HOL-Library.Sublist"
begin

text \<open>
  What the components share: the Python and Lua string operations that occur in the
  sources (decimal printing of integers, Lua 5.1's \<open>tostring\<close> on numbers, \<open>str.split\<close>), and the
  named collections of rules that carry the component proofs.
\<close>

named_theorems tx_defs \<open>definitions of the transaction combinators\<close>
named_theorems tx_keeps_intros \<open>a transaction keeps a relation between database states\<close>
named_theorems seg_defs \<open>definitions of the segments of an execution\<close>

section \<open>Decimal printing\<close>

definition digit :: "nat \<Rightarrow> char" where
  "digit n = char_of (48 + n)"

text \<open>Python's \<open>str(n)\<close> for a non-negative integer.\<close>

fun dec :: "nat \<Rightarrow> string" where
  "dec n = (if n < 10 then [digit n] else dec (n div 10) @ [digit (n mod 10)])"

declare dec.simps [simp del]

text \<open>Python's \<open>str(i)\<close> (and \<open>f"{i}"\<close>) for an integer.\<close>

definition str_int :: "int \<Rightarrow> string" where
  "str_int i = (if i < 0 then CHR ''-'' # dec (nat (- i)) else dec (nat i))"

text \<open>The reader that inverts \<^const>\<open>dec\<close>; only proofs use it.\<close>

definition undec :: "string \<Rightarrow> nat" where
  "undec = foldl (\<lambda>a c. 10 * a + (of_char c - 48)) 0"

definition is_digit :: "char \<Rightarrow> bool" where
  "is_digit c \<longleftrightarrow> 48 \<le> (of_char c :: nat) \<and> (of_char c :: nat) \<le> 57"

lemma of_char_digit: "n < 10 \<Longrightarrow> of_char (digit n) = (48 + n :: nat)"
  by (simp add: digit_def)

lemma is_digit_digit: "n < 10 \<Longrightarrow> is_digit (digit n)"
  by (simp add: is_digit_def of_char_digit)

lemma undec_dec [simp]: "undec (dec n) = n"
proof (induction n rule: dec.induct)
  case (1 n)
  show ?case
  proof (cases "n < 10")
    case True
    then show ?thesis by (simp add: dec.simps [of n] undec_def of_char_digit)
  next
    case False
    have "n mod 10 < 10" by simp
    then have "undec (dec n) = 10 * undec (dec (n div 10)) + n mod 10"
      using False by (simp add: dec.simps [of n] undec_def of_char_digit)
    with 1 False show ?thesis by simp
  qed
qed

lemma dec_inj [simp]: "dec m = dec n \<longleftrightarrow> m = n"
  by (metis undec_dec)

lemma dec_digits: "c \<in> set (dec n) \<Longrightarrow> is_digit c"
proof (induction n rule: dec.induct)
  case (1 n)
  then show ?case
    by (auto simp: dec.simps [of n] is_digit_digit split: if_splits)
qed

lemma dec_not_Nil [simp]: "dec n \<noteq> []"
  by (subst dec.simps) simp

lemma colon_not_digit [simp]: "\<not> is_digit CHR '':''"
  and minus_not_digit [simp]: "\<not> is_digit CHR ''-''"
  and e_not_digit [simp]: "\<not> is_digit CHR ''e''"
  by (simp_all add: is_digit_def)

lemma str_int_inj [simp]: "str_int i = str_int j \<longleftrightarrow> i = j"
proof
  assume eq: "str_int i = str_int j"
  have no: "dec n \<noteq> CHR ''-'' # xs" for n xs
    using dec_digits [of "CHR ''-''" n] by force
  from eq show "i = j"
    by (auto simp: str_int_def no no [symmetric] split: if_splits)
qed simp

lemma str_int_chars: "c \<in> set (str_int i) \<Longrightarrow> is_digit c \<or> c = CHR ''-''"
  by (auto simp: str_int_def dec_digits split: if_splits)

section \<open>Lua numbers as strings\<close>

text \<open>
  Redis runs its scripts in Lua 5.1, whose only numbers are doubles and whose \<open>tostring\<close>
  formats them with \<open>%.14g\<close>: an integer below \<open>10\<^sup>1\<^sup>4\<close> is printed in full, a larger one in
  exponent notation with 14 significant digits (trailing zeros dropped). The model rounds the
  exact integer, as C does for every integer a double holds exactly (up to \<open>2\<^sup>5\<^sup>3\<close>).
\<close>

definition strip_zeros :: "string \<Rightarrow> string" where
  "strip_zeros s = rev (dropWhile (\<lambda>c. c = CHR ''0'') (rev s))"

definition round_half_even :: "nat \<Rightarrow> nat \<Rightarrow> nat" where
  "round_half_even n d =
     (let q = n div d; r = n mod d
      in if 2 * r < d then q
         else if 2 * r > d then q + 1
         else if even q then q else q + 1)"

definition lua_sci :: "nat \<Rightarrow> string" where
  "lua_sci n =
     (let e = length (dec n) - 1;
          m = round_half_even n (10 ^ (e - 13));
          (m, e) = (if m = 10 ^ 14 then (10 ^ 13, e + 1) else (m, e));
          ds = strip_zeros (dec m)
      in take 1 ds @ (if tl ds = [] then [] else CHR ''.'' # tl ds) @ ''e+'' @
         (if e < 10 then CHR ''0'' # dec e else dec e))"

definition lua_tostring :: "int \<Rightarrow> string" where
  "lua_tostring n =
     (if n < 0 then CHR ''-'' # (if - n < 10 ^ 14 then dec (nat (- n)) else lua_sci (nat (- n)))
      else if n < 10 ^ 14 then dec (nat n) else lua_sci (nat n))"

lemma lua_tostring_exact: "0 \<le> n \<Longrightarrow> n < 10 ^ 14 \<Longrightarrow> lua_tostring n = str_int n"
  by (simp add: lua_tostring_def str_int_def)

lemma lua_sci_has_e: "CHR ''e'' \<in> set (lua_sci n)"
  by (simp add: lua_sci_def Let_def split: prod.split)

lemma lua_sci_no_colon: "CHR '':'' \<notin> set (lua_sci n)"
proof -
  have ds: "CHR '':'' \<notin> set (dec m)" for m
    using dec_digits by fastforce
  have "set (strip_zeros s) \<subseteq> set s" for s
    unfolding strip_zeros_def by (metis set_dropWhileD set_rev subsetI)
  then have "CHR '':'' \<notin> set (strip_zeros (dec m))" for m
    using ds by blast
  then have "CHR '':'' \<notin> set (take 1 (strip_zeros (dec m)))"
    and "CHR '':'' \<notin> set (tl (strip_zeros (dec m)))" for m
    by (meson in_set_takeD) (metis list.set_sel(2) list.sel(2) \<open>\<And>m. CHR '':'' \<notin> set (strip_zeros (dec m))\<close>)
  then show ?thesis
    by (auto simp: lua_sci_def Let_def ds split: prod.split)
qed

lemma lua_tostring_no_colon: "CHR '':'' \<notin> set (lua_tostring n)"
  using lua_sci_no_colon dec_digits by (fastforce simp: lua_tostring_def split: if_splits)

lemma str_int_no_colon: "CHR '':'' \<notin> set (str_int n)"
  using str_int_chars [of "CHR '':''" n] by auto

text \<open>A number that Lua does not print in full is never mistaken for the decimal of another.\<close>

lemma lua_tostring_eq_str_int:
  assumes "lua_tostring n = str_int m"
  shows "n = m"
proof -
  have no_e: "CHR ''e'' \<notin> set (str_int m)"
    using str_int_chars [of "CHR ''e''" m] by auto
  show ?thesis
  proof (cases "\<bar>n\<bar> < 10 ^ 14")
    case True
    then have "lua_tostring n = str_int n"
      by (auto simp: lua_tostring_def str_int_def)
    with assms show ?thesis by simp
  next
    case False
    then have "CHR ''e'' \<in> set (lua_tostring n)"
      by (auto simp: lua_tostring_def lua_sci_has_e)
    with assms no_e show ?thesis by simp
  qed
qed

section \<open>Splitting a string\<close>

text \<open>Python's \<open>s.split(c)\<close> for a one-character separator.\<close>

fun split_on :: "char \<Rightarrow> string \<Rightarrow> string list" where
  "split_on c [] = [[]]"
| "split_on c (x # xs) =
     (if x = c then [] # split_on c xs
      else case split_on c xs of [] \<Rightarrow> [[x]] | w # ws \<Rightarrow> (x # w) # ws)"

lemma split_on_not_Nil [simp]: "split_on c s \<noteq> []"
  by (induction s) (auto split: list.splits)

lemma hd_split_on: "hd (split_on c s) = takeWhile (\<lambda>x. x \<noteq> c) s"
proof (induction s)
  case Nil
  show ?case by simp
next
  case (Cons x xs)
  then show ?case
    by (cases "split_on c xs") auto
qed

text \<open>
  Strings of the form \<open>prefix:suffix\<close> with no colon in the suffix determine both parts: the
  lease value \<open>worker_id:fence\<close> is one, whatever characters the worker id has.
\<close>

lemma colon_suffix_unique:
  assumes "u @ CHR '':'' # x = v @ CHR '':'' # y"
    and "CHR '':'' \<notin> set x" and "CHR '':'' \<notin> set y"
  shows "u = v \<and> x = y"
proof -
  from assms(1) obtain zs where
    "u = v @ zs \<and> zs @ CHR '':'' # x = CHR '':'' # y \<or>
     u @ zs = v \<and> CHR '':'' # x = zs @ CHR '':'' # y"
    by (auto simp: append_eq_append_conv2)
  then show ?thesis
    using assms(2,3) by (cases zs) auto
qed

section \<open>Sequences\<close>

text \<open>In a sequence that descends in a well-founded order there are finitely many descents.\<close>

lemma finite_descents:
  assumes "wf r" and "\<And>n. P n \<Longrightarrow> (f (Suc n), f n) \<in> r" and "\<And>n. \<not> P n \<Longrightarrow> f (Suc n) = f n"
  shows "finite {n :: nat. P n}"
  using assms
proof (induction "f 0" arbitrary: f P rule: wf_induct_rule [OF assms(1)])
  case 1
  show ?case
  proof (cases "\<exists>n. P n")
    case True
    define n where "n = (LEAST n. P n)"
    have n: "P n" "\<And>m. m < n \<Longrightarrow> \<not> P m" using True not_less_Least unfolding n_def by (blast intro: LeastI_ex)+
    have same: "m \<le> n \<Longrightarrow> f m = f 0" for m
    proof (induction m)
      case (Suc m)
      with n(2) [of m] 1(4) [of m] show ?case by simp
    qed simp
    have "(f (Suc n), f 0) \<in> r" using 1(3) [OF n(1)] same [OF order_refl] by simp
    then have "finite {m. P (Suc n + m)}"
      by (intro 1(1) [of "\<lambda>m. f (Suc n + m)"]) (use 1(2-4) in simp_all)
    moreover have "{m. P m} \<subseteq> {..n} \<union> (+) (Suc n) ` {m. P (Suc n + m)}"
    proof
      fix m assume "m \<in> {m. P m}"
      then show "m \<in> {..n} \<union> (+) (Suc n) ` {m. P (Suc n + m)}"
        by (cases "m \<le> n") (auto intro!: image_eqI [of _ _ "m - Suc n"])
    qed
    ultimately show ?thesis by (meson finite_UnI finite_atMost finite_imageI finite_subset)
  next
    case False
    then have "{n. P n} = {}" by blast
    then show ?thesis by (metis finite.emptyI)
  qed
qed

end
