(* ===== verification/Postgres_Service.thy ===== *)
theory Postgres_Service
  imports Core_Models
begin

text \<open>
  The tables of \<open>dtq/store/tables.py\<close> with their keys and constraints, and the interface to
  Postgres, which is not part of the repository: a record \<open>postgres\<close> of the statements that the
  repository issues over an arbitrary database state \<open>'d\<close>. Any statement may raise. The locale
  \<open>postgres_service\<close> says what a statement that does not raise did, through a view \<open>D\<close> of the
  database as one map per table, indexed by its key; \<open>postgres_up\<close> adds that statements do not
  raise unless a constraint is violated. The reference database keeps each table as a list of rows.
\<close>

section \<open>Rows\<close>

text \<open>
  A step of a workflow specification, as the dictionary that the engine reads: a key that may be
  absent is an option; the value of \<open>retry\<close> may be absent, \<open>None\<close> (the default of the request
  schema) or a dictionary with or without \<open>max_attempts\<close>.
\<close>

datatype retry_field = RetryAbsent | RetryNone | RetryDict "int option"

record wf_step =
  ws_name :: string
  ws_task :: string
  ws_payload :: "json option"
  ws_depends_on :: "string list option"
  ws_fan_out :: "string option"
  ws_retry :: retry_field

record task_row =
  tr_id :: uuid
  tr_queue :: string
  tr_task_name :: string
  tr_payload :: json
  tr_state :: task_state
  tr_priority :: int
  tr_attempt :: int
  tr_max_attempts :: int
  tr_dedup_key :: "string option"
  tr_run_at :: "timestamp option"
  tr_workflow_id :: "uuid option"
  tr_step_name :: "string option"
  tr_created_at :: timestamp
  tr_updated_at :: timestamp

record attempt_row =
  ar_task_id :: uuid
  ar_attempt_no :: int
  ar_worker_id :: string
  ar_fence :: int
  ar_started_at :: timestamp
  ar_finished_at :: "timestamp option"
  ar_outcome :: "string option"
  ar_error_type :: "string option"
  ar_error_repr :: "string option"

record effect_row =
  er_dedup_key :: string
  er_task_id :: uuid
  er_fence :: int
  er_result :: "json option"
  er_committed_at :: timestamp

record workflow_row =
  wr_id :: uuid
  wr_name :: string
  wr_spec :: "string \<times> wf_step list"
  wr_state :: string
  wr_created_at :: timestamp

record db =
  tasks :: "uuid \<Rightarrow> task_row option"
  attempts :: "uuid \<times> int \<Rightarrow> attempt_row option"
  effects :: "string \<Rightarrow> effect_row option"
  workflows :: "uuid \<Rightarrow> workflow_row option"

definition attempt_key :: "attempt_row \<Rightarrow> uuid \<times> int" where
  "attempt_key r = (ar_task_id r, ar_attempt_no r)"

section \<open>Constraints\<close>

text \<open>The ranges of the columns \<open>SmallInteger\<close>, \<open>Integer\<close> and \<open>BigInteger\<close>.\<close>

definition int2 :: "int \<Rightarrow> bool" where "int2 n \<longleftrightarrow> - (2 ^ 15) \<le> n \<and> n < 2 ^ 15"

definition int4 :: "int \<Rightarrow> bool" where "int4 n \<longleftrightarrow> - (2 ^ 31) \<le> n \<and> n < 2 ^ 31"

definition int8 :: "int \<Rightarrow> bool" where "int8 n \<longleftrightarrow> - (2 ^ 63) \<le> n \<and> n < 2 ^ 63"

definition task_cols_ok :: "task_row \<Rightarrow> bool" where
  "task_cols_ok r \<longleftrightarrow> int2 (tr_priority r) \<and> int4 (tr_attempt r) \<and> int4 (tr_max_attempts r)"

text \<open>The partial unique index on \<open>(queue, dedup_key) WHERE dedup_key IS NOT NULL\<close>.\<close>

definition dedup_clash :: "task_row \<Rightarrow> task_row \<Rightarrow> bool" where
  "dedup_clash r r' \<longleftrightarrow>
     tr_dedup_key r \<noteq> None \<and> tr_queue r' = tr_queue r \<and> tr_dedup_key r' = tr_dedup_key r"

definition task_ok :: "db \<Rightarrow> task_row \<Rightarrow> bool" where
  "task_ok b r \<longleftrightarrow> task_cols_ok r \<and> tasks b (tr_id r) = None \<and>
     (\<forall>r' \<in> ran (tasks b). \<not> dedup_clash r r') \<and>
     (case tr_workflow_id r of None \<Rightarrow> True | Some w \<Rightarrow> workflows b w \<noteq> None)"

definition attempt_ok :: "db \<Rightarrow> attempt_row \<Rightarrow> bool" where
  "attempt_ok b r \<longleftrightarrow> int4 (ar_attempt_no r) \<and> int8 (ar_fence r) \<and>
     tasks b (ar_task_id r) \<noteq> None \<and> attempts b (attempt_key r) = None"

definition effect_ok :: "db \<Rightarrow> effect_row \<Rightarrow> bool" where
  "effect_ok b r \<longleftrightarrow> int8 (er_fence r) \<and> effects b (er_dedup_key r) = None"

definition workflow_ok :: "db \<Rightarrow> workflow_row \<Rightarrow> bool" where
  "workflow_ok b r \<longleftrightarrow> workflows b (wr_id r) = None"

section \<open>The service\<close>

text \<open>
  \<open>pg_commit d d'\<close> ends a transaction that started on \<open>d\<close> and has reached \<open>d'\<close>. When it raises (the
  connection is lost), the server may or may not have committed.
\<close>

record 'd postgres =
  sel_tasks :: "(task_row \<Rightarrow> bool) \<Rightarrow> 'd \<Rightarrow> exn + task_row list"
  ins_task :: "task_row \<Rightarrow> 'd \<Rightarrow> exn + 'd"
  upd_tasks :: "(task_row \<Rightarrow> bool) \<Rightarrow> (task_row \<Rightarrow> task_row) \<Rightarrow> 'd \<Rightarrow> exn + nat \<times> 'd"
  sel_attempts :: "(attempt_row \<Rightarrow> bool) \<Rightarrow> 'd \<Rightarrow> exn + attempt_row list"
  ins_attempt :: "attempt_row \<Rightarrow> 'd \<Rightarrow> exn + 'd"
  upd_attempts :: "(attempt_row \<Rightarrow> bool) \<Rightarrow> (attempt_row \<Rightarrow> attempt_row) \<Rightarrow> 'd \<Rightarrow> exn + nat \<times> 'd"
  sel_effects :: "(effect_row \<Rightarrow> bool) \<Rightarrow> 'd \<Rightarrow> exn + effect_row list"
  ins_effect :: "effect_row \<Rightarrow> 'd \<Rightarrow> exn + 'd"
  sel_workflows :: "(workflow_row \<Rightarrow> bool) \<Rightarrow> 'd \<Rightarrow> exn + workflow_row list"
  ins_workflow :: "workflow_row \<Rightarrow> 'd \<Rightarrow> exn + 'd"
  upd_workflows :: "(workflow_row \<Rightarrow> bool) \<Rightarrow> (workflow_row \<Rightarrow> workflow_row) \<Rightarrow> 'd \<Rightarrow> exn + nat \<times> 'd"
  pg_commit :: "'d \<Rightarrow> 'd \<Rightarrow> (exn + unit) \<times> 'd"

definition upd_map :: "('r \<Rightarrow> bool) \<Rightarrow> ('r \<Rightarrow> 'r) \<Rightarrow> ('k \<Rightarrow> 'r option) \<Rightarrow> 'k \<Rightarrow> 'r option" where
  "upd_map p f m = (\<lambda>k. map_option (\<lambda>r. if p r then f r else r) (m k))"

definition hits :: "('r \<Rightarrow> bool) \<Rightarrow> ('k \<Rightarrow> 'r option) \<Rightarrow> 'k set" where
  "hits p m = {k. \<exists>r. m k = Some r \<and> p r}"

locale postgres_service =
  fixes P :: "'d postgres" and D :: "'d \<Rightarrow> db"
  assumes keyed: "tasks (D d) i = Some t \<Longrightarrow> tr_id t = i"
      "attempts (D d) j = Some a \<Longrightarrow> attempt_key a = j"
      "effects (D d) k = Some e \<Longrightarrow> er_dedup_key e = k"
      "workflows (D d) w = Some x \<Longrightarrow> wr_id x = w"
    and finite_tasks: "finite (dom (tasks (D d)))"
    and sel_tasks: "sel_tasks P p d = Inr ts \<Longrightarrow>
      distinct (map tr_id ts) \<and> set ts = {r \<in> ran (tasks (D d)). p r}"
    and ins_task: "ins_task P t d = Inr d' \<Longrightarrow>
      task_ok (D d) t \<and> D d' = (D d)\<lparr>tasks := (tasks (D d))(tr_id t \<mapsto> t)\<rparr>"
    and upd_tasks: "upd_tasks P p f d = Inr (n, d') \<Longrightarrow> (\<And>r. tr_id (f r) = tr_id r) \<Longrightarrow>
      D d' = (D d)\<lparr>tasks := upd_map p f (tasks (D d))\<rparr> \<and> n = card (hits p (tasks (D d)))"
    and sel_attempts: "sel_attempts P pa d = Inr as \<Longrightarrow>
      distinct (map attempt_key as) \<and> set as = {r \<in> ran (attempts (D d)). pa r}"
    and ins_attempt: "ins_attempt P a d = Inr d' \<Longrightarrow>
      attempt_ok (D d) a \<and> D d' = (D d)\<lparr>attempts := (attempts (D d))(attempt_key a \<mapsto> a)\<rparr>"
    and upd_attempts: "upd_attempts P pa fa d = Inr (n, d') \<Longrightarrow>
      (\<And>r. attempt_key (fa r) = attempt_key r) \<Longrightarrow>
      D d' = (D d)\<lparr>attempts := upd_map pa fa (attempts (D d))\<rparr>"
    and sel_effects: "sel_effects P pe d = Inr es \<Longrightarrow>
      distinct (map er_dedup_key es) \<and> set es = {r \<in> ran (effects (D d)). pe r}"
    and ins_effect: "ins_effect P e d = Inr d' \<Longrightarrow>
      effect_ok (D d) e \<and> D d' = (D d)\<lparr>effects := (effects (D d))(er_dedup_key e \<mapsto> e)\<rparr>"
    and sel_workflows: "sel_workflows P pw d = Inr ws \<Longrightarrow>
      distinct (map wr_id ws) \<and> set ws = {r \<in> ran (workflows (D d)). pw r}"
    and ins_workflow: "ins_workflow P x d = Inr d' \<Longrightarrow>
      workflow_ok (D d) x \<and> D d' = (D d)\<lparr>workflows := (workflows (D d))(wr_id x \<mapsto> x)\<rparr>"
    and upd_workflows: "upd_workflows P pw fw d = Inr (n, d') \<Longrightarrow> (\<And>r. wr_id (fw r) = wr_id r) \<Longrightarrow>
      D d' = (D d)\<lparr>workflows := upd_map pw fw (workflows (D d))\<rparr>"
    and commit_ok: "pg_commit P d d' = (Inr u, d'') \<Longrightarrow> D d'' = D d'"
    and commit_raised: "pg_commit P d d' = (Inl ex, d'') \<Longrightarrow> D d'' = D d \<or> D d'' = D d'"

locale postgres_up = postgres_service +
  assumes sel_up: "\<exists>ts. sel_tasks P p d = Inr ts" "\<exists>as. sel_attempts P pa d = Inr as"
      "\<exists>es. sel_effects P pe d = Inr es" "\<exists>ws. sel_workflows P pw d = Inr ws"
    and ins_task_up: "task_ok (D d) t \<Longrightarrow> \<exists>d'. ins_task P t d = Inr d'"
    and ins_attempt_up: "attempt_ok (D d) a \<Longrightarrow> \<exists>d'. ins_attempt P a d = Inr d'"
    and ins_effect_up: "effect_ok (D d) e \<Longrightarrow> \<exists>d'. ins_effect P e d = Inr d'"
    and ins_workflow_up: "workflow_ok (D d) x \<Longrightarrow> \<exists>d'. ins_workflow P x d = Inr d'"
    and upd_tasks_up: "(\<And>r. r \<in> ran (tasks (D d)) \<Longrightarrow> p r \<Longrightarrow> task_cols_ok (f r)) \<Longrightarrow>
      \<exists>n d'. upd_tasks P p f d = Inr (n, d')"
    and upd_attempts_up: "(\<And>r. ar_attempt_no (fa r) = ar_attempt_no r \<and> ar_fence (fa r) = ar_fence r) \<Longrightarrow>
      \<exists>n d'. upd_attempts P pa fa d = Inr (n, d')"
    and upd_workflows_up: "\<exists>n d'. upd_workflows P pw fw d = Inr (n, d')"
    and commit_up: "fst (pg_commit P d d') = Inr ()"

section \<open>The reference database\<close>

text \<open>The first row of each key, and a table as a map.\<close>

fun first_by :: "('r \<Rightarrow> 'k) \<Rightarrow> 'r list \<Rightarrow> 'r list" where
  "first_by f [] = []"
| "first_by f (x # xs) = x # filter (\<lambda>y. f y \<noteq> f x) (first_by f xs)"

definition indexed :: "('r \<Rightarrow> 'k) \<Rightarrow> 'r list \<Rightarrow> 'k \<Rightarrow> 'r option" where
  "indexed f xs = map_of (map (\<lambda>r. (f r, r)) xs)"

lemma indexed_key: "indexed f xs k = Some r \<Longrightarrow> f r = k"
  by (auto simp: indexed_def dest!: map_of_SomeD)

lemma indexed_Nil [simp]: "indexed f [] = (\<lambda>_. None)"
  by (simp add: indexed_def)

lemma indexed_Cons: "indexed f (x # xs) = (indexed f xs)(f x \<mapsto> x)"
  by (simp add: indexed_def)

lemma indexed_None: "indexed f xs k = None \<longleftrightarrow> k \<notin> f ` set xs"
  by (simp add: indexed_def map_of_eq_None_iff image_image)

lemma finite_indexed: "finite (dom (indexed f xs))"
  by (simp add: indexed_def finite_dom_map_of)

lemma set_first_by: "set (first_by f xs) = ran (indexed f xs)"
proof (induction xs)
  case Nil
  show ?case by (simp add: ran_def)
next
  case (Cons x xs)
  have "ran ((indexed f xs)(f x \<mapsto> x)) = insert x {r \<in> ran (indexed f xs). f r \<noteq> f x}"
    by (auto simp: ran_def dest: indexed_key)
  then show ?case using Cons by (simp only: indexed_Cons first_by.simps set_simps set_filter)
qed

lemma distinct_first_by: "distinct (map f (first_by f xs))"
  by (induction xs) (auto simp: distinct_map inj_on_def)

lemma indexed_append:
  "f r \<notin> f ` set xs \<Longrightarrow> indexed f (xs @ [r]) = (indexed f xs)(f r \<mapsto> r)"
  by (induction xs) (auto simp: indexed_Cons fun_upd_twist)

lemma indexed_map:
  assumes "\<And>r. f (g r) = f r"
  shows "indexed f (map g xs) = (\<lambda>k. map_option g (indexed f xs k))"
  by (induction xs) (auto simp: indexed_Cons assms)

record ref_db =
  rd_tasks :: "task_row list"
  rd_attempts :: "attempt_row list"
  rd_effects :: "effect_row list"
  rd_workflows :: "workflow_row list"

definition ref_view :: "ref_db \<Rightarrow> db" where
  "ref_view d = \<lparr>tasks = indexed tr_id (rd_tasks d), attempts = indexed attempt_key (rd_attempts d),
     effects = indexed er_dedup_key (rd_effects d), workflows = indexed wr_id (rd_workflows d)\<rparr>"

definition sql_update :: "('r \<Rightarrow> bool) \<Rightarrow> ('r \<Rightarrow> 'r) \<Rightarrow> 'r list \<Rightarrow> 'r list" where
  "sql_update p f xs = map (\<lambda>r. if p r then f r else r) xs"

definition ref_task_ok :: "ref_db \<Rightarrow> task_row \<Rightarrow> bool" where
  "ref_task_ok d r \<longleftrightarrow> task_cols_ok r \<and> tr_id r \<notin> set (map tr_id (rd_tasks d)) \<and>
     list_all (\<lambda>r'. \<not> dedup_clash r r') (first_by tr_id (rd_tasks d)) \<and>
     (case tr_workflow_id r of None \<Rightarrow> True | Some w \<Rightarrow> w \<in> set (map wr_id (rd_workflows d)))"

definition ref_attempt_ok :: "ref_db \<Rightarrow> attempt_row \<Rightarrow> bool" where
  "ref_attempt_ok d r \<longleftrightarrow> int4 (ar_attempt_no r) \<and> int8 (ar_fence r) \<and>
     ar_task_id r \<in> set (map tr_id (rd_tasks d)) \<and>
     attempt_key r \<notin> set (map attempt_key (rd_attempts d))"

definition ref_effect_ok :: "ref_db \<Rightarrow> effect_row \<Rightarrow> bool" where
  "ref_effect_ok d r \<longleftrightarrow> int8 (er_fence r) \<and> er_dedup_key r \<notin> set (map er_dedup_key (rd_effects d))"

definition ref_postgres :: "ref_db postgres" where
  "ref_postgres = \<lparr>
     sel_tasks = (\<lambda>p d. Inr (filter p (first_by tr_id (rd_tasks d)))),
     ins_task = (\<lambda>r d. if ref_task_ok d r then Inr (d\<lparr>rd_tasks := rd_tasks d @ [r]\<rparr>)
                       else Inl (IntegrityError ''tasks'')),
     upd_tasks = (\<lambda>p f d. Inr (length (filter p (first_by tr_id (rd_tasks d))),
                       d\<lparr>rd_tasks := sql_update p f (rd_tasks d)\<rparr>)),
     sel_attempts = (\<lambda>p d. Inr (filter p (first_by attempt_key (rd_attempts d)))),
     ins_attempt = (\<lambda>r d. if ref_attempt_ok d r then Inr (d\<lparr>rd_attempts := rd_attempts d @ [r]\<rparr>)
                       else Inl (IntegrityError ''attempts'')),
     upd_attempts = (\<lambda>p f d. Inr (length (filter p (first_by attempt_key (rd_attempts d))),
                       d\<lparr>rd_attempts := sql_update p f (rd_attempts d)\<rparr>)),
     sel_effects = (\<lambda>p d. Inr (filter p (first_by er_dedup_key (rd_effects d)))),
     ins_effect = (\<lambda>r d. if ref_effect_ok d r then Inr (d\<lparr>rd_effects := rd_effects d @ [r]\<rparr>)
                       else Inl (IntegrityError ''effects'')),
     sel_workflows = (\<lambda>p d. Inr (filter p (first_by wr_id (rd_workflows d)))),
     ins_workflow = (\<lambda>r d. if wr_id r \<notin> set (map wr_id (rd_workflows d))
                       then Inr (d\<lparr>rd_workflows := rd_workflows d @ [r]\<rparr>)
                       else Inl (IntegrityError ''workflows'')),
     upd_workflows = (\<lambda>p f d. Inr (length (filter p (first_by wr_id (rd_workflows d))),
                       d\<lparr>rd_workflows := sql_update p f (rd_workflows d)\<rparr>)),
     pg_commit = (\<lambda>d d'. (Inr (), d'))\<rparr>"

definition empty_ref_db :: ref_db where
  "empty_ref_db = \<lparr>rd_tasks = [], rd_attempts = [], rd_effects = [], rd_workflows = []\<rparr>"

lemma ref_pg_run:
  "sel_tasks ref_postgres p d = Inr (filter p (first_by tr_id (rd_tasks d)))"
  "ins_task ref_postgres t d = (if ref_task_ok d t then Inr (d\<lparr>rd_tasks := rd_tasks d @ [t]\<rparr>)
     else Inl (IntegrityError ''tasks''))"
  "upd_tasks ref_postgres p f d = Inr (length (filter p (first_by tr_id (rd_tasks d))),
     d\<lparr>rd_tasks := sql_update p f (rd_tasks d)\<rparr>)"
  "sel_attempts ref_postgres pa d = Inr (filter pa (first_by attempt_key (rd_attempts d)))"
  "ins_attempt ref_postgres a d = (if ref_attempt_ok d a then Inr (d\<lparr>rd_attempts := rd_attempts d @ [a]\<rparr>)
     else Inl (IntegrityError ''attempts''))"
  "upd_attempts ref_postgres pa fa d = Inr (length (filter pa (first_by attempt_key (rd_attempts d))),
     d\<lparr>rd_attempts := sql_update pa fa (rd_attempts d)\<rparr>)"
  "sel_effects ref_postgres pe d = Inr (filter pe (first_by er_dedup_key (rd_effects d)))"
  "ins_effect ref_postgres e d = (if ref_effect_ok d e then Inr (d\<lparr>rd_effects := rd_effects d @ [e]\<rparr>)
     else Inl (IntegrityError ''effects''))"
  "sel_workflows ref_postgres pw d = Inr (filter pw (first_by wr_id (rd_workflows d)))"
  "ins_workflow ref_postgres w d = (if wr_id w \<notin> set (map wr_id (rd_workflows d))
     then Inr (d\<lparr>rd_workflows := rd_workflows d @ [w]\<rparr>) else Inl (IntegrityError ''workflows''))"
  "upd_workflows ref_postgres pw fw d = Inr (length (filter pw (first_by wr_id (rd_workflows d))),
     d\<lparr>rd_workflows := sql_update pw fw (rd_workflows d)\<rparr>)"
  "pg_commit ref_postgres d d' = (Inr (), d')"
  by (simp_all add: ref_postgres_def)

lemma ref_ok:
  "task_ok (ref_view d) t \<longleftrightarrow> ref_task_ok d t"
  "attempt_ok (ref_view d) a \<longleftrightarrow> ref_attempt_ok d a"
  "effect_ok (ref_view d) e \<longleftrightarrow> ref_effect_ok d e"
  "workflow_ok (ref_view d) w \<longleftrightarrow> wr_id w \<notin> set (map wr_id (rd_workflows d))"
  by (auto simp: task_ok_def ref_task_ok_def attempt_ok_def ref_attempt_ok_def effect_ok_def
      ref_effect_ok_def workflow_ok_def ref_view_def indexed_None list_all_iff set_first_by
      split: option.splits)

lemma indexed_sql_update:
  assumes "\<And>r. key (f r) = key r"
  shows "indexed key (sql_update p f xs) = upd_map p f (indexed key xs)"
  by (simp add: sql_update_def upd_map_def indexed_map assms)

lemma card_hits: "length (filter p (first_by f xs)) = card (hits p (indexed f xs))"
proof -
  have "hits p (indexed f xs) = f ` set (filter p (first_by f xs))"
    by (auto simp: hits_def set_first_by ran_def dest: indexed_key)
  moreover have "distinct (map f (filter p (first_by f xs)))"
    by (simp add: distinct_first_by distinct_map_filter)
  ultimately show ?thesis by (metis distinct_card length_map set_map)
qed

lemma ref_view_tables:
  "tasks (ref_view d) = indexed tr_id (rd_tasks d)"
  "attempts (ref_view d) = indexed attempt_key (rd_attempts d)"
  "effects (ref_view d) = indexed er_dedup_key (rd_effects d)"
  "workflows (ref_view d) = indexed wr_id (rd_workflows d)"
  by (simp_all add: ref_view_def)

lemma ref_view_update:
  "ref_view (d\<lparr>rd_tasks := ts\<rparr>) = (ref_view d)\<lparr>tasks := indexed tr_id ts\<rparr>"
  "ref_view (d\<lparr>rd_attempts := as\<rparr>) = (ref_view d)\<lparr>attempts := indexed attempt_key as\<rparr>"
  "ref_view (d\<lparr>rd_effects := es\<rparr>) = (ref_view d)\<lparr>effects := indexed er_dedup_key es\<rparr>"
  "ref_view (d\<lparr>rd_workflows := ws\<rparr>) = (ref_view d)\<lparr>workflows := indexed wr_id ws\<rparr>"
  by (simp_all add: ref_view_def)

lemma ref_ok_fresh:
  "ref_task_ok d t \<Longrightarrow> tr_id t \<notin> tr_id ` set (rd_tasks d)"
  "ref_attempt_ok d a \<Longrightarrow> attempt_key a \<notin> attempt_key ` set (rd_attempts d)"
  "ref_effect_ok d e \<Longrightarrow> er_dedup_key e \<notin> er_dedup_key ` set (rd_effects d)"
  by (simp_all add: ref_task_ok_def ref_attempt_ok_def ref_effect_ok_def)

interpretation refpg: postgres_up ref_postgres ref_view
  by unfold_locales (auto simp: ref_postgres_def ref_ok ref_view_tables ref_view_update indexed_append
      indexed_sql_update card_hits set_first_by distinct_first_by distinct_map_filter finite_indexed
      ref_ok_fresh dest: indexed_key split: if_splits)

lemma ref_postgres_service [simp]: "postgres_service ref_postgres ref_view"
  by (rule refpg.postgres_service_axioms)

lemma ref_postgres_up [simp]: "postgres_up ref_postgres ref_view"
  by (rule refpg.postgres_up_axioms)

end
