(* ===== verification/Dag.thy ===== *)
theory Dag
  imports Postgres_Service
begin

text \<open>
  \<open>dtq/workflow/dag.py\<close>: \<open>validate_dag\<close>, Kahn's algorithm on the dependencies of a workflow, and
  \<open>get_ready_steps\<close>. The loop has fuel, one unit per node, which is shown to be enough. Python
  iterates over a set of strings in an order that it does not specify: the order is the argument
  \<open>iter\<close>, and \<open>show_set\<close> prints a set in an error message.
\<close>

section \<open>Building the graph\<close>

definition deps_of :: "wf_step \<Rightarrow> string list" where
  "deps_of step = (case ws_depends_on step of None \<Rightarrow> [] | Some ds \<Rightarrow> ds)"

record dag_state =
  graph :: "string \<Rightarrow> string list"
  in_degree :: "string \<Rightarrow> int option"
  all_names :: "string list"

definition get_or :: "'a \<Rightarrow> 'a option \<Rightarrow> 'a" where
  "get_or x v = (case v of None \<Rightarrow> x | Some y \<Rightarrow> y)"

definition setdefault :: "string \<Rightarrow> int \<Rightarrow> (string \<Rightarrow> int option) \<Rightarrow> string \<Rightarrow> int option" where
  "setdefault k v m = (if m k = None then m(k \<mapsto> v) else m)"

definition add_dep :: "string \<Rightarrow> string \<Rightarrow> dag_state \<Rightarrow> dag_state" where
  "add_dep name dep g =
     \<lparr>graph = (graph g)(dep := graph g dep @ [name]),
      in_degree = setdefault dep 0 ((in_degree g)(name \<mapsto> get_or 0 (in_degree g name) + 1)),
      all_names = List.insert dep (all_names g)\<rparr>"

definition add_step :: "wf_step \<Rightarrow> dag_state \<Rightarrow> dag_state" where
  "add_step step g =
     (let name = ws_name step;
          g1 = g\<lparr>all_names := List.insert name (all_names g), in_degree := setdefault name 0 (in_degree g)\<rparr>
      in fold (add_dep name) (deps_of step) g1)"

definition build :: "wf_step list \<Rightarrow> dag_state" where
  "build steps = fold add_step steps \<lparr>graph = (\<lambda>_. []), in_degree = (\<lambda>_. None), all_names = []\<rparr>"

text \<open>The first dependency on an unknown step.\<close>

fun unknown_dep :: "string list \<Rightarrow> wf_step list \<Rightarrow> (string \<times> string) option" where
  "unknown_dep step_names [] = None"
| "unknown_dep step_names (step # steps) =
     (case filter (\<lambda>d. d \<notin> set step_names) (deps_of step) of
        [] \<Rightarrow> unknown_dep step_names steps
      | d # _ \<Rightarrow> Some (ws_name step, d))"

section \<open>Kahn's algorithm\<close>

fun relax :: "string list \<Rightarrow> (string \<Rightarrow> int option) \<Rightarrow> string list \<Rightarrow> (string \<Rightarrow> int option) \<times> string list" where
  "relax [] deg queue = (deg, queue)"
| "relax (neighbor # ns) deg queue =
     (let n = get_or 0 (deg neighbor) - 1;
          deg1 = deg(neighbor \<mapsto> n)
      in relax ns deg1 (if n = 0 then queue @ [neighbor] else queue))"

fun kahn_loop ::
  "nat \<Rightarrow> (string \<Rightarrow> string list) \<Rightarrow> (string \<Rightarrow> int option) \<Rightarrow> string list \<Rightarrow> string list \<Rightarrow> string list option" where
  "kahn_loop fuel gr deg [] topo = Some topo"
| "kahn_loop 0 gr deg (node # queue) topo = None"
| "kahn_loop (Suc fuel) gr deg (node # queue) topo =
     (let (deg1, queue1) = relax (gr node) deg queue
      in kahn_loop fuel gr deg1 queue1 (topo @ [node]))"

definition validate_dag ::
  "(string list \<Rightarrow> string list) \<Rightarrow> (string list \<Rightarrow> string) \<Rightarrow> wf_step list \<Rightarrow> (exn + string list) option" where
  "validate_dag iter show_set steps =
     (let g = build steps
      in case unknown_dep (map ws_name steps) steps of
           Some (name, dep) \<Rightarrow>
             Some (Inl (Dtq WorkflowCycleError (''Step '' @ [CHR 0x27] @ name @ [CHR 0x27] @
               '' depends on unknown step '' @ [CHR 0x27] @ dep @ [CHR 0x27])))
         | None \<Rightarrow>
             let queue = filter (\<lambda>name. get_or 0 (in_degree g name) = 0) (iter (all_names g))
             in map_option (\<lambda>topo_order.
                  if length topo_order \<noteq> length (all_names g)
                  then Inl (Dtq WorkflowCycleError
                    (''Workflow DAG contains a cycle involving steps: '' @
                     show_set (filter (\<lambda>n. n \<notin> set topo_order) (all_names g))))
                  else Inr topo_order)
                (kahn_loop (length (all_names g)) (graph g) (in_degree g) queue []))"

definition get_ready_steps :: "wf_step list \<Rightarrow> string set \<Rightarrow> wf_step list" where
  "get_ready_steps steps completed_steps =
     filter (\<lambda>step. ws_name step \<notin> completed_steps \<and> list_all (\<lambda>d. d \<in> completed_steps) (deps_of step)) steps"

section \<open>Edges\<close>

definition edges_of :: "wf_step list \<Rightarrow> (string \<times> string) list" where
  "edges_of steps = concat (map (\<lambda>step. map (\<lambda>d. (d, ws_name step)) (deps_of step)) steps)"

definition iter_ok :: "(string list \<Rightarrow> string list) \<Rightarrow> bool" where
  "iter_ok iter \<longleftrightarrow> (\<forall>xs. distinct xs \<longrightarrow> distinct (iter xs) \<and> set (iter xs) = set xs)"

text \<open>What the building loop has computed after the edges \<open>es\<close> and the names \<open>ns\<close>.\<close>

definition built :: "(string \<times> string) list \<Rightarrow> string set \<Rightarrow> dag_state \<Rightarrow> bool" where
  "built es ns g \<longleftrightarrow>
     (\<forall>x. graph g x = map snd (filter (\<lambda>(d, n). d = x) es)) \<and>
     (\<forall>x. in_degree g x = (if x \<in> ns then Some (int (length (filter (\<lambda>(d, n). n = x) es))) else None)) \<and>
     distinct (all_names g) \<and> set (all_names g) = ns \<and> set es \<subseteq> ns \<times> ns"

lemma built_add_dep:
  assumes "built es ns g" and "name \<in> ns"
  shows "built (es @ [(dep, name)]) (insert dep ns) (add_dep name dep g)"
proof -
  have "filter (\<lambda>(d, n). n = dep) es = []" if "dep \<notin> ns"
    using assms(1) that by (auto simp: built_def filter_empty_conv)
  then show ?thesis
    using assms by (auto simp: built_def add_dep_def setdefault_def get_or_def)
qed

lemma built_add_deps:
  assumes "built es ns g" and "name \<in> ns"
  shows "built (es @ map (\<lambda>d. (d, name)) ds) (ns \<union> set ds) (fold (add_dep name) ds g)"
  using assms
proof (induction ds arbitrary: es ns g)
  case (Cons d ds)
  from Cons.IH [OF built_add_dep [OF Cons.prems, of d]] Cons.prems(2) show ?case by simp
qed simp

lemma built_add_step:
  assumes "built es ns g"
  shows "built (es @ edges_of [step]) (insert (ws_name step) ns \<union> set (deps_of step)) (add_step step g)"
proof -
  have "filter (\<lambda>(d, n). n = ws_name step) es = []" if "ws_name step \<notin> ns"
    using assms that by (auto simp: built_def filter_empty_conv)
  then have "built es (insert (ws_name step) ns) (g\<lparr>all_names := List.insert (ws_name step) (all_names g),
      in_degree := setdefault (ws_name step) 0 (in_degree g)\<rparr>)"
    using assms by (auto simp: built_def setdefault_def)
  from built_add_deps [OF this, of "ws_name step" "deps_of step"] show ?thesis
    by (simp add: add_step_def edges_of_def Let_def)
qed

definition names_of :: "wf_step list \<Rightarrow> string set" where
  "names_of steps = set (map ws_name steps) \<union> (\<Union>s \<in> set steps. set (deps_of s))"

lemma built_fold:
  assumes "built es ns g"
  shows "built (es @ edges_of steps) (ns \<union> names_of steps) (fold add_step steps g)"
  using assms
proof (induction steps arbitrary: es ns g)
  case Nil
  then show ?case by (simp add: edges_of_def names_of_def)
next
  case (Cons s steps)
  have "(es @ edges_of [s]) @ edges_of steps = es @ edges_of (s # steps)"
    "insert (ws_name s) ns \<union> set (deps_of s) \<union> names_of steps = ns \<union> names_of (s # steps)"
    by (auto simp: edges_of_def names_of_def)
  with Cons.IH [OF built_add_step [OF Cons.prems, of s]] show ?case by simp
qed

lemma built_build: "built (edges_of steps) (names_of steps) (build steps)"
  using built_fold [of "[]" "{}" "\<lparr>graph = (\<lambda>_. []), in_degree = (\<lambda>_. None), all_names = []\<rparr>" steps]
  by (simp add: built_def build_def)

lemma unknown_dep_None:
  "unknown_dep ns steps = None \<longleftrightarrow> (\<forall>s \<in> set steps. set (deps_of s) \<subseteq> set ns)"
  by (induction steps) (auto simp: filter_empty_conv split: list.splits dest: filter_eq_ConsD)

section \<open>Correctness of the loop\<close>

lemma relax_spec:
  assumes "\<And>m. m \<in> set nbs \<Longrightarrow> \<exists>k. deg m = Some k \<and> int (count_list nbs m) \<le> k"
  shows "\<exists>deg' rs. relax nbs deg queue = (deg', queue @ rs) \<and>
     (\<forall>m. deg' m = (if m \<in> set nbs then Some (the (deg m) - int (count_list nbs m)) else deg m)) \<and>
     distinct rs \<and> set rs = {m \<in> set nbs. deg m = Some (int (count_list nbs m))}"
  using assms
proof (induction nbs arbitrary: deg queue)
  case Nil
  then show ?case by simp
next
  case (Cons b nbs)
  obtain k where k: "deg b = Some k" "int (count_list nbs b) + 1 \<le> k"
    using Cons.prems [of b] by auto
  let ?deg = "deg(b \<mapsto> k - 1)" and ?q = "if k - 1 = 0 then queue @ [b] else queue"
  have "\<exists>k. ?deg m = Some k \<and> int (count_list nbs m) \<le> k" if "m \<in> set nbs" for m
    using Cons.prems [of m] k that by auto
  from Cons.IH [OF this, of ?q] obtain deg' rs where
    ih: "relax nbs ?deg ?q = (deg', ?q @ rs)"
      "\<And>m. deg' m = (if m \<in> set nbs then Some (the (?deg m) - int (count_list nbs m)) else ?deg m)"
      "distinct rs" "set rs = {m \<in> set nbs. ?deg m = Some (int (count_list nbs m))}"
    by blast
  have eq: "relax (b # nbs) deg queue = (deg', ?q @ rs)"
    using ih(1) k by (simp add: get_or_def)
  have deg': "deg' m = (if m \<in> set (b # nbs) then Some (the (deg m) - int (count_list (b # nbs) m)) else deg m)" for m
    using ih(2) [of m] k by (auto simp: count_notin)
  have cnt: "count_list nbs b = 0 \<longleftrightarrow> b \<notin> set nbs" by (simp add: count_list_0_iff)
  show ?case
  proof (cases "k = 1")
    case True
    then have "b \<notin> set nbs" using k(2) cnt by simp
    then have "distinct (b # rs)" "set (b # rs) = {m \<in> set (b # nbs). deg m = Some (int (count_list (b # nbs) m))}"
      using ih(3,4) k True by (auto simp: count_notin)
    moreover have "relax (b # nbs) deg queue = (deg', queue @ (b # rs))" using eq True by simp
    ultimately show ?thesis using deg' by blast
  next
    case False
    have "m \<in> set rs \<longleftrightarrow> m \<in> set (b # nbs) \<and> deg m = Some (int (count_list (b # nbs) m))" for m
      using ih(4) k cnt False by (cases "m = b"; cases "b \<in> set nbs") (simp_all add: algebra_simps)
    then have "set rs = {m \<in> set (b # nbs). deg m = Some (int (count_list (b # nbs) m))}" by blast
    moreover have "relax (b # nbs) deg queue = (deg', queue @ rs)" using eq False by simp
    ultimately show ?thesis using deg' ih(3) by blast
  qed
qed

locale dag_edges =
  fixes es :: "(string \<times> string) list" and ns :: "string set"
  assumes closed: "set es \<subseteq> ns \<times> ns" and finite_ns: "finite ns"
begin

definition pend :: "string list \<Rightarrow> string \<Rightarrow> nat" where
  "pend topo m = length (filter (\<lambda>(d, n). n = m \<and> d \<notin> set topo) es)"

definition succs :: "string \<Rightarrow> string list" where
  "succs x = map snd (filter (\<lambda>(d, n). d = x) es)"

definition topo_ok :: "string list \<Rightarrow> bool" where
  "topo_ok topo \<longleftrightarrow> (\<forall>xs n ys d. topo = xs @ n # ys \<longrightarrow> (d, n) \<in> set es \<longrightarrow> d \<in> set xs)"

definition kinv :: "(string \<Rightarrow> int option) \<Rightarrow> string list \<Rightarrow> string list \<Rightarrow> bool" where
  "kinv deg queue topo \<longleftrightarrow> distinct (topo @ queue) \<and> set (topo @ queue) = {n \<in> ns. pend topo n = 0} \<and>
     (\<forall>n \<in> ns. deg n = Some (int (pend topo n))) \<and> topo_ok topo"

lemma pend_snoc:
  assumes "x \<notin> set topo"
  shows "pend topo m = pend (topo @ [x]) m + count_list (succs x) m"
proof -
  have "count_list (map snd (filter (\<lambda>(d, n). d = x) l)) m + length (filter (\<lambda>(d, n). n = m \<and> d \<notin> set (topo @ [x])) l)
      = length (filter (\<lambda>(d, n). n = m \<and> d \<notin> set topo) l)" for l
    using assms by (induction l) auto
  from this [of es] show ?thesis by (simp add: pend_def succs_def)
qed

lemma pend_0_preds: "pend topo n = 0 \<Longrightarrow> (d, n) \<in> set es \<Longrightarrow> d \<in> set topo"
  by (auto simp: pend_def filter_empty_conv)

lemma topo_ok_snoc:
  assumes "topo_ok topo" and "\<And>d. (d, x) \<in> set es \<Longrightarrow> d \<in> set topo"
  shows "topo_ok (topo @ [x])"
  unfolding topo_ok_def
proof (intro allI impI)
  fix xs n ys d
  assume eq: "topo @ [x] = xs @ n # ys" and "(d, n) \<in> set es"
  then show "d \<in> set xs"
    using assms unfolding topo_ok_def by (cases ys rule: rev_cases) auto
qed

lemma succs_ns: "set (succs x) \<subseteq> ns"
  using closed by (auto simp: succs_def)

lemma kinv_step:
  assumes inv: "kinv deg (x # queue) topo"
  obtains deg' rs where "relax (succs x) deg queue = (deg', queue @ rs)" and "kinv deg' (queue @ rs) (topo @ [x])"
proof -
  have x: "x \<notin> set topo" "pend topo x = 0" using inv by (auto simp: kinv_def)
  have deg: "deg n = Some (int (pend topo n))" if "n \<in> ns" for n using inv that by (simp add: kinv_def)
  have "\<exists>k. deg m = Some k \<and> int (count_list (succs x) m) \<le> k" if "m \<in> set (succs x)" for m
  proof -
    have "m \<in> ns" using succs_ns that by blast
    from deg [OF this] pend_snoc [OF x(1), of m] show ?thesis by simp
  qed
  from relax_spec [OF this, of queue] obtain deg' rs where r: "relax (succs x) deg queue = (deg', queue @ rs)"
      and deg': "\<And>m. deg' m = (if m \<in> set (succs x) then Some (the (deg m) - int (count_list (succs x) m)) else deg m)"
      and rs: "distinct rs" "set rs = {m \<in> set (succs x). deg m = Some (int (count_list (succs x) m))}"
    by auto
  have d': "deg' n = Some (int (pend (topo @ [x]) n))" if "n \<in> ns" for n
    using deg' [of n] deg [OF that] pend_snoc [OF x(1), of n] by (auto simp: count_notin)
  have new: "m \<in> set rs \<longleftrightarrow> m \<in> ns \<and> pend topo m \<noteq> 0 \<and> pend (topo @ [x]) m = 0" for m
  proof -
    have "m \<in> set (succs x) \<longleftrightarrow> count_list (succs x) m \<noteq> 0" by (simp add: count_list_0_iff)
    then show ?thesis
      using rs(2) deg [of m] succs_ns [of x] pend_snoc [OF x(1), of m] by auto
  qed
  have old: "set (topo @ x # queue) = {n \<in> ns. pend topo n = 0}" "distinct (topo @ x # queue)"
    using inv by (simp_all add: kinv_def)
  have mono: "pend topo m = 0 \<Longrightarrow> pend (topo @ [x]) m = 0" for m using pend_snoc [OF x(1), of m] by simp
  have "set rs \<inter> set (topo @ x # queue) = {}" using new old(1) by auto
  then have "distinct ((topo @ [x]) @ queue @ rs)" using old(2) rs(1) by auto
  moreover have "set ((topo @ [x]) @ queue @ rs) = {n \<in> ns. pend (topo @ [x]) n = 0}"
  proof -
    have "set ((topo @ [x]) @ queue @ rs) = set (topo @ x # queue) \<union> set rs" by auto
    then show ?thesis unfolding old(1) using new mono by auto
  qed
  moreover have "topo_ok (topo @ [x])"
    using inv pend_0_preds [OF x(2)] by (intro topo_ok_snoc) (simp_all add: kinv_def)
  ultimately show ?thesis using that r d' by (simp add: kinv_def)
qed

lemma kahn_loop_inv:
  assumes "kinv deg queue topo" and "card ns \<le> fuel + length topo"
  shows "\<exists>deg' t. kahn_loop fuel succs deg queue topo = Some t \<and> kinv deg' [] t"
  using assms
proof (induction fuel arbitrary: deg queue topo)
  case 0
  have "queue = []"
  proof (rule ccontr)
    assume "queue \<noteq> []"
    have "length (topo @ queue) \<le> card ns"
      using 0(1) by (simp add: kinv_def distinct_card [symmetric] card_mono finite_ns del: length_append set_append)
    with 0(2) \<open>queue \<noteq> []\<close> show False by (cases queue) simp_all
  qed
  with 0(1) show ?case by auto
next
  case (Suc fuel)
  show ?case
  proof (cases queue)
    case Nil
    with Suc.prems(1) show ?thesis by auto
  next
    case (Cons x q)
    with Suc.prems(1) obtain deg' rs where "relax (succs x) deg q = (deg', q @ rs)" "kinv deg' (q @ rs) (topo @ [x])"
      using kinv_step by blast
    with Suc.IH [of deg' "q @ rs" "topo @ [x]"] Suc.prems(2) Cons show ?thesis by simp
  qed
qed

lemma acyclic_if_topo:
  assumes "topo_ok t" and "set t = ns"
  shows "acyclic (set es)"
proof (rule acyclicI_order [where f = "\<lambda>x. length (dropWhile (\<lambda>y. y \<noteq> x) t)"])
  fix d n assume e: "(d, n) \<in> set es"
  then have "n \<in> set t" using assms(2) closed by auto
  then obtain xs ys where t: "t = xs @ n # ys" and n: "n \<notin> set xs" by (meson split_list_first)
  then have d: "d \<in> set xs" using assms(1) e unfolding topo_ok_def by blast
  have "dropWhile (\<lambda>y. y \<noteq> n) t = n # ys" unfolding t using n by (subst dropWhile_append2) auto
  moreover have "dropWhile (\<lambda>y. y \<noteq> d) t = dropWhile (\<lambda>y. y \<noteq> d) xs @ n # ys"
    unfolding t using d by (subst dropWhile_append1) auto
  moreover have "dropWhile (\<lambda>y. y \<noteq> d) xs \<noteq> []" using d by (simp add: dropWhile_eq_Nil_conv)
  ultimately show "length (dropWhile (\<lambda>y. y \<noteq> n) t) < length (dropWhile (\<lambda>y. y \<noteq> d) t)" by simp
qed

lemma all_if_acyclic:
  assumes inv: "kinv deg [] t" and "acyclic (set es)"
  shows "set t = ns"
proof (rule ccontr)
  assume "set t \<noteq> ns"
  moreover have "set t \<subseteq> ns" using inv by (auto simp: kinv_def)
  ultimately obtain m where "m \<in> ns - set t" by blast
  moreover have "wf (set es)" using assms(2) by (simp add: finite_acyclic_wf)
  ultimately obtain z where z: "z \<in> ns - set t" and no: "\<And>y. (y, z) \<in> set es \<Longrightarrow> y \<notin> ns - set t"
    by (metis wfE_min)
  have "pend t z \<noteq> 0" using inv z by (auto simp: kinv_def)
  then obtain y where "(y, z) \<in> set es" "y \<notin> set t"
    by (auto simp: pend_def filter_empty_conv)
  with no closed show False by blast
qed

lemma kahn_total:
  assumes "distinct init" and "set init = {n \<in> ns. pend [] n = 0}" and "\<forall>n \<in> ns. deg n = Some (int (pend [] n))"
  shows "\<exists>t. kahn_loop (card ns) succs deg init [] = Some t \<and> distinct t \<and> set t \<subseteq> ns \<and> topo_ok t \<and>
    (set t = ns \<longleftrightarrow> acyclic (set es))"
proof -
  have "kinv deg init []" using assms by (simp add: kinv_def topo_ok_def)
  then obtain deg' t where t: "kahn_loop (card ns) succs deg init [] = Some t" "kinv deg' [] t"
    using kahn_loop_inv [of deg init "[]" "card ns"] by auto
  then have "distinct t" "set t \<subseteq> ns" "topo_ok t" by (auto simp: kinv_def)
  with t acyclic_if_topo all_if_acyclic show ?thesis by blast
qed

lemmas topo_split = topo_ok_def [THEN iffD1, rule_format]

end

section \<open>The workflow's graph\<close>

interpretation dag: dag_edges "edges_of steps" "names_of steps" for steps
proof unfold_locales
  show "set (edges_of steps) \<subseteq> names_of steps \<times> names_of steps"
    using built_build [of steps] by (simp add: built_def)
  show "finite (names_of steps)" by (simp add: names_of_def)
qed

definition deps_known :: "wf_step list \<Rightarrow> bool" where
  "deps_known steps \<longleftrightarrow> (\<forall>s \<in> set steps. set (deps_of s) \<subseteq> ws_name ` set steps)"

lemma names_of_known: "deps_known steps \<Longrightarrow> names_of steps = ws_name ` set steps"
  by (auto simp: deps_known_def names_of_def)

lemma edge_iff: "(d, n) \<in> set (edges_of steps) \<longleftrightarrow> (\<exists>s \<in> set steps. ws_name s = n \<and> d \<in> set (deps_of s))"
  by (auto simp: edges_of_def)

lemma validate_dag_cases:
  assumes "iter_ok iter"
  shows "if deps_known steps
    then \<exists>t. distinct t \<and> set t \<subseteq> names_of steps \<and> dag.topo_ok steps t \<and>
      (set t = names_of steps \<longleftrightarrow> acyclic (set (edges_of steps))) \<and>
      validate_dag iter sh steps = Some (if set t = names_of steps then Inr t else
        Inl (Dtq WorkflowCycleError (''Workflow DAG contains a cycle involving steps: '' @
          sh (filter (\<lambda>n. n \<notin> set t) (all_names (build steps))))))
    else \<exists>m. validate_dag iter sh steps = Some (Inl (Dtq WorkflowCycleError m))"
proof (cases "deps_known steps")
  case False
  then have "unknown_dep (map ws_name steps) steps \<noteq> None" by (simp add: unknown_dep_None deps_known_def)
  with False show ?thesis by (auto simp: validate_dag_def Let_def)
next
  case True
  then have none: "unknown_dep (map ws_name steps) steps = None" by (simp add: unknown_dep_None deps_known_def)
  let ?g = "build steps"
  note b = built_build [of steps, unfolded built_def]
  have nm: "distinct (all_names ?g)" "set (all_names ?g) = names_of steps" using b by auto
  let ?init = "filter (\<lambda>n. get_or 0 (in_degree ?g n) = 0) (iter (all_names ?g))"
  have it: "distinct (iter (all_names ?g))" "set (iter (all_names ?g)) = names_of steps"
    using assms nm by (auto simp: iter_ok_def)
  have gr: "graph ?g = dag.succs steps" using b by (auto simp: dag.succs_def)
  have deg: "\<forall>n \<in> names_of steps. in_degree ?g n = Some (int (dag.pend steps [] n))"
    using b by (simp add: dag.pend_def)
  then have "set ?init = {n \<in> names_of steps. dag.pend steps [] n = 0}" using it by (auto simp: get_or_def)
  moreover have "card (names_of steps) = length (all_names ?g)" using nm by (metis distinct_card)
  ultimately obtain t where t: "kahn_loop (length (all_names ?g)) (graph ?g) (in_degree ?g) ?init [] = Some t"
      "distinct t" "set t \<subseteq> names_of steps" "dag.topo_ok steps t"
      "set t = names_of steps \<longleftrightarrow> acyclic (set (edges_of steps))"
    using dag.kahn_total [of ?init steps "in_degree ?g"] deg it(1) by (auto simp: gr)
  have "length t \<noteq> length (all_names ?g) \<longleftrightarrow> set t \<noteq> names_of steps"
    using t(2,3) nm by (metis card_subset_eq distinct_card finite_set)
  with t True none show ?thesis by (intro if_P [THEN iffD2]) (auto simp: validate_dag_def Let_def)
qed

lemma validate_dag_order:
  assumes "iter_ok iter" and "validate_dag iter sh steps = Some (Inr order)"
  shows "deps_known steps" and "distinct order" and "set order = ws_name ` set steps"
    and "order = xs @ n # ys \<Longrightarrow> s \<in> set steps \<Longrightarrow> ws_name s = n \<Longrightarrow> set (deps_of s) \<subseteq> set xs"
proof -
  show known: "deps_known steps"
    using validate_dag_cases [OF assms(1), of steps sh] assms(2) by (auto split: if_splits)
  then obtain t where t: "distinct t" "dag.topo_ok steps t"
      "validate_dag iter sh steps = Some (if set t = names_of steps then Inr t else
        Inl (Dtq WorkflowCycleError (''Workflow DAG contains a cycle involving steps: '' @
          sh (filter (\<lambda>n. n \<notin> set t) (all_names (build steps))))))"
    using validate_dag_cases [OF assms(1), of steps sh] by (simp only: if_True) blast
  then have "order = t" "set t = names_of steps" using assms(2) by (simp_all split: if_splits)
  with t known show "distinct order" "set order = ws_name ` set steps" by (simp_all add: names_of_known)
  show "set (deps_of s) \<subseteq> set xs" if "order = xs @ n # ys" "s \<in> set steps" "ws_name s = n"
  proof
    fix d assume "d \<in> set (deps_of s)"
    with that(2,3) have "(d, n) \<in> set (edges_of steps)" unfolding edge_iff by blast
    with dag.topo_split [OF t(2)] that(1) \<open>order = t\<close> show "d \<in> set xs" by blast
  qed
qed

lemma ready_exists:
  assumes "iter_ok iter" and "validate_dag iter sh steps = Some (Inr order)"
    and "\<not> ws_name ` set steps \<subseteq> completed"
  shows "get_ready_steps steps completed \<noteq> []"
proof -
  note ord = validate_dag_order [OF assms(1,2)]
  have "\<exists>x \<in> set order. x \<notin> completed" using assms(3) ord(3) by auto
  then obtain xs n ys where o: "order = xs @ n # ys" "n \<notin> completed" "\<forall>x \<in> set xs. x \<in> completed"
    using split_list_first_prop [of order "\<lambda>x. x \<notin> completed"] by blast
  then obtain s where s: "s \<in> set steps" "ws_name s = n" using ord(3) by (metis image_iff in_set_conv_decomp)
  then have "s \<in> set (get_ready_steps steps completed)"
    using ord(4) [OF o(1) s] o(2,3) by (auto simp: get_ready_steps_def list_all_iff)
  then show ?thesis by auto
qed

section \<open>Properties\<close>

definition demo_step :: "string \<Rightarrow> string list \<Rightarrow> wf_step" where
  "demo_step n ds = \<lparr>ws_name = n, ws_task = ''noop'', ws_payload = None, ws_depends_on = Some ds,
     ws_fan_out = None, ws_retry = RetryAbsent\<rparr>"

definition demo_steps :: "wf_step list" where
  "demo_steps = [demo_step ''c'' [''a'', ''b''], demo_step ''a'' [], demo_step ''b'' [''a'']]"

lemma iter_ok_id [simp]: "iter_ok (\<lambda>xs. xs)"
  by (simp add: iter_ok_def)

lemma demo_validate: "validate_dag (\<lambda>xs. xs) concat demo_steps = Some (Inr [''a'', ''b'', ''c''])"
  by code_simp

text \<open>
  C16: \<open>validate_dag\<close> accepts exactly the acyclic workflows: on every list of steps, in whatever order
  Python iterates over its set of names, it terminates; it returns an order if and only if every
  dependency names a step of the workflow and the dependency relation is acyclic, and otherwise
  raises \<open>WorkflowCycleError\<close>.
\<close>

theorem validate_dag_decides_acyclicity:
  assumes "iter_ok iter"
  shows "if deps_known steps \<and> acyclic (set (edges_of steps))
    then \<exists>order. validate_dag iter sh steps = Some (Inr order)
    else \<exists>m. validate_dag iter sh steps = Some (Inl (Dtq WorkflowCycleError m))"
  using validate_dag_cases [OF assms, of steps sh] by (cases "deps_known steps") auto

theorem validate_dag_decides_acyclicity_witness:
  "\<exists>m. validate_dag (\<lambda>xs. xs) concat [demo_step ''a'' [''b''], demo_step ''b'' [''a'']] =
     Some (Inl (Dtq WorkflowCycleError m))"
proof -
  let ?steps = "[demo_step ''a'' [''b''], demo_step ''b'' [''a'']]"
  have "set (edges_of ?steps) = {(''b'', ''a''), (''a'', ''b'')}"
    by (simp add: edges_of_def deps_of_def demo_step_def)
  then have "(''a'', ''a'') \<in> (set (edges_of ?steps))\<^sup>+"
    by (metis insertI1 insertI2 trancl.r_into_trancl trancl.trancl_into_trancl)
  then have "\<not> acyclic (set (edges_of ?steps))" by (auto simp: acyclic_def)
  with validate_dag_decides_acyclicity [OF iter_ok_id, of ?steps concat] show ?thesis by simp
qed

end
