(* ===== verification/Redis_Service.thy ===== *)
theory Redis_Service
  imports Core_Models "HOL-Library.AList"
begin

text \<open>
  The interface to Redis, which is not part of the repository: a record \<open>redis\<close> of the commands
  that \<open>dtq/broker\<close> issues, over an arbitrary server state \<open>'s\<close>. The locale \<open>redis_service\<close> states
  the documented behaviour that the code relies on, through a view \<open>V\<close> of the server state as a
  keyspace of strings with a remaining time to live, streams with consumer groups, and sorted
  sets. \<open>'v\<close> is the type of a serialised envelope. The reference server \<open>ref_redis\<close>, whose state
  is the keyspace itself, satisfies the laws and is the server that witnesses run on.

  A key keeps the type that its prefix says (\<open>str_key\<close>, \<open>stream_key\<close>, \<open>zset_key\<close>): the database is
  the task queue's own, and each law speaks of the keys of its type only.
\<close>

section \<open>The keyspace\<close>

record 'v fields =
  f_data :: 'v
  f_reason :: "string option"

text \<open>A pending entry: its consumer and the time since its last delivery, in milliseconds.\<close>

record pending =
  p_consumer :: string
  p_idle :: nat

record xgroup =
  g_last :: nat
  g_pel :: "(nat \<times> pending) list"

record 'v stream =
  st_entries :: "(nat \<times> 'v fields) list"
  st_last :: nat
  st_groups :: "(string \<times> xgroup) list"

record 'v keyspace =
  strs :: "string \<Rightarrow> (string \<times> nat option) option"
  streams :: "string \<Rightarrow> 'v stream option"
  zsets :: "string \<Rightarrow> ('v \<times> real) list"

definition empty_stream :: "'v stream" where
  "empty_stream = \<lparr>st_entries = [], st_last = 0, st_groups = []\<rparr>"

definition empty_keyspace :: "'v keyspace" where
  "empty_keyspace = \<lparr>strs = (\<lambda>_. None), streams = (\<lambda>_. None), zsets = (\<lambda>_. [])\<rparr>"

definition stream_at :: "'v keyspace \<Rightarrow> string \<Rightarrow> 'v stream" where
  "stream_at ks k = (case streams ks k of None \<Rightarrow> empty_stream | Some st \<Rightarrow> st)"

definition has_prefix :: "string \<Rightarrow> string \<Rightarrow> bool" where
  "has_prefix p k \<longleftrightarrow> take (length p) k = p"

definition str_key :: "string \<Rightarrow> bool" where
  "str_key k \<longleftrightarrow> has_prefix ''lease:'' k \<or> has_prefix ''fence:'' k \<or> has_prefix ''worker:'' k
     \<or> has_prefix ''pause:'' k"

definition stream_key :: "string \<Rightarrow> bool" where
  "stream_key k \<longleftrightarrow> has_prefix ''q:'' k \<or> has_prefix ''dlq:'' k"

definition zset_key :: "string \<Rightarrow> bool" where
  "zset_key k \<longleftrightarrow> has_prefix ''sched:'' k"

text \<open>The keys of the broker.\<close>

definition fence_key :: string where "fence_key = ''fence:seq''"

definition lease_key :: "string \<Rightarrow> string" where "lease_key task_id = ''lease:'' @ task_id"

definition worker_key :: "string \<Rightarrow> string" where "worker_key worker_id = ''worker:'' @ worker_id"

definition pause_key :: "string \<Rightarrow> string" where "pause_key queue = ''pause:'' @ queue"

definition q_key :: "string \<Rightarrow> string" where "q_key queue = ''q:'' @ queue"

definition dlq_key :: "string \<Rightarrow> string" where "dlq_key queue = ''dlq:'' @ queue"

definition sched_key :: "string \<Rightarrow> string" where "sched_key queue = ''sched:'' @ queue"

lemmas key_defs = fence_key_def lease_key_def worker_key_def pause_key_def q_key_def dlq_key_def
  sched_key_def

lemma key_types [simp]:
  "str_key fence_key" "str_key (lease_key x)" "str_key (worker_key x)" "str_key (pause_key x)"
  "stream_key (q_key x)" "stream_key (dlq_key x)" "zset_key (sched_key x)"
  by (simp_all add: str_key_def stream_key_def zset_key_def has_prefix_def key_defs)

lemma key_inj [simp]:
  "lease_key x = lease_key y \<longleftrightarrow> x = y" "worker_key x = worker_key y \<longleftrightarrow> x = y"
  "q_key x = q_key y \<longleftrightarrow> x = y" "dlq_key x = dlq_key y \<longleftrightarrow> x = y"
  "sched_key x = sched_key y \<longleftrightarrow> x = y"
  by (simp_all add: key_defs)

lemma key_distinct [simp]:
  "lease_key x \<noteq> fence_key" "fence_key \<noteq> lease_key x" "worker_key x \<noteq> fence_key"
  "fence_key \<noteq> worker_key x" "lease_key x \<noteq> worker_key y" "worker_key y \<noteq> lease_key x"
  "q_key x \<noteq> dlq_key y" "dlq_key y \<noteq> q_key x"
  by (simp_all add: key_defs)

section \<open>What the commands do\<close>

text \<open>The number a string holds, if it is one.\<close>

fun parse_int :: "string \<Rightarrow> int option" where
  "parse_int [] = None"
| "parse_int (c # cs) =
     (if c = CHR ''-''
      then (if cs \<noteq> [] \<and> list_all is_digit cs then Some (- int (undec cs)) else None)
      else if list_all is_digit (c # cs) then Some (int (undec (c # cs))) else None)"

lemma parse_int_str_int [simp]: "parse_int (str_int n) = Some n"
proof (cases "n < 0")
  case True
  have "list_all is_digit (dec (nat (- n)))" by (simp add: list_all_iff dec_digits)
  with True show ?thesis by (simp add: str_int_def)
next
  case False
  obtain c cs where cs: "dec (nat n) = c # cs" by (cases "dec (nat n)") auto
  have d: "list_all is_digit (c # cs)"
    using dec_digits [of _ "nat n"] by (simp add: cs list_all_iff)
  then have "c \<noteq> CHR ''-''" by auto
  moreover have "undec (c # cs) = nat n" using undec_dec [of "nat n"] by (simp add: cs)
  ultimately show ?thesis using False d by (simp add: str_int_def cs)
qed

text \<open>The integer a counter key holds: an absent key counts as 0, a non-number is an error.\<close>

definition ctr :: "'v keyspace \<Rightarrow> string \<Rightarrow> int option" where
  "ctr ks k = (case strs ks k of
       None \<Rightarrow> Some 0
     | Some (v, _) \<Rightarrow> parse_int v)"

definition set_ctr :: "string \<Rightarrow> int \<Rightarrow> 'v keyspace \<Rightarrow> 'v keyspace" where
  "set_ctr k n ks =
     ks\<lparr>strs := (strs ks)(k \<mapsto> (str_int n, case strs ks k of None \<Rightarrow> None | Some (_, t) \<Rightarrow> t))\<rparr>"

definition ks_set :: "string \<Rightarrow> string \<Rightarrow> nat \<Rightarrow> 'v keyspace \<Rightarrow> 'v keyspace" where
  "ks_set k v ms ks = ks\<lparr>strs := (strs ks)(k \<mapsto> (v, Some ms))\<rparr>"

definition ks_get :: "string \<Rightarrow> 'v keyspace \<Rightarrow> string option" where
  "ks_get k ks = map_option fst (strs ks k)"

definition ks_pexpire :: "string \<Rightarrow> int \<Rightarrow> 'v keyspace \<Rightarrow> 'v keyspace" where
  "ks_pexpire k ms ks =
     (case strs ks k of
        None \<Rightarrow> ks
      | Some (v, _) \<Rightarrow>
          if ms \<le> 0 then ks\<lparr>strs := (strs ks)(k := None)\<rparr> else ks_set k v (nat ms) ks)"

definition ks_del :: "string \<Rightarrow> 'v keyspace \<Rightarrow> 'v keyspace" where
  "ks_del k ks = ks\<lparr>strs := (strs ks)(k := None)\<rparr>"

definition put_stream :: "string \<Rightarrow> 'v stream \<Rightarrow> 'v keyspace \<Rightarrow> 'v keyspace" where
  "put_stream k st ks = ks\<lparr>streams := (streams ks)(k \<mapsto> st)\<rparr>"

text \<open>\<open>XADD\<close> creates a missing stream and appends under a fresh, larger id.\<close>

definition ks_xadd :: "nat \<Rightarrow> string \<Rightarrow> 'v fields \<Rightarrow> 'v keyspace \<Rightarrow> 'v keyspace" where
  "ks_xadd i k f ks =
     (let st = stream_at ks k
      in put_stream k (st\<lparr>st_entries := st_entries st @ [(i, f)], st_last := i\<rparr>) ks)"

text \<open>\<open>XGROUP CREATE key group 0 MKSTREAM\<close> for a group that does not exist.\<close>

definition ks_xgroup_create :: "string \<Rightarrow> string \<Rightarrow> 'v keyspace \<Rightarrow> 'v keyspace" where
  "ks_xgroup_create k g ks =
     (let st = stream_at ks k
      in put_stream k (st\<lparr>st_groups := AList.update g \<lparr>g_last = 0, g_pel = []\<rparr> (st_groups st)\<rparr>) ks)"

definition group_at :: "'v keyspace \<Rightarrow> string \<Rightarrow> string \<Rightarrow> xgroup option" where
  "group_at ks k g = (case streams ks k of None \<Rightarrow> None | Some st \<Rightarrow> map_of (st_groups st) g)"

definition put_group :: "string \<Rightarrow> string \<Rightarrow> xgroup \<Rightarrow> 'v keyspace \<Rightarrow> 'v keyspace" where
  "put_group k g gr ks =
     (let st = stream_at ks k in put_stream k (st\<lparr>st_groups := AList.update g gr (st_groups st)\<rparr>) ks)"

text \<open>The entries a group has not been given yet.\<close>

definition undelivered :: "'v stream \<Rightarrow> xgroup \<Rightarrow> (nat \<times> 'v fields) list" where
  "undelivered st gr = filter (\<lambda>(i, _). g_last gr < i) (st_entries st)"

text \<open>\<open>XREADGROUP GROUP g c COUNT n STREAMS key >\<close> on an existing group.\<close>

definition ks_xreadgroup ::
  "string \<Rightarrow> string \<Rightarrow> string \<Rightarrow> nat \<Rightarrow> 'v keyspace \<Rightarrow> (nat \<times> 'v fields) list \<times> 'v keyspace" where
  "ks_xreadgroup g c k n ks =
     (case group_at ks k g of
        None \<Rightarrow> ([], ks)
      | Some gr \<Rightarrow>
          let ms = take n (undelivered (stream_at ks k) gr)
          in if ms = [] then ([], ks)
             else (ms, put_group k g
                     \<lparr>g_last = fst (last ms),
                      g_pel = g_pel gr @ map (\<lambda>(i, _). (i, \<lparr>p_consumer = c, p_idle = 0\<rparr>)) ms\<rparr> ks))"

definition ks_xack :: "string \<Rightarrow> string \<Rightarrow> nat list \<Rightarrow> 'v keyspace \<Rightarrow> 'v keyspace" where
  "ks_xack k g ids ks =
     (case group_at ks k g of
        None \<Rightarrow> ks
      | Some gr \<Rightarrow> put_group k g (gr\<lparr>g_pel := filter (\<lambda>(i, _). i \<notin> set ids) (g_pel gr)\<rparr>) ks)"

text \<open>
  \<open>XAUTOCLAIM key g c min_idle 0-0 COUNT n\<close> scans the first \<open>10 * n\<close> pending entries and claims up
  to \<open>n\<close> of those that have been idle for more than \<open>min_idle\<close>: they get the new consumer and
  idle time 0 and are returned with their fields.
\<close>

definition claimable :: "nat \<Rightarrow> nat \<Rightarrow> xgroup \<Rightarrow> nat list" where
  "claimable min_idle n gr =
     take n (map fst (filter (\<lambda>(_, p). min_idle < p_idle p) (take (10 * n) (g_pel gr))))"

definition claim :: "string \<Rightarrow> nat list \<Rightarrow> xgroup \<Rightarrow> xgroup" where
  "claim c ids gr =
     gr\<lparr>g_pel := map (\<lambda>(i, p). if i \<in> set ids then (i, \<lparr>p_consumer = c, p_idle = 0\<rparr>) else (i, p))
                   (g_pel gr)\<rparr>"

definition ks_xautoclaim ::
  "string \<Rightarrow> string \<Rightarrow> string \<Rightarrow> nat \<Rightarrow> nat \<Rightarrow> 'v keyspace \<Rightarrow> (nat \<times> 'v fields) list \<times> 'v keyspace" where
  "ks_xautoclaim k g c min_idle n ks =
     (case group_at ks k g of
        None \<Rightarrow> ([], ks)
      | Some gr \<Rightarrow>
          let ids = claimable min_idle n gr
          in (filter (\<lambda>(i, _). i \<in> set ids) (st_entries (stream_at ks k)),
              put_group k g (claim c ids gr) ks))"

text \<open>
  Sorted sets are kept by score, members of equal score by the byte order \<open>before\<close> of the members.
  \<open>ZADD\<close> gives a member its new score, \<open>ZRANGEBYSCORE key -inf max LIMIT 0 n\<close> returns the first
  \<open>n\<close> members with a score up to \<open>max\<close>.
\<close>

fun zinsert :: "('v \<Rightarrow> 'v \<Rightarrow> bool) \<Rightarrow> 'v \<Rightarrow> real \<Rightarrow> ('v \<times> real) list \<Rightarrow> ('v \<times> real) list" where
  "zinsert before m sc [] = [(m, sc)]"
| "zinsert before m sc ((m', sc') # zs) =
     (if sc < sc' \<or> sc = sc' \<and> before m m' then (m, sc) # (m', sc') # zs
      else (m', sc') # zinsert before m sc zs)"

lemma zinsert_mem: "(m, sc) \<in> set (zinsert before m sc zs)"
  by (induction zs) auto

definition ks_zadd ::
  "('v \<Rightarrow> 'v \<Rightarrow> bool) \<Rightarrow> string \<Rightarrow> 'v \<Rightarrow> real \<Rightarrow> 'v keyspace \<Rightarrow> 'v keyspace" where
  "ks_zadd before k m sc ks =
     ks\<lparr>zsets := (zsets ks)(k := zinsert before m sc (filter (\<lambda>(m', _). m' \<noteq> m) (zsets ks k)))\<rparr>"

definition ks_zrangebyscore :: "string \<Rightarrow> real \<Rightarrow> nat \<Rightarrow> 'v keyspace \<Rightarrow> 'v list" where
  "ks_zrangebyscore k mx n ks = take n (map fst (filter (\<lambda>(_, sc). sc \<le> mx) (zsets ks k)))"

definition ks_zrem :: "string \<Rightarrow> 'v \<Rightarrow> 'v keyspace \<Rightarrow> 'v keyspace" where
  "ks_zrem k m ks = ks\<lparr>zsets := (zsets ks)(k := filter (\<lambda>(m', _). m' \<noteq> m) (zsets ks k))\<rparr>"

text \<open>The passing of \<open>d\<close> milliseconds: keys expire, pending entries grow idle.\<close>

definition elapse_str :: "nat \<Rightarrow> string \<times> nat option \<Rightarrow> (string \<times> nat option) option" where
  "elapse_str d e = (case e of
       (v, None) \<Rightarrow> Some (v, None)
     | (v, Some t) \<Rightarrow> if d < t then Some (v, Some (t - d)) else None)"

definition elapse_group :: "nat \<Rightarrow> xgroup \<Rightarrow> xgroup" where
  "elapse_group d gr = gr\<lparr>g_pel := map (\<lambda>(i, p). (i, p\<lparr>p_idle := p_idle p + d\<rparr>)) (g_pel gr)\<rparr>"

definition ks_elapse :: "nat \<Rightarrow> 'v keyspace \<Rightarrow> 'v keyspace" where
  "ks_elapse d ks =
     ks\<lparr>strs := (\<lambda>k. Option.bind (strs ks k) (elapse_str d)),
        streams := (\<lambda>k. map_option
          (\<lambda>st. st\<lparr>st_groups := map (\<lambda>(g, gr). (g, elapse_group d gr)) (st_groups st)\<rparr>) (streams ks k))\<rparr>"

section \<open>The service\<close>

record ('s, 'v) redis =
  r_incr :: "string \<Rightarrow> 's \<Rightarrow> (string + int) \<times> 's"
  r_decr :: "string \<Rightarrow> 's \<Rightarrow> (string + int) \<times> 's"
  r_set_nx_px :: "string \<Rightarrow> string \<Rightarrow> int \<Rightarrow> 's \<Rightarrow> (string + bool) \<times> 's"
  r_set_px :: "string \<Rightarrow> string \<Rightarrow> int \<Rightarrow> 's \<Rightarrow> (string + unit) \<times> 's"
  r_get :: "string \<Rightarrow> 's \<Rightarrow> string option"
  r_pexpire :: "string \<Rightarrow> int \<Rightarrow> 's \<Rightarrow> 's"
  r_del :: "string \<Rightarrow> 's \<Rightarrow> 's"
  r_xadd :: "string \<Rightarrow> 'v fields \<Rightarrow> 's \<Rightarrow> nat \<times> 's"
  r_xgroup_create :: "string \<Rightarrow> string \<Rightarrow> 's \<Rightarrow> (string + unit) \<times> 's"
  r_xreadgroup :: "string \<Rightarrow> string \<Rightarrow> string \<Rightarrow> nat \<Rightarrow> 's \<Rightarrow> (string + (nat \<times> 'v fields) list) \<times> 's"
  r_xack :: "string \<Rightarrow> string \<Rightarrow> nat list \<Rightarrow> 's \<Rightarrow> 's"
  r_xautoclaim ::
    "string \<Rightarrow> string \<Rightarrow> string \<Rightarrow> nat \<Rightarrow> nat \<Rightarrow> 's \<Rightarrow> (string + (nat \<times> 'v fields) list) \<times> 's"
  r_xrange :: "string \<Rightarrow> nat \<Rightarrow> 's \<Rightarrow> (nat \<times> 'v fields) list"
  r_xinfo_stream :: "string \<Rightarrow> 's \<Rightarrow> string + nat"
  r_xinfo_groups :: "string \<Rightarrow> 's \<Rightarrow> string + (string \<times> nat) list"
  r_zadd :: "string \<Rightarrow> 'v \<Rightarrow> real \<Rightarrow> 's \<Rightarrow> 's"
  r_zrangebyscore :: "string \<Rightarrow> real \<Rightarrow> nat \<Rightarrow> 's \<Rightarrow> 'v list"
  r_zrem :: "string \<Rightarrow> 'v \<Rightarrow> 's \<Rightarrow> 's"
  r_elapse :: "nat \<Rightarrow> 's \<Rightarrow> 's"

text \<open>A reply \<open>Inl e\<close> is an error reply \<open>e\<close>.\<close>

locale redis_service =
  fixes R :: "('s, 'v) redis"
    and V :: "'s \<Rightarrow> 'v keyspace"
    and before :: "'v \<Rightarrow> 'v \<Rightarrow> bool"
  assumes incr_ok: "\<And>k s (n::int). str_key k \<Longrightarrow> ctr (V s) k = Some n \<Longrightarrow> - (2 ^ 63) \<le> n \<Longrightarrow> n < 2 ^ 63 - 1 \<Longrightarrow>
      fst (r_incr R k s) = Inr (n + 1) \<and> V (snd (r_incr R k s)) = set_ctr k (n + 1) (V s)"
    and incr_error: "\<And>k s. str_key k \<Longrightarrow> (\<And>n::int. ctr (V s) k = Some n \<Longrightarrow> n < - (2 ^ 63) \<or> 2 ^ 63 - 1 \<le> n) \<Longrightarrow>
      \<exists>e. fst (r_incr R k s) = Inl e \<and> V (snd (r_incr R k s)) = V s"
    and decr_ok: "\<And>k s (n::int). str_key k \<Longrightarrow> ctr (V s) k = Some n \<Longrightarrow> - (2 ^ 63) < n \<Longrightarrow> n < 2 ^ 63 \<Longrightarrow>
      fst (r_decr R k s) = Inr (n - 1) \<and> V (snd (r_decr R k s)) = set_ctr k (n - 1) (V s)"
    and set_nx_px_free: "\<And>k (ms::int) v s. str_key k \<Longrightarrow> 0 < ms \<Longrightarrow> strs (V s) k = None \<Longrightarrow>
      fst (r_set_nx_px R k v ms s) = Inr True \<and> V (snd (r_set_nx_px R k v ms s)) = ks_set k v (nat ms) (V s)"
    and set_nx_px_held: "\<And>k (ms::int) v s. str_key k \<Longrightarrow> 0 < ms \<Longrightarrow> strs (V s) k \<noteq> None \<Longrightarrow>
      fst (r_set_nx_px R k v ms s) = Inr False \<and> V (snd (r_set_nx_px R k v ms s)) = V s"
    and set_nx_px_error: "\<And>k (ms::int) v s. str_key k \<Longrightarrow> ms \<le> 0 \<Longrightarrow>
      \<exists>e. fst (r_set_nx_px R k v ms s) = Inl e \<and> V (snd (r_set_nx_px R k v ms s)) = V s"
    and set_px_ok: "\<And>k (ms::int) v s. str_key k \<Longrightarrow> 0 < ms \<Longrightarrow>
      fst (r_set_px R k v ms s) = Inr () \<and> V (snd (r_set_px R k v ms s)) = ks_set k v (nat ms) (V s)"
    and set_px_error: "\<And>k (ms::int) v s. str_key k \<Longrightarrow> ms \<le> 0 \<Longrightarrow>
      \<exists>e. fst (r_set_px R k v ms s) = Inl e \<and> V (snd (r_set_px R k v ms s)) = V s"
    and get: "str_key k \<Longrightarrow> r_get R k s = ks_get k (V s)"
    and pexpire: "str_key k \<Longrightarrow> V (r_pexpire R k ms s) = ks_pexpire k ms (V s)"
    and del: "str_key k \<Longrightarrow> V (r_del R k s) = ks_del k (V s)"
    and xadd_id: "stream_key k \<Longrightarrow> st_last (stream_at (V s) k) < fst (r_xadd R k f s)"
    and xadd: "stream_key k \<Longrightarrow>
      V (snd (r_xadd R k f s)) = ks_xadd (fst (r_xadd R k f s)) k f (V s)"
    and xgroup_create_new: "stream_key k \<Longrightarrow> group_at (V s) k g = None \<Longrightarrow>
      fst (r_xgroup_create R k g s) = Inr () \<and> V (snd (r_xgroup_create R k g s)) = ks_xgroup_create k g (V s)"
    and xgroup_create_busy: "stream_key k \<Longrightarrow> group_at (V s) k g \<noteq> None \<Longrightarrow>
      \<exists>e. fst (r_xgroup_create R k g s) = Inl e \<and> sublist ''BUSYGROUP'' e
        \<and> V (snd (r_xgroup_create R k g s)) = V s"
    and xreadgroup_ok: "stream_key k \<Longrightarrow> group_at (V s) k g \<noteq> None \<Longrightarrow>
      fst (r_xreadgroup R g c k n s) = Inr (fst (ks_xreadgroup g c k n (V s)))
        \<and> V (snd (r_xreadgroup R g c k n s)) = snd (ks_xreadgroup g c k n (V s))"
    and xreadgroup_nogroup: "stream_key k \<Longrightarrow> group_at (V s) k g = None \<Longrightarrow>
      \<exists>e. fst (r_xreadgroup R g c k n s) = Inl e \<and> V (snd (r_xreadgroup R g c k n s)) = V s"
    and xack: "stream_key k \<Longrightarrow> V (r_xack R k g ids s) = ks_xack k g ids (V s)"
    and xautoclaim_ok: "stream_key k \<Longrightarrow> group_at (V s) k g \<noteq> None \<Longrightarrow>
      fst (r_xautoclaim R k g c mi n s) = Inr (fst (ks_xautoclaim k g c mi n (V s)))
        \<and> V (snd (r_xautoclaim R k g c mi n s)) = snd (ks_xautoclaim k g c mi n (V s))"
    and xautoclaim_nogroup: "stream_key k \<Longrightarrow> group_at (V s) k g = None \<Longrightarrow>
      \<exists>e. fst (r_xautoclaim R k g c mi n s) = Inl e \<and> V (snd (r_xautoclaim R k g c mi n s)) = V s"
    and xrange: "stream_key k \<Longrightarrow> r_xrange R k n s = take n (st_entries (stream_at (V s) k))"
    and xinfo_stream: "stream_key k \<Longrightarrow> r_xinfo_stream R k s =
      (case streams (V s) k of None \<Rightarrow> Inl ''ERR no such key'' | Some st \<Rightarrow> Inr (length (st_entries st)))"
    and xinfo_groups: "stream_key k \<Longrightarrow> r_xinfo_groups R k s =
      (case streams (V s) k of None \<Rightarrow> Inl ''ERR no such key''
       | Some st \<Rightarrow> Inr (map (\<lambda>(g, gr). (g, length (g_pel gr))) (st_groups st)))"
    and zadd: "zset_key k \<Longrightarrow> V (r_zadd R k m sc s) = ks_zadd before k m sc (V s)"
    and zrangebyscore: "zset_key k \<Longrightarrow> r_zrangebyscore R k mx n s = ks_zrangebyscore k mx n (V s)"
    and zrem: "zset_key k \<Longrightarrow> V (r_zrem R k m s) = ks_zrem k m (V s)"
    and elapse: "V (r_elapse R d s) = ks_elapse d (V s)"

section \<open>The reference server\<close>

definition ref_redis :: "('v keyspace, 'v) redis" where
  "ref_redis = \<lparr>
     r_incr = (\<lambda>k s. case ctr s k of
         None \<Rightarrow> (Inl ''ERR value is not an integer or out of range'', s)
       | Some n \<Rightarrow> if - (2 ^ 63) \<le> n \<and> n < 2 ^ 63 - 1 then (Inr (n + 1), set_ctr k (n + 1) s)
                   else (Inl ''ERR increment or decrement would overflow'', s)),
     r_decr = (\<lambda>k s. case ctr s k of
         None \<Rightarrow> (Inl ''ERR value is not an integer or out of range'', s)
       | Some n \<Rightarrow> if - (2 ^ 63) < n \<and> n < 2 ^ 63 then (Inr (n - 1), set_ctr k (n - 1) s)
                   else (Inl ''ERR increment or decrement would overflow'', s)),
     r_set_nx_px = (\<lambda>k v ms s.
         if ms \<le> 0 then (Inl ''ERR invalid expire time in 'set' command'', s)
         else if strs s k = None then (Inr True, ks_set k v (nat ms) s) else (Inr False, s)),
     r_set_px = (\<lambda>k v ms s.
         if ms \<le> 0 then (Inl ''ERR invalid expire time in 'set' command'', s)
         else (Inr (), ks_set k v (nat ms) s)),
     r_get = ks_get,
     r_pexpire = ks_pexpire,
     r_del = ks_del,
     r_xadd = (\<lambda>k f s. let i = Suc (st_last (stream_at s k)) in (i, ks_xadd i k f s)),
     r_xgroup_create = (\<lambda>k g s.
         if group_at s k g = None then (Inr (), ks_xgroup_create k g s)
         else (Inl ''BUSYGROUP Consumer Group name already exists'', s)),
     r_xreadgroup = (\<lambda>g c k n s.
         if group_at s k g = None then (Inl ''NOGROUP No such key or consumer group'', s)
         else (let (ms, s') = ks_xreadgroup g c k n s in (Inr ms, s'))),
     r_xack = ks_xack,
     r_xautoclaim = (\<lambda>k g c mi n s.
         if group_at s k g = None then (Inl ''NOGROUP No such key or consumer group'', s)
         else (let (ms, s') = ks_xautoclaim k g c mi n s in (Inr ms, s'))),
     r_xrange = (\<lambda>k n s. take n (st_entries (stream_at s k))),
     r_xinfo_stream = (\<lambda>k s. case streams s k of
         None \<Rightarrow> Inl ''ERR no such key'' | Some st \<Rightarrow> Inr (length (st_entries st))),
     r_xinfo_groups = (\<lambda>k s. case streams s k of
         None \<Rightarrow> Inl ''ERR no such key''
       | Some st \<Rightarrow> Inr (map (\<lambda>(g, gr). (g, length (g_pel gr))) (st_groups st))),
     r_zadd = ks_zadd (\<lambda>_ _. False),
     r_zrangebyscore = ks_zrangebyscore,
     r_zrem = ks_zrem,
     r_elapse = ks_elapse\<rparr>"

lemma ref_redis_run:
  "r_get ref_redis = ks_get" "r_pexpire ref_redis = ks_pexpire" "r_del ref_redis = ks_del"
  "r_xack ref_redis = ks_xack" "r_zadd ref_redis = ks_zadd (\<lambda>_ _. False)" "r_zrem ref_redis = ks_zrem"
  "r_zrangebyscore ref_redis = ks_zrangebyscore" "r_elapse ref_redis = ks_elapse"
  by (simp_all add: ref_redis_def)

lemma BUSYGROUP_sublist: "sublist ''BUSYGROUP'' ''BUSYGROUP Consumer Group name already exists''"
  by code_simp

interpretation ref: redis_service "ref_redis :: ('v keyspace, 'v) redis" id "\<lambda>_ _. False"
  by unfold_locales
    (auto simp: ref_redis_def Let_def BUSYGROUP_sublist split: option.splits prod.splits if_splits)

lemma ref_redis_service [simp]: "redis_service ref_redis id (\<lambda>_ _. False)"
  by (rule ref.redis_service_axioms)

end
