(* ===== verification/Redis_Broker.thy ===== *)
theory Redis_Broker
  imports Redis_Service
begin

text \<open>
  \<open>dtq/broker/redis_broker.py\<close> and its four Lua scripts, over any Redis server \<open>R\<close>. A script runs
  on the server as one step, so it is one function on the server state. The model is that of a
  connected broker: \<open>connect\<close> and \<open>close\<close> open and close the client and keep no other state.
  Serialisation (\<open>model_dump_json\<close>, \<open>model_validate_json\<close>) is pydantic's: a parameter \<open>C\<close> whose
  reader inverts its writer.
\<close>

section \<open>Leases: the Lua scripts\<close>

text \<open>
  The value of a lease, as the script builds it (\<open>ARGV[1] .. ':' .. tostring(fence)\<close>) and as the
  Python methods do (\<open>f"{worker_id}:{fence}"\<close>).
\<close>

definition lease_value :: "string \<Rightarrow> int \<Rightarrow> string" where
  "lease_value worker fence = worker @ '':'' @ lua_tostring fence"

definition expected_value :: "string \<Rightarrow> int \<Rightarrow> string" where
  "expected_value worker_id fence = worker_id @ '':'' @ str_int fence"

text \<open>\<open>acquire_lease.lua\<close>: \<open>INCR\<close>, \<open>SET NX PX\<close>, and \<open>DECR\<close> when the lease is held.\<close>

definition acquire_lease_lua ::
  "('s, 'v) redis \<Rightarrow> string \<Rightarrow> string \<Rightarrow> string \<Rightarrow> int \<Rightarrow> 's \<Rightarrow> (string + int) \<times> 's" where
  "acquire_lease_lua R kseq klease worker lease_ms s =
     (case r_incr R kseq s of
        (Inl e, s1) \<Rightarrow> (Inl e, s1)
      | (Inr fence, s1) \<Rightarrow>
          (case r_set_nx_px R klease (lease_value worker fence) lease_ms s1 of
             (Inl e, s2) \<Rightarrow> (Inl e, s2)
           | (Inr acquired, s2) \<Rightarrow>
               if acquired then (Inr fence, s2)
               else (case r_decr R kseq s2 of
                       (Inl e, s3) \<Rightarrow> (Inl e, s3)
                     | (Inr _, s3) \<Rightarrow> (Inr 0, s3))))"

definition extend_lease_lua ::
  "('s, 'v) redis \<Rightarrow> string \<Rightarrow> string \<Rightarrow> int \<Rightarrow> 's \<Rightarrow> int \<times> 's" where
  "extend_lease_lua R klease expected ms s =
     (if r_get R klease s = Some expected then (1, r_pexpire R klease ms s) else (0, s))"

definition release_lease_lua :: "('s, 'v) redis \<Rightarrow> string \<Rightarrow> string \<Rightarrow> 's \<Rightarrow> int \<times> 's" where
  "release_lease_lua R klease expected s =
     (if r_get R klease s = Some expected then (1, r_del R klease s) else (0, s))"

text \<open>The loop of \<open>promote_scheduled.lua\<close> over the due members.\<close>

fun promote_loop ::
  "('s, 'v) redis \<Rightarrow> string \<Rightarrow> string \<Rightarrow> 'v list \<Rightarrow> nat \<Rightarrow> 's \<Rightarrow> nat \<times> 's" where
  "promote_loop R kz kq [] count s = (count, s)"
| "promote_loop R kz kq (payload # due) count s =
     (let s1 = snd (r_xadd R kq \<lparr>f_data = payload, f_reason = None\<rparr> s);
          s2 = r_zrem R kz payload s1
      in promote_loop R kz kq due (count + 1) s2)"

definition promote_scheduled_lua ::
  "('s, 'v) redis \<Rightarrow> string \<Rightarrow> string \<Rightarrow> real \<Rightarrow> nat \<Rightarrow> 's \<Rightarrow> nat \<times> 's" where
  "promote_scheduled_lua R kz kq now mx s =
     promote_loop R kz kq (r_zrangebyscore R kz now mx s) 0 s"

section \<open>Leases: the methods\<close>

definition acquire_lease ::
  "('s, 'v) redis \<Rightarrow> uuid \<Rightarrow> string \<Rightarrow> int \<Rightarrow> 's \<Rightarrow> (exn + int) \<times> 's" where
  "acquire_lease R task_id worker_id lease_ms s =
     (case acquire_lease_lua R fence_key (lease_key task_id) worker_id lease_ms s of
        (Inl e, s') \<Rightarrow> (Inl (ResponseError e), s')
      | (Inr result, s') \<Rightarrow> (Inr result, s'))"

definition release_lease ::
  "('s, 'v) redis \<Rightarrow> uuid \<Rightarrow> string \<Rightarrow> int \<Rightarrow> 's \<Rightarrow> bool \<times> 's" where
  "release_lease R task_id worker_id fence s =
     (let expected = expected_value worker_id fence;
          (result, s') = release_lease_lua R (lease_key task_id) expected s
      in (result \<noteq> 0, s'))"

definition extend_lease ::
  "('s, 'v) redis \<Rightarrow> uuid \<Rightarrow> string \<Rightarrow> int \<Rightarrow> int \<Rightarrow> 's \<Rightarrow> bool \<times> 's" where
  "extend_lease R task_id worker_id fence lease_ms s =
     (let expected = expected_value worker_id fence;
          (result, s') = extend_lease_lua R (lease_key task_id) expected lease_ms s
      in (result \<noteq> 0, s'))"

text \<open>
  The presence key of a worker; \<open>data\<close> is the JSON text. \<open>get_worker_heartbeat\<close> returns the text
  that it would parse; an empty string counts as absent.
\<close>

definition set_worker_heartbeat ::
  "('s, 'v) redis \<Rightarrow> string \<Rightarrow> string \<Rightarrow> int \<Rightarrow> 's \<Rightarrow> (exn + unit) \<times> 's" where
  "set_worker_heartbeat R worker_id data ttl_ms s =
     (case r_set_px R (worker_key worker_id) data ttl_ms s of
        (Inl e, s') \<Rightarrow> (Inl (ResponseError e), s')
      | (Inr _, s') \<Rightarrow> (Inr (), s'))"

definition get_worker_heartbeat :: "('s, 'v) redis \<Rightarrow> string \<Rightarrow> 's \<Rightarrow> string option" where
  "get_worker_heartbeat R worker_id s =
     (case r_get R (worker_key worker_id) s of
        None \<Rightarrow> None
      | Some raw \<Rightarrow> if raw \<noteq> [] then Some raw else None)"

section \<open>The broker protocol\<close>

record 'v codec =
  model_dump_json :: "task_envelope \<Rightarrow> 'v"
  model_validate_json :: "'v \<Rightarrow> exn + task_envelope"

record leased =
  envelope :: task_envelope
  broker_msg_id :: nat
  idle_ms :: int

definition ensure_queue :: "('s, 'v) redis \<Rightarrow> string \<Rightarrow> 's \<Rightarrow> (exn + unit) \<times> 's" where
  "ensure_queue R queue s =
     (case r_xgroup_create R (q_key queue) queue s of
        (Inr _, s') \<Rightarrow> (Inr (), s')
      | (Inl e, s') \<Rightarrow>
          if \<not> sublist ''BUSYGROUP'' e then (Inl (ResponseError e), s') else (Inr (), s'))"

definition publish :: "('s, 'v) redis \<Rightarrow> 'v codec \<Rightarrow> string \<Rightarrow> task_envelope \<Rightarrow> 's \<Rightarrow> 's" where
  "publish R C queue e s =
     snd (r_xadd R (q_key queue) \<lparr>f_data = model_dump_json C e, f_reason = None\<rparr> s)"

text \<open>Parsing a batch stops at the first message that does not validate.\<close>

fun parse_messages :: "'v codec \<Rightarrow> int \<Rightarrow> (nat \<times> 'v fields) list \<Rightarrow> exn + leased list" where
  "parse_messages C idle [] = Inr []"
| "parse_messages C idle ((i, f) # ms) =
     (case model_validate_json C (f_data f) of
        Inl e \<Rightarrow> Inl e
      | Inr env \<Rightarrow>
          (case parse_messages C idle ms of
             Inl e \<Rightarrow> Inl e
           | Inr ls \<Rightarrow> Inr (\<lparr>envelope = env, broker_msg_id = i, idle_ms = idle\<rparr> # ls)))"

definition lease ::
  "('s, 'v) redis \<Rightarrow> 'v codec \<Rightarrow> string \<Rightarrow> string \<Rightarrow> string \<Rightarrow> nat \<Rightarrow> 's \<Rightarrow> (exn + leased list) \<times> 's" where
  "lease R C queue grp consumer count s =
     (case r_xreadgroup R grp consumer (q_key queue) count s of
        (Inl e, s') \<Rightarrow> (Inr [], s')
      | (Inr results, s') \<Rightarrow>
          if results = [] then (Inr [], s') else (parse_messages C 0 results, s'))"

definition ack :: "('s, 'v) redis \<Rightarrow> string \<Rightarrow> string \<Rightarrow> nat list \<Rightarrow> 's \<Rightarrow> 's" where
  "ack R queue grp msg_ids s =
     (if msg_ids = [] then s else r_xack R (q_key queue) grp msg_ids s)"

text \<open>\<open>nack\<close> does nothing: an entry that is not acknowledged stays pending.\<close>

definition nack :: "string \<Rightarrow> string \<Rightarrow> nat list \<Rightarrow> 's \<Rightarrow> 's" where
  "nack queue grp msg_ids s = s"

definition reclaim ::
  "('s, 'v) redis \<Rightarrow> 'v codec \<Rightarrow> string \<Rightarrow> string \<Rightarrow> string \<Rightarrow> nat \<Rightarrow> nat \<Rightarrow> 's \<Rightarrow>
   (exn + leased list) \<times> 's" where
  "reclaim R C queue grp consumer min_idle_ms count s =
     (case r_xautoclaim R (q_key queue) grp consumer min_idle_ms count s of
        (Inl e, s') \<Rightarrow> (Inr [], s')
      | (Inr messages, s') \<Rightarrow> (parse_messages C (int min_idle_ms) messages, s'))"

definition schedule ::
  "('s, 'v) redis \<Rightarrow> 'v codec \<Rightarrow> string \<Rightarrow> task_envelope \<Rightarrow> timestamp \<Rightarrow> 's \<Rightarrow> 's" where
  "schedule R C queue e run_at s = r_zadd R (sched_key queue) (model_dump_json C e) run_at s"

definition promote_scheduled :: "('s, 'v) redis \<Rightarrow> timestamp \<Rightarrow> string \<Rightarrow> 's \<Rightarrow> nat \<times> 's" where
  "promote_scheduled R now queue s =
     promote_scheduled_lua R (sched_key queue) (q_key queue) now 100 s"

definition dead_letter ::
  "('s, 'v) redis \<Rightarrow> 'v codec \<Rightarrow> string \<Rightarrow> task_envelope \<Rightarrow> string \<Rightarrow> 's \<Rightarrow> 's" where
  "dead_letter R C queue e reason s =
     snd (r_xadd R (dlq_key queue) \<lparr>f_data = model_dump_json C e, f_reason = Some reason\<rparr> s)"

definition get_dlq_messages ::
  "('s, 'v) redis \<Rightarrow> 'v codec \<Rightarrow> string \<Rightarrow> nat \<Rightarrow> 's \<Rightarrow> exn + leased list" where
  "get_dlq_messages R C queue count s = parse_messages C 0 (r_xrange R (dlq_key queue) count s)"

definition queue_depth :: "('s, 'v) redis \<Rightarrow> string \<Rightarrow> 's \<Rightarrow> nat" where
  "queue_depth R queue s =
     (case r_xinfo_stream R (q_key queue) s of Inr n \<Rightarrow> n | Inl e \<Rightarrow> 0)"

fun find_group :: "string \<Rightarrow> (string \<times> nat) list \<Rightarrow> nat" where
  "find_group grp [] = 0"
| "find_group grp ((name, p) # gs) = (if name = grp then p else find_group grp gs)"

definition in_flight_count :: "('s, 'v) redis \<Rightarrow> string \<Rightarrow> string \<Rightarrow> 's \<Rightarrow> nat" where
  "in_flight_count R queue grp s =
     (case r_xinfo_groups R (q_key queue) s of Inr gs \<Rightarrow> find_group grp gs | Inl e \<Rightarrow> 0)"

end
