(* ===== verification/Lease_Lock.thy ===== *)
theory Lease_Lock
  imports Redis_Broker
begin

text \<open>
  What the lease scripts promise: a lock per task that expires, with fencing tokens drawn from one
  counter. The abstract \<open>lock\<close> keeps the counter and, per task, the holder, its fence and the time
  left; the scripts implement it on the string keys \<open>fence:seq\<close> and \<open>lease:<task_id>\<close>, as long as
  the counter stays below \<open>10\<^sup>1\<^sup>4\<close>, where Lua's \<open>tostring\<close> and Python's \<open>str\<close> part.
\<close>

section \<open>The abstract lock\<close>

record lock =
  lk_seq :: int
  lk_held :: "uuid \<Rightarrow> (string \<times> int \<times> nat) option"

definition lock_acquire :: "uuid \<Rightarrow> string \<Rightarrow> int \<Rightarrow> lock \<Rightarrow> int \<times> lock" where
  "lock_acquire tid w ms l =
     (if lk_held l tid = None
      then (lk_seq l + 1,
            l\<lparr>lk_seq := lk_seq l + 1, lk_held := (lk_held l)(tid \<mapsto> (w, lk_seq l + 1, nat ms))\<rparr>)
      else (0, l))"

definition owns :: "lock \<Rightarrow> uuid \<Rightarrow> string \<Rightarrow> int \<Rightarrow> bool" where
  "owns l tid w f \<longleftrightarrow> (\<exists>t. lk_held l tid = Some (w, f, t))"

definition lock_release :: "uuid \<Rightarrow> string \<Rightarrow> int \<Rightarrow> lock \<Rightarrow> int \<times> lock" where
  "lock_release tid w f l =
     (if owns l tid w f then (1, l\<lparr>lk_held := (lk_held l)(tid := None)\<rparr>) else (0, l))"

definition lock_extend :: "uuid \<Rightarrow> string \<Rightarrow> int \<Rightarrow> int \<Rightarrow> lock \<Rightarrow> int \<times> lock" where
  "lock_extend tid w f ms l =
     (if owns l tid w f then (1, l\<lparr>lk_held := (lk_held l)(tid \<mapsto> (w, f, nat ms))\<rparr>) else (0, l))"

definition lock_elapse :: "nat \<Rightarrow> lock \<Rightarrow> lock" where
  "lock_elapse d l = l\<lparr>lk_held := (\<lambda>tid. case lk_held l tid of
       None \<Rightarrow> None
     | Some (w, f, t) \<Rightarrow> if d < t then Some (w, f, t - d) else None)\<rparr>"

section \<open>Runs of lease operations\<close>

datatype lease_op =
    Acquire uuid string int
  | Release uuid string int
  | Extend uuid string int int
  | Elapse nat

fun op_ok :: "lease_op \<Rightarrow> bool" where
  "op_ok (Acquire tid w ms) = (0 < ms)"
| "op_ok (Release tid w f) = True"
| "op_ok (Extend tid w f ms) = (0 < ms)"
| "op_ok (Elapse d) = True"

fun lease_do :: "('s, 'v) redis \<Rightarrow> lease_op \<Rightarrow> 's \<Rightarrow> (exn + int) \<times> 's" where
  "lease_do R (Acquire tid w ms) s = acquire_lease R tid w ms s"
| "lease_do R (Release tid w f) s =
     (let (b, s') = release_lease R tid w f s in (Inr (of_bool b), s'))"
| "lease_do R (Extend tid w f ms) s =
     (let (b, s') = extend_lease R tid w f ms s in (Inr (of_bool b), s'))"
| "lease_do R (Elapse d) s = (Inr 0, r_elapse R d s)"

fun lease_run :: "('s, 'v) redis \<Rightarrow> lease_op list \<Rightarrow> 's \<Rightarrow> (exn + int) list \<times> 's" where
  "lease_run R [] s = ([], s)"
| "lease_run R (x # xs) s =
     (let (y, s1) = lease_do R x s; (ys, s2) = lease_run R xs s1 in (y # ys, s2))"

fun lock_do :: "lease_op \<Rightarrow> lock \<Rightarrow> int \<times> lock" where
  "lock_do (Acquire tid w ms) l = lock_acquire tid w ms l"
| "lock_do (Release tid w f) l = lock_release tid w f l"
| "lock_do (Extend tid w f ms) l = lock_extend tid w f ms l"
| "lock_do (Elapse d) l = (0, lock_elapse d l)"

fun lock_run :: "lease_op list \<Rightarrow> lock \<Rightarrow> int list \<times> lock" where
  "lock_run [] l = ([], l)"
| "lock_run (x # xs) l =
     (let (y, l1) = lock_do x l; (ys, l2) = lock_run xs l1 in (y # ys, l2))"

fun is_acquire :: "lease_op \<Rightarrow> bool" where
  "is_acquire (Acquire tid w ms) = True"
| "is_acquire _ = False"

fun acquires :: "uuid \<Rightarrow> lease_op \<Rightarrow> bool" where
  "acquires tid (Acquire t w ms) = (t = tid)"
| "acquires tid _ = False"

text \<open>The fences granted in a run to the acquisitions that satisfy \<open>P\<close>: their non-zero results.\<close>

fun granted :: "(lease_op \<Rightarrow> bool) \<Rightarrow> lease_op list \<Rightarrow> int list \<Rightarrow> int list" where
  "granted P (x # xs) (y # ys) =
     (if P x \<and> y \<noteq> 0 then y # granted P xs ys else granted P xs ys)"
| "granted P _ _ = []"

definition fence_result :: "exn + int \<Rightarrow> int" where
  "fence_result r = (case r of Inl e \<Rightarrow> 0 | Inr f \<Rightarrow> f)"

fun duration :: "lease_op \<Rightarrow> nat" where
  "duration (Elapse d) = d"
| "duration _ = 0"

text \<open>An operation by which the holder \<open>w\<close> with fence \<open>f\<close> gives up or renews its lease of \<open>tid\<close>.\<close>

fun by_holder :: "uuid \<Rightarrow> string \<Rightarrow> int \<Rightarrow> lease_op \<Rightarrow> bool" where
  "by_holder tid w f (Release t w' f') = (t = tid \<and> w' = w \<and> f' = f)"
| "by_holder tid w f (Extend t w' f' ms) = (t = tid \<and> w' = w \<and> f' = f)"
| "by_holder tid w f _ = False"

section \<open>The refinement relation\<close>

definition lock_rel :: "'v keyspace \<Rightarrow> lock \<Rightarrow> bool" where
  "lock_rel ks l \<longleftrightarrow>
     0 \<le> lk_seq l \<and>
     (case strs ks fence_key of
        None \<Rightarrow> lk_seq l = 0 | Some (v, t) \<Rightarrow> v = str_int (lk_seq l) \<and> t = None) \<and>
     (\<forall>tid. strs ks (lease_key tid) =
        map_option (\<lambda>(w, f, t). (lease_value w f, Some t)) (lk_held l tid)) \<and>
     (\<forall>tid w f t. lk_held l tid = Some (w, f, t) \<longrightarrow> 0 < f \<and> f \<le> lk_seq l)"

lemma lock_rel_ctr: "lock_rel ks l \<Longrightarrow> ctr ks fence_key = Some (lk_seq l)"
  by (auto simp: lock_rel_def ctr_def split: option.splits)

lemma lock_rel_lease:
  "lock_rel ks l \<Longrightarrow> strs ks (lease_key tid) =
     map_option (\<lambda>(w, f, t). (lease_value w f, Some t)) (lk_held l tid)"
  by (simp add: lock_rel_def)

lemma lock_rel_empty: "lock_rel empty_keyspace \<lparr>lk_seq = 0, lk_held = (\<lambda>_. None)\<rparr>"
  by (simp add: lock_rel_def empty_keyspace_def)

text \<open>
  The value that \<open>release_lease\<close> and \<open>extend_lease\<close> compare with, against the value that the
  acquiring script stored: equal only for the same worker and the same fence.
\<close>

lemma lease_value_eq: "lease_value w' f' = expected_value w f \<Longrightarrow> w' = w \<and> f' = f"
  using colon_suffix_unique [of w' "lua_tostring f'" w "str_int f"]
    lua_tostring_eq_str_int lua_tostring_no_colon str_int_no_colon
  by (auto simp: lease_value_def expected_value_def)

lemma lease_value_exact:
  "0 \<le> f \<Longrightarrow> f < 10 ^ 14 \<Longrightarrow> lease_value w f = expected_value w f"
  by (simp add: lease_value_def expected_value_def lua_tostring_exact)

lemma lock_rel_get:
  assumes "lock_rel ks l" and "lk_seq l < 10 ^ 14"
  shows "ks_get (lease_key tid) ks = Some (expected_value w f) \<longleftrightarrow> owns l tid w f"
proof
  assume "ks_get (lease_key tid) ks = Some (expected_value w f)"
  then show "owns l tid w f"
    using lock_rel_lease [OF assms(1), of tid] lease_value_eq
    by (fastforce simp: ks_get_def owns_def)
next
  assume "owns l tid w f"
  then obtain t where t: "lk_held l tid = Some (w, f, t)" by (auto simp: owns_def)
  with assms have "0 \<le> f" and "f < 10 ^ 14" by (force simp: lock_rel_def)+
  then show "ks_get (lease_key tid) ks = Some (expected_value w f)"
    using lock_rel_lease [OF assms(1), of tid] t
    by (simp add: ks_get_def lease_value_exact)
qed

section \<open>Each operation implements the lock\<close>

lemma lock_rel_acquire:
  assumes "lock_rel ks l" and "lk_held l tid = None"
  shows "lock_rel (ks_set (lease_key tid) (lease_value w (lk_seq l + 1)) (nat ms)
                    (set_ctr fence_key (lk_seq l + 1) ks))
                  (snd (lock_acquire tid w ms l))"
  using assms
  by (auto simp: lock_rel_def lock_acquire_def ks_set_def set_ctr_def split: option.splits)
     fastforce+

lemma lock_rel_undo:
  assumes "lock_rel ks l"
  shows "lock_rel (set_ctr fence_key (lk_seq l) (set_ctr fence_key n ks)) l"
  using assms by (auto simp: lock_rel_def set_ctr_def split: option.splits)

lemma lock_rel_release:
  assumes "lock_rel ks l" and "owns l tid w f"
  shows "lock_rel (ks_del (lease_key tid) ks) (snd (lock_release tid w f l))"
  using assms by (auto simp: lock_rel_def lock_release_def ks_del_def split: option.splits)

lemma lock_rel_extend:
  assumes "lock_rel ks l" and "owns l tid w f" and "0 < ms"
  shows "lock_rel (ks_pexpire (lease_key tid) ms ks) (snd (lock_extend tid w f ms l))"
  using assms
  by (auto simp: lock_rel_def lock_extend_def ks_pexpire_def ks_set_def owns_def split: option.splits)

lemma lock_rel_elapse:
  assumes "lock_rel ks l"
  shows "lock_rel (ks_elapse d ks) (lock_elapse d l)"
proof -
  have "strs (ks_elapse d ks) (lease_key tid) =
      map_option (\<lambda>(w, f, t). (lease_value w f, Some t)) (lk_held (lock_elapse d l) tid)" for tid
    using lock_rel_lease [OF assms, of tid]
    by (cases "lk_held l tid") (auto simp: ks_elapse_def lock_elapse_def elapse_str_def)
  moreover have "strs (ks_elapse d ks) fence_key = strs ks fence_key"
    using assms by (auto simp: lock_rel_def ks_elapse_def elapse_str_def split: option.splits)
  moreover have "0 < f \<and> f \<le> lk_seq l" if "lk_held (lock_elapse d l) tid = Some (w, f, t)"
    for tid w f t
    using assms that by (fastforce simp: lock_rel_def lock_elapse_def split: option.splits if_splits)
  moreover have "lk_seq (lock_elapse d l) = lk_seq l"
    by (simp add: lock_elapse_def)
  ultimately show ?thesis
    using assms by (auto simp: lock_rel_def split: option.splits)
qed

lemma lock_do_seq_le: "lk_seq (snd (lock_do x l)) \<le> lk_seq l + of_bool (is_acquire x)"
  by (cases x) (auto simp: lock_acquire_def lock_release_def lock_extend_def lock_elapse_def)

context redis_service
begin

lemma acquire_free:
  assumes "ctr (V s) fence_key = Some n" and "0 \<le> n" and "n < 2 ^ 63 - 1" and "0 < ms"
    and "strs (V s) (lease_key tid) = None"
  shows "\<exists>s'. acquire_lease R tid w ms s = (Inr (n + 1), s') \<and>
    V s' = ks_set (lease_key tid) (lease_value w (n + 1)) (nat ms) (set_ctr fence_key (n + 1) (V s))"
proof -
  obtain s1 where i: "r_incr R fence_key s = (Inr (n + 1), s1)"
    and v1: "V s1 = set_ctr fence_key (n + 1) (V s)"
    using incr_ok [OF key_types(1) assms(1) _ assms(3)] assms(2) by (cases "r_incr R fence_key s") auto
  have "strs (V s1) (lease_key tid) = None"
    using assms(5) by (simp add: v1 set_ctr_def)
  from set_nx_px_free [OF key_types(2) assms(4) this, of "lease_value w (n + 1)"]
  show ?thesis
    by (auto simp: acquire_lease_def acquire_lease_lua_def i v1 split: prod.splits sum.splits)
qed

lemma acquire_held:
  assumes "ctr (V s) fence_key = Some n" and "0 \<le> n" and "n < 2 ^ 63 - 1" and "0 < ms"
    and "strs (V s) (lease_key tid) \<noteq> None"
  shows "\<exists>s'. acquire_lease R tid w ms s = (Inr 0, s') \<and>
    V s' = set_ctr fence_key n (set_ctr fence_key (n + 1) (V s))"
proof -
  obtain s1 where i: "r_incr R fence_key s = (Inr (n + 1), s1)"
    and v1: "V s1 = set_ctr fence_key (n + 1) (V s)"
    using incr_ok [OF key_types(1) assms(1) _ assms(3)] assms(2) by (cases "r_incr R fence_key s") auto
  have "strs (V s1) (lease_key tid) \<noteq> None"
    using assms(5) by (simp add: v1 set_ctr_def)
  then obtain s2 where x: "r_set_nx_px R (lease_key tid) (lease_value w (n + 1)) ms s1 = (Inr False, s2)"
    and v2: "V s2 = V s1"
    using set_nx_px_held [OF key_types(2) assms(4)] by (metis prod.collapse)
  have "ctr (V s2) fence_key = Some (n + 1)"
    by (simp add: v2 v1 ctr_def set_ctr_def)
  moreover have "- (2 ^ 63) < n + 1" "n + 1 < 2 ^ 63" using assms(2,3) by simp_all
  ultimately have "fst (r_decr R fence_key s2) = Inr n"
    and "V (snd (r_decr R fence_key s2)) = set_ctr fence_key n (V s2)"
    using decr_ok [of fence_key s2 "n + 1"] by simp_all
  then obtain s3 where "r_decr R fence_key s2 = (Inr n, s3)" and "V s3 = set_ctr fence_key n (V s2)"
    by (cases "r_decr R fence_key s2") simp
  then show ?thesis
    by (simp add: acquire_lease_def acquire_lease_lua_def i x v1 v2)
qed

lemma lease_do_refines:
  assumes rel: "lock_rel (V s) l" and ok: "op_ok x"
    and bound: "lk_seq l + of_bool (is_acquire x) < 10 ^ 14"
  shows "fst (lease_do R x s) = Inr (fst (lock_do x l)) \<and>
         lock_rel (V (snd (lease_do R x s))) (snd (lock_do x l))"
proof (cases x)
  case (Acquire tid w ms)
  have c: "ctr (V s) fence_key = Some (lk_seq l)" using rel by (rule lock_rel_ctr)
  have n: "0 \<le> lk_seq l" "lk_seq l < 2 ^ 63 - 1"
    using rel bound by (auto simp: lock_rel_def Acquire)
  have ms: "0 < ms" using ok by (simp add: Acquire)
  show ?thesis
  proof (cases "lk_held l tid")
    case None
    then have "strs (V s) (lease_key tid) = None" by (simp add: lock_rel_lease [OF rel])
    with acquire_free [OF c n ms this, of w] None lock_rel_acquire [OF rel None, of w ms]
    show ?thesis by (auto simp: Acquire lock_acquire_def)
  next
    case (Some h)
    then have "strs (V s) (lease_key tid) \<noteq> None" by (simp add: lock_rel_lease [OF rel])
    with acquire_held [OF c n ms this, of w] Some lock_rel_undo [OF rel]
    show ?thesis by (auto simp: Acquire lock_acquire_def)
  qed
next
  case (Release tid w f)
  have "r_get R (lease_key tid) s = Some (expected_value w f) \<longleftrightarrow> owns l tid w f"
    using lock_rel_get [OF rel] bound by (simp add: get Release)
  then show ?thesis
    using rel lock_rel_release [OF rel, of tid w f]
    by (auto simp: Release release_lease_def release_lease_lua_def lock_release_def del)
next
  case (Extend tid w f ms)
  have "r_get R (lease_key tid) s = Some (expected_value w f) \<longleftrightarrow> owns l tid w f"
    using lock_rel_get [OF rel] bound by (simp add: get Extend)
  then show ?thesis
    using rel ok lock_rel_extend [OF rel, of tid w f ms]
    by (auto simp: Extend extend_lease_def extend_lease_lua_def lock_extend_def pexpire)
next
  case (Elapse d)
  then show ?thesis using rel by (simp add: elapse lock_rel_elapse)
qed

lemma lease_run_refines:
  assumes "lock_rel (V s) l" and "list_all op_ok ops"
    and "lk_seq l + int (length (filter is_acquire ops)) < 10 ^ 14"
  shows "fst (lease_run R ops s) = map Inr (fst (lock_run ops l)) \<and>
         lock_rel (V (snd (lease_run R ops s))) (snd (lock_run ops l))"
  using assms
proof (induction ops arbitrary: s l)
  case Nil
  then show ?case by simp
next
  case (Cons x xs)
  obtain y l1 where l1: "lock_do x l = (y, l1)" by fastforce
  have "lk_seq l + of_bool (is_acquire x) < 10 ^ 14"
    using Cons.prems(3) by (auto split: if_splits)
  then obtain s1 where s1: "lease_do R x s = (Inr y, s1)" and rel: "lock_rel (V s1) l1"
    using lease_do_refines [OF Cons.prems(1)] Cons.prems(2) l1
    by (cases "lease_do R x s") force
  have "lk_seq l1 \<le> lk_seq l + of_bool (is_acquire x)"
    using lock_do_seq_le [of x l] l1 by simp
  then have "lk_seq l1 + int (length (filter is_acquire xs)) < 10 ^ 14"
    using Cons.prems(3) by (auto split: if_splits)
  from Cons.IH [OF rel _ this] Cons.prems(2) show ?case
    by (auto simp: l1 s1 split: prod.splits)
qed

end

section \<open>Facts about the lock\<close>

lemma lock_do_seq:
  "lk_seq l \<le> lk_seq (snd (lock_do x l)) \<and>
   (is_acquire x \<longrightarrow> fst (lock_do x l) \<noteq> 0 \<longrightarrow>
      fst (lock_do x l) = lk_seq (snd (lock_do x l)) \<and> lk_seq l < lk_seq (snd (lock_do x l)))"
  by (cases x) (auto simp: lock_acquire_def lock_release_def lock_extend_def lock_elapse_def)

lemma lock_run_granted:
  "sorted_wrt (<) (granted is_acquire ops (fst (lock_run ops l))) \<and>
   (\<forall>f \<in> set (granted is_acquire ops (fst (lock_run ops l))). lk_seq l < f)"
proof (induction ops arbitrary: l)
  case Nil
  show ?case by simp
next
  case (Cons x xs)
  obtain y l1 where l1: "lock_do x l = (y, l1)" by fastforce
  have mono: "lk_seq l \<le> lk_seq l1" "is_acquire x \<Longrightarrow> y \<noteq> 0 \<Longrightarrow> y = lk_seq l1 \<and> lk_seq l < lk_seq l1"
    using lock_do_seq [of l x] l1 by auto
  obtain ys l2 where ys: "lock_run xs l1 = (ys, l2)" by fastforce
  have "sorted_wrt (<) (granted is_acquire xs ys)" and "\<forall>f \<in> set (granted is_acquire xs ys). lk_seq l1 < f"
    using Cons.IH [of l1] by (simp_all add: ys)
  with mono show ?case
    by (auto simp: l1 ys)
qed

lemma lock_do_held:
  assumes "lk_held l tid = Some (w, f, t)" and "\<not> by_holder tid w f x" and "duration x < t"
  shows "lk_held (snd (lock_do x l)) tid = Some (w, f, t - duration x)"
    and "acquires tid x \<Longrightarrow> fst (lock_do x l) = 0"
  using assms
  by (cases x; auto simp: lock_acquire_def lock_release_def lock_extend_def lock_elapse_def owns_def)+

lemma lock_run_held:
  assumes "lk_held l tid = Some (w, f, t)" and "list_all (\<lambda>x. \<not> by_holder tid w f x) ops"
    and "sum_list (map duration ops) < t"
  shows "lk_held (snd (lock_run ops l)) tid = Some (w, f, t - sum_list (map duration ops)) \<and>
         granted (acquires tid) ops (fst (lock_run ops l)) = []"
  using assms
proof (induction ops arbitrary: l t)
  case Nil
  then show ?case by simp
next
  case (Cons x xs)
  obtain y l1 where l1: "lock_do x l = (y, l1)" by fastforce
  have "duration x < t" using Cons.prems(3) by simp
  with lock_do_held [OF Cons.prems(1), of x] Cons.prems(2)
  have "lk_held l1 tid = Some (w, f, t - duration x)" and "acquires tid x \<Longrightarrow> y = 0"
    by (auto simp: l1)
  with Cons.IH [of l1 "t - duration x"] Cons.prems(2,3) show ?case
    by (auto simp: l1 split: prod.splits)
qed

lemma fence_result_Inr: "map fence_result (map Inr xs) = xs"
  by (induction xs) (simp_all add: fence_result_def)

section \<open>Properties\<close>

text \<open>A run used by the witnesses: two workers, one task, an expired lease.\<close>

definition demo_ops :: "lease_op list" where
  "demo_ops = [Acquire ''t'' ''a'' 100, Acquire ''t'' ''b'' 100, Elapse 150, Release ''t'' ''a'' 1,
     Acquire ''t'' ''b'' 100, Extend ''t'' ''a'' 1 100, Extend ''t'' ''b'' 2 300, Release ''t'' ''b'' 2]"

definition free_lock :: lock where
  "free_lock = \<lparr>lk_seq = 0, lk_held = (\<lambda>_. None)\<rparr>"

lemma demo_lock_run: "fst (lock_run demo_ops free_lock) = [1, 0, 0, 0, 2, 0, 1, 1]"
  by (simp add: demo_ops_def free_lock_def lock_acquire_def lock_release_def lock_extend_def
      lock_elapse_def owns_def)

text \<open>
  C8: The three lease scripts implement the abstract expiring lock with fencing tokens: from
  related states, every run of acquisitions, releases, renewals and time steps returns the results
  of the lock and ends in related states, while the fence counter stays below \<open>10\<^sup>1\<^sup>4\<close>.
\<close>

theorem lease_scripts_refine_lock:
  assumes "redis_service R V before" and "lock_rel (V s) l" and "list_all op_ok ops"
    and "lk_seq l + int (length (filter is_acquire ops)) < 10 ^ 14"
  shows "fst (lease_run R ops s) = map Inr (fst (lock_run ops l)) \<and>
         lock_rel (V (snd (lease_run R ops s))) (snd (lock_run ops l))"
  using redis_service.lease_run_refines [OF assms] .

theorem lease_scripts_refine_lock_witness:
  "fst (lease_run ref_redis demo_ops (empty_keyspace :: nat keyspace)) =
     map Inr [1, 0, 0, 0, 2, 0, 1, 1]"
proof -
  have "lock_rel (id (empty_keyspace :: nat keyspace)) free_lock"
    by (simp add: lock_rel_empty free_lock_def)
  from lease_scripts_refine_lock [OF ref_redis_service this, of demo_ops] demo_lock_run
  show ?thesis by (simp add: demo_ops_def free_lock_def)
qed

text \<open>
  A worker can neither release nor renew a lease that it does not hold: against a lease granted
  to another worker, or to the same worker under another fence, both calls return false and leave
  the server as it was, for every fence and whatever characters the worker ids contain.
\<close>

lemma release_and_extend_only_by_owner:
  assumes "redis_service R V before"
    and "strs (V s) (lease_key tid) = Some (lease_value w' f', t)" and "(w, f) \<noteq> (w', f')"
  shows "release_lease R tid w f s = (False, s) \<and> extend_lease R tid w f ms s = (False, s)"
proof -
  have "r_get R (lease_key tid) s = Some (lease_value w' f')"
    using redis_service.get [OF assms(1)] assms(2) by (simp add: ks_get_def)
  moreover have "lease_value w' f' \<noteq> expected_value w f"
    using lease_value_eq assms(3) by auto
  ultimately show ?thesis
    by (simp add: release_lease_def release_lease_lua_def extend_lease_def extend_lease_lua_def)
qed

end
