(* ===== verification/Repository.thy ===== *)
theory Repository
  imports Postgres_Service
begin

text \<open>
  \<open>dtq/store/repository.py\<close>: the operations of \<open>TaskRepository\<close> as transactions over any database
  \<open>P\<close>, and what they promise. A transaction takes the state of the database as the session sees it
  and returns an exception, or a result and the changed state; \<open>run_tx\<close> is a session that commits
  it, or rolls it back when it raises. Transactions are taken one after the other: a concurrent one
  that wins a race on the same key makes the later one raise \<open>IntegrityError\<close>, which any statement
  of the model may do.
\<close>

section \<open>Transactions\<close>

type_synonym ('d, 'a) tx = "'d \<Rightarrow> exn + 'a \<times> 'd"

definition tx_return :: "'a \<Rightarrow> ('d, 'a) tx" where [tx_defs]:
  "tx_return a = (\<lambda>d. Inr (a, d))"

definition tx_raise :: "exn \<Rightarrow> ('d, 'a) tx" where [tx_defs]:
  "tx_raise e = (\<lambda>d. Inl e)"

definition tx_bind :: "('d, 'a) tx \<Rightarrow> ('a \<Rightarrow> ('d, 'b) tx) \<Rightarrow> ('d, 'b) tx" where [tx_defs]:
  "tx_bind t f = (\<lambda>d. case t d of Inl e \<Rightarrow> Inl e | Inr (a, d') \<Rightarrow> f a d')"

definition tx_query :: "('d \<Rightarrow> exn + 'a) \<Rightarrow> ('d, 'a) tx" where [tx_defs]:
  "tx_query q = (\<lambda>d. case q d of Inl e \<Rightarrow> Inl e | Inr a \<Rightarrow> Inr (a, d))"

definition tx_exec :: "('d \<Rightarrow> exn + 'd) \<Rightarrow> ('d, unit) tx" where [tx_defs]:
  "tx_exec q = (\<lambda>d. case q d of Inl e \<Rightarrow> Inl e | Inr d' \<Rightarrow> Inr ((), d'))"

definition tx_update :: "('d \<Rightarrow> exn + nat \<times> 'd) \<Rightarrow> ('d, nat) tx" where [tx_defs]:
  "tx_update q = q"

text \<open>
  \<open>async with async_session_factory() as session: ...; await session.commit()\<close>: what the block
  raises is raised after the rollback, and so is what the commit raises.
\<close>

definition run_tx :: "'d postgres \<Rightarrow> ('d, 'a) tx \<Rightarrow> 'd \<Rightarrow> (exn + 'a) \<times> 'd" where
  "run_tx P t d =
     (case t d of
        Inl e \<Rightarrow> (Inl e, d)
      | Inr (a, d') \<Rightarrow>
          (case pg_commit P d d' of
             (Inl e, d'') \<Rightarrow> (Inl e, d'')
           | (Inr _, d'') \<Rightarrow> (Inr a, d'')))"

text \<open>A session that is closed without a commit, as the read-only handlers use it.\<close>

definition read_tx :: "('d, 'a) tx \<Rightarrow> 'd \<Rightarrow> exn + 'a" where
  "read_tx t d = (case t d of Inl e \<Rightarrow> Inl e | Inr (a, d') \<Rightarrow> Inr a)"

text \<open>
  \<open>dtq/store/database.py\<close>: what the engine is created with, and \<open>get_session\<close>, whose session is closed when the
  caller is done, without a commit of its own.
\<close>

record engine_options =
  eo_url :: string
  eo_pool_size :: nat
  eo_max_overflow :: nat
  eo_pool_pre_ping :: bool
  eo_echo :: bool

definition db_engine :: "settings \<Rightarrow> engine_options" where
  "db_engine cfg = \<lparr>eo_url = cfg_database_url cfg, eo_pool_size = 20, eo_max_overflow = 10, eo_pool_pre_ping = True, eo_echo = False\<rparr>"

definition get_session :: "('d, 'a) tx \<Rightarrow> 'd \<Rightarrow> (exn + 'a) \<times> 'd" where
  "get_session t d = (read_tx t d, d)"

text \<open>SQLAlchemy's \<open>Result.scalar_one_or_none\<close>.\<close>

fun scalar_one_or_none :: "'r list \<Rightarrow> ('d, 'r option) tx" where
  "scalar_one_or_none [] = tx_return None"
| "scalar_one_or_none [r] = tx_return (Some r)"
| "scalar_one_or_none (r # r' # rs) =
     tx_raise (MultipleResultsFound ''Multiple rows were found when one or none was required'')"

section \<open>Tasks\<close>

definition create_task ::
  "'d postgres \<Rightarrow> timestamp \<Rightarrow> uuid \<Rightarrow> string \<Rightarrow> string \<Rightarrow> json \<Rightarrow> string option \<Rightarrow> int \<Rightarrow> int \<Rightarrow>
   timestamp option \<Rightarrow> uuid option \<Rightarrow> string option \<Rightarrow> ('d, task_row \<times> bool) tx" where
  "create_task P now task_id queue task_name payload dedup_key priority max_attempts run_at
     workflow_id step_name =
   (let task = \<lparr>tr_id = task_id, tr_queue = queue, tr_task_name = task_name, tr_payload = payload,
          tr_state = (if run_at = None then PENDING else SCHEDULED), tr_priority = priority,
          tr_attempt = 0, tr_max_attempts = max_attempts, tr_dedup_key = dedup_key,
          tr_run_at = run_at, tr_workflow_id = workflow_id, tr_step_name = step_name,
          tr_created_at = now, tr_updated_at = now\<rparr>;
        add = tx_bind (tx_exec (ins_task P task)) (\<lambda>_. tx_return (task, False))
    in if dedup_key \<noteq> None \<and> dedup_key \<noteq> Some []
       then tx_bind (tx_query (sel_tasks P (\<lambda>r. tr_queue r = queue \<and> tr_dedup_key r = dedup_key)))
              (\<lambda>rows. tx_bind (scalar_one_or_none rows)
                (\<lambda>row. case row of Some r \<Rightarrow> tx_return (r, True) | None \<Rightarrow> add))
       else add)"

definition get_task :: "'d postgres \<Rightarrow> uuid \<Rightarrow> ('d, task_row) tx" where
  "get_task P task_id =
     tx_bind (tx_query (sel_tasks P (\<lambda>r. tr_id r = task_id)))
       (\<lambda>rows. tx_bind (scalar_one_or_none rows)
         (\<lambda>row. case row of
            None \<Rightarrow> tx_raise (Dtq TaskNotFoundError (''Task '' @ task_id @ '' not found''))
          | Some r \<Rightarrow> tx_return r))"

definition update_task_state ::
  "'d postgres \<Rightarrow> timestamp \<Rightarrow> uuid \<Rightarrow> task_state \<Rightarrow> int option \<Rightarrow> ('d, unit) tx" where
  "update_task_state P now task_id state attempt =
     tx_bind (tx_update (upd_tasks P (\<lambda>r. tr_id r = task_id)
         (\<lambda>r. let r' = r\<lparr>tr_state := state, tr_updated_at := now\<rparr>
              in case attempt of None \<Rightarrow> r' | Some a \<Rightarrow> r'\<lparr>tr_attempt := a\<rparr>)))
       (\<lambda>_. tx_return ())"

definition cancel_task :: "'d postgres \<Rightarrow> timestamp \<Rightarrow> uuid \<Rightarrow> ('d, bool) tx" where
  "cancel_task P now task_id =
     tx_bind (tx_update (upd_tasks P (\<lambda>r. tr_id r = task_id \<and> tr_state r \<in> {PENDING, SCHEDULED})
         (\<lambda>r. r\<lparr>tr_state := CANCELLED, tr_updated_at := now\<rparr>)))
       (\<lambda>rowcount. tx_return (rowcount > 0))"

section \<open>Attempts\<close>

definition create_attempt ::
  "'d postgres \<Rightarrow> timestamp \<Rightarrow> uuid \<Rightarrow> int \<Rightarrow> string \<Rightarrow> int \<Rightarrow> ('d, attempt_row) tx" where
  "create_attempt P now task_id attempt_no worker_id fence =
     (let attempt = \<lparr>ar_task_id = task_id, ar_attempt_no = attempt_no, ar_worker_id = worker_id,
            ar_fence = fence, ar_started_at = now, ar_finished_at = None, ar_outcome = None,
            ar_error_type = None, ar_error_repr = None\<rparr>
      in tx_bind (tx_exec (ins_attempt P attempt)) (\<lambda>_. tx_return attempt))"

definition close_attempt ::
  "'d postgres \<Rightarrow> timestamp \<Rightarrow> uuid \<Rightarrow> int \<Rightarrow> string \<Rightarrow> string option \<Rightarrow> string option \<Rightarrow> ('d, unit) tx" where
  "close_attempt P now task_id attempt_no outcome error_type error_repr =
     tx_bind (tx_update (upd_attempts P (\<lambda>r. ar_task_id r = task_id \<and> ar_attempt_no r = attempt_no)
         (\<lambda>r. r\<lparr>ar_finished_at := Some now, ar_outcome := Some outcome,
               ar_error_type := error_type, ar_error_repr := error_repr\<rparr>)))
       (\<lambda>_. tx_return ())"

definition get_attempts :: "'d postgres \<Rightarrow> uuid \<Rightarrow> ('d, attempt_row list) tx" where
  "get_attempts P task_id =
     tx_bind (tx_query (sel_attempts P (\<lambda>r. ar_task_id r = task_id)))
       (\<lambda>rows. tx_return (sort_key ar_attempt_no rows))"

section \<open>Effects\<close>

definition commit_effect ::
  "'d postgres \<Rightarrow> timestamp \<Rightarrow> string \<Rightarrow> uuid \<Rightarrow> int \<Rightarrow> json option \<Rightarrow> ('d, bool) tx" where
  "commit_effect P now dedup_key task_id fence result =
     tx_bind (tx_query (sel_effects P (\<lambda>r. er_dedup_key r = dedup_key)))
       (\<lambda>rows. tx_bind (scalar_one_or_none rows)
         (\<lambda>existing. case existing of
            Some row \<Rightarrow>
              if er_fence row > fence
              then tx_raise (Dtq FenceRejectedError
                     (''Effect for '' @ dedup_key @ '' already committed with higher fence '' @
                      str_int (er_fence row) @ '' > '' @ str_int fence @
                      ''. This worker is a zombie.''))
              else tx_return False
          | None \<Rightarrow>
              tx_bind (tx_exec (ins_effect P \<lparr>er_dedup_key = dedup_key, er_task_id = task_id,
                  er_fence = fence, er_result = result, er_committed_at = now\<rparr>))
                (\<lambda>_. tx_return True)))"

definition get_effect :: "'d postgres \<Rightarrow> string \<Rightarrow> ('d, effect_row option) tx" where
  "get_effect P dedup_key =
     tx_bind (tx_query (sel_effects P (\<lambda>r. er_dedup_key r = dedup_key))) scalar_one_or_none"

section \<open>Workflows and queries\<close>

definition create_workflow ::
  "'d postgres \<Rightarrow> timestamp \<Rightarrow> uuid \<Rightarrow> string \<Rightarrow> string \<times> wf_step list \<Rightarrow> ('d, workflow_row) tx" where
  "create_workflow P now workflow_id name spec =
     (let wf = \<lparr>wr_id = workflow_id, wr_name = name, wr_spec = spec, wr_state = ''running'',
            wr_created_at = now\<rparr>
      in tx_bind (tx_exec (ins_workflow P wf)) (\<lambda>_. tx_return wf))"

definition get_workflow :: "'d postgres \<Rightarrow> uuid \<Rightarrow> ('d, workflow_row option) tx" where
  "get_workflow P workflow_id =
     tx_bind (tx_query (sel_workflows P (\<lambda>r. wr_id r = workflow_id))) scalar_one_or_none"

definition update_workflow_state :: "'d postgres \<Rightarrow> uuid \<Rightarrow> string \<Rightarrow> ('d, unit) tx" where
  "update_workflow_state P workflow_id state =
     tx_bind (tx_update (upd_workflows P (\<lambda>r. wr_id r = workflow_id) (\<lambda>r. r\<lparr>wr_state := state\<rparr>)))
       (\<lambda>_. tx_return ())"

definition get_tasks_for_workflow :: "'d postgres \<Rightarrow> uuid \<Rightarrow> ('d, task_row list) tx" where
  "get_tasks_for_workflow P workflow_id =
     tx_query (sel_tasks P (\<lambda>r. tr_workflow_id r = Some workflow_id))"

text \<open>\<open>ORDER BY priority DESC, created_at\<close> as two stable sorts, then \<open>LIMIT\<close>.\<close>

definition get_tasks_by_state ::
  "'d postgres \<Rightarrow> string \<Rightarrow> task_state \<Rightarrow> nat \<Rightarrow> ('d, task_row list) tx" where
  "get_tasks_by_state P queue state limit =
     tx_bind (tx_query (sel_tasks P (\<lambda>r. tr_queue r = queue \<and> tr_state r = state)))
       (\<lambda>rows. tx_return (take limit (sort_key (\<lambda>r. - tr_priority r) (sort_key tr_created_at rows))))"

definition count_by_state :: "'d postgres \<Rightarrow> string \<Rightarrow> ('d, (task_state \<times> nat) list) tx" where
  "count_by_state P queue =
     tx_bind (tx_query (sel_tasks P (\<lambda>r. tr_queue r = queue)))
       (\<lambda>rows. tx_return (map (\<lambda>st. (st, length (filter (\<lambda>r. tr_state r = st) rows)))
                             (remdups (map tr_state rows))))"

end
