(* ===== verification/Store_Contract.thy ===== *)
theory Store_Contract
  imports Repository
begin

text \<open>
  What \<open>dtq/store\<close> promises its callers. The relation \<open>evolves\<close> between two states of the database
  says what every transaction keeps: rows are never deleted, effects are never changed, tasks,
  attempts and workflows keep their identity, and the constraints hold. The locale \<open>history\<close> has the
  rules by which a transaction built from statements that keep a relation keeps it too; then
  follow the exact results of the operations that the protocol rests on.
\<close>

section \<open>Histories\<close>

definition tx_keeps :: "('d \<Rightarrow> 'b) \<Rightarrow> ('b \<Rightarrow> 'b \<Rightarrow> bool) \<Rightarrow> ('d, 'a) tx \<Rightarrow> bool" where
  "tx_keeps D G t \<longleftrightarrow> (\<forall>d a d'. t d = Inr (a, d') \<longrightarrow> G (D d) (D d'))"

lemma tx_keepsD: "tx_keeps D G t \<Longrightarrow> t d = Inr (a, d') \<Longrightarrow> G (D d) (D d')"
  by (simp add: tx_keeps_def)

locale history =
  fixes D :: "'d \<Rightarrow> 'b" and G :: "'b \<Rightarrow> 'b \<Rightarrow> bool"
  assumes G_refl: "G b b" and G_trans: "G a b \<Longrightarrow> G b c \<Longrightarrow> G a c"
begin

lemma keeps_return [tx_keeps_intros]: "tx_keeps D G (tx_return a)"
  by (simp add: tx_keeps_def tx_return_def G_refl)

lemma keeps_raise [tx_keeps_intros]: "tx_keeps D G (tx_raise e)"
  by (simp add: tx_keeps_def tx_raise_def)

lemma keeps_query [tx_keeps_intros]: "tx_keeps D G (tx_query q)"
  by (auto simp: tx_keeps_def tx_query_def G_refl split: sum.splits)

lemma keeps_one [tx_keeps_intros]: "tx_keeps D G (scalar_one_or_none rows)"
  by (cases rows rule: scalar_one_or_none.cases) (auto intro: keeps_return keeps_raise)

lemma keeps_option [tx_keeps_intros]:
  "tx_keeps D G t \<Longrightarrow> (\<And>a. tx_keeps D G (f a)) \<Longrightarrow> tx_keeps D G (case x of None \<Rightarrow> t | Some a \<Rightarrow> f a)"
  by (simp split: option.split)

lemma keeps_if [tx_keeps_intros]:
  "tx_keeps D G t \<Longrightarrow> tx_keeps D G t' \<Longrightarrow> tx_keeps D G (if b then t else t')"
  by simp

lemma keeps_bind [tx_keeps_intros]:
  assumes "tx_keeps D G t" and "\<And>a. tx_keeps D G (f a)"
  shows "tx_keeps D G (tx_bind t f)"
  unfolding tx_keeps_def
proof (intro allI impI)
  fix d b d' assume "tx_bind t f d = Inr (b, d')"
  then obtain a d1 where "t d = Inr (a, d1)" and "f a d1 = Inr (b, d')"
    by (auto simp: tx_bind_def split: sum.splits)
  then show "G (D d) (D d')"
    using assms by (meson G_trans tx_keepsD)
qed

end

section \<open>How the database evolves\<close>

definition task_evolves :: "task_row \<Rightarrow> task_row \<Rightarrow> bool" where
  "task_evolves r r' \<longleftrightarrow> tr_id r' = tr_id r \<and> tr_queue r' = tr_queue r \<and>
     tr_task_name r' = tr_task_name r \<and> tr_payload r' = tr_payload r \<and>
     tr_priority r' = tr_priority r \<and> tr_max_attempts r' = tr_max_attempts r \<and>
     tr_dedup_key r' = tr_dedup_key r \<and> tr_run_at r' = tr_run_at r \<and>
     tr_workflow_id r' = tr_workflow_id r \<and> tr_step_name r' = tr_step_name r \<and>
     tr_created_at r' = tr_created_at r"

definition attempt_evolves :: "attempt_row \<Rightarrow> attempt_row \<Rightarrow> bool" where
  "attempt_evolves r r' \<longleftrightarrow> ar_task_id r' = ar_task_id r \<and> ar_attempt_no r' = ar_attempt_no r \<and>
     ar_worker_id r' = ar_worker_id r \<and> ar_fence r' = ar_fence r \<and>
     ar_started_at r' = ar_started_at r"

definition workflow_evolves :: "workflow_row \<Rightarrow> workflow_row \<Rightarrow> bool" where
  "workflow_evolves r r' \<longleftrightarrow> wr_id r' = wr_id r \<and> wr_name r' = wr_name r \<and> wr_spec r' = wr_spec r \<and>
     wr_created_at r' = wr_created_at r"

definition rows_evolve :: "('r \<Rightarrow> 'r \<Rightarrow> bool) \<Rightarrow> ('k \<Rightarrow> 'r option) \<Rightarrow> ('k \<Rightarrow> 'r option) \<Rightarrow> bool" where
  "rows_evolve E m m' \<longleftrightarrow> (\<forall>k r. m k = Some r \<longrightarrow> (\<exists>r'. m' k = Some r' \<and> E r r'))"

text \<open>The unique index on \<open>(queue, dedup_key)\<close> and the two foreign keys.\<close>

definition db_wf :: "db \<Rightarrow> bool" where
  "db_wf b \<longleftrightarrow>
     (\<forall>i j r r'. tasks b i = Some r \<longrightarrow> tasks b j = Some r' \<longrightarrow> dedup_clash r r' \<longrightarrow> i = j) \<and>
     (\<forall>i n r. attempts b (i, n) = Some r \<longrightarrow> tasks b i \<noteq> None) \<and>
     (\<forall>i r w. tasks b i = Some r \<longrightarrow> tr_workflow_id r = Some w \<longrightarrow> workflows b w \<noteq> None)"

definition evolves :: "db \<Rightarrow> db \<Rightarrow> bool" where
  "evolves b b' \<longleftrightarrow>
     rows_evolve task_evolves (tasks b) (tasks b') \<and>
     rows_evolve attempt_evolves (attempts b) (attempts b') \<and>
     effects b \<subseteq>\<^sub>m effects b' \<and>
     rows_evolve workflow_evolves (workflows b) (workflows b') \<and>
     (db_wf b \<longrightarrow> db_wf b')"

lemma row_evolves_refl [simp]: "task_evolves t t" "attempt_evolves a a" "workflow_evolves w w"
  by (simp_all add: task_evolves_def attempt_evolves_def workflow_evolves_def)

lemma row_evolves_trans:
  "task_evolves t t' \<Longrightarrow> task_evolves t' t'' \<Longrightarrow> task_evolves t t''"
  "attempt_evolves a a' \<Longrightarrow> attempt_evolves a' a'' \<Longrightarrow> attempt_evolves a a''"
  "workflow_evolves w w' \<Longrightarrow> workflow_evolves w' w'' \<Longrightarrow> workflow_evolves w w''"
  by (simp_all add: task_evolves_def attempt_evolves_def workflow_evolves_def)

lemma rows_evolve_refl: "(\<And>r. E r r) \<Longrightarrow> rows_evolve E m m"
  by (simp add: rows_evolve_def)

lemma rows_evolve_trans:
  assumes "\<And>r r' r''. E r r' \<Longrightarrow> E r' r'' \<Longrightarrow> E r r''" and "rows_evolve E a b" and "rows_evolve E b c"
  shows "rows_evolve E a c"
  using assms unfolding rows_evolve_def by meson

lemma evolves_refl [simp]: "evolves b b"
  by (simp add: evolves_def rows_evolve_refl)

lemma evolves_trans: "evolves a b \<Longrightarrow> evolves b c \<Longrightarrow> evolves a c"
  unfolding evolves_def
  by (meson map_le_trans row_evolves_trans rows_evolve_trans)

lemma rows_evolve_insert: "m k = None \<Longrightarrow> (\<And>r. E r r) \<Longrightarrow> rows_evolve E m (m(k \<mapsto> r))"
  by (auto simp: rows_evolve_def)

lemma rows_evolve_update:
  "(\<And>r. E r (f r)) \<Longrightarrow> (\<And>r. E r r) \<Longrightarrow> rows_evolve E m (upd_map p f m)"
  by (auto simp: rows_evolve_def upd_map_def)

lemma map_le_insert: "m k = None \<Longrightarrow> m \<subseteq>\<^sub>m m(k \<mapsto> v)"
  by (auto simp: map_le_def dom_def)

lemma rows_evolveE:
  assumes "rows_evolve E m m'" and "m k = Some r"
  obtains r' where "m' k = Some r'" and "E r r'"
  using assms by (auto simp: rows_evolve_def)

lemmas evolves_effects = evolves_def [THEN iffD1, THEN conjunct2, THEN conjunct2, THEN conjunct1]

lemma evolves_effect: "evolves b b' \<Longrightarrow> effects b k = Some e \<Longrightarrow> effects b' k = Some e"
  by (metis domI evolves_effects map_le_def)

lemma evolves_task:
  assumes "evolves b b'" and "tasks b i = Some t"
  obtains t' where "tasks b' i = Some t'" and "task_evolves t t'"
  using assms by (auto simp: evolves_def elim: rows_evolveE)

subsection \<open>Inserts and updates\<close>

lemma evolves_ins_task:
  assumes "task_ok b t"
  shows "evolves b (b\<lparr>tasks := (tasks b)(tr_id t \<mapsto> t)\<rparr>)"
proof -
  have free: "tasks b (tr_id t) = None"
    and nodup: "\<And>r. r \<in> ran (tasks b) \<Longrightarrow> \<not> dedup_clash t r"
    and fk: "\<And>w. tr_workflow_id t = Some w \<Longrightarrow> workflows b w \<noteq> None"
    using assms by (auto simp: task_ok_def)
  have "\<And>i r. tasks b i = Some r \<Longrightarrow> \<not> dedup_clash r t"
    using nodup by (force simp: dedup_clash_def ran_def)
  moreover have "\<And>i r. tasks b i = Some r \<Longrightarrow> \<not> dedup_clash t r"
    using nodup by (auto simp: ran_def)
  ultimately have "db_wf b \<Longrightarrow> db_wf (b\<lparr>tasks := (tasks b)(tr_id t \<mapsto> t)\<rparr>)"
    using fk unfolding db_wf_def by (auto split: if_splits)
  then show ?thesis
    by (simp add: evolves_def rows_evolve_refl rows_evolve_insert free)
qed

lemma evolves_ins_attempt:
  "attempt_ok b a \<Longrightarrow> evolves b (b\<lparr>attempts := (attempts b)(attempt_key a \<mapsto> a)\<rparr>)"
  by (auto simp: evolves_def rows_evolve_refl rows_evolve_insert attempt_ok_def db_wf_def attempt_key_def)
    blast

lemma evolves_ins_effect:
  "effect_ok b e \<Longrightarrow> evolves b (b\<lparr>effects := (effects b)(er_dedup_key e \<mapsto> e)\<rparr>)"
  by (simp add: evolves_def rows_evolve_refl map_le_insert effect_ok_def db_wf_def)

lemma evolves_ins_workflow:
  "workflow_ok b w \<Longrightarrow> evolves b (b\<lparr>workflows := (workflows b)(wr_id w \<mapsto> w)\<rparr>)"
  by (auto simp: evolves_def rows_evolve_refl rows_evolve_insert workflow_ok_def db_wf_def)

lemma evolves_upd_tasks:
  assumes "\<And>r. task_evolves r (f r)"
  shows "evolves b (b\<lparr>tasks := upd_map p f (tasks b)\<rparr>)"
proof -
  have same: "tr_queue (f r) = tr_queue r" "tr_dedup_key (f r) = tr_dedup_key r"
      "tr_workflow_id (f r) = tr_workflow_id r" for r
    using assms [of r] by (simp_all add: task_evolves_def)
  have "db_wf b \<Longrightarrow> db_wf (b\<lparr>tasks := upd_map p f (tasks b)\<rparr>)"
    unfolding db_wf_def by (auto simp: upd_map_def dedup_clash_def same split: if_splits)
  then show ?thesis
    by (simp add: evolves_def rows_evolve_refl rows_evolve_update assms)
qed

lemma evolves_upd_attempts:
  "(\<And>r. attempt_evolves r (f r)) \<Longrightarrow> evolves b (b\<lparr>attempts := upd_map p f (attempts b)\<rparr>)"
  by (simp add: evolves_def rows_evolve_refl rows_evolve_update db_wf_def) (auto simp: upd_map_def)

lemma evolves_upd_workflows:
  "(\<And>r. workflow_evolves r (f r)) \<Longrightarrow> evolves b (b\<lparr>workflows := upd_map p f (workflows b)\<rparr>)"
  by (simp add: evolves_def rows_evolve_refl rows_evolve_update db_wf_def) (auto simp: upd_map_def)

section \<open>Transactions keep the history\<close>

interpretation dbh: history "D :: 'd \<Rightarrow> db" evolves for D
  by unfold_locales (auto intro: evolves_trans)

lemma one_row:
  assumes "distinct (map key xs)" and "set xs = {r \<in> ran m. key r = k}"
    and "\<And>i r. m i = Some r \<Longrightarrow> key r = i"
  shows "xs = (case m k of None \<Rightarrow> [] | Some r \<Rightarrow> [r])"
proof (cases "m k")
  case None
  with assms(2,3) have "set xs = {}" by (auto simp: ran_def)
  with None show ?thesis by simp
next
  case (Some r)
  with assms(2,3) have "set xs = {r}" by (auto simp: ran_def)
  moreover have "distinct xs" using assms(1) by (simp add: distinct_map)
  ultimately have "xs = [r]"
    by (cases xs) (auto simp: subset_singleton_iff)
  with Some show ?thesis by simp
qed

lemma one_or_none_row:
  "scalar_one_or_none (case x of None \<Rightarrow> [] | Some r \<Rightarrow> [r]) = tx_return x"
  by (cases x) simp_all

context postgres_service
begin

lemma keeps_ins [tx_keeps_intros]:
  "tx_keeps D evolves (tx_exec (ins_task P t))"
  "tx_keeps D evolves (tx_exec (ins_attempt P a))"
  "tx_keeps D evolves (tx_exec (ins_effect P e))"
  "tx_keeps D evolves (tx_exec (ins_workflow P w))"
  by (auto simp: tx_keeps_def tx_exec_def split: sum.splits dest!: ins_task ins_attempt ins_effect
      ins_workflow intro: evolves_ins_task evolves_ins_attempt evolves_ins_effect evolves_ins_workflow)

lemma keeps_upd_tasks [tx_keeps_intros]:
  assumes "\<And>r. task_evolves r (f r)"
  shows "tx_keeps D evolves (tx_update (upd_tasks P p f))"
proof -
  have "tr_id (f r) = tr_id r" for r using assms by (simp add: task_evolves_def)
  then show ?thesis
    by (auto simp: tx_keeps_def tx_update_def dest!: upd_tasks intro!: evolves_upd_tasks [OF assms])
qed

lemma keeps_upd_attempts [tx_keeps_intros]:
  assumes "\<And>r. attempt_evolves r (f r)"
  shows "tx_keeps D evolves (tx_update (upd_attempts P p f))"
proof -
  have "attempt_key (f r) = attempt_key r" for r
    using assms by (simp add: attempt_evolves_def attempt_key_def)
  then show ?thesis
    by (auto simp: tx_keeps_def tx_update_def dest!: upd_attempts intro!: evolves_upd_attempts [OF assms])
qed

lemma keeps_upd_workflows [tx_keeps_intros]:
  assumes "\<And>r. workflow_evolves r (f r)"
  shows "tx_keeps D evolves (tx_update (upd_workflows P p f))"
proof -
  have "wr_id (f r) = wr_id r" for r using assms by (simp add: workflow_evolves_def)
  then show ?thesis
    by (auto simp: tx_keeps_def tx_update_def dest!: upd_workflows intro!: evolves_upd_workflows [OF assms])
qed

lemma keeps_create_task [tx_keeps_intros]:
  "tx_keeps D evolves (create_task P now i q n pl dk pr mx ra w st)"
  unfolding create_task_def Let_def by (intro tx_keeps_intros)

lemma keeps_update_task_state [tx_keeps_intros]:
  "tx_keeps D evolves (update_task_state P now i st a)"
  unfolding update_task_state_def Let_def
  by (intro tx_keeps_intros) (simp add: task_evolves_def split: option.split)

lemma keeps_cancel_task [tx_keeps_intros]: "tx_keeps D evolves (cancel_task P now i)"
  unfolding cancel_task_def by (intro tx_keeps_intros) (simp add: task_evolves_def)

lemma keeps_create_attempt [tx_keeps_intros]: "tx_keeps D evolves (create_attempt P now i n w f)"
  unfolding create_attempt_def Let_def by (intro tx_keeps_intros)

lemma keeps_close_attempt [tx_keeps_intros]: "tx_keeps D evolves (close_attempt P now i n oc et er)"
  unfolding close_attempt_def by (intro tx_keeps_intros) (simp add: attempt_evolves_def)

lemma keeps_commit_effect [tx_keeps_intros]: "tx_keeps D evolves (commit_effect P now k i f res)"
  unfolding commit_effect_def by (intro tx_keeps_intros)

lemma keeps_create_workflow [tx_keeps_intros]: "tx_keeps D evolves (create_workflow P now i n sp)"
  unfolding create_workflow_def Let_def by (intro tx_keeps_intros)

lemma keeps_update_workflow_state [tx_keeps_intros]:
  "tx_keeps D evolves (update_workflow_state P i st)"
  unfolding update_workflow_state_def by (intro tx_keeps_intros) (simp add: workflow_evolves_def)

lemma keeps_reads [tx_keeps_intros]:
  "tx_keeps D evolves (get_task P i)" "tx_keeps D evolves (get_attempts P i)"
  "tx_keeps D evolves (get_effect P k)" "tx_keeps D evolves (get_workflow P i)"
  "tx_keeps D evolves (get_tasks_for_workflow P i)"
  "tx_keeps D evolves (get_tasks_by_state P q st lim0)" "tx_keeps D evolves (count_by_state P q)"
  unfolding get_task_def get_attempts_def get_effect_def get_workflow_def
    get_tasks_for_workflow_def get_tasks_by_state_def count_by_state_def
  by (intro tx_keeps_intros)+

lemma run_tx_keeps:
  assumes "history G" and "tx_keeps D G t"
  shows "G (D d) (D (snd (run_tx P t d)))"
proof (cases "t d")
  case (Inr r)
  obtain a d' where r: "r = (a, d')" by (cases r)
  obtain c d'' where c: "pg_commit P d d' = (c, d'')" by (cases "pg_commit P d d'")
  then have "D d'' = D d \<or> D d'' = D d'"
    using commit_ok commit_raised by (cases c) auto
  then show ?thesis
    using Inr r c assms by (auto simp: run_tx_def history_def tx_keeps_def split: sum.splits)
qed (use assms in \<open>simp add: run_tx_def history_def\<close>)

lemmas run_tx_evolves = run_tx_keeps [OF dbh.history_axioms]

lemma run_tx_Inr:
  assumes "fst (run_tx P t d) = Inr a"
  obtains d' where "t d = Inr (a, d')" and "D (snd (run_tx P t d)) = D d'"
proof -
  obtain d' d'' u where "t d = Inr (a, d')" and c: "pg_commit P d d' = (Inr u, d'')"
      and "snd (run_tx P t d) = d''"
    using assms by (auto simp: run_tx_def split: sum.splits prod.splits)
  with commit_ok [OF c] that show ?thesis by simp
qed

subsection \<open>Results of the operations\<close>

lemma effect_rows:
  "sel_effects P (\<lambda>r. er_dedup_key r = k) d = Inr rows \<Longrightarrow>
   rows = (case effects (D d) k of None \<Rightarrow> [] | Some r \<Rightarrow> [r])"
  using sel_effects keyed(3) by (intro one_row [where key = er_dedup_key]) auto

lemma task_rows:
  "sel_tasks P (\<lambda>r. tr_id r = i) d = Inr rows \<Longrightarrow>
   rows = (case tasks (D d) i of None \<Rightarrow> [] | Some r \<Rightarrow> [r])"
  using sel_tasks keyed(1) by (intro one_row [where key = tr_id]) auto

lemma workflow_rows:
  "sel_workflows P (\<lambda>r. wr_id r = i) d = Inr rows \<Longrightarrow>
   rows = (case workflows (D d) i of None \<Rightarrow> [] | Some r \<Rightarrow> [r])"
  using sel_workflows keyed(4) by (intro one_row [where key = wr_id]) auto

lemma commit_effect_cases:
  assumes "commit_effect P now k i f res d = Inr (b, d')"
  shows "case effects (D d) k of
      None \<Rightarrow> b \<and> D d' = (D d)\<lparr>effects := (effects (D d))(k \<mapsto>
        \<lparr>er_dedup_key = k, er_task_id = i, er_fence = f, er_result = res, er_committed_at = now\<rparr>)\<rparr>
    | Some row \<Rightarrow> \<not> b \<and> er_fence row \<le> f \<and> d' = d"
proof -
  obtain rows where "sel_effects P (\<lambda>r. er_dedup_key r = k) d = Inr rows"
    using assms by (auto simp: commit_effect_def tx_defs split: sum.splits)
  note sel = this effect_rows [OF this]
  show ?thesis
  proof (cases "effects (D d) k")
    case None
    with assms sel show ?thesis
      by (auto simp: commit_effect_def tx_defs split: sum.splits dest!: ins_effect)
  next
    case (Some row)
    with assms sel show ?thesis
      by (auto simp: commit_effect_def tx_defs split: sum.splits if_splits)
  qed
qed

lemma create_task_row:
  assumes "create_task P now i q n pl (Some k) pr mx ra w st d = Inr ((row, dup), d')" and "k \<noteq> []"
  shows "tasks (D d') (tr_id row) = Some row \<and> tr_queue row = q \<and> tr_dedup_key row = Some k"
proof -
  obtain rows where sel: "sel_tasks P (\<lambda>r. tr_queue r = q \<and> tr_dedup_key r = Some k) d = Inr rows"
    using assms by (auto simp: create_task_def Let_def tx_defs split: sum.splits)
  have "r \<in> set rows \<Longrightarrow> tasks (D d) (tr_id r) = Some r \<and> tr_queue r = q \<and> tr_dedup_key r = Some k" for r
    using sel_tasks [OF sel] keyed(1) by (auto simp: ran_def)
  then show ?thesis
    using assms sel by (cases rows rule: scalar_one_or_none.cases)
      (auto simp: create_task_def Let_def tx_defs split: sum.splits dest!: ins_task)
qed

lemma dedup_row:
  assumes "sel_tasks P (\<lambda>r. tr_queue r = q \<and> tr_dedup_key r = Some k) d = Inr rows" and "db_wf (D d)"
    and "tasks (D d) i = Some r" and "tr_queue r = q" and "tr_dedup_key r = Some k"
  shows "rows = [r]"
proof -
  have "r' = r" if "tasks (D d) j = Some r'" "tr_queue r' = q" "tr_dedup_key r' = Some k" for j r'
  proof -
    have "dedup_clash r r'" using assms(4,5) that by (simp add: dedup_clash_def)
    with assms(2,3) that(1) have "i = j" unfolding db_wf_def by blast
    with assms(3) that(1) show ?thesis by simp
  qed
  then have "{r \<in> ran (tasks (D d)). tr_queue r = q \<and> tr_dedup_key r = Some k} = {r}"
    using assms(3-5) unfolding ran_def by blast
  then have "set rows = {r}" using sel_tasks [OF assms(1)] by simp
  moreover have "distinct rows" using sel_tasks [OF assms(1)] by (simp add: distinct_map)
  ultimately show ?thesis by (cases rows) (auto simp: subset_singleton_iff)
qed

end

context postgres_up
begin

lemma create_task_duplicate:
  assumes "db_wf (D d)" and "tasks (D d) j = Some r" and "tr_queue r = q" and "tr_dedup_key r = Some k"
    and "k \<noteq> []"
  shows "create_task P now i q n pl (Some k) pr mx ra w st d = Inr ((r, True), d)"
proof -
  obtain rows where "sel_tasks P (\<lambda>r. tr_queue r = q \<and> tr_dedup_key r = Some k) d = Inr rows"
    using sel_up(1) by blast
  with dedup_row [OF this assms(1-4)] assms(5) show ?thesis
    by (simp add: create_task_def Let_def tx_defs)
qed

lemma run_tx_up:
  assumes "t d = Inr (a, d')"
  shows "fst (run_tx P t d) = Inr a" and "D (snd (run_tx P t d)) = D d'"
proof -
  obtain d'' where "pg_commit P d d' = (Inr (), d'')"
    using commit_up by (metis prod.collapse)
  with assms commit_ok [OF this] show "fst (run_tx P t d) = Inr a" "D (snd (run_tx P t d)) = D d'"
    by (simp_all add: run_tx_def)
qed

lemma effect_rows_up:
  "sel_effects P (\<lambda>r. er_dedup_key r = k) d =
   Inr (case effects (D d) k of None \<Rightarrow> [] | Some r \<Rightarrow> [r])"
  using effect_rows sel_up(3) by metis

lemma commit_effect_new:
  assumes "effects (D d) k = None" and "int8 f"
  shows "\<exists>d'. commit_effect P now k i f res d = Inr (True, d')"
proof -
  let ?e = "\<lparr>er_dedup_key = k, er_task_id = i, er_fence = f, er_result = res, er_committed_at = now\<rparr>"
  have "effect_ok (D d) ?e" using assms by (simp add: effect_ok_def)
  then obtain d' where "ins_effect P ?e d = Inr d'" using ins_effect_up by blast
  with assms(1) show ?thesis
    by (simp add: commit_effect_def effect_rows_up tx_defs)
qed

lemma commit_effect_known:
  assumes "effects (D d) k = Some row"
  shows "commit_effect P now k i f res d =
    (if f < er_fence row
     then Inl (Dtq FenceRejectedError
        (''Effect for '' @ k @ '' already committed with higher fence '' @ str_int (er_fence row) @
         '' > '' @ str_int f @ ''. This worker is a zombie.''))
     else Inr (False, d))"
  using assms by (simp add: commit_effect_def effect_rows_up tx_defs)

lemma upd_tasks_run:
  assumes "\<And>r. tr_id (f r) = tr_id r"
    and "\<And>r. r \<in> ran (tasks (D d)) \<Longrightarrow> p r \<Longrightarrow> task_cols_ok (f r)"
  obtains d' where "upd_tasks P p f d = Inr (card (hits p (tasks (D d))), d')"
    and "D d' = (D d)\<lparr>tasks := upd_map p f (tasks (D d))\<rparr>"
proof -
  obtain n d' where run: "upd_tasks P p f d = Inr (n, d')"
    using upd_tasks_up [of d p f] assms(2) by blast
  from upd_tasks [OF this assms(1)] run that show ?thesis by simp
qed

end

lemma hits_one:
  assumes "\<And>i r. m i = Some r \<Longrightarrow> key r = i"
  shows "hits (\<lambda>r. key r = k \<and> p r) m = (case m k of Some r \<Rightarrow> if p r then {k} else {} | None \<Rightarrow> {})"
  using assms by (auto simp: hits_def split: option.splits)

lemma upd_map_one:
  assumes "\<And>i r. m i = Some r \<Longrightarrow> key r = i"
  shows "upd_map (\<lambda>r. key r = k \<and> p r) f m =
    (case m k of Some r \<Rightarrow> if p r then m(k \<mapsto> f r) else m | None \<Rightarrow> m)"
proof
  fix i
  show "upd_map (\<lambda>r. key r = k \<and> p r) f m i =
      (case m k of Some r \<Rightarrow> if p r then m(k \<mapsto> f r) else m | None \<Rightarrow> m) i"
    using assms by (cases "m i"; cases "i = k") (auto simp: upd_map_def split: option.split)
qed

section \<open>Updates as functions on the tables\<close>

definition spec_state :: "timestamp \<Rightarrow> uuid \<Rightarrow> task_state \<Rightarrow> int option \<Rightarrow> db \<Rightarrow> db" where
  "spec_state now i st a b = b\<lparr>tasks := upd_map (\<lambda>r. tr_id r = i)
     (\<lambda>r. let r' = r\<lparr>tr_state := st, tr_updated_at := now\<rparr>
          in case a of None \<Rightarrow> r' | Some n \<Rightarrow> r'\<lparr>tr_attempt := n\<rparr>) (tasks b)\<rparr>"

definition spec_close ::
  "timestamp \<Rightarrow> uuid \<Rightarrow> int \<Rightarrow> string \<Rightarrow> string option \<Rightarrow> string option \<Rightarrow> db \<Rightarrow> db" where
  "spec_close now i n oc et er b = b\<lparr>attempts := upd_map
     (\<lambda>r. ar_task_id r = i \<and> ar_attempt_no r = n)
     (\<lambda>r. r\<lparr>ar_finished_at := Some now, ar_outcome := Some oc, ar_error_type := et, ar_error_repr := er\<rparr>)
     (attempts b)\<rparr>"

context postgres_service
begin

lemma update_task_state_spec:
  assumes "update_task_state P now i st a d = Inr (u, d')"
  shows "D d' = spec_state now i st a (D d)"
proof -
  let ?f = "\<lambda>r. let r' = r\<lparr>tr_state := st, tr_updated_at := now\<rparr>
    in case a of None \<Rightarrow> r' | Some n \<Rightarrow> r'\<lparr>tr_attempt := n\<rparr>"
  obtain n where run: "upd_tasks P (\<lambda>r. tr_id r = i) ?f d = Inr (n, d')"
    using assms by (auto simp: update_task_state_def tx_defs split: sum.splits)
  have "tr_id (?f r) = tr_id r" for r by (simp add: Let_def split: option.split)
  from upd_tasks [OF run this] show ?thesis by (simp add: spec_state_def)
qed

end

context postgres_up
begin

lemma update_task_state_run:
  assumes "\<And>t. t \<in> ran (tasks (D d)) \<Longrightarrow> task_cols_ok t" and "\<And>n. a = Some n \<Longrightarrow> int4 n"
  obtains d' where "update_task_state P now i st a d = Inr ((), d')"
    and "D d' = spec_state now i st a (D d)"
proof -
  let ?f = "\<lambda>r. let r' = r\<lparr>tr_state := st, tr_updated_at := now\<rparr>
    in case a of None \<Rightarrow> r' | Some n \<Rightarrow> r'\<lparr>tr_attempt := n\<rparr>"
  show ?thesis
  proof (rule upd_tasks_run [where f = "?f" and d = d and p = "\<lambda>r. tr_id r = i"])
    show "tr_id (?f r) = tr_id r" for r by (simp add: Let_def split: option.split)
    show "task_cols_ok (?f r)" if "r \<in> ran (tasks (D d))" for r
      using assms(1) [OF that] assms(2) by (simp add: Let_def task_cols_ok_def split: option.split)
  next
    fix d' assume "upd_tasks P (\<lambda>r. tr_id r = i) ?f d = Inr (card (hits (\<lambda>r. tr_id r = i) (tasks (D d))), d')"
      and "D d' = (D d)\<lparr>tasks := upd_map (\<lambda>r. tr_id r = i) ?f (tasks (D d))\<rparr>"
    with that show ?thesis by (simp add: update_task_state_def spec_state_def tx_defs)
  qed
qed

lemma close_attempt_run:
  obtains d' where "close_attempt P now i n oc et er d = Inr ((), d')"
    and "D d' = spec_close now i n oc et er (D d)"
proof -
  let ?p = "\<lambda>r. ar_task_id r = i \<and> ar_attempt_no r = n"
  let ?f = "\<lambda>r. r\<lparr>ar_finished_at := Some now, ar_outcome := Some oc, ar_error_type := et, ar_error_repr := er\<rparr>"
  obtain m d' where run: "upd_attempts P ?p ?f d = Inr (m, d')"
    using upd_attempts_up [of ?f ?p d] by auto
  have "D d' = spec_close now i n oc et er (D d)"
    using upd_attempts [OF run] by (simp add: spec_close_def attempt_key_def)
  with run that show ?thesis by (simp add: close_attempt_def tx_defs)
qed

end

lemma spec_state_cols [simp]:
  "effects (spec_state now i st a b) = effects b" "attempts (spec_state now i st a b) = attempts b"
  "effects (spec_close now i n oc et er b) = effects b" "tasks (spec_close now i n oc et er b) = tasks b"
  by (simp_all add: spec_state_def spec_close_def)

section \<open>Properties\<close>

text \<open>
  C9: \<open>commit_effect\<close> commits an effect at most once. With no effect under the key it inserts one,
  with the caller's fence, and returns \<open>True\<close>; with an effect of a higher fence it raises
  \<open>FenceRejectedError\<close> (the caller is a zombie); with an effect of the same or a lower fence it
  returns \<open>False\<close>. In the last two cases the database is unchanged.
\<close>

theorem commit_effect_at_most_once:
  assumes "postgres_up P D" and "int8 fence"
  shows "case effects (D d) k of
      None \<Rightarrow>
        fst (run_tx P (commit_effect P now k i fence res) d) = Inr True \<and>
        D (snd (run_tx P (commit_effect P now k i fence res) d)) =
          (D d)\<lparr>effects := (effects (D d))(k \<mapsto> \<lparr>er_dedup_key = k, er_task_id = i, er_fence = fence,
             er_result = res, er_committed_at = now\<rparr>)\<rparr>
    | Some row \<Rightarrow>
        D (snd (run_tx P (commit_effect P now k i fence res) d)) = D d \<and>
        fst (run_tx P (commit_effect P now k i fence res) d) =
          (if fence < er_fence row
           then Inl (Dtq FenceRejectedError
             (''Effect for '' @ k @ '' already committed with higher fence '' @
              str_int (er_fence row) @ '' > '' @ str_int fence @ ''. This worker is a zombie.''))
           else Inr False)"
proof (cases "effects (D d) k")
  case None
  then obtain d' where new: "commit_effect P now k i fence res d = Inr (True, d')"
    using postgres_up.commit_effect_new [OF assms(1) _ assms(2)] by blast
  have "postgres_service P D" using assms(1) by (simp add: postgres_up_def)
  from postgres_service.commit_effect_cases [OF this new] None show ?thesis
    by (simp add: postgres_up.run_tx_up [OF assms(1), of "commit_effect P now k i fence res", OF new])
next
  case (Some row)
  note known = postgres_up.commit_effect_known [OF assms(1) Some, of now i fence res]
  show ?thesis
  proof (cases "fence < er_fence row")
    case True
    with known Some show ?thesis by (simp add: run_tx_def)
  next
    case False
    with known have "commit_effect P now k i fence res d = Inr (False, d)" by simp
    from postgres_up.run_tx_up [OF assms(1), of "commit_effect P now k i fence res", OF this] False Some
    show ?thesis by simp
  qed
qed

definition demo_effects :: ref_db where
  "demo_effects = empty_ref_db\<lparr>rd_effects :=
     [\<lparr>er_dedup_key = ''pay-1'', er_task_id = ''t1'', er_fence = 7, er_result = None, er_committed_at = 0\<rparr>]\<rparr>"

lemma demo_effect: "effects (ref_view demo_effects) ''pay-1'' = Some
    \<lparr>er_dedup_key = ''pay-1'', er_task_id = ''t1'', er_fence = 7, er_result = None, er_committed_at = 0\<rparr>"
  by (simp add: demo_effects_def ref_view_def indexed_Cons)

theorem commit_effect_at_most_once_witness:
  "fst (run_tx ref_postgres (commit_effect ref_postgres 1 ''pay-1'' ''t1'' 9 None) demo_effects) = Inr False \<and>
   (\<exists>m. fst (run_tx ref_postgres (commit_effect ref_postgres 1 ''pay-1'' ''t1'' 3 None) demo_effects) =
     Inl (Dtq FenceRejectedError m))"
  using commit_effect_at_most_once [where P = ref_postgres and D = ref_view and fence = 9 and now = 1
      and d = demo_effects and k = "''pay-1''" and i = "''t1''" and res = None]
    commit_effect_at_most_once [where P = ref_postgres and D = ref_view and fence = 3 and now = 1
      and d = demo_effects and k = "''pay-1''" and i = "''t1''" and res = None]
  by (simp add: demo_effect int8_def)

text \<open>
  C25: Enqueueing is idempotent. Once \<open>create_task\<close> has returned a row for a queue and a non-empty
  deduplication key, every later \<open>create_task\<close> with that queue and key, whatever its identifier,
  payload and options, and whatever the transactions in between made of the database, returns
  that task as a duplicate and changes nothing.
\<close>

theorem create_task_idempotent:
  assumes "postgres_up P D" and "db_wf (D d)" and "k \<noteq> []"
    and "run_tx P (create_task P now i q n pl (Some k) pr mx ra w st) d = (Inr (row, dup), d1)"
    and "evolves (D d1) (D d2)"
  shows "\<exists>row'. fst (run_tx P (create_task P now' i' q n' pl' (Some k) pr' mx' ra' w' st') d2) = Inr (row', True)
      \<and> tr_id row' = tr_id row \<and> tr_payload row' = tr_payload row \<and> tasks (D d2) (tr_id row) = Some row'
      \<and> D (snd (run_tx P (create_task P now' i' q n' pl' (Some k) pr' mx' ra' w' st') d2)) = D d2"
proof -
  have svc: "postgres_service P D" using assms(1) by (simp add: postgres_up_def)
  obtain d' where d': "create_task P now i q n pl (Some k) pr mx ra w st d = Inr ((row, dup), d')"
      and "D d1 = D d'"
    using postgres_service.run_tx_Inr [OF svc, of "create_task P now i q n pl (Some k) pr mx ra w st" d]
      assms(4) by (metis fst_conv snd_conv)
  note row = postgres_service.create_task_row [OF svc d' assms(3), folded \<open>D d1 = D d'\<close>]
  obtain row' where row': "tasks (D d2) (tr_id row) = Some row'" "task_evolves row row'"
    using evolves_task [OF assms(5)] row by metis
  have "evolves (D d) (D d1)"
    using tx_keepsD [OF postgres_service.keeps_create_task [OF svc] d'] \<open>D d1 = D d'\<close> by simp
  then have "db_wf (D d2)" using assms(2,5) by (simp add: evolves_def)
  then have "create_task P now' i' q n' pl' (Some k) pr' mx' ra' w' st' d2 = Inr ((row', True), d2)"
    using postgres_up.create_task_duplicate [OF assms(1) _ row'(1)] row row'(2) assms(3)
    by (simp add: task_evolves_def)
  from postgres_up.run_tx_up [OF assms(1), of "create_task P now' i' q n' pl' (Some k) pr' mx' ra' w' st'", OF this]
    row' show ?thesis by (simp add: task_evolves_def)
qed

definition demo_order :: "string \<Rightarrow> ref_db \<Rightarrow> (exn + task_row \<times> bool) \<times> ref_db" where
  "demo_order i = run_tx ref_postgres
     (create_task ref_postgres 0 i ''default'' ''charge'' JNull (Some ''order-1'') 0 5 None None None)"

lemma demo_order_first:
  "\<exists>row. tr_id row = ''t1'' \<and>
    demo_order ''t1'' empty_ref_db = (Inr (row, False), snd (demo_order ''t1'' empty_ref_db))"
  by (simp add: demo_order_def create_task_def Let_def ref_postgres_def empty_ref_db_def run_tx_def tx_defs
      ref_task_ok_def task_cols_ok_def int2_def int4_def)

theorem create_task_idempotent_witness:
  "\<exists>row. fst (demo_order ''t2'' (snd (demo_order ''t1'' empty_ref_db))) = Inr (row, True) \<and> tr_id row = ''t1''"
proof -
  obtain row where row: "tr_id row = ''t1''"
      "demo_order ''t1'' empty_ref_db = (Inr (row, False), snd (demo_order ''t1'' empty_ref_db))"
    using demo_order_first by blast
  have "db_wf (ref_view empty_ref_db)"
    by (simp add: db_wf_def ref_view_def empty_ref_db_def)
  from create_task_idempotent [OF ref_postgres_up this _ row(2) [unfolded demo_order_def] evolves_refl]
    row(1) show ?thesis unfolding demo_order_def by fastforce
qed

text \<open>
  \<open>cancel_task\<close> cancels exactly the tasks that wait. It returns \<open>True\<close> if and only if the task
  exists in state \<open>pending\<close> or \<open>scheduled\<close>; then that row becomes \<open>cancelled\<close> and no other row
  changes, and otherwise nothing does.
\<close>

lemma cancel_task_only_waiting:
  assumes "postgres_up P D" and "\<forall>t \<in> ran (tasks (D d)). task_cols_ok t"
  shows "fst (run_tx P (cancel_task P now i) d) =
      Inr (\<exists>t. tasks (D d) i = Some t \<and> tr_state t \<in> {PENDING, SCHEDULED})
    \<and> D (snd (run_tx P (cancel_task P now i) d)) =
      (case tasks (D d) i of
         Some t \<Rightarrow> if tr_state t \<in> {PENDING, SCHEDULED}
           then (D d)\<lparr>tasks := (tasks (D d))(i \<mapsto> t\<lparr>tr_state := CANCELLED, tr_updated_at := now\<rparr>)\<rparr>
           else D d
       | None \<Rightarrow> D d)"
proof -
  have svc: "postgres_service P D" using assms(1) by (simp add: postgres_up_def)
  let ?p = "\<lambda>r. tr_id r = i \<and> tr_state r \<in> {PENDING, SCHEDULED}"
  let ?f = "\<lambda>r. r\<lparr>tr_state := CANCELLED, tr_updated_at := now\<rparr>"
  have "task_cols_ok (?f r)" if "r \<in> ran (tasks (D d))" for r
    using assms(2) that by (simp add: task_cols_ok_def)
  then obtain d' where run: "upd_tasks P ?p ?f d = Inr (card (hits ?p (tasks (D d))), d')"
      and D: "D d' = (D d)\<lparr>tasks := upd_map ?p ?f (tasks (D d))\<rparr>"
    using postgres_up.upd_tasks_run [OF assms(1), of ?f d ?p] by auto
  from run have "cancel_task P now i d = Inr (card (hits ?p (tasks (D d))) > 0, d')"
    by (simp add: cancel_task_def tx_defs)
  note up = postgres_up.run_tx_up [OF assms(1), of "cancel_task P now i", OF this]
  have keyed: "\<And>j r. tasks (D d) j = Some r \<Longrightarrow> tr_id r = j"
    using postgres_service.keyed(1) [OF svc] .
  have "hits ?p (tasks (D d)) =
      (case tasks (D d) i of Some r \<Rightarrow> if tr_state r \<in> {PENDING, SCHEDULED} then {i} else {} | None \<Rightarrow> {})"
    by (rule hits_one) (rule keyed)
  moreover have "upd_map ?p ?f (tasks (D d)) =
      (case tasks (D d) i of Some r \<Rightarrow> if tr_state r \<in> {PENDING, SCHEDULED} then (tasks (D d))(i \<mapsto> ?f r)
         else tasks (D d) | None \<Rightarrow> tasks (D d))"
    by (rule upd_map_one) (rule keyed)
  ultimately show ?thesis using up D by (simp split: option.split)
qed

end
