(* ===== verification/Executor.thy ===== *)
theory Executor
  imports Lease_Lock Store_Contract
begin

text \<open>
  \<open>dtq/worker/registry.py\<close> and \<open>dtq/worker/executor.py\<close>: the handler registry and the protocol that
  runs one task (acquire the lease, record the attempt, run the handler under a heartbeat, commit
  the effect, release the lease). Each step of the protocol is one definition on the world, the
  pair of the Redis server and the database; \<open>execute\<close> composes them, with what other processes do
  between two steps as the argument \<open>itf\<close>.
\<close>

section \<open>The registry\<close>

text \<open>
  What awaiting a handler under \<open>asyncio.wait_for\<close> gives: a value, a timeout (also a \<open>TimeoutError\<close>
  of the handler's own), a \<open>FenceRejectedError\<close> with its message, or any other exception with the
  name of its class, its message and the stack frames that its traceback shows.
\<close>

datatype handler_outcome =
    HReturn json
  | HTimeout
  | HFenceRejected string
  | HRaise string string string

type_synonym handler = "json \<Rightarrow> handler_outcome"

type_synonym registry = "string \<Rightarrow> handler option"

text \<open>
  The decorator \<open>task\<close> registers the function \<open>fn\<close>, whose \<open>__name__\<close> is \<open>fn_name\<close>, and attaches to it the
  attribute \<open>_task_meta\<close>: the result is the registry and the attribute. No other code reads it.
\<close>

record task_meta =
  tm_name :: string
  tm_retryable_errors :: "string list"
  tm_terminal_errors :: "string list"
  tm_max_attempts :: "int option"

definition task ::
  "string option \<Rightarrow> string list option \<Rightarrow> string list option \<Rightarrow> int option \<Rightarrow> string \<Rightarrow> handler \<Rightarrow>
   registry \<Rightarrow> registry \<times> task_meta" where
  "task name retry_on terminal_on mx fn_name fn reg =
     (let task_name = (case name of None \<Rightarrow> fn_name | Some n \<Rightarrow> if n \<noteq> [] then n else fn_name)
      in (reg(task_name \<mapsto> fn),
          \<lparr>tm_name = task_name,
           tm_retryable_errors = (case retry_on of None \<Rightarrow> [] | Some es \<Rightarrow> es),
           tm_terminal_errors = (case terminal_on of None \<Rightarrow> [] | Some es \<Rightarrow> es),
           tm_max_attempts = mx\<rparr>))"

definition get_handler :: "registry \<Rightarrow> string \<Rightarrow> handler option" where
  "get_handler reg task_name = reg task_name"

definition list_handlers :: "registry \<Rightarrow> registry" where
  "list_handlers reg = reg"

definition clear_registry :: "registry \<Rightarrow> registry" where
  "clear_registry reg = (\<lambda>_. None)"

section \<open>Running the handler\<close>

text \<open>
  The rendering of a float and the frames of the executor's own tracebacks: what Python prints,
  which only reaches error texts.
\<close>

record py_text =
  float_repr :: "real \<Rightarrow> string"
  own_frames :: string

definition format_exc :: "string \<Rightarrow> string \<Rightarrow> string \<Rightarrow> string" where
  "format_exc ty msg frames =
     ''Traceback (most recent call last):'' @ [CHR 0x0A] @ frames @ ty @ '': '' @ msg @ [CHR 0x0A]"

fun truthy :: "json \<Rightarrow> bool" where
  "truthy JNull = False"
| "truthy (JBool b) = b"
| "truthy (JNum n) = (n \<noteq> 0)"
| "truthy (JStr s) = (s \<noteq> [])"
| "truthy (JArr xs) = (xs \<noteq> [])"
| "truthy (JObj kvs) = (kvs \<noteq> [])"

fun is_dict :: "json \<Rightarrow> bool" where
  "is_dict (JObj kvs) = True"
| "is_dict _ = False"

fun py_type :: "json \<Rightarrow> string" where
  "py_type JNull = ''NoneType''"
| "py_type (JBool b) = ''bool''"
| "py_type (JNum n) = ''float''"
| "py_type (JStr s) = ''str''"
| "py_type (JArr xs) = ''list''"
| "py_type (JObj kvs) = ''dict''"

record executor =
  ex_worker_id :: string
  ex_lease_ms :: int

record handler_run =
  hr_success :: bool
  hr_result :: "json option"
  hr_error_type :: "string option"
  hr_error_repr :: "string option"

definition hr_failed :: "string \<Rightarrow> string \<Rightarrow> handler_run" where
  "hr_failed ty repr =
     \<lparr>hr_success = False, hr_result = None, hr_error_type = Some ty, hr_error_repr = Some repr\<rparr>"

text \<open>
  The \<open>try\<close> statement of step 4. A result that is true but not a dictionary makes the log call
  after \<open>success = True\<close> raise \<open>AttributeError\<close>: the run counts as a success and carries the error.
\<close>

definition run_handler :: "executor \<Rightarrow> py_text \<Rightarrow> registry \<Rightarrow> task_envelope \<Rightarrow> handler_run" where
  "run_handler ex py reg e =
     (case get_handler reg (env_task_name e) of
        None \<Rightarrow> hr_failed ''RuntimeError'' (format_exc ''RuntimeError''
                  (''No handler registered for task: '' @ env_task_name e) (own_frames py))
      | Some handler \<Rightarrow>
          (case handler (env_payload e) of
             HReturn result \<Rightarrow>
               if truthy result \<and> \<not> is_dict result
               then \<lparr>hr_success = True, hr_result = Some result,
                     hr_error_type = Some ''AttributeError'',
                     hr_error_repr = Some (format_exc ''AttributeError''
                       ([CHR 0x27] @ py_type result @ [CHR 0x27] @ '' object has no attribute '' @
                        [CHR 0x27] @ ''keys'' @ [CHR 0x27]) (own_frames py))\<rparr>
               else \<lparr>hr_success = True, hr_result = (if result = JNull then None else Some result),
                     hr_error_type = None, hr_error_repr = None\<rparr>
           | HTimeout \<Rightarrow> hr_failed ''TimeoutError''
               (''Task exceeded execution timeout ('' @
                float_repr py (of_int (ex_lease_ms ex) * 0.8) @ ''ms)'')
           | HFenceRejected m \<Rightarrow> hr_failed ''FenceRejectedError'' m
           | HRaise ty msg frames \<Rightarrow> hr_failed ty (format_exc ty msg frames)))"

section \<open>The steps of an execution\<close>

record ('s, 'd) world =
  w_redis :: 's
  w_db :: 'd

definition effect_key :: "task_envelope \<Rightarrow> string" where
  "effect_key e = (case env_dedup_key e of
     None \<Rightarrow> env_task_id e | Some k \<Rightarrow> if k \<noteq> [] then k else env_task_id e)"

definition attempt_no :: "task_envelope \<Rightarrow> int" where
  "attempt_no e = env_attempt e + 1"

definition exec_acquire ::
  "('s, 'v) redis \<Rightarrow> executor \<Rightarrow> task_envelope \<Rightarrow> ('s, 'd) world \<Rightarrow> (exn + int) \<times> ('s, 'd) world" where
  "exec_acquire R ex e w =
     (let (r, s) = acquire_lease R (env_task_id e) (ex_worker_id ex) (ex_lease_ms ex) (w_redis w)
      in (r, w\<lparr>w_redis := s\<rparr>))"

definition exec_release ::
  "('s, 'v) redis \<Rightarrow> executor \<Rightarrow> task_envelope \<Rightarrow> int \<Rightarrow> ('s, 'd) world \<Rightarrow> ('s, 'd) world" where
  "exec_release R ex e fence w =
     w\<lparr>w_redis := snd (release_lease R (env_task_id e) (ex_worker_id ex) fence (w_redis w))\<rparr>"

definition record_tx ::
  "'d postgres \<Rightarrow> timestamp \<Rightarrow> executor \<Rightarrow> task_envelope \<Rightarrow> int \<Rightarrow> ('d, unit) tx" where
  "record_tx P now ex e fence =
     tx_bind (create_attempt P now (env_task_id e) (attempt_no e) (ex_worker_id ex) fence)
       (\<lambda>_. update_task_state P now (env_task_id e) LEASED (Some (attempt_no e)))"

text \<open>Step 2; \<open>Some m\<close> is the error text with which the execution ends.\<close>

definition exec_record ::
  "'d postgres \<Rightarrow> timestamp \<Rightarrow> executor \<Rightarrow> task_envelope \<Rightarrow> int \<Rightarrow> ('s, 'd) world \<Rightarrow>
   string option \<times> ('s, 'd) world" where
  "exec_record P now ex e fence w =
     (case run_tx P (record_tx P now ex e fence) (w_db w) of
        (Inl x, d) \<Rightarrow> (Some (''StoreError: '' @ exn_msg x), w\<lparr>w_db := d\<rparr>)
      | (Inr _, d) \<Rightarrow> (None, w\<lparr>w_db := d\<rparr>))"

text \<open>
  The heartbeat of step 3: before each renewal the loop sleeps, and \<open>sleep\<close> is what happens in the
  world meanwhile, the third of the lease that passes included: its length and the number of renewals before the handler
  ends are thus arguments. After a renewal that fails the loop ends; the handler goes on.
\<close>

fun heartbeat_loop ::
  "('s, 'v) redis \<Rightarrow> executor \<Rightarrow> task_envelope \<Rightarrow> int \<Rightarrow> (('s, 'd) world \<Rightarrow> ('s, 'd) world) list \<Rightarrow>
   ('s, 'd) world \<Rightarrow> ('s, 'd) world" where
  "heartbeat_loop R ex e fence [] w = w"
| "heartbeat_loop R ex e fence (sleep # ticks) w =
     (let w1 = sleep w;
          (extended, s) =
            extend_lease R (env_task_id e) (ex_worker_id ex) fence (ex_lease_ms ex) (w_redis w1);
          w2 = w1\<lparr>w_redis := s\<rparr>
      in if extended then heartbeat_loop R ex e fence ticks w2
         else fold (\<lambda>f. f) ticks w2)"

definition commit_tx ::
  "'d postgres \<Rightarrow> timestamp \<Rightarrow> task_envelope \<Rightarrow> int \<Rightarrow> handler_run \<Rightarrow> ('d, unit) tx" where
  "commit_tx P now e fence hr =
     (if hr_success hr
      then tx_bind (commit_effect P now (effect_key e) (env_task_id e) fence (hr_result hr))
             (\<lambda>committed.
                if committed
                then tx_bind (update_task_state P now (env_task_id e) SUCCEEDED None)
                       (\<lambda>_. close_attempt P now (env_task_id e) (attempt_no e) ''succeeded'' None None)
                else close_attempt P now (env_task_id e) (attempt_no e) ''succeeded'' None None)
      else close_attempt P now (env_task_id e) (attempt_no e)
             (if hr_error_type hr \<noteq> Some ''FenceRejectedError'' then ''failed'' else ''lease_lost'')
             (hr_error_type hr) (hr_error_repr hr))"

definition exec_commit ::
  "'d postgres \<Rightarrow> timestamp \<Rightarrow> task_envelope \<Rightarrow> int \<Rightarrow> handler_run \<Rightarrow> ('s, 'd) world \<Rightarrow>
   (bool \<times> string option) \<times> ('s, 'd) world" where
  "exec_commit P now e fence hr w =
     (case run_tx P (commit_tx P now e fence hr) (w_db w) of
        (Inr _, d) \<Rightarrow> ((hr_success hr, hr_error_repr hr), w\<lparr>w_db := d\<rparr>)
      | (Inl (Dtq FenceRejectedError m), d) \<Rightarrow> ((False, Some m), w\<lparr>w_db := d\<rparr>)
      | (Inl x, d) \<Rightarrow> ((False, Some (''CommitError: '' @ exn_msg x)), w\<lparr>w_db := d\<rparr>))"

section \<open>An execution\<close>

text \<open>
  The points at which the coroutine gives up control between two steps; the last three are those
  of the worker loop around it.
\<close>

datatype await_point = AtAcquire | AtRecord | AtCommit | AtRelease | AtSettle | AtDead | AtAck

definition execute ::
  "('s, 'v) redis \<Rightarrow> 'd postgres \<Rightarrow> executor \<Rightarrow> py_text \<Rightarrow> registry \<Rightarrow> (await_point \<Rightarrow> timestamp) \<Rightarrow>
   (await_point \<Rightarrow> ('s, 'd) world \<Rightarrow> ('s, 'd) world) \<Rightarrow> (('s, 'd) world \<Rightarrow> ('s, 'd) world) list \<Rightarrow>
   task_envelope \<Rightarrow> ('s, 'd) world \<Rightarrow> (exn + bool \<times> string option) \<times> ('s, 'd) world" where
  "execute R P ex py reg clk itf ticks e w =
     (case exec_acquire R ex e (itf AtAcquire w) of
        (Inl x, w1) \<Rightarrow> (Inl x, w1)
      | (Inr fence, w1) \<Rightarrow>
          if fence = 0 then (Inr (False, Some ''LeaseAcquireError: already held''), w1)
          else
            (case exec_record P (clk AtRecord) ex e fence (itf AtRecord w1) of
               (Some m, w2) \<Rightarrow> (Inr (False, Some m), exec_release R ex e fence (itf AtRelease w2))
             | (None, w2) \<Rightarrow>
                 let w3 = heartbeat_loop R ex e fence ticks w2;
                     hr = run_handler ex py reg e;
                     (res, w4) = exec_commit P (clk AtCommit) e fence hr (itf AtCommit w3);
                     w5 = exec_release R ex e fence (itf AtRelease w4)
                 in (Inr res, w5)))"

end
