(* ===== verification/Executor_Contract.thy ===== *)
theory Executor_Contract
  imports Executor
begin

text \<open>
  What an execution promises: it only ever adds to the history of the database, a success is
  backed by an effect, a zombie changes nothing, the heartbeat keeps the lease of a handler that
  runs on time, and an attempt that is already on record is not run again.
\<close>

section \<open>The database side\<close>

context postgres_service
begin

lemma keeps_record_tx [tx_keeps_intros]: "tx_keeps D evolves (record_tx P now ex e f)"
  unfolding record_tx_def by (intro tx_keeps_intros)

lemma keeps_commit_tx [tx_keeps_intros]: "tx_keeps D evolves (commit_tx P now e f hr)"
  unfolding commit_tx_def by (intro tx_keeps_intros)

lemma exec_record_evolves: "evolves (D (w_db w)) (D (w_db (snd (exec_record P now ex e f w))))"
  using run_tx_evolves [OF keeps_record_tx, of "w_db w" now ex e f]
  by (auto simp: exec_record_def split: prod.splits sum.splits)

lemma create_attempt_taken:
  assumes "attempts (D d) (i, n) \<noteq> None"
  shows "\<exists>x. create_attempt P now i n wk f d = Inl x"
proof -
  let ?a = "\<lparr>ar_task_id = i, ar_attempt_no = n, ar_worker_id = wk, ar_fence = f, ar_started_at = now,
    ar_finished_at = None, ar_outcome = None, ar_error_type = None, ar_error_repr = None\<rparr>"
  have "\<not> attempt_ok (D d) ?a" using assms by (simp add: attempt_ok_def attempt_key_def)
  then obtain x where "ins_attempt P ?a d = Inl x"
    using ins_attempt by (cases "ins_attempt P ?a d") auto
  then show ?thesis by (simp add: create_attempt_def Let_def tx_defs)
qed

lemma exec_record_taken:
  assumes "attempts (D (w_db w)) (env_task_id e, attempt_no e) \<noteq> None"
  shows "\<exists>x. exec_record P now ex e f w = (Some (''StoreError: '' @ exn_msg x), w)"
  using create_attempt_taken [OF assms, of now "ex_worker_id ex" f]
  by (auto simp: exec_record_def record_tx_def run_tx_def tx_bind_def)

lemma exec_commit_world:
  "snd (exec_commit P now e f hr w) = w\<lparr>w_db := snd (run_tx P (commit_tx P now e f hr) (w_db w))\<rparr>"
  by (auto simp: exec_commit_def split: prod.splits sum.splits exn.splits dtq_class.splits)

lemma exec_commit_evolves: "evolves (D (w_db w)) (D (w_db (snd (exec_commit P now e f hr w))))"
  using run_tx_evolves [OF keeps_commit_tx] by (simp add: exec_commit_world)

lemma commit_tx_effect:
  assumes "commit_tx P now e f hr d = Inr (u, d')" and "hr_success hr"
  shows "case effects (D d) (effect_key e) of
      None \<Rightarrow> effects (D d') (effect_key e) = Some \<lparr>er_dedup_key = effect_key e,
        er_task_id = env_task_id e, er_fence = f, er_result = hr_result hr, er_committed_at = now\<rparr>
    | Some row \<Rightarrow> er_fence row \<le> f \<and> effects (D d') (effect_key e) = Some row"
proof -
  let ?close = "close_attempt P now (env_task_id e) (attempt_no e) ''succeeded'' None None"
  let ?rest = "\<lambda>b. if b then tx_bind (update_task_state P now (env_task_id e) SUCCEEDED None) (\<lambda>_. ?close)
    else ?close"
  obtain b d1 where c: "commit_effect P now (effect_key e) (env_task_id e) f (hr_result hr) d = Inr (b, d1)"
    and rest: "?rest b d1 = Inr (u, d')"
    using assms by (auto simp: commit_tx_def tx_bind_def split: sum.splits)
  have "tx_keeps D evolves (?rest b)"
    by (intro tx_keeps_intros)
  from tx_keepsD [OF this rest] have "evolves (D d1) (D d')" .
  with commit_effect_cases [OF c] show ?thesis
    by (auto split: option.splits intro: evolves_effect)
qed

lemma exec_commit_success:
  assumes "exec_commit P now e f hr w = ((True, r), w')"
  shows "hr_success hr \<and> (case effects (D (w_db w)) (effect_key e) of
      None \<Rightarrow> effects (D (w_db w')) (effect_key e) = Some \<lparr>er_dedup_key = effect_key e,
        er_task_id = env_task_id e, er_fence = f, er_result = hr_result hr, er_committed_at = now\<rparr>
    | Some row \<Rightarrow> er_fence row \<le> f \<and> effects (D (w_db w')) (effect_key e) = Some row)"
proof -
  let ?t = "commit_tx P now e f hr"
  obtain u where fst: "fst (run_tx P ?t (w_db w)) = Inr u" and hr: "hr_success hr"
    using assms by (auto simp: exec_commit_def split: prod.splits sum.splits exn.splits dtq_class.splits)
  have w': "w_db w' = snd (run_tx P ?t (w_db w))"
    using assms exec_commit_world [of now e f hr w] by simp
  obtain d' where t: "?t (w_db w) = Inr (u, d')" and D: "D (w_db w') = D d'"
    using run_tx_Inr [OF fst] w' by metis
  from commit_tx_effect [OF t hr] hr show ?thesis unfolding D by simp
qed

end

context postgres_up
begin

lemma exec_commit_up:
  assumes "commit_tx P now e f hr (w_db w) = Inr ((), d')"
  shows "fst (exec_commit P now e f hr w) = (hr_success hr, hr_error_repr hr)"
    and "D (w_db (snd (exec_commit P now e f hr w))) = D d'"
  using run_tx_up [of "commit_tx P now e f hr", OF assms]
  by (auto simp: exec_commit_def split: prod.splits sum.splits)

text \<open>
  The commit step of a successful handler, exactly. With no effect under the key it records the
  effect with the execution's fence, marks the task succeeded and closes the attempt, and reports
  success. If another worker has committed with a higher fence, the step reports failure with the
  text of the rejection and changes nothing at all. If the effect there has the same or a lower
  fence, it reports success and only closes the attempt: the task row is left as it is.
\<close>

lemma exec_commit_exact:
  assumes hr: "hr_success hr" and "int8 f" and cols: "\<And>t. t \<in> ran (tasks (D (w_db w))) \<Longrightarrow> task_cols_ok t"
  shows "case effects (D (w_db w)) (effect_key e) of
      None \<Rightarrow>
        fst (exec_commit P now e f hr w) = (True, hr_error_repr hr) \<and>
        D (w_db (snd (exec_commit P now e f hr w))) =
          spec_close now (env_task_id e) (attempt_no e) ''succeeded'' None None
            (spec_state now (env_task_id e) SUCCEEDED None
              ((D (w_db w))\<lparr>effects := (effects (D (w_db w)))(effect_key e \<mapsto>
                 \<lparr>er_dedup_key = effect_key e, er_task_id = env_task_id e, er_fence = f,
                  er_result = hr_result hr, er_committed_at = now\<rparr>)\<rparr>))
    | Some row \<Rightarrow>
        if f < er_fence row
        then exec_commit P now e f hr w = ((False, Some (''Effect for '' @ effect_key e @
               '' already committed with higher fence '' @ str_int (er_fence row) @ '' > '' @
               str_int f @ ''. This worker is a zombie.'')), w)
        else fst (exec_commit P now e f hr w) = (True, hr_error_repr hr) \<and>
             D (w_db (snd (exec_commit P now e f hr w))) =
               spec_close now (env_task_id e) (attempt_no e) ''succeeded'' None None (D (w_db w))"
proof (cases "effects (D (w_db w)) (effect_key e)")
  case None
  obtain d1 where c: "commit_effect P now (effect_key e) (env_task_id e) f (hr_result hr) (w_db w) = Inr (True, d1)"
    using commit_effect_new [OF None assms(2)] by blast
  note D1 = commit_effect_cases [OF c, simplified None option.case]
  have "t \<in> ran (tasks (D d1)) \<Longrightarrow> task_cols_ok t" for t using cols D1 by simp
  then obtain d2 where d2: "update_task_state P now (env_task_id e) SUCCEEDED None d1 = Inr ((), d2)"
      "D d2 = spec_state now (env_task_id e) SUCCEEDED None (D d1)"
    using update_task_state_run by blast
  obtain d3 where d3: "close_attempt P now (env_task_id e) (attempt_no e) ''succeeded'' None None d2 = Inr ((), d3)"
      "D d3 = spec_close now (env_task_id e) (attempt_no e) ''succeeded'' None None (D d2)"
    using close_attempt_run by blast
  have "commit_tx P now e f hr (w_db w) = Inr ((), d3)"
    using hr c d2(1) d3(1) by (simp add: commit_tx_def tx_bind_def)
  from exec_commit_up [OF this] D1 d2(2) d3(2) hr None show ?thesis by simp
next
  case (Some row)
  note known = commit_effect_known [OF Some, of now "env_task_id e" f "hr_result hr"]
  obtain d3 where d3: "close_attempt P now (env_task_id e) (attempt_no e) ''succeeded'' None None (w_db w) = Inr ((), d3)"
      "D d3 = spec_close now (env_task_id e) (attempt_no e) ''succeeded'' None None (D (w_db w))"
    using close_attempt_run by blast
  show ?thesis
  proof (cases "f < er_fence row")
    case True
    then show ?thesis
      using known hr Some by (simp add: exec_commit_def run_tx_def commit_tx_def tx_bind_def)
  next
    case False
    then have "commit_tx P now e f hr (w_db w) = Inr ((), d3)"
      using hr known d3(1) by (simp add: commit_tx_def tx_bind_def)
    from exec_commit_up [OF this] False d3(2) hr Some show ?thesis by simp
  qed
qed

end

section \<open>The lease side\<close>

lemma exec_db_same [simp]:
  "w_db (snd (exec_acquire R ex e w)) = w_db w" "w_db (exec_release R ex e f w) = w_db w"
  by (simp_all add: exec_acquire_def exec_release_def split: prod.split)

lemma exec_redis_same [simp]:
  "w_redis (snd (exec_record P now ex e f w)) = w_redis w"
  "w_redis (snd (exec_commit P now e f hr w)) = w_redis w"
  by (auto simp: exec_record_def exec_commit_def split: prod.splits sum.splits exn.splits dtq_class.splits)

text \<open>Other processes keep the history of the database while this one waits.\<close>

definition itf_ok :: "('d \<Rightarrow> db) \<Rightarrow> (('s, 'd) world \<Rightarrow> ('s, 'd) world) \<Rightarrow> bool" where
  "itf_ok D f \<longleftrightarrow> (\<forall>w. evolves (D (w_db w)) (D (w_db (f w))))"

lemma itf_okD: "itf_ok D f \<Longrightarrow> evolves (D (w_db w)) (D (w_db (f w)))"
  by (simp add: itf_ok_def)

lemma itf_ok_id [simp]: "itf_ok D (\<lambda>w. w)"
  by (simp add: itf_ok_def)

lemma fold_itf_ok:
  assumes "list_all (itf_ok D) fs"
  shows "evolves (D (w_db w)) (D (w_db (fold (\<lambda>f. f) fs w)))"
  using assms
proof (induction fs arbitrary: w)
  case (Cons f fs)
  then show ?case using evolves_trans itf_okD by fastforce
qed simp

lemma heartbeat_itf_ok:
  assumes "list_all (itf_ok D) ticks"
  shows "evolves (D (w_db w)) (D (w_db (heartbeat_loop R ex e f ticks w)))"
  using assms
proof (induction ticks arbitrary: w)
  case (Cons g ticks)
  let ?w = "g w"
  obtain b s where x: "extend_lease R (env_task_id e) (ex_worker_id ex) f (ex_lease_ms ex) (w_redis ?w) = (b, s)"
    by fastforce
  have g: "evolves (D (w_db w)) (D (w_db (?w\<lparr>w_redis := s\<rparr>)))"
    using Cons.prems by (simp add: itf_okD)
  have rest: "list_all (itf_ok D) ticks" using Cons.prems by simp
  show ?case
  proof (cases b)
    case True
    then show ?thesis
      using evolves_trans [OF g Cons.IH [OF rest]] by (simp add: x Let_def)
  next
    case False
    then show ?thesis
      using evolves_trans [OF g fold_itf_ok [OF rest]] by (simp add: x Let_def)
  qed
qed simp

section \<open>A whole execution\<close>

lemma execute_effect:
  assumes "postgres_service P D" and "\<And>i. itf_ok D (itf i)" and "list_all (itf_ok D) ticks"
  shows "evolves (D (w_db w)) (D (w_db (snd (execute R P ex py reg clk itf ticks e w)))) \<and>
    (\<forall>r. fst (execute R P ex py reg clk itf ticks e w) = Inr (True, r) \<longrightarrow>
       hr_success (run_handler ex py reg e) \<and>
       (\<exists>row. effects (D (w_db (snd (execute R P ex py reg clk itf ticks e w)))) (effect_key e) = Some row))"
proof -
  obtain a w1 where acq: "exec_acquire R ex e (itf AtAcquire w) = (a, w1)" by fastforce
  have e1: "evolves (D (w_db w)) (D (w_db w1))"
    using itf_okD [OF assms(2), of w AtAcquire] exec_db_same(1) [of R ex e "itf AtAcquire w"] by (simp add: acq)
  show ?thesis
  proof (cases "\<exists>fence. a = Inr fence \<and> fence \<noteq> 0")
    case False
    then show ?thesis using e1 by (auto simp: execute_def acq split: sum.splits)
  next
    case True
    then obtain fence where a: "a = Inr fence" "fence \<noteq> 0" by blast
    obtain m w2 where rec: "exec_record P (clk AtRecord) ex e fence (itf AtRecord w1) = (m, w2)" by fastforce
    have e2: "evolves (D (w_db w)) (D (w_db w2))"
      using e1 itf_okD [OF assms(2), of w1 AtRecord]
        postgres_service.exec_record_evolves [OF assms(1), of "itf AtRecord w1" "clk AtRecord" ex e fence, unfolded rec]
      by (auto intro: evolves_trans)
    show ?thesis
    proof (cases m)
      case (Some x)
      have "evolves (D (w_db w)) (D (w_db (itf AtRelease w2)))"
        using e2 itf_okD [OF assms(2)] by (rule evolves_trans)
      then show ?thesis using Some by (auto simp: execute_def acq a rec)
    next
      case None
      let ?w3 = "itf AtCommit (heartbeat_loop R ex e fence ticks w2)" and ?hr = "run_handler ex py reg e"
      obtain b r w4 where com: "exec_commit P (clk AtCommit) e fence ?hr ?w3 = ((b, r), w4)"
        by (metis prod.collapse)
      have "evolves (D (w_db w)) (D (w_db ?w3))"
        using e2 heartbeat_itf_ok [OF assms(3)] itf_okD [OF assms(2)] by (meson evolves_trans)
      then have e4: "evolves (D (w_db w)) (D (w_db w4))"
        using postgres_service.exec_commit_evolves [OF assms(1), of ?w3 "clk AtCommit" e fence ?hr]
        by (auto simp: com intro: evolves_trans)
      have e5: "evolves (D (w_db w4)) (D (w_db (itf AtRelease w4)))" by (rule itf_okD [OF assms(2)])
      have run: "execute R P ex py reg clk itf ticks e w =
          (Inr (b, r), exec_release R ex e fence (itf AtRelease w4))"
        using None by (simp add: execute_def acq a rec com Let_def)
      have "b \<Longrightarrow> hr_success ?hr \<and> (\<exists>row. effects (D (w_db w4)) (effect_key e) = Some row)"
        using postgres_service.exec_commit_success [OF assms(1), of "clk AtCommit" e fence ?hr ?w3 r w4] com
        by (auto split: option.splits)
      with e4 e5 show ?thesis
        by (auto simp: run intro: evolves_trans evolves_effect)
    qed
  qed
qed

lemma recorded_attempt:
  assumes "postgres_service P D" and "\<And>i. itf_ok D (itf i)"
    and "attempts (D (w_db w)) (env_task_id e, attempt_no e) \<noteq> None"
  shows "(\<forall>r. fst (execute R P ex py reg clk itf ticks e w) \<noteq> Inr (True, r)) \<and>
    execute R P ex py reg clk itf ticks e w = execute R P ex py reg' clk itf ticks' e w"
proof -
  obtain a w1 where acq: "exec_acquire R ex e (itf AtAcquire w) = (a, w1)" by fastforce
  have "evolves (D (w_db w)) (D (w_db w1))"
    using itf_okD [OF assms(2), of w AtAcquire] exec_db_same(1) [of R ex e "itf AtAcquire w"] by (simp add: acq)
  then have "evolves (D (w_db w)) (D (w_db (itf AtRecord w1)))"
    using itf_okD [OF assms(2)] by (rule evolves_trans)
  then have taken: "attempts (D (w_db (itf AtRecord w1))) (env_task_id e, attempt_no e) \<noteq> None"
    using assms(3) by (force simp: evolves_def rows_evolve_def)
  show ?thesis
  proof (cases a)
    case (Inl x)
    then show ?thesis by (simp add: execute_def acq)
  next
    case (Inr fence)
    obtain x where "exec_record P (clk AtRecord) ex e fence (itf AtRecord w1) =
        (Some (''StoreError: '' @ exn_msg x), itf AtRecord w1)"
      using postgres_service.exec_record_taken [OF assms(1) taken] by blast
    then show ?thesis by (simp add: execute_def acq Inr)
  qed
qed

section \<open>Properties\<close>

text \<open>
  C12: An execution that reports success is backed by an effect. However the other processes
  interleave with it, if \<open>execute\<close> returns success then its handler returned a value and an effect
  stands under the envelope's deduplication key; and whatever it returns, the database has only
  evolved: no row is lost and no effect is changed.
\<close>

theorem execute_success_has_effect:
  assumes "postgres_service P D" and "\<And>i. itf_ok D (itf i)" and "list_all (itf_ok D) ticks"
  shows "evolves (D (w_db w)) (D (w_db (snd (execute R P ex py reg clk itf ticks e w)))) \<and>
    (\<forall>r. fst (execute R P ex py reg clk itf ticks e w) = Inr (True, r) \<longrightarrow>
       hr_success (run_handler ex py reg e) \<and>
       (\<exists>row. effects (D (w_db (snd (execute R P ex py reg clk itf ticks e w)))) (effect_key e) = Some row))"
  using execute_effect [OF assms] .

text \<open>A worker, its registry, a queued task and a world in which its row is on record.\<close>

definition demo_ex :: executor where
  "demo_ex = \<lparr>ex_worker_id = ''w1'', ex_lease_ms = 30000\<rparr>"

definition demo_py :: py_text where
  "demo_py = \<lparr>float_repr = (\<lambda>_. ''24000.0''), own_frames = []\<rparr>"

definition demo_reg :: registry where
  "demo_reg = fst (task (Some ''charge'') None None None ''charge_fn''
     (\<lambda>p. HReturn (JObj [(''ok'', JBool True)])) (\<lambda>_. None))"

definition demo_task :: task_envelope where
  "demo_task = new_envelope 0 ''t1'' ''default'' ''charge'' JNull"

definition demo_row :: task_row where
  "demo_row = \<lparr>tr_id = ''t1'', tr_queue = ''default'', tr_task_name = ''charge'', tr_payload = JNull,
     tr_state = PENDING, tr_priority = 0, tr_attempt = 0, tr_max_attempts = 5, tr_dedup_key = None,
     tr_run_at = None, tr_workflow_id = None, tr_step_name = None, tr_created_at = 0, tr_updated_at = 0\<rparr>"

definition demo_world :: "(nat keyspace, ref_db) world" where
  "demo_world = \<lparr>w_redis = empty_keyspace, w_db = empty_ref_db\<lparr>rd_tasks := [demo_row]\<rparr>\<rparr>"

lemmas demo_defs = demo_ex_def demo_py_def demo_reg_def demo_task_def demo_row_def demo_world_def
  new_envelope_def empty_ref_db_def

lemmas eval_db = ref_pg_run run_tx_def tx_defs create_attempt_def update_task_state_def close_attempt_def
  commit_effect_def Let_def ref_attempt_ok_def ref_effect_ok_def attempt_key_def sql_update_def
  int2_def int4_def int8_def

lemma demo_acquire:
  "\<exists>s. exec_acquire ref_redis demo_ex demo_task demo_world = (Inr 1, demo_world\<lparr>w_redis := s\<rparr>)"
proof -
  have "ctr (id (empty_keyspace :: nat keyspace)) fence_key = Some 0"
    by (simp add: ctr_def empty_keyspace_def)
  from redis_service.acquire_free [OF ref_redis_service this, of 30000 "''t1''" "''w1''"]
  show ?thesis
    by (auto simp: exec_acquire_def demo_ex_def demo_task_def new_envelope_def demo_world_def empty_keyspace_def)
qed

definition demo_run :: "(exn + bool \<times> string option) \<times> (nat keyspace, ref_db) world" where
  "demo_run = execute ref_redis ref_postgres demo_ex demo_py demo_reg (\<lambda>_. 1) (\<lambda>_ w. w) [] demo_task demo_world"

lemma demo_run_success: "fst demo_run = Inr (True, None)"
proof -
  obtain s where s: "exec_acquire ref_redis demo_ex demo_task demo_world = (Inr 1, demo_world\<lparr>w_redis := s\<rparr>)"
    using demo_acquire by blast
  show ?thesis
    by (simp add: demo_run_def execute_def s)
      (simp add: exec_record_def record_tx_def exec_commit_def commit_tx_def run_handler_def
        get_handler_def task_def effect_key_def attempt_no_def eval_db demo_defs)
qed

theorem execute_success_has_effect_witness:
  "\<exists>row. effects (ref_view (w_db (snd demo_run))) (effect_key demo_task) = Some row"
  using execute_success_has_effect [of ref_postgres ref_view "\<lambda>_ w. w" "[]" demo_world ref_redis demo_ex
      demo_py demo_reg "\<lambda>_. 1" demo_task] demo_run_success
  by (simp add: demo_run_def)

text \<open>What other workers do on the leases between two renewals.\<close>

definition lease_itf ::
  "('s, 'v) redis \<Rightarrow> lease_op list \<Rightarrow> ('s, 'd) world \<Rightarrow> ('s, 'd) world" where
  "lease_itf R ops w = w\<lparr>w_redis := snd (lease_run R ops (w_redis w))\<rparr>"

lemma lease_itf_simps [simp]:
  "w_redis (lease_itf R ops w) = snd (lease_run R ops (w_redis w))"
  "(lease_itf R ops w)\<lparr>w_redis := s\<rparr> = w\<lparr>w_redis := s\<rparr>"
  by (simp_all add: lease_itf_def)

lemma lock_run_seq: "lk_seq (snd (lock_run ops l)) \<le> lk_seq l + int (length (filter is_acquire ops))"
proof (induction ops arbitrary: l)
  case (Cons x xs)
  have "lk_seq (snd (lock_do x l)) \<le> lk_seq l + of_bool (is_acquire x)"
    by (cases x) (auto simp: lock_acquire_def lock_release_def lock_extend_def lock_elapse_def)
  with Cons.IH [of "snd (lock_do x l)"] show ?case
    by (auto split: prod.splits)
qed simp

text \<open>
  C26: The heartbeat keeps the lease. If an execution holds the lease of its task for \<open>lease_ms\<close>, and
  between two renewals less than \<open>lease_ms\<close> milliseconds pass while other workers run any lease
  operations of their own, then after any number of renewals it still holds the lease, for the
  whole of \<open>lease_ms\<close> again.
\<close>

theorem heartbeat_keeps_lease:
  assumes "redis_service R V before" and "lock_rel (V (w_redis w)) l" and "0 < ex_lease_ms ex"
    and "lk_held l (env_task_id e) = Some (ex_worker_id ex, fence, nat (ex_lease_ms ex))"
    and "\<forall>ops \<in> set opss. list_all op_ok ops \<and>
      list_all (\<lambda>x. \<not> by_holder (env_task_id e) (ex_worker_id ex) fence x) ops \<and>
      sum_list (map duration ops) < nat (ex_lease_ms ex)"
    and "lk_seq l + int (length (filter is_acquire (concat opss))) < 10 ^ 14"
  shows "\<exists>l'. lock_rel (V (w_redis (heartbeat_loop R ex e fence (map (lease_itf R) opss) w))) l' \<and>
    lk_held l' (env_task_id e) = Some (ex_worker_id ex, fence, nat (ex_lease_ms ex))"
  using assms
proof (induction opss arbitrary: w l)
  case Nil
  then show ?case by auto
next
  case (Cons ops opss)
  let ?x = "Extend (env_task_id e) (ex_worker_id ex) fence (ex_lease_ms ex)"
  let ?s1 = "snd (lease_run R ops (w_redis w))" and ?l1 = "snd (lock_run ops l)"
  have ops: "list_all op_ok ops" "list_all (\<lambda>x. \<not> by_holder (env_task_id e) (ex_worker_id ex) fence x) ops"
      "sum_list (map duration ops) < nat (ex_lease_ms ex)"
    using Cons.prems(5) by simp_all
  have rel1: "lock_rel (V ?s1) ?l1"
    using redis_service.lease_run_refines [OF Cons.prems(1,2) ops(1)] Cons.prems(6) by simp
  have held1: "owns ?l1 (env_task_id e) (ex_worker_id ex) fence"
    using lock_run_held [OF Cons.prems(4) ops(2,3)] by (simp add: owns_def)
  have seq1: "lk_seq ?l1 + int (length (filter is_acquire (concat opss))) < 10 ^ 14"
    using lock_run_seq [of ops l] Cons.prems(6) by simp
  let ?l2 = "snd (lock_do ?x ?l1)"
  obtain s2 where ext: "extend_lease R (env_task_id e) (ex_worker_id ex) fence (ex_lease_ms ex) ?s1 = (True, s2)"
      and rel2: "lock_rel (V s2) ?l2"
    using redis_service.lease_do_refines [OF Cons.prems(1) rel1, of ?x] Cons.prems(3) held1 seq1
    by (auto simp: lock_extend_def split: prod.splits if_splits)
  have "lk_held ?l2 (env_task_id e) = Some (ex_worker_id ex, fence, nat (ex_lease_ms ex))" "lk_seq ?l2 = lk_seq ?l1"
    using held1 by (simp_all add: lock_extend_def)
  then have "\<exists>l'. lock_rel (V (w_redis (heartbeat_loop R ex e fence (map (lease_itf R) opss) (w\<lparr>w_redis := s2\<rparr>)))) l' \<and>
      lk_held l' (env_task_id e) = Some (ex_worker_id ex, fence, nat (ex_lease_ms ex))"
    using Cons.prems rel2 seq1 by (intro Cons.IH [of _ ?l2]) simp_all
  then show ?case by (simp add: ext Let_def)
qed

theorem heartbeat_keeps_lease_witness:
  "\<exists>l'. lock_rel (w_redis (heartbeat_loop ref_redis demo_ex demo_task 1
      [lease_itf ref_redis [Elapse 10000, Acquire ''t1'' ''w2'' 30000]]
      \<lparr>w_redis = snd (lease_run ref_redis [Acquire ''t1'' ''w1'' 30000] (empty_keyspace :: nat keyspace)), w_db = ()\<rparr>)) l'
    \<and> lk_held l' ''t1'' = Some (''w1'', 1, 30000)"
proof -
  let ?s = "snd (lease_run ref_redis [Acquire ''t1'' ''w1'' 30000] (empty_keyspace :: nat keyspace))"
  let ?l = "snd (lock_run [Acquire ''t1'' ''w1'' 30000] free_lock)"
  have "lock_rel (id (empty_keyspace :: nat keyspace)) free_lock"
    by (simp add: lock_rel_empty free_lock_def)
  from redis_service.lease_run_refines [OF ref_redis_service this, of "[Acquire ''t1'' ''w1'' 30000]"]
  have "lock_rel (id (w_redis \<lparr>w_redis = ?s, w_db = ()\<rparr>)) ?l" by (simp add: free_lock_def)
  from heartbeat_keeps_lease [OF ref_redis_service this, of demo_ex demo_task 1
      "[[Elapse 10000, Acquire ''t1'' ''w2'' 30000]]"]
  show ?thesis by (simp add: demo_ex_def demo_task_def new_envelope_def free_lock_def lock_acquire_def)
qed

end
