(* ===== verification/Broker_Delivery.thy ===== *)
theory Broker_Delivery
  imports Redis_Broker
begin

text \<open>
  Delivery through the Redis broker. The locale \<open>at_least_once\<close> is the contract of a broker queue
  that the worker relies on (the protocol of \<open>dtq/broker/base.py\<close>): the ids that are ready and the
  ids that are in flight, and how each operation moves them. Its lemmas hold for every broker; the
  Redis broker is shown to satisfy it over any Redis server. The second part is the scheduler tick.
\<close>

section \<open>The contract\<close>

datatype broker_op =
    Publish task_envelope
  | Lease string nat
  | Ack "nat list"
  | Nack "nat list"
  | Reclaim string nat nat
  | Schedule task_envelope timestamp
  | Promote timestamp
  | DeadLetter task_envelope string
  | EnsureQueue
  | Pass nat

text \<open>The operations that leave what is ready and in flight on a queue alone.\<close>

fun aside :: "broker_op \<Rightarrow> bool" where
  "aside (Schedule e run_at) = True"
| "aside (DeadLetter e reason) = True"
| "aside EnsureQueue = True"
| "aside _ = False"

fun acks :: "nat \<Rightarrow> broker_op \<Rightarrow> bool" where
  "acks i (Ack ids) = (i \<in> set ids)"
| "acks i _ = False"

locale at_least_once =
  fixes wf :: "'s \<Rightarrow> bool"
    and ready :: "'s \<Rightarrow> nat list"
    and inflight :: "'s \<Rightarrow> nat list"
    and perform :: "broker_op \<Rightarrow> 's \<Rightarrow> 's"
  assumes wf_perform: "wf s \<Longrightarrow> wf (perform x s)"
    and publish_ready: "wf s \<Longrightarrow>
      \<exists>i. i \<notin> set (ready s) \<union> set (inflight s) \<and> ready (perform (Publish e) s) = ready s @ [i]
        \<and> inflight (perform (Publish e) s) = inflight s"
    and lease_ready: "wf s \<Longrightarrow> ready (perform (Lease c n) s) = drop n (ready s)"
    and lease_inflight: "wf s \<Longrightarrow> inflight (perform (Lease c n) s) = inflight s @ take n (ready s)"
    and ack_ready: "wf s \<Longrightarrow> ready (perform (Ack ids) s) = ready s"
    and ack_inflight: "wf s \<Longrightarrow>
      inflight (perform (Ack ids) s) = filter (\<lambda>i. i \<notin> set ids) (inflight s)"
    and nack: "perform (Nack ids) s = s"
    and reclaim: "wf s \<Longrightarrow> ready (perform (Reclaim c mi n) s) = ready s
        \<and> inflight (perform (Reclaim c mi n) s) = inflight s"
    and promote: "wf s \<Longrightarrow>
      \<exists>is. distinct is \<and> set is \<inter> (set (ready s) \<union> set (inflight s)) = {} \<and>
        ready (perform (Promote now) s) = ready s @ is \<and> inflight (perform (Promote now) s) = inflight s"
    and others: "wf s \<Longrightarrow> aside x \<Longrightarrow> ready (perform x s) = ready s \<and> inflight (perform x s) = inflight s"
    and pass: "wf s \<Longrightarrow> ready (perform (Pass d) s) = ready s \<and> inflight (perform (Pass d) s) = inflight s"
begin

lemma perform_keeps:
  assumes "wf s" and "\<not> acks i x" and "i \<in> set (ready s) \<union> set (inflight s)"
  shows "i \<in> set (ready (perform x s)) \<union> set (inflight (perform x s))"
proof (cases x)
  case (Publish e)
  then show ?thesis using assms(3) publish_ready [OF assms(1), of e] by auto
next
  case (Lease c n)
  have "set (ready s) = set (take n (ready s)) \<union> set (drop n (ready s))"
    by (metis append_take_drop_id set_append)
  then show ?thesis using assms(3) lease_ready [OF assms(1)] lease_inflight [OF assms(1)]
    by (auto simp: Lease)
next
  case (Ack ids)
  then show ?thesis using assms(2,3) ack_ready [OF assms(1)] ack_inflight [OF assms(1)] by auto
next
  case (Promote now)
  then show ?thesis using assms(3) promote [OF assms(1), of now] by auto
qed (use assms(3) nack reclaim [OF assms(1)] pass [OF assms(1)] others [OF assms(1), of x] in auto)

lemma fold_wf: "wf s \<Longrightarrow> wf (fold perform ops s)"
  by (induction ops arbitrary: s) (simp_all add: wf_perform)

lemma fold_keeps:
  assumes "wf s" and "list_all (\<lambda>x. \<not> acks i x) ops" and "i \<in> set (ready s) \<union> set (inflight s)"
  shows "i \<in> set (ready (fold perform ops s)) \<union> set (inflight (fold perform ops s))"
  using assms
proof (induction ops arbitrary: s)
  case Nil
  then show ?case by simp
next
  case (Cons x xs)
  have "i \<in> set (ready (perform x s)) \<union> set (inflight (perform x s))"
    using perform_keeps [OF Cons.prems(1)] Cons.prems(2,3) by auto
  with Cons.IH [OF wf_perform [OF Cons.prems(1)]] Cons.prems(2) show ?case by simp
qed

end

section \<open>The Redis queue as ready and pending ids\<close>

definition sorted_ids :: "nat list \<Rightarrow> bool" where
  "sorted_ids = sorted_wrt (<)"

definition queue_group :: "'v keyspace \<Rightarrow> string \<Rightarrow> xgroup option" where
  "queue_group ks q = group_at ks (q_key q) q"

definition ready_ids :: "'v keyspace \<Rightarrow> string \<Rightarrow> nat list" where
  "ready_ids ks q = (case queue_group ks q of
       None \<Rightarrow> [] | Some gr \<Rightarrow> map fst (undelivered (stream_at ks (q_key q)) gr))"

definition pending_ids :: "'v keyspace \<Rightarrow> string \<Rightarrow> nat list" where
  "pending_ids ks q = (case queue_group ks q of None \<Rightarrow> [] | Some gr \<Rightarrow> map fst (g_pel gr))"

definition group_wf :: "'v stream \<Rightarrow> xgroup \<Rightarrow> bool" where
  "group_wf st gr \<longleftrightarrow>
     sorted_ids (map fst (st_entries st)) \<and> (\<forall>i \<in> fst ` set (st_entries st). 0 < i \<and> i \<le> st_last st) \<and>
     g_last gr \<le> st_last st \<and> sorted_ids (map fst (g_pel gr)) \<and>
     (\<forall>i \<in> fst ` set (g_pel gr). i \<le> g_last gr \<and> i \<in> fst ` set (st_entries st))"

definition queue_wf :: "'v keyspace \<Rightarrow> string \<Rightarrow> bool" where
  "queue_wf ks q \<longleftrightarrow>
     (\<exists>gr. queue_group ks q = Some gr \<and> group_wf (stream_at ks (q_key q)) gr)"

text \<open>Reading back what a command wrote.\<close>

lemma stream_at_put [simp]:
  "stream_at (put_stream k st ks) k' = (if k' = k then st else stream_at ks k')"
  by (simp add: stream_at_def put_stream_def)

lemma group_at_put_stream [simp]:
  "group_at (put_stream k st ks) k' g = (if k' = k then map_of (st_groups st) g else group_at ks k' g)"
  by (simp add: group_at_def put_stream_def)

lemma group_at_put_group [simp]:
  "group_at (put_group k g gr ks) k g = Some gr"
  by (simp add: put_group_def Let_def update_conv')

lemma entries_put_group [simp]:
  "st_entries (stream_at (put_group k g gr ks) k) = st_entries (stream_at ks k)"
  "st_last (stream_at (put_group k g gr ks) k) = st_last (stream_at ks k)"
  by (simp_all add: put_group_def Let_def)

lemma group_at_Some: "group_at ks k g = Some gr \<Longrightarrow> map_of (st_groups (stream_at ks k)) g = Some gr"
  by (simp add: group_at_def stream_at_def split: option.splits)

lemma undelivered_cong:
  "st_entries st = st_entries st' \<Longrightarrow> undelivered st gr = undelivered st' gr"
  by (simp add: undelivered_def)

text \<open>Splitting a sorted list at the last element taken.\<close>

lemma filter_beyond_take:
  assumes "sorted_ids (map fst xs)" and "take n xs \<noteq> []"
  shows "filter (\<lambda>(i, _). fst (last (take n xs)) < i) xs = drop n xs"
proof -
  have "sorted_ids (map fst (take n xs @ drop n xs))" using assms(1) by simp
  then have t: "sorted_ids (map fst (take n xs))"
    and td: "\<forall>a \<in> set (take n xs). \<forall>b \<in> set (drop n xs). fst a < fst b"
    by (auto simp: sorted_ids_def sorted_wrt_append simp del: append_take_drop_id)
  obtain ys y where ys: "take n xs = ys @ [y]"
    using assms(2) by (cases "take n xs" rule: rev_cases) auto
  have "filter (\<lambda>(i, _). fst y < i) (take n xs) = []"
    using t by (auto simp: ys sorted_ids_def sorted_wrt_append filter_empty_conv)
  moreover have "filter (\<lambda>(i, _). fst y < i) (drop n xs) = drop n xs"
    using td by (auto simp: ys filter_id_conv)
  moreover have "filter (\<lambda>(i, _). fst y < i) xs =
      filter (\<lambda>(i, _). fst y < i) (take n xs) @ filter (\<lambda>(i, _). fst y < i) (drop n xs)"
    by (metis append_take_drop_id filter_append)
  ultimately show ?thesis by (simp add: ys)
qed

lemma filter_later:
  assumes "sorted_ids (map fst xs)" and "(a::nat) \<le> b"
  shows "filter (\<lambda>(i, _). b < i) (filter (\<lambda>(i, _). a < i) xs) = filter (\<lambda>(i, _). b < i) xs"
  using assms by (auto intro: filter_cong)

section \<open>Each command on a queue\<close>

lemma queue_wf_xadd:
  assumes wf: "queue_wf ks q" and i: "st_last (stream_at ks (q_key q)) < i"
  shows "queue_wf (ks_xadd i (q_key q) f ks) q"
    and "ready_ids (ks_xadd i (q_key q) f ks) q = ready_ids ks q @ [i]"
    and "pending_ids (ks_xadd i (q_key q) f ks) q = pending_ids ks q"
    and "i \<notin> set (ready_ids ks q) \<union> set (pending_ids ks q)"
proof -
  obtain gr where gr: "group_at ks (q_key q) q = Some gr" and w: "group_wf (stream_at ks (q_key q)) gr"
    using wf by (auto simp: queue_wf_def queue_group_def)
  let ?ks = "ks_xadd i (q_key q) f ks"
  have gr': "group_at ?ks (q_key q) q = Some gr"
    using group_at_Some [OF gr] by (simp add: ks_xadd_def Let_def)
  have e: "st_entries (stream_at ?ks (q_key q)) = st_entries (stream_at ks (q_key q)) @ [(i, f)]"
    and l: "st_last (stream_at ?ks (q_key q)) = i"
    by (simp_all add: ks_xadd_def Let_def)
  show "queue_wf ?ks q"
    using w i gr' e l by (force simp: queue_wf_def queue_group_def group_wf_def sorted_ids_def sorted_wrt_append)
  show "ready_ids ?ks q = ready_ids ks q @ [i]"
    using w i by (simp add: ready_ids_def queue_group_def gr gr' undelivered_def e group_wf_def)
  show "pending_ids ?ks q = pending_ids ks q"
    by (simp add: pending_ids_def queue_group_def gr gr')
  show "i \<notin> set (ready_ids ks q) \<union> set (pending_ids ks q)"
    using w i by (fastforce simp: ready_ids_def pending_ids_def queue_group_def gr undelivered_def group_wf_def)
qed

text \<open>The group after the delivery of the first \<open>n\<close> entries to \<open>c\<close>.\<close>

definition deliver :: "string \<Rightarrow> (nat \<times> 'v fields) list \<Rightarrow> xgroup \<Rightarrow> xgroup" where
  "deliver c ms gr =
     \<lparr>g_last = fst (last ms),
      g_pel = g_pel gr @ map (\<lambda>(i, _). (i, \<lparr>p_consumer = c, p_idle = 0\<rparr>)) ms\<rparr>"

lemma sorted_undelivered: "group_wf st gr \<Longrightarrow> sorted_ids (map fst (undelivered st gr))"
  by (simp add: group_wf_def undelivered_def sorted_ids_def sorted_wrt_map sorted_wrt_filter)

lemma undelivered_mem:
  "x \<in> set (take n (undelivered st gr)) \<Longrightarrow> x \<in> set (st_entries st) \<and> g_last gr < fst x"
  by (auto simp: undelivered_def dest!: in_set_takeD)

lemma undelivered_deliver:
  assumes "group_wf st gr" and "take n (undelivered st gr) \<noteq> []"
  shows "undelivered st (deliver c (take n (undelivered st gr)) gr) = drop n (undelivered st gr)"
proof -
  have "g_last gr < fst (last (take n (undelivered st gr)))"
    using undelivered_mem [OF last_in_set [OF assms(2)]] by simp
  then show ?thesis
    using filter_beyond_take [OF sorted_undelivered [OF assms(1)] assms(2)]
      filter_later [of "st_entries st" "g_last gr"] assms(1)
    by (simp add: undelivered_def group_wf_def deliver_def)
qed

lemma group_wf_deliver:
  assumes w: "group_wf st gr" and ne: "take n (undelivered st gr) \<noteq> []"
  shows "group_wf st (deliver c (take n (undelivered st gr)) gr)"
proof -
  let ?ms = "take n (undelivered st gr)"
  have lst: "last ?ms \<in> set (st_entries st)" "g_last gr < fst (last ?ms)"
    using undelivered_mem [OF last_in_set [OF ne]] by auto
  have srt: "sorted_ids (map fst ?ms)"
    using sorted_undelivered [OF w] by (metis sorted_ids_def sorted_wrt_take take_map)
  obtain ys y where ys: "?ms = ys @ [y]" using ne by (cases "?ms" rule: rev_cases) auto
  have below: "\<forall>x \<in> set ?ms. fst x \<le> fst (last ?ms)"
    using srt by (auto simp: ys sorted_ids_def sorted_wrt_append less_imp_le)
  have mem: "\<forall>x \<in> set ?ms. x \<in> set (st_entries st) \<and> g_last gr < fst x"
    using undelivered_mem by blast
  have ids: "map fst (g_pel (deliver c ?ms gr)) = map fst (g_pel gr) @ map fst ?ms"
    by (simp add: deliver_def case_prod_unfold)
  have "sorted_ids (map fst (g_pel (deliver c ?ms gr)))"
    unfolding ids using w srt mem by (force simp: group_wf_def sorted_ids_def sorted_wrt_append)
  moreover have "i \<le> g_last (deliver c ?ms gr) \<and> i \<in> fst ` set (st_entries st)"
    if "i \<in> fst ` set (g_pel (deliver c ?ms gr))" for i
  proof -
    from that consider "i \<in> fst ` set (g_pel gr)" | "i \<in> fst ` set ?ms"
      using ids by (metis Un_iff set_append set_map)
    then show ?thesis
    proof cases
      case 1
      then have "i \<le> g_last gr \<and> i \<in> fst ` set (st_entries st)"
        using w unfolding group_wf_def by blast
      with lst(2) show ?thesis by (simp add: deliver_def)
    next
      case 2
      with below mem show ?thesis by (auto simp: deliver_def)
    qed
  qed
  moreover have "g_last (deliver c ?ms gr) \<le> st_last st"
    using w lst(1) by (auto simp: group_wf_def deliver_def)
  ultimately show ?thesis
    using w unfolding group_wf_def by blast
qed

lemma queue_wf_Some:
  assumes "queue_wf ks q"
  obtains gr where "queue_group ks q = Some gr" and "group_wf (stream_at ks (q_key q)) gr"
  using assms by (auto simp: queue_wf_def)

lemma put_queue_group:
  "queue_group (put_group (q_key q) q gr ks) q = Some gr"
  "ready_ids (put_group (q_key q) q gr ks) q = map fst (undelivered (stream_at ks (q_key q)) gr)"
  "pending_ids (put_group (q_key q) q gr ks) q = map fst (g_pel gr)"
  "queue_wf (put_group (q_key q) q gr ks) q \<longleftrightarrow> group_wf (stream_at ks (q_key q)) gr"
  by (simp_all add: queue_group_def ready_ids_def pending_ids_def queue_wf_def undelivered_def
      group_wf_def)

lemma queue_wf_xreadgroup:
  assumes wf: "queue_wf ks q"
  shows "queue_wf (snd (ks_xreadgroup q c (q_key q) n ks)) q"
    and "ready_ids (snd (ks_xreadgroup q c (q_key q) n ks)) q = drop n (ready_ids ks q)"
    and "pending_ids (snd (ks_xreadgroup q c (q_key q) n ks)) q = pending_ids ks q @ take n (ready_ids ks q)"
    and "map fst (fst (ks_xreadgroup q c (q_key q) n ks)) = take n (ready_ids ks q)"
proof -
  obtain gr where gr: "queue_group ks q = Some gr" and w: "group_wf (stream_at ks (q_key q)) gr"
    using wf by (rule queue_wf_Some)
  let ?u = "undelivered (stream_at ks (q_key q)) gr"
  let ?r = "ks_xreadgroup q c (q_key q) n ks"
  have r: "?r = (if take n ?u = [] then ([], ks)
      else (take n ?u, put_group (q_key q) q (deliver c (take n ?u) gr) ks))"
    using gr by (simp add: ks_xreadgroup_def queue_group_def Let_def deliver_def)
  have rd: "ready_ids ks q = map fst ?u" and pd: "pending_ids ks q = map fst (g_pel gr)"
    by (simp_all add: ready_ids_def pending_ids_def gr)
  show "map fst (fst ?r) = take n (ready_ids ks q)"
    by (simp add: r rd take_map)
  show "queue_wf (snd ?r) q"
    using wf group_wf_deliver [OF w] by (simp add: r put_queue_group)
  show "ready_ids (snd ?r) q = drop n (ready_ids ks q)"
    using undelivered_deliver [OF w, of n c] by (auto simp: r rd put_queue_group drop_map)
  show "pending_ids (snd ?r) q = pending_ids ks q @ take n (ready_ids ks q)"
    by (simp add: r rd pd put_queue_group take_map) (simp add: deliver_def case_prod_unfold take_map)
qed

lemma queue_wf_xack:
  assumes wf: "queue_wf ks q"
  shows "queue_wf (ks_xack (q_key q) q ids ks) q"
    and "ready_ids (ks_xack (q_key q) q ids ks) q = ready_ids ks q"
    and "pending_ids (ks_xack (q_key q) q ids ks) q = filter (\<lambda>i. i \<notin> set ids) (pending_ids ks q)"
proof -
  obtain gr where gr: "queue_group ks q = Some gr" and w: "group_wf (stream_at ks (q_key q)) gr"
    using wf by (rule queue_wf_Some)
  let ?g = "gr\<lparr>g_pel := filter (\<lambda>(i, _). i \<notin> set ids) (g_pel gr)\<rparr>"
  have k: "ks_xack (q_key q) q ids ks = put_group (q_key q) q ?g ks"
    using gr by (simp add: ks_xack_def queue_group_def)
  have ids: "map fst (g_pel ?g) = filter (\<lambda>i. i \<notin> set ids) (map fst (g_pel gr))"
    by (simp add: filter_map o_def case_prod_unfold)
  have "group_wf (stream_at ks (q_key q)) ?g"
    using w unfolding group_wf_def ids by (auto simp: sorted_ids_def sorted_wrt_filter)
  then show "queue_wf (ks_xack (q_key q) q ids ks) q"
    by (simp add: k put_queue_group)
  show "ready_ids (ks_xack (q_key q) q ids ks) q = ready_ids ks q"
    by (simp add: k put_queue_group ready_ids_def gr undelivered_def)
  show "pending_ids (ks_xack (q_key q) q ids ks) q = filter (\<lambda>i. i \<notin> set ids) (pending_ids ks q)"
    using ids by (simp add: k put_queue_group pending_ids_def gr)
qed

text \<open>Changing the pending entries without changing their ids keeps the queue.\<close>

lemma group_wf_same_ids:
  assumes "group_wf st gr" and "map fst p = map fst (g_pel gr)"
  shows "group_wf st (gr\<lparr>g_pel := p\<rparr>)"
proof -
  have "fst ` set p = fst ` set (g_pel gr)" using assms(2) by (metis set_map)
  with assms show ?thesis by (simp add: group_wf_def)
qed

lemma claim_ids: "map fst (g_pel (claim c ids gr)) = map fst (g_pel gr)"
  by (auto simp: claim_def)

lemma elapse_ids: "map fst (g_pel (elapse_group d gr)) = map fst (g_pel gr)"
  by (auto simp: elapse_group_def)

lemma queue_wf_xautoclaim:
  assumes wf: "queue_wf ks q"
  shows "queue_wf (snd (ks_xautoclaim (q_key q) q c mi n ks)) q"
    and "ready_ids (snd (ks_xautoclaim (q_key q) q c mi n ks)) q = ready_ids ks q"
    and "pending_ids (snd (ks_xautoclaim (q_key q) q c mi n ks)) q = pending_ids ks q"
proof -
  obtain gr where gr: "queue_group ks q = Some gr" and w: "group_wf (stream_at ks (q_key q)) gr"
    using wf by (rule queue_wf_Some)
  let ?g = "claim c (claimable mi n gr) gr"
  have k: "snd (ks_xautoclaim (q_key q) q c mi n ks) = put_group (q_key q) q ?g ks"
    using gr by (simp add: ks_xautoclaim_def queue_group_def Let_def)
  have "group_wf (stream_at ks (q_key q)) ?g"
    using group_wf_same_ids [OF w claim_ids] by (simp add: claim_def)
  then show "queue_wf (snd (ks_xautoclaim (q_key q) q c mi n ks)) q"
    by (simp add: k put_queue_group)
  show "ready_ids (snd (ks_xautoclaim (q_key q) q c mi n ks)) q = ready_ids ks q"
    by (simp add: k put_queue_group ready_ids_def gr undelivered_def claim_def)
  show "pending_ids (snd (ks_xautoclaim (q_key q) q c mi n ks)) q = pending_ids ks q"
    by (simp add: k put_queue_group pending_ids_def gr claim_ids)
qed

lemma queue_group_elapse:
  "queue_group (ks_elapse d ks) q = map_option (elapse_group d) (queue_group ks q)"
  by (auto simp: queue_group_def group_at_def ks_elapse_def map_of_map split: option.splits)

lemma entries_elapse:
  "st_entries (stream_at (ks_elapse d ks) k) = st_entries (stream_at ks k)"
  "st_last (stream_at (ks_elapse d ks) k) = st_last (stream_at ks k)"
  by (auto simp: stream_at_def ks_elapse_def empty_stream_def split: option.splits)

lemma queue_wf_elapse:
  assumes wf: "queue_wf ks q"
  shows "queue_wf (ks_elapse d ks) q"
    and "ready_ids (ks_elapse d ks) q = ready_ids ks q"
    and "pending_ids (ks_elapse d ks) q = pending_ids ks q"
proof -
  obtain gr where gr: "queue_group ks q = Some gr" and w: "group_wf (stream_at ks (q_key q)) gr"
    using wf by (rule queue_wf_Some)
  have "group_wf (stream_at (ks_elapse d ks) (q_key q)) (elapse_group d gr)"
    using group_wf_same_ids [OF w elapse_ids [of d]]
    by (simp add: group_wf_def entries_elapse elapse_group_def)
  then show "queue_wf (ks_elapse d ks) q"
    by (simp add: queue_wf_def queue_group_elapse gr)
  show "ready_ids (ks_elapse d ks) q = ready_ids ks q"
    by (simp add: ready_ids_def queue_group_elapse gr undelivered_def entries_elapse elapse_group_def)
  show "pending_ids (ks_elapse d ks) q = pending_ids ks q"
    by (simp add: pending_ids_def queue_group_elapse gr elapse_ids)
qed

text \<open>Commands that leave the streams, or the stream of the queue, alone.\<close>

lemma queue_same_streams:
  assumes "streams ks' = streams ks"
  shows "queue_group ks' q = queue_group ks q" "stream_at ks' k = stream_at ks k"
    "queue_wf ks' q = queue_wf ks q" "ready_ids ks' q = ready_ids ks q" "pending_ids ks' q = pending_ids ks q"
proof -
  show eq: "queue_group ks' q = queue_group ks q" "stream_at ks' k = stream_at ks k" for k
    using assms by (simp_all add: queue_group_def group_at_def stream_at_def)
  show "queue_wf ks' q = queue_wf ks q" "ready_ids ks' q = ready_ids ks q" "pending_ids ks' q = pending_ids ks q"
    by (simp_all add: queue_wf_def ready_ids_def pending_ids_def eq cong: option.case_cong)
qed

lemma queue_other_stream:
  shows "queue_wf (ks_xadd i (dlq_key q') f ks) q = queue_wf ks q" "ready_ids (ks_xadd i (dlq_key q') f ks) q = ready_ids ks q"
    "pending_ids (ks_xadd i (dlq_key q') f ks) q = pending_ids ks q"
  by (simp_all add: queue_wf_def ready_ids_def pending_ids_def queue_group_def ks_xadd_def Let_def cong: option.case_cong)

lemma streams_zset [simp]:
  "streams (ks_zadd before k m sc ks) = streams ks" "streams (ks_zrem k m ks) = streams ks"
  by (simp_all add: ks_zadd_def ks_zrem_def)

context redis_service
begin

lemma ensure_queue_again:
  assumes "queue_wf (V s) q"
  shows "V (snd (ensure_queue R q s)) = V s"
proof -
  have "group_at (V s) (q_key q) q \<noteq> None" using assms by (auto simp: queue_wf_def queue_group_def)
  from xgroup_create_busy [OF key_types(5) this] show ?thesis
    by (auto simp: ensure_queue_def split: prod.splits sum.splits)
qed

text \<open>The loop of \<open>promote_scheduled.lua\<close> appends one entry after the other under fresh ids.\<close>

lemma promote_loop_queue:
  assumes "queue_wf (V s) q" and "s' = snd (promote_loop R (sched_key q) (q_key q) ms n s)"
  shows "queue_wf (V s') q \<and> pending_ids (V s') q = pending_ids (V s) q \<and>
    (\<exists>is. distinct is \<and> set is \<inter> (set (ready_ids (V s) q) \<union> set (pending_ids (V s) q)) = {} \<and>
      ready_ids (V s') q = ready_ids (V s) q @ is)"
  using assms
proof (induction ms arbitrary: n s)
  case (Cons m ms)
  let ?f = "\<lparr>f_data = m, f_reason = None\<rparr>" and ?s1 = "snd (r_xadd R (q_key q) \<lparr>f_data = m, f_reason = None\<rparr> s)"
  let ?i = "fst (r_xadd R (q_key q) ?f s)" and ?s2 = "r_zrem R (sched_key q) m ?s1"
  have v1: "V ?s1 = ks_xadd ?i (q_key q) ?f (V s)" by (simp add: xadd)
  have same: "streams (V ?s2) = streams (V ?s1)" by (simp add: zrem)
  have "st_last (stream_at (V s) (q_key q)) < ?i" by (simp add: xadd_id)
  note one = queue_wf_xadd [OF Cons.prems(1) this]
  have wf2: "queue_wf (V ?s2) q" and p2: "pending_ids (V ?s2) q = pending_ids (V s) q"
    and r2: "ready_ids (V ?s2) q = ready_ids (V s) q @ [?i]"
    using one(1-3) by (simp_all add: queue_same_streams [OF same] v1)
  obtain js where "queue_wf (V s') q" "pending_ids (V s') q = pending_ids (V s) q" "distinct js"
      "set js \<inter> (set (ready_ids (V s) q @ [?i]) \<union> set (pending_ids (V s) q)) = {}"
      "ready_ids (V s') q = ready_ids (V s) q @ ?i # js"
    using Cons.IH [OF wf2, of "n + 1"] Cons.prems(2) by (auto simp: p2 r2 Let_def)
  with one(4) show ?case by (intro conjI exI [of _ "?i # js"]) auto
qed auto

end

section \<open>The Redis broker satisfies the contract\<close>

fun redis_perform :: "('s, 'v) redis \<Rightarrow> 'v codec \<Rightarrow> string \<Rightarrow> broker_op \<Rightarrow> 's \<Rightarrow> 's" where
  "redis_perform R C q (Publish e) s = publish R C q e s"
| "redis_perform R C q (Lease c n) s = snd (lease R C q q c n s)"
| "redis_perform R C q (Ack ids) s = ack R q q ids s"
| "redis_perform R C q (Nack ids) s = nack q q ids s"
| "redis_perform R C q (Reclaim c mi n) s = snd (reclaim R C q q c mi n s)"
| "redis_perform R C q (Schedule e run_at) s = schedule R C q e run_at s"
| "redis_perform R C q (Promote now) s = snd (promote_scheduled R now q s)"
| "redis_perform R C q (DeadLetter e reason) s = dead_letter R C q e reason s"
| "redis_perform R C q EnsureQueue s = snd (ensure_queue R q s)"
| "redis_perform R C q (Pass d) s = r_elapse R d s"

text \<open>
  What is relied on of pydantic: parsing what \<open>model_dump_json\<close> wrote gives the envelope back. The program only
  builds envelopes whose payload is a dictionary, as the model demands; the law is stated for all envelopes of the type.
\<close>

definition codec_ok :: "'v codec \<Rightarrow> bool" where
  "codec_ok C \<longleftrightarrow> (\<forall>e. model_validate_json C (model_dump_json C e) = Inr e)"

locale redis_queue = redis_service R V before
  for R :: "('s, 'v) redis" and V :: "'s \<Rightarrow> 'v keyspace" and before :: "'v \<Rightarrow> 'v \<Rightarrow> bool" +
  fixes C :: "'v codec" and q :: string
  assumes codec: "codec_ok C"

context redis_queue
begin

lemma group_of_wf: "queue_wf (V s) q \<Longrightarrow> group_at (V s) (q_key q) q \<noteq> None"
  by (auto simp: queue_wf_def queue_group_def)

lemma lease_state: "queue_wf (V s) q \<Longrightarrow>
    V (snd (lease R C q q c n s)) = snd (ks_xreadgroup q c (q_key q) n (V s))"
  using xreadgroup_ok [OF key_types(5) group_of_wf, of s c n]
  by (auto simp: lease_def split: prod.splits sum.splits)

lemma reclaim_state: "queue_wf (V s) q \<Longrightarrow>
    V (snd (reclaim R C q q c mi n s)) = snd (ks_xautoclaim (q_key q) q c mi n (V s))"
  using xautoclaim_ok [OF key_types(5) group_of_wf, of s c mi n]
  by (auto simp: reclaim_def split: prod.splits sum.splits)

lemma publish_state:
  "\<exists>i > st_last (stream_at (V s) (q_key q)).
     V (publish R C q e s) = ks_xadd i (q_key q) \<lparr>f_data = model_dump_json C e, f_reason = None\<rparr> (V s)"
  using xadd_id [of "q_key q" s] xadd [of "q_key q"] by (auto simp: publish_def)

lemma schedule_state: "V (schedule R C q e t s) = ks_zadd before (sched_key q) (model_dump_json C e) t (V s)"
  by (simp add: schedule_def zadd)

lemma dead_letter_state:
  "\<exists>i. V (dead_letter R C q e rs s) = ks_xadd i (dlq_key q) \<lparr>f_data = model_dump_json C e, f_reason = Some rs\<rparr> (V s)"
  by (auto simp: dead_letter_def xadd)

lemma aside_streams:
  assumes "queue_wf (V s) q" and "aside x"
  shows "queue_wf (V (redis_perform R C q x s)) q" "ready_ids (V (redis_perform R C q x s)) q = ready_ids (V s) q"
    "pending_ids (V (redis_perform R C q x s)) q = pending_ids (V s) q"
proof -
  note z = queue_same_streams [where ks = "V s", OF streams_zset(1)]
  have "queue_wf (V (redis_perform R C q x s)) q \<and> ready_ids (V (redis_perform R C q x s)) q = ready_ids (V s) q \<and>
      pending_ids (V (redis_perform R C q x s)) q = pending_ids (V s) q"
  proof (cases x)
    case (DeadLetter e reason)
    then show ?thesis using assms(1) dead_letter_state [of e reason s] by (auto simp: queue_other_stream)
  qed (use assms in \<open>simp_all add: schedule_state z ensure_queue_again\<close>)
  then show "queue_wf (V (redis_perform R C q x s)) q" "ready_ids (V (redis_perform R C q x s)) q = ready_ids (V s) q"
    "pending_ids (V (redis_perform R C q x s)) q = pending_ids (V s) q" by simp_all
qed

end

sublocale redis_queue \<subseteq> alo: at_least_once "\<lambda>s. queue_wf (V s) q" "\<lambda>s. ready_ids (V s) q"
    "\<lambda>s. pending_ids (V s) q" "redis_perform R C q"
proof unfold_locales
  fix s x
  assume wf: "queue_wf (V s) q"
  show "queue_wf (V (redis_perform R C q x s)) q"
  proof (cases x)
    case (Publish e)
    then show ?thesis using publish_state [of s e] queue_wf_xadd(1) [OF wf] by auto
  next
    case (Promote now)
    then show ?thesis using promote_loop_queue [OF wf refl] by (simp add: promote_scheduled_def promote_scheduled_lua_def)
  qed (use wf aside_streams(1) [OF wf, of x] in \<open>simp_all add: lease_state reclaim_state ack_def nack_def xack elapse
        queue_wf_xreadgroup queue_wf_xack queue_wf_xautoclaim queue_wf_elapse\<close>)
next
  fix s e
  assume wf: "queue_wf (V s) q"
  show "\<exists>i. i \<notin> set (ready_ids (V s) q) \<union> set (pending_ids (V s) q) \<and>
      ready_ids (V (redis_perform R C q (Publish e) s)) q = ready_ids (V s) q @ [i] \<and>
      pending_ids (V (redis_perform R C q (Publish e) s)) q = pending_ids (V s) q"
    using publish_state [of s e] queue_wf_xadd [OF wf] by (metis redis_perform.simps(1))
next
  fix s now
  assume wf: "queue_wf (V s) q"
  show "\<exists>is. distinct is \<and> set is \<inter> (set (ready_ids (V s) q) \<union> set (pending_ids (V s) q)) = {} \<and>
      ready_ids (V (redis_perform R C q (Promote now) s)) q = ready_ids (V s) q @ is \<and>
      pending_ids (V (redis_perform R C q (Promote now) s)) q = pending_ids (V s) q"
    using promote_loop_queue [OF wf refl] by (simp add: promote_scheduled_def promote_scheduled_lua_def)
qed (simp_all add: lease_state reclaim_state ack_def nack_def xack elapse aside_streams
      queue_wf_xreadgroup queue_wf_xack queue_wf_xautoclaim queue_wf_elapse)

context redis_queue
begin

lemmas queue_keeps = alo.fold_keeps and reclaim_ids = alo.reclaim

end

text \<open>The serialisation of the reference broker: the envelope itself.\<close>

definition ref_codec :: "task_envelope codec" where
  "ref_codec = \<lparr>model_dump_json = id, model_validate_json = Inr\<rparr>"

lemma codec_ok_ref [simp]: "codec_ok ref_codec"
  by (simp add: codec_ok_def ref_codec_def)

interpretation refq: redis_queue "ref_redis :: (task_envelope keyspace, task_envelope) redis" id
    "\<lambda>_ _. False" ref_codec q for q
  by unfold_locales simp

section \<open>What reclaiming returns\<close>

definition wire_ok :: "'v codec \<Rightarrow> (nat \<times> 'v fields) list \<Rightarrow> bool" where
  "wire_ok C ms \<longleftrightarrow> (\<forall>(i, f) \<in> set ms. \<exists>e. f_data f = model_dump_json C e)"

lemma parse_messages_wire:
  assumes "codec_ok C" and "wire_ok C ms"
  shows "\<exists>ls. parse_messages C idle ms = Inr ls \<and> map broker_msg_id ls = map fst ms \<and>
     list_all2 (\<lambda>l (i, f). f_data f = model_dump_json C (envelope l)) ls ms"
  using assms(2)
proof (induction ms)
  case Nil
  show ?case by simp
next
  case (Cons m ms)
  obtain i f e where m: "m = (i, f)" and e: "f_data f = model_dump_json C e"
    using Cons.prems by (cases m) (auto simp: wire_ok_def)
  obtain ls where "parse_messages C idle ms = Inr ls" "map broker_msg_id ls = map fst ms"
    "list_all2 (\<lambda>l (i, f). f_data f = model_dump_json C (envelope l)) ls ms"
    using Cons by (auto simp: wire_ok_def)
  then show ?case
    using assms(1) by (simp add: m e codec_ok_def)
qed

lemma parsed_in_entries:
  assumes "list_all2 (\<lambda>l (i, f). f_data f = model_dump_json C (envelope l)) ls ms"
    and "map broker_msg_id ls = map fst ms" and "set ms \<subseteq> A" and "l \<in> set ls"
  shows "\<exists>f. (broker_msg_id l, f) \<in> A \<and> f_data f = model_dump_json C (envelope l)"
  using assms
proof (induction rule: list_all2_induct)
  case Nil
  then show ?case by simp
next
  case (Cons l' ls m ms)
  then show ?case by (cases m) auto
qed

lemma filter_pel_entries:
  assumes "sorted_ids xs" and "sorted_ids ys" and "set xs \<subseteq> set ys"
  shows "filter (\<lambda>i. i \<in> set xs) ys = xs"
proof -
  have "sorted_ids (filter (\<lambda>i. i \<in> set xs) ys)"
    using assms(2) by (simp add: sorted_ids_def sorted_wrt_filter)
  moreover have "set (filter (\<lambda>i. i \<in> set xs) ys) = set xs"
    using assms(3) by auto
  ultimately show ?thesis
    using assms(1) by (metis sorted_ids_def strict_sorted_equal)
qed

text \<open>After more than \<open>mi\<close> milliseconds without delivery every pending entry can be claimed.\<close>

lemma claimable_elapse:
  assumes "mi < d"
  shows "claimable mi n (elapse_group d gr) = take n (map fst (g_pel gr))"
proof -
  have "filter (\<lambda>(_, p). mi < p_idle p) (take (10 * n) (g_pel (elapse_group d gr))) =
      take (10 * n) (g_pel (elapse_group d gr))"
    using assms by (auto simp: filter_id_conv elapse_group_def dest!: in_set_takeD)
  then show ?thesis
    by (simp add: claimable_def take_map [symmetric] elapse_ids)
qed

lemma xautoclaim_after_elapse:
  assumes wf: "queue_wf ks q" and d: "mi < d"
  shows "map fst (fst (ks_xautoclaim (q_key q) q c mi n (ks_elapse d ks))) = take n (pending_ids ks q)"
    and "set (fst (ks_xautoclaim (q_key q) q c mi n (ks_elapse d ks))) \<subseteq> set (st_entries (stream_at ks (q_key q)))"
proof -
  obtain gr where gr: "queue_group ks q = Some gr" and w: "group_wf (stream_at ks (q_key q)) gr"
    using wf by (rule queue_wf_Some)
  let ?es = "st_entries (stream_at ks (q_key q))"
  let ?ids = "take n (map fst (g_pel gr))"
  have r: "fst (ks_xautoclaim (q_key q) q c mi n (ks_elapse d ks)) = filter (\<lambda>(i, _). i \<in> set ?ids) ?es"
    using queue_group_elapse [of d ks q] gr claimable_elapse [OF d, of n gr]
    by (simp add: ks_xautoclaim_def queue_group_def Let_def entries_elapse)
  have "set ?ids \<subseteq> set (map fst ?es)"
    using w by (fastforce simp: group_wf_def dest!: in_set_takeD)
  then have "filter (\<lambda>i. i \<in> set ?ids) (map fst ?es) = ?ids"
    using w by (intro filter_pel_entries) (auto simp: group_wf_def sorted_ids_def sorted_wrt_take)
  then show "map fst (fst (ks_xautoclaim (q_key q) q c mi n (ks_elapse d ks))) = take n (pending_ids ks q)"
    by (simp add: r filter_map o_def case_prod_unfold pending_ids_def gr)
  show "set (fst (ks_xautoclaim (q_key q) q c mi n (ks_elapse d ks))) \<subseteq> set ?es"
    by (auto simp: r)
qed

section \<open>The scheduler tick\<close>

definition queue_data :: "'v keyspace \<Rightarrow> string \<Rightarrow> 'v list" where
  "queue_data ks q = map (f_data \<circ> snd) (st_entries (stream_at ks (q_key q)))"

definition due :: "'v keyspace \<Rightarrow> string \<Rightarrow> real \<Rightarrow> 'v list" where
  "due ks q now = map fst (filter (\<lambda>(_, sc). sc \<le> now) (zsets ks (sched_key q)))"

lemma zsets_xadd [simp]: "zsets (ks_xadd i k f ks) = zsets ks"
  by (simp add: ks_xadd_def put_stream_def Let_def)

lemma strs_xadd [simp]: "strs (ks_xadd i k f ks) = strs ks"
  by (simp add: ks_xadd_def put_stream_def Let_def)

lemma stream_at_zrem [simp]: "stream_at (ks_zrem k m ks) k' = stream_at ks k'"
  by (simp add: ks_zrem_def stream_at_def)

lemma queue_data_xadd: "queue_data (ks_xadd i (q_key q) f ks) q = queue_data ks q @ [f_data f]"
  by (simp add: queue_data_def ks_xadd_def Let_def)

lemma zset_zrem:
  "zsets (ks_zrem k m ks) k = filter (\<lambda>(m', _). m' \<noteq> m) (zsets ks k)"
  by (simp add: ks_zrem_def)

context redis_service
begin

lemma promote_loop_moves:
  "fst (promote_loop R (sched_key q) (q_key q) ms n s) = n + length ms \<and>
   queue_data (V (snd (promote_loop R (sched_key q) (q_key q) ms n s))) q = queue_data (V s) q @ ms \<and>
   zsets (V (snd (promote_loop R (sched_key q) (q_key q) ms n s))) (sched_key q) =
     filter (\<lambda>(m, _). m \<notin> set ms) (zsets (V s) (sched_key q)) \<and>
   strs (V (snd (promote_loop R (sched_key q) (q_key q) ms n s))) = strs (V s)"
proof (induction ms arbitrary: n s)
  case Nil
  show ?case by (simp add: filter_id_conv case_prod_unfold)
next
  case (Cons m ms)
  let ?s1 = "snd (r_xadd R (q_key q) \<lparr>f_data = m, f_reason = None\<rparr> s)"
  let ?s2 = "r_zrem R (sched_key q) m ?s1"
  have v: "V ?s2 = ks_zrem (sched_key q) m (ks_xadd (fst (r_xadd R (q_key q) \<lparr>f_data = m, f_reason = None\<rparr> s))
      (q_key q) \<lparr>f_data = m, f_reason = None\<rparr> (V s))"
    by (simp add: zrem xadd)
  have "queue_data (V ?s2) q = queue_data (V s) q @ [m]"
    by (simp add: v queue_data_def ks_xadd_def Let_def)
  moreover have "zsets (V ?s2) (sched_key q) = filter (\<lambda>(m', _). m' \<noteq> m) (zsets (V s) (sched_key q))"
    by (simp add: v zset_zrem)
  moreover have "strs (V ?s2) = strs (V s)"
    by (simp add: v ks_zrem_def)
  ultimately show ?case
    using Cons.IH [of "n + 1" ?s2] by (auto simp: Let_def intro!: filter_cong)
qed

end

section \<open>Properties\<close>

text \<open>A queue with one message that a worker took and did not acknowledge.\<close>

definition demo_envelope :: task_envelope where
  "demo_envelope = new_envelope 0 ''t'' ''default'' ''noop'' (JObj [])"

definition demo_queue :: "task_envelope keyspace" where
  "demo_queue =
     fold (redis_perform ref_redis ref_codec ''default'') [Publish demo_envelope, Lease ''a'' 5]
       (snd (ensure_queue ref_redis ''default'' empty_keyspace))"

lemma demo_queue_wf: "queue_wf demo_queue ''default''"
  and demo_queue_pending: "pending_ids demo_queue ''default'' = [1]"
  and demo_queue_wire: "wire_ok ref_codec (st_entries (stream_at demo_queue (q_key ''default'')))"
  and demo_queue_strs: "strs demo_queue = (\<lambda>_. None)"
  and demo_queue_schedule: "zsets demo_queue k = []"
  by (simp_all add: demo_queue_def ensure_queue_def ref_redis_def group_at_def empty_keyspace_def
      ks_xgroup_create_def stream_at_def empty_stream_def put_stream_def publish_def lease_def Let_def
      ks_xadd_def ks_xreadgroup_def undelivered_def put_group_def queue_wf_def queue_group_def
      group_wf_def sorted_ids_def pending_ids_def wire_ok_def ref_codec_def)

text \<open>
  C14: Delivery is at least once: a message that is ready or in flight on a queue stays ready or in
  flight under every sequence of publications, leases, reclaims, negative acknowledgements, schedulings,
  promotions, dead letters, repeated creations of the queue, time steps and acknowledgements of other
  messages, by any consumers; only its own acknowledgement removes it.
\<close>

theorem message_lost_only_by_ack:
  assumes "redis_service R V before" and "codec_ok C" and "queue_wf (V s) q"
    and "list_all (\<lambda>x. \<not> acks i x) ops"
    and "i \<in> set (ready_ids (V s) q) \<union> set (pending_ids (V s) q)"
  shows "i \<in> set (ready_ids (V (fold (redis_perform R C q) ops s)) q)
           \<union> set (pending_ids (V (fold (redis_perform R C q) ops s)) q)"
proof -
  have "redis_queue R V before C"
    using assms(1,2) by (simp add: redis_queue_def redis_queue_axioms_def)
  from redis_queue.queue_keeps [OF this assms(3-5)] show ?thesis .
qed

theorem message_lost_only_by_ack_witness:
  "1 \<in> set (ready_ids (id (fold (redis_perform ref_redis ref_codec ''default'')
             [Ack [2], Reclaim ''b'' 0 5, Nack [1], Pass 9] demo_queue)) ''default'')
     \<union> set (pending_ids (id (fold (redis_perform ref_redis ref_codec ''default'')
             [Ack [2], Reclaim ''b'' 0 5, Nack [1], Pass 9] demo_queue)) ''default'')"
  using demo_queue_wf demo_queue_pending
  by (intro message_lost_only_by_ack [OF ref_redis_service codec_ok_ref]) simp_all

text \<open>
  Crash recovery: when a queue's pending messages have not been delivered for more than
  \<open>min_idle_ms\<close>, \<open>reclaim\<close> succeeds and hands the first \<open>count\<close> of them, whoever held them, to the
  caller with the envelopes they were published with; they stay pending until acknowledged.
\<close>

lemma reclaim_returns_abandoned:
  assumes "redis_service R V before" and "codec_ok C" and "queue_wf (V s) q"
    and "wire_ok C (st_entries (stream_at (V s) (q_key q)))" and "min_idle < d"
  shows "\<exists>ls. fst (reclaim R C q q consumer min_idle count (r_elapse R d s)) = Inr ls \<and>
     map broker_msg_id ls = take count (pending_ids (V s) q) \<and>
     (\<forall>l \<in> set ls. \<exists>f. (broker_msg_id l, f) \<in> set (st_entries (stream_at (V s) (q_key q))) \<and>
        f_data f = model_dump_json C (envelope l)) \<and>
     pending_ids (V (snd (reclaim R C q q consumer min_idle count (r_elapse R d s)))) q =
       pending_ids (V s) q"
proof -
  have rq: "redis_queue R V before C"
    using assms(1,2) by (simp add: redis_queue_def redis_queue_axioms_def)
  let ?s = "r_elapse R d s"
  let ?r = "ks_xautoclaim (q_key q) q consumer min_idle count (ks_elapse d (V s))"
  have v: "V ?s = ks_elapse d (V s)" by (rule redis_service.elapse [OF assms(1)])
  have wf: "queue_wf (V ?s) q" using queue_wf_elapse(1) [OF assms(3)] by (simp add: v)
  note ids = xautoclaim_after_elapse(1) [OF assms(3,5), of consumer count]
  note sub = xautoclaim_after_elapse(2) [OF assms(3,5), of consumer count]
  have "wire_ok C (fst ?r)" using assms(4) sub by (auto simp: wire_ok_def)
  then obtain ls where ls: "parse_messages C (int min_idle) (fst ?r) = Inr ls"
      "map broker_msg_id ls = map fst (fst ?r)"
      "list_all2 (\<lambda>l (i, f). f_data f = model_dump_json C (envelope l)) ls (fst ?r)"
    using parse_messages_wire [OF assms(2)] by blast
  have "fst (reclaim R C q q consumer min_idle count ?s) = Inr ls"
    using redis_service.xautoclaim_ok [OF assms(1) key_types(5) redis_queue.group_of_wf [OF rq wf], of consumer min_idle count]
      ls(1) by (auto simp: reclaim_def v split: prod.splits sum.splits)
  moreover have "\<exists>f. (broker_msg_id l, f) \<in> set (st_entries (stream_at (V s) (q_key q))) \<and>
      f_data f = model_dump_json C (envelope l)" if "l \<in> set ls" for l
    using that ls(2,3) sub parsed_in_entries by blast
  moreover have "pending_ids (V (snd (reclaim R C q q consumer min_idle count ?s))) q = pending_ids (V s) q"
    using redis_queue.reclaim_ids [OF rq wf] queue_wf_elapse(3) [OF assms(3)] by (simp add: v)
  ultimately show ?thesis using ls(2) ids by auto
qed

text \<open>
  The scheduler tick moves tasks without losing or duplicating any: \<open>promote_scheduled\<close> appends
  the first 100 due members of the schedule to the stream in order, removes exactly these from the
  schedule, returns their number, and leaves every member that is not due yet.
\<close>

lemma promote_scheduled_moves_due:
  assumes "redis_service R V before"
  shows "fst (promote_scheduled R now q s) = min 100 (length (due (V s) q now)) \<and>
    queue_data (V (snd (promote_scheduled R now q s))) q = queue_data (V s) q @ take 100 (due (V s) q now) \<and>
    zsets (V (snd (promote_scheduled R now q s))) (sched_key q) =
      filter (\<lambda>(m, _). m \<notin> set (take 100 (due (V s) q now))) (zsets (V s) (sched_key q))"
proof -
  have "r_zrangebyscore R (sched_key q) now 100 s = take 100 (due (V s) q now)"
    by (simp add: redis_service.zrangebyscore [OF assms] ks_zrangebyscore_def due_def)
  then show ?thesis
    using redis_service.promote_loop_moves [OF assms, of q "take 100 (due (V s) q now)" 0 s]
    by (simp add: promote_scheduled_def promote_scheduled_lua_def min.commute)
qed

end
