(* ===== verification/Workflow_Engine.thy ===== *)
theory Workflow_Engine
  imports Dag Executor_Contract Broker_Delivery
begin

text \<open>
  \<open>dtq/workflow/engine.py\<close>: submitting and advancing a workflow. A call runs in one database session
  and publishes to Redis from inside it: what it published stays when the session rolls back. So an
  engine computation threads the server and the session's view of the database, and returns an
  exception or a result; the server is returned in both cases. \<open>fresh\<close> gives the results of the
  successive calls of \<open>uuid.uuid4()\<close>.
\<close>

section \<open>Computations of the engine\<close>

type_synonym ('s, 'd, 'a) eng = "'s \<Rightarrow> 'd \<Rightarrow> (exn + 'a \<times> 'd) \<times> 's"

definition eng_return :: "'a \<Rightarrow> ('s, 'd, 'a) eng" where
  "eng_return a = (\<lambda>s d. (Inr (a, d), s))"

definition eng_raise :: "exn \<Rightarrow> ('s, 'd, 'a) eng" where
  "eng_raise e = (\<lambda>s d. (Inl e, s))"

definition eng_bind :: "('s, 'd, 'a) eng \<Rightarrow> ('a \<Rightarrow> ('s, 'd, 'b) eng) \<Rightarrow> ('s, 'd, 'b) eng" where
  "eng_bind m f = (\<lambda>s d. case m s d of (Inl e, s') \<Rightarrow> (Inl e, s') | (Inr (a, d'), s') \<Rightarrow> f a s' d')"

definition eng_tx :: "('d, 'a) tx \<Rightarrow> ('s, 'd, 'a) eng" where
  "eng_tx t = (\<lambda>s d. (t d, s))"

definition eng_redis :: "('s \<Rightarrow> (exn + 'a) \<times> 's) \<Rightarrow> ('s, 'd, 'a) eng" where
  "eng_redis f = (\<lambda>s d. case f s of (Inl e, s') \<Rightarrow> (Inl e, s') | (Inr a, s') \<Rightarrow> (Inr (a, d), s'))"

definition eng_lift :: "exn + 'a \<Rightarrow> ('s, 'd, 'a) eng" where
  "eng_lift r = (case r of Inl e \<Rightarrow> eng_raise e | Inr a \<Rightarrow> eng_return a)"

text \<open>
  A session around a computation that says whether it commits; without a commit the session is
  closed and its changes are dropped.
\<close>

definition run_eng :: "'d postgres \<Rightarrow> ('s, 'd, bool) eng \<Rightarrow> ('s, 'd) world \<Rightarrow> (exn + unit) \<times> ('s, 'd) world" where
  "run_eng P m w =
     (case m (w_redis w) (w_db w) of
        (Inl e, s') \<Rightarrow> (Inl e, w\<lparr>w_redis := s'\<rparr>)
      | (Inr (False, d'), s') \<Rightarrow> (Inr (), w\<lparr>w_redis := s'\<rparr>)
      | (Inr (True, d'), s') \<Rightarrow>
          let (r, d'') = pg_commit P (w_db w) d' in (r, w\<lparr>w_redis := s', w_db := d''\<rparr>))"

section \<open>What has run\<close>

definition opt_truthy :: "string option \<Rightarrow> bool" where
  "opt_truthy x \<longleftrightarrow> x \<noteq> None \<and> x \<noteq> Some []"

definition row_key :: "task_row \<Rightarrow> string" where
  "row_key t = (case tr_dedup_key t of None \<Rightarrow> tr_id t | Some k \<Rightarrow> if k \<noteq> [] then k else tr_id t)"

record step_info =
  step_states :: "(string \<times> task_state) list"
  step_results :: "(string \<times> json) list"

definition note_result :: "string \<Rightarrow> effect_row option \<Rightarrow> step_info \<Rightarrow> step_info" where
  "note_result n effect i =
     (case effect of
        None \<Rightarrow> i
      | Some e \<Rightarrow>
          (case er_result e of
             None \<Rightarrow> i
           | Some res \<Rightarrow>
               if truthy res then i\<lparr>step_results := AList.update n res (step_results i)\<rparr> else i))"

text \<open>The loop over the tasks of the workflow.\<close>

fun scan_tasks :: "'d postgres \<Rightarrow> task_row list \<Rightarrow> step_info \<Rightarrow> ('d, step_info) tx" where
  "scan_tasks P [] i = tx_return i"
| "scan_tasks P (t # ts) i =
     (if \<not> opt_truthy (tr_step_name t) then scan_tasks P ts i
      else
        let n = the (tr_step_name t);
            i1 = i\<lparr>step_states := AList.update n (tr_state t) (step_states i)\<rparr>
        in if tr_state t = SUCCEEDED
           then tx_bind (get_effect P (row_key t)) (\<lambda>effect. scan_tasks P ts (note_result n effect i1))
           else scan_tasks P ts i1)"

definition completed_steps :: "step_info \<Rightarrow> string set" where
  "completed_steps i = fst ` set (filter (\<lambda>(name, state). state = SUCCEEDED) (step_states i))"

definition dead_steps :: "step_info \<Rightarrow> string set" where
  "dead_steps i = fst ` set (filter (\<lambda>(name, state). state = DEAD) (step_states i))"

section \<open>Fan-out\<close>

text \<open>Python's \<open>field in v\<close> and \<open>v[field]\<close> on a JSON value.\<close>

fun py_in :: "string \<Rightarrow> json \<Rightarrow> exn + bool" where
  "py_in f (JObj kvs) = Inr (map_of kvs f \<noteq> None)"
| "py_in f (JArr xs) = Inr (JStr f \<in> set xs)"
| "py_in f (JStr s) = Inr (sublist f s)"
| "py_in f v = Inl (PyTypeError (''argument of type '' @ [CHR 0x27] @ py_type v @ [CHR 0x27] @ '' is not iterable''))"

fun py_index :: "string \<Rightarrow> json \<Rightarrow> exn + json" where
  "py_index f (JObj kvs) = (case map_of kvs f of Some v \<Rightarrow> Inr v | None \<Rightarrow> Inl (PyKeyError f))"
| "py_index f v = Inl (PyTypeError (py_type v @ '' indices must be integers or slices, not str''))"

text \<open>The items that \<open>enumerate\<close> gives.\<close>

fun py_items :: "json \<Rightarrow> exn + json list" where
  "py_items (JArr xs) = Inr xs"
| "py_items (JObj kvs) = Inr (map (JStr \<circ> fst) kvs)"
| "py_items (JStr s) = Inr (map (\<lambda>c. JStr [c]) s)"
| "py_items v = Inl (PyTypeError ([CHR 0x27] @ py_type v @ [CHR 0x27] @ '' object is not iterable''))"

text \<open>The search of the upstream results for the list; \<open>None\<close> is \<open>items = []\<close>.\<close>

fun fan_items :: "string \<Rightarrow> step_info \<Rightarrow> string list \<Rightarrow> exn + json option" where
  "fan_items f i [] = Inr None"
| "fan_items f i (dep # deps) =
     (let dep_result = get_or (JObj []) (map_of (step_results i) dep)
      in case py_in f dep_result of
           Inl e \<Rightarrow> Inl e
         | Inr True \<Rightarrow> (case py_index f dep_result of Inl e \<Rightarrow> Inl e | Inr v \<Rightarrow> Inr (Some v))
         | Inr False \<Rightarrow> fan_items f i deps)"

definition step_payload :: "wf_step \<Rightarrow> json" where
  "step_payload step = get_or (JObj []) (ws_payload step)"

definition fan_list :: "string \<Rightarrow> step_info \<Rightarrow> wf_step \<Rightarrow> exn + json list" where
  "fan_list f i step =
     (case fan_items f i (deps_of step) of
        Inl e \<Rightarrow> Inl e
      | Inr v \<Rightarrow>
          (case v of
             None \<Rightarrow> Inr [step_payload step]
           | Some items \<Rightarrow> if truthy items then py_items items else Inr [step_payload step]))"

fun retry_max_attempts :: "retry_field \<Rightarrow> exn + int" where
  "retry_max_attempts RetryAbsent = Inr 5"
| "retry_max_attempts (RetryDict None) = Inr 5"
| "retry_max_attempts (RetryDict (Some n)) = Inr n"
| "retry_max_attempts RetryNone =
     Inl (PyAttributeError ([CHR 0x27] @ ''NoneType'' @ [CHR 0x27] @ '' object has no attribute '' @
       [CHR 0x27] @ ''get'' @ [CHR 0x27]))"

section \<open>Launching\<close>

definition engine_envelope ::
  "timestamp \<Rightarrow> uuid \<Rightarrow> uuid \<Rightarrow> wf_step \<Rightarrow> string \<Rightarrow> json \<Rightarrow> int \<Rightarrow> int \<Rightarrow> exn + task_envelope" where
  "engine_envelope now task_id wid step step_name payload row_max mx =
     (if is_dict payload
      then Inr ((new_envelope now task_id ''default'' (ws_task step) payload)
        \<lparr>env_workflow_id := Some wid, env_step_name := Some step_name, env_max_attempts := row_max,
         env_retry_policy := default_retry_policy\<lparr>policy_max_attempts := mx\<rparr>\<rparr>)
      else Inl (ValidationError ''payload: Input should be a valid dictionary''))"

text \<open>The creation of one task of a step and the publication of its envelope.\<close>

definition launch_task ::
  "('s, 'v) redis \<Rightarrow> 'd postgres \<Rightarrow> 'v codec \<Rightarrow> timestamp \<Rightarrow> uuid \<Rightarrow> uuid \<Rightarrow> wf_step \<Rightarrow> string \<Rightarrow> json \<Rightarrow>
   ('s, 'd, unit) eng" where
  "launch_task R P C now wid task_id step step_name payload =
     eng_bind (eng_lift (retry_max_attempts (ws_retry step)))
       (\<lambda>mx. eng_bind (eng_tx (create_task P now task_id ''default'' (ws_task step) payload None 0 mx None
                               (Some wid) (Some step_name)))
         (\<lambda>(task_row, _). eng_bind (eng_lift (engine_envelope now task_id wid step step_name payload
                                                (tr_max_attempts task_row) mx))
           (\<lambda>e. eng_bind (eng_redis (ensure_queue R ''default''))
             (\<lambda>_. eng_redis (\<lambda>s. (Inr (), publish R C ''default'' e s))))))"

definition fan_step_name :: "string \<Rightarrow> nat \<Rightarrow> string" where
  "fan_step_name n i = n @ ''['' @ str_int (int i) @ '']''"

fun launch_fan ::
  "('s, 'v) redis \<Rightarrow> 'd postgres \<Rightarrow> 'v codec \<Rightarrow> timestamp \<Rightarrow> (nat \<Rightarrow> uuid) \<Rightarrow> uuid \<Rightarrow> wf_step \<Rightarrow> nat \<Rightarrow>
   json list \<Rightarrow> nat \<Rightarrow> ('s, 'd, nat) eng" where
  "launch_fan R P C now fresh wid step i [] launched = eng_return launched"
| "launch_fan R P C now fresh wid step i (item # items) launched =
     eng_bind (launch_task R P C now wid (fresh launched) step (fan_step_name (ws_name step) i)
                (if is_dict item then item else JObj [(''item'', item)]))
       (\<lambda>_. launch_fan R P C now fresh wid step (i + 1) items (launched + 1))"

fun launch_steps ::
  "('s, 'v) redis \<Rightarrow> 'd postgres \<Rightarrow> 'v codec \<Rightarrow> timestamp \<Rightarrow> (nat \<Rightarrow> uuid) \<Rightarrow> uuid \<Rightarrow> step_info \<Rightarrow>
   wf_step list \<Rightarrow> nat \<Rightarrow> ('s, 'd, nat) eng" where
  "launch_steps R P C now fresh wid i [] launched = eng_return launched"
| "launch_steps R P C now fresh wid i (step # steps) launched =
     (if map_of (step_states i) (ws_name step) \<noteq> None then launch_steps R P C now fresh wid i steps launched
      else eng_bind
        (if opt_truthy (ws_fan_out step)
         then eng_bind (eng_lift (fan_list (the (ws_fan_out step)) i step))
                (\<lambda>items. launch_fan R P C now fresh wid step 0 items launched)
         else eng_bind (launch_task R P C now wid (fresh launched) step (ws_name step) (step_payload step))
                (\<lambda>_. eng_return (launched + 1)))
        (\<lambda>n. launch_steps R P C now fresh wid i steps n))"

section \<open>The engine\<close>

definition advance_body ::
  "('s, 'v) redis \<Rightarrow> 'd postgres \<Rightarrow> 'v codec \<Rightarrow> timestamp \<Rightarrow> (nat \<Rightarrow> uuid) \<Rightarrow> uuid \<Rightarrow> ('s, 'd, bool) eng" where
  "advance_body R P C now fresh wid =
     eng_bind (eng_tx (get_workflow P wid))
       (\<lambda>found. case found of
          None \<Rightarrow> eng_return False
        | Some row \<Rightarrow>
            if wr_state row \<noteq> ''running'' then eng_return False
            else
              let steps = snd (wr_spec row)
              in eng_bind (eng_tx (get_tasks_for_workflow P wid))
                   (\<lambda>tasks. eng_bind (eng_tx (scan_tasks P tasks \<lparr>step_states = [], step_results = []\<rparr>))
                     (\<lambda>i. if dead_steps i \<noteq> {}
                          then eng_bind (eng_tx (update_workflow_state P wid ''failed'')) (\<lambda>_. eng_return True)
                          else if ws_name ` set steps \<subseteq> completed_steps i
                          then eng_bind (eng_tx (update_workflow_state P wid ''completed'')) (\<lambda>_. eng_return True)
                          else eng_bind (launch_steps R P C now fresh wid i
                                          (get_ready_steps steps (completed_steps i)) 0)
                                 (\<lambda>launched. eng_return True))))"

definition advance ::
  "('s, 'v) redis \<Rightarrow> 'd postgres \<Rightarrow> 'v codec \<Rightarrow> timestamp \<Rightarrow> (nat \<Rightarrow> uuid) \<Rightarrow> uuid \<Rightarrow> ('s, 'd) world \<Rightarrow>
   (exn + unit) \<times> ('s, 'd) world" where
  "advance R P C now fresh wid w = run_eng P (advance_body R P C now fresh wid) w"

text \<open>The fuel of \<open>validate_dag\<close> is always enough, so its third result never occurs.\<close>

definition submit ::
  "('s, 'v) redis \<Rightarrow> 'd postgres \<Rightarrow> 'v codec \<Rightarrow> (string list \<Rightarrow> string list) \<Rightarrow> (string list \<Rightarrow> string) \<Rightarrow>
   timestamp \<Rightarrow> (nat \<Rightarrow> uuid) \<Rightarrow> uuid \<Rightarrow> string \<Rightarrow> wf_step list \<Rightarrow> ('s, 'd) world \<Rightarrow>
   (exn + uuid) \<times> ('s, 'd) world" where
  "submit R P C iter sh now fresh workflow_id name steps w =
     (case validate_dag iter sh steps of
        None \<Rightarrow> (Inl (PyRuntimeError ''out of fuel''), w)
      | Some (Inl e) \<Rightarrow> (Inl e, w)
      | Some (Inr order) \<Rightarrow>
          (case run_tx P (create_workflow P now workflow_id name (name, steps)) (w_db w) of
             (Inl e, d) \<Rightarrow> (Inl e, w\<lparr>w_db := d\<rparr>)
           | (Inr _, d) \<Rightarrow>
               (case advance R P C now fresh workflow_id (w\<lparr>w_db := d\<rparr>) of
                  (Inl e, w') \<Rightarrow> (Inl e, w')
                | (Inr _, w') \<Rightarrow> (Inr workflow_id, w'))))"

definition on_task_completed ::
  "('s, 'v) redis \<Rightarrow> 'd postgres \<Rightarrow> 'v codec \<Rightarrow> timestamp \<Rightarrow> (nat \<Rightarrow> uuid) \<Rightarrow> uuid \<Rightarrow> ('s, 'd) world \<Rightarrow>
   (exn + unit) \<times> ('s, 'd) world" where
  "on_task_completed R P C now fresh task_id w =
     (case read_tx (get_task P task_id) (w_db w) of
        Inl e \<Rightarrow> (Inr (), w)
      | Inr task_row \<Rightarrow>
          (case tr_workflow_id task_row of
             None \<Rightarrow> (Inr (), w)
           | Some wid \<Rightarrow> advance R P C now fresh wid w))"

end
