(* ===== verification/Event_Bus.thy ===== *)
theory Event_Bus
  imports Core_Models
begin

text \<open>
  \<open>dtq/control/events.py\<close>: the bus that carries state transitions to the subscribers of
  \<open>/v1/events\<close>. A subscriber is the bounded queue of its generator; a subscriber whose queue is full
  when an event is published is discarded. The contract is that a subscriber that is still
  registered has seen, or has queued, exactly the events published since it subscribed, in order.
\<close>

section \<open>The bus\<close>

record task_event =
  ev_type :: string
  ev_task_id :: uuid
  ev_queue :: string
  ev_state :: string
  ev_timestamp :: timestamp
  ev_metadata :: json

text \<open>
  The queues with a number for their identity: all of them in \<open>bus_queues\<close>, and in
  \<open>bus_subscribers\<close> the set \<open>_subscribers\<close>.
\<close>

record bus =
  bus_queues :: "(nat \<times> task_event list) list"
  bus_subscribers :: "nat list"
  bus_next :: nat

definition maxsize :: nat where "maxsize = 1000"

definition empty_bus :: bus where
  "empty_bus = \<lparr>bus_queues = [], bus_subscribers = [], bus_next = 0\<rparr>"

definition queue_full :: "bus \<Rightarrow> nat \<Rightarrow> bool" where
  "queue_full b q \<longleftrightarrow> (case map_of (bus_queues b) q of None \<Rightarrow> False | Some es \<Rightarrow> maxsize \<le> length es)"

definition put_nowait :: "task_event \<Rightarrow> bus \<Rightarrow> bus" where
  "put_nowait e b = b\<lparr>bus_queues := map (\<lambda>(q, es).
     if q \<in> set (bus_subscribers b) \<and> length es < maxsize then (q, es @ [e]) else (q, es)) (bus_queues b)\<rparr>"

definition publish_event :: "task_event \<Rightarrow> bus \<Rightarrow> bus" where
  "publish_event e b =
     (let dead = filter (queue_full b) (bus_subscribers b)
      in (put_nowait e b)\<lparr>bus_subscribers := filter (\<lambda>q. q \<notin> set dead) (bus_subscribers b)\<rparr>)"

definition subscribe :: "bus \<Rightarrow> nat \<times> bus" where
  "subscribe b = (bus_next b,
     b\<lparr>bus_queues := bus_queues b @ [(bus_next b, [])],
       bus_subscribers := bus_subscribers b @ [bus_next b], bus_next := Suc (bus_next b)\<rparr>)"

text \<open>\<open>await q.get()\<close>: \<open>None\<close> is a generator that waits.\<close>

definition next_event :: "nat \<Rightarrow> bus \<Rightarrow> (task_event \<times> bus) option" where
  "next_event q b = (case map_of (bus_queues b) q of
       Some (e # es) \<Rightarrow> Some (e, b\<lparr>bus_queues := map (\<lambda>(q', es'). if q' = q then (q', es) else (q', es')) (bus_queues b)\<rparr>)
     | _ \<Rightarrow> None)"

definition unsubscribe :: "nat \<Rightarrow> bus \<Rightarrow> bus" where
  "unsubscribe q b = b\<lparr>bus_subscribers := filter (\<lambda>q'. q' \<noteq> q) (bus_subscribers b)\<rparr>"

section \<open>Runs of the bus\<close>

text \<open>A bus with its history: all events published, and per queue where it began and what it gave.\<close>

record bus_run =
  br_bus :: bus
  br_log :: "task_event list"
  br_from :: "nat \<Rightarrow> nat"
  br_seen :: "nat \<Rightarrow> task_event list"

definition empty_run :: bus_run where
  "empty_run = \<lparr>br_bus = empty_bus, br_log = [], br_from = (\<lambda>_. 0), br_seen = (\<lambda>_. [])\<rparr>"

inductive bus_step :: "bus_run \<Rightarrow> bus_run \<Rightarrow> bool" where
  bus_publish: "bus_step r (r\<lparr>br_bus := publish_event e (br_bus r), br_log := br_log r @ [e]\<rparr>)"
| bus_subscribe: "subscribe (br_bus r) = (q, b) \<Longrightarrow>
    bus_step r (r\<lparr>br_bus := b, br_from := (br_from r)(q := length (br_log r))\<rparr>)"
| bus_next_event: "next_event q (br_bus r) = Some (e, b) \<Longrightarrow>
    bus_step r (r\<lparr>br_bus := b, br_seen := (br_seen r)(q := br_seen r q @ [e])\<rparr>)"
| bus_unsubscribe: "bus_step r (r\<lparr>br_bus := unsubscribe q (br_bus r)\<rparr>)"

inductive_cases bus_stepE: "bus_step r r'"

definition queue_of :: "bus \<Rightarrow> nat \<Rightarrow> task_event list" where
  "queue_of b q = (case map_of (bus_queues b) q of None \<Rightarrow> [] | Some es \<Rightarrow> es)"

definition bus_keys :: "bus \<Rightarrow> nat set" where
  "bus_keys b = set (map fst (bus_queues b))"

definition bus_inv :: "bus_run \<Rightarrow> bool" where
  "bus_inv r \<longleftrightarrow>
     distinct (map fst (bus_queues (br_bus r))) \<and> (\<forall>q \<in> bus_keys (br_bus r). q < bus_next (br_bus r)) \<and>
     set (bus_subscribers (br_bus r)) \<subseteq> bus_keys (br_bus r) \<and>
     (\<forall>q. q \<notin> bus_keys (br_bus r) \<longrightarrow> br_seen r q = []) \<and>
     (\<forall>q \<in> set (bus_subscribers (br_bus r)). br_from r q \<le> length (br_log r) \<and>
        br_seen r q @ queue_of (br_bus r) q = drop (br_from r q) (br_log r)) \<and>
     (\<forall>q. length (queue_of (br_bus r) q) \<le> maxsize)"

lemma queue_of_no_key: "q \<notin> bus_keys b \<Longrightarrow> queue_of b q = []"
  by (simp add: bus_keys_def queue_of_def map_of_eq_None_iff [THEN iffD2])

lemma map_of_map_keyed:
  "map_of (map (\<lambda>(q, es). (q, f q es)) xs) q = map_option (f q) (map_of xs q)"
  by (induction xs) auto

lemma queue_of_put:
  "queue_of (put_nowait e b) q = (case map_of (bus_queues b) q of None \<Rightarrow> [] | Some es \<Rightarrow>
     if q \<in> set (bus_subscribers b) \<and> length es < maxsize then es @ [e] else es)"
proof -
  have "bus_queues (put_nowait e b) = map (\<lambda>(q, es).
      (q, if q \<in> set (bus_subscribers b) \<and> length es < maxsize then es @ [e] else es)) (bus_queues b)"
    by (auto simp: put_nowait_def)
  then show ?thesis
    by (simp only: queue_of_def map_of_map_keyed) (simp split: option.split)
qed

lemma put_nowait_keys: "map fst (bus_queues (put_nowait e b)) = map fst (bus_queues b)"
  by (auto simp: put_nowait_def)

lemma publish_event_simps:
  "queue_of (publish_event e b) q = queue_of (put_nowait e b) q"
  "bus_keys (publish_event e b) = bus_keys b" "bus_next (publish_event e b) = bus_next b"
  "map fst (bus_queues (publish_event e b)) = map fst (bus_queues b)"
  "q \<in> set (bus_subscribers (publish_event e b)) \<longleftrightarrow> q \<in> set (bus_subscribers b) \<and> \<not> queue_full b q"
  using put_nowait_keys [of e b]
  by (auto simp: publish_event_def Let_def queue_of_def bus_keys_def put_nowait_def simp del: map_map)

lemma bus_inv_publish:
  assumes "bus_inv r"
  shows "bus_inv (r\<lparr>br_bus := publish_event e (br_bus r), br_log := br_log r @ [e]\<rparr>)"
proof -
  let ?b = "br_bus r"
  note I = assms [unfolded bus_inv_def]
  have grow: "queue_of (put_nowait e ?b) q = queue_of ?b q @ [e]"
    if "q \<in> set (bus_subscribers ?b)" "\<not> queue_full ?b q" for q
  proof -
    have "q \<in> bus_keys ?b" using that(1) I by blast
    then obtain es where "map_of (bus_queues ?b) q = Some es"
      by (metis bus_keys_def map_of_eq_None_iff not_Some_eq set_map)
    with that show ?thesis unfolding queue_of_put by (simp add: queue_full_def queue_of_def)
  qed
  have bound: "length (queue_of (put_nowait e ?b) q) \<le> maxsize" for q
    using I unfolding queue_of_put by (auto simp: queue_of_def split: option.splits)
  have cont: "br_from r q \<le> Suc (length (br_log r)) \<and>
      br_seen r q @ queue_of (put_nowait e ?b) q = drop (br_from r q) (br_log r @ [e])"
    if "q \<in> set (bus_subscribers ?b)" "\<not> queue_full ?b q" for q
  proof -
    have "br_from r q \<le> length (br_log r)" "br_seen r q @ queue_of ?b q = drop (br_from r q) (br_log r)"
      using I that(1) by blast+
    with grow [OF that] show ?thesis by (simp add: append_assoc [symmetric] del: append_assoc)
  qed
  have "set (bus_subscribers ?b) \<subseteq> bus_keys ?b" "distinct (map fst (bus_queues ?b))"
      "\<forall>q \<in> bus_keys ?b. q < bus_next ?b" "\<forall>q. q \<notin> bus_keys ?b \<longrightarrow> br_seen r q = []"
    using I by blast+
  with cont bound show ?thesis
    by (auto simp: bus_inv_def publish_event_simps)
qed

lemma queue_of_next:
  assumes "next_event q b = Some (e, b')"
  shows "queue_of b q = e # queue_of b' q" and "q' \<noteq> q \<Longrightarrow> queue_of b' q' = queue_of b q'"
    and "map fst (bus_queues b') = map fst (bus_queues b)"
    and "bus_next b' = bus_next b" and "bus_subscribers b' = bus_subscribers b"
    and "q \<in> bus_keys b"
proof -
  obtain es where es: "map_of (bus_queues b) q = Some (e # es)"
      and b': "b' = b\<lparr>bus_queues := map (\<lambda>(q', es'). (q', if q' = q then es else es')) (bus_queues b)\<rparr>"
    using assms by (auto simp: next_event_def if_distrib cong: if_cong split: option.splits list.splits)
  have m: "map_of (bus_queues b') x = map_option (\<lambda>es'. if x = q then es else es') (map_of (bus_queues b) x)" for x
    unfolding b' using map_of_map_keyed [of "\<lambda>x es'. if x = q then es else es'" "bus_queues b" x] by simp
  show "queue_of b q = e # queue_of b' q" by (simp add: queue_of_def m es)
  show "queue_of b' q' = queue_of b q'" if "q' \<noteq> q" using that by (simp add: queue_of_def m split: option.split)
  show "map fst (bus_queues b') = map fst (bus_queues b)" by (auto simp: b')
  show "bus_next b' = bus_next b" "bus_subscribers b' = bus_subscribers b" by (simp_all add: b')
  show "q \<in> bus_keys b" using es by (metis bus_keys_def map_of_eq_None_iff option.distinct(1) set_map)
qed

lemma bus_inv_next:
  assumes "bus_inv r" and n: "next_event q (br_bus r) = Some (e, b)"
  shows "bus_inv (r\<lparr>br_bus := b, br_seen := (br_seen r)(q := br_seen r q @ [e])\<rparr>)"
proof -
  note I = assms(1) [unfolded bus_inv_def] and N = queue_of_next [OF n]
  have keys: "bus_keys b = bus_keys (br_bus r)" by (simp only: bus_keys_def N(3))
  have len: "length (queue_of b q') \<le> maxsize" for q'
  proof (cases "q' = q")
    case True
    have "Suc (length (queue_of b q)) = length (queue_of (br_bus r) q)" by (simp add: N(1))
    with I True show ?thesis by (metis Suc_leD)
  next
    case False
    with I N(2) show ?thesis by simp
  qed
  have cont: "((br_seen r)(q := br_seen r q @ [e])) q' @ queue_of b q' = br_seen r q' @ queue_of (br_bus r) q'" for q'
    using N(1) N(2) [of q'] by (cases "q' = q") simp_all
  have new: "((br_seen r)(q := br_seen r q @ [e])) q' = []" if "q' \<notin> bus_keys (br_bus r)" for q'
    using I N(6) that by auto
  show ?thesis
    using I len new cont by (simp add: bus_inv_def keys N(3-5) del: fun_upd_apply)
qed

lemma bus_inv_subscribe:
  assumes "bus_inv r" and s: "subscribe (br_bus r) = (q, b)"
  shows "bus_inv (r\<lparr>br_bus := b, br_from := (br_from r)(q := length (br_log r))\<rparr>)"
proof -
  note I = assms(1) [unfolded bus_inv_def]
  let ?b = "br_bus r"
  have q: "q = bus_next ?b" and b: "b = ?b\<lparr>bus_queues := bus_queues ?b @ [(q, [])],
      bus_subscribers := bus_subscribers ?b @ [q], bus_next := Suc q\<rparr>"
    using s by (auto simp: subscribe_def)
  have new: "q \<notin> bus_keys ?b" using I q by auto
  then have none: "map_of (bus_queues ?b) q = None" by (simp add: bus_keys_def map_of_eq_None_iff)
  then have qs: "queue_of b q' = queue_of ?b q'" for q'
    by (auto simp: queue_of_def b map_add_def split: option.splits)
  have keys: "bus_keys b = insert q (bus_keys ?b)" by (simp add: b bus_keys_def)
  have empty: "br_seen r q = []" "queue_of ?b q = []" using I new queue_of_no_key by auto
  have dist: "distinct (map fst (bus_queues b))" using I new by (simp add: b bus_keys_def)
  have rest: "bus_next b = Suc q" "set (bus_subscribers b) = insert q (set (bus_subscribers ?b))" by (simp_all add: b)
  show ?thesis
    by (simp add: bus_inv_def keys qs rest dist) (use I empty q in \<open>auto simp: less_SucI\<close>)
qed

lemma bus_step_inv: "bus_step r r' \<Longrightarrow> bus_inv r \<Longrightarrow> bus_inv r'"
proof (induction rule: bus_step.induct)
  case (bus_unsubscribe r q)
  then show ?case by (auto simp: bus_inv_def unsubscribe_def queue_of_def bus_keys_def)
qed (simp_all add: bus_inv_publish bus_inv_subscribe bus_inv_next)

lemma bus_inv_empty: "bus_inv empty_run"
  by (simp add: bus_inv_def empty_run_def empty_bus_def queue_of_def maxsize_def bus_keys_def)

lemma bus_reach_inv: "bus_step\<^sup>*\<^sup>* empty_run r \<Longrightarrow> bus_inv r"
  by (induction rule: rtranclp_induct) (auto intro: bus_step_inv bus_inv_empty)

section \<open>Properties\<close>

text \<open>
  C28: The event stream has no gaps. In every run of publications, subscriptions, reads and
  disconnections, a subscriber that is still registered has read, followed by what its queue
  holds, exactly the events published since it subscribed, in the order of publication; and no
  queue ever holds more than 1000 events.
\<close>

theorem event_stream_without_gaps:
  assumes "bus_step\<^sup>*\<^sup>* empty_run r"
  shows "(\<forall>q \<in> set (bus_subscribers (br_bus r)).
      br_seen r q @ queue_of (br_bus r) q = drop (br_from r q) (br_log r)) \<and>
    (\<forall>q. length (queue_of (br_bus r) q) \<le> 1000)"
  using bus_reach_inv [OF assms] by (auto simp: bus_inv_def maxsize_def)

definition demo_event :: task_event where
  "demo_event = \<lparr>ev_type = ''enqueue'', ev_task_id = ''t1'', ev_queue = ''default'', ev_state = ''pending'',
     ev_timestamp = 0, ev_metadata = JObj []\<rparr>"

theorem event_stream_without_gaps_witness:
  "\<exists>r. bus_step\<^sup>*\<^sup>* empty_run r \<and> 0 \<in> set (bus_subscribers (br_bus r)) \<and> queue_of (br_bus r) 0 = [demo_event]"
proof -
  let ?r1 = "empty_run\<lparr>br_bus := snd (subscribe empty_bus), br_from := (br_from empty_run)(0 := 0)\<rparr>"
  let ?r2 = "?r1\<lparr>br_bus := publish_event demo_event (br_bus ?r1), br_log := br_log ?r1 @ [demo_event]\<rparr>"
  have "bus_step empty_run ?r1"
    using bus_subscribe [of empty_run 0 "snd (subscribe empty_bus)"]
    by (simp add: empty_run_def subscribe_def empty_bus_def)
  moreover have "bus_step ?r1 ?r2" by (rule bus_publish)
  ultimately have reach: "bus_step\<^sup>*\<^sup>* empty_run ?r2"
    by (intro converse_rtranclp_into_rtranclp [of bus_step empty_run ?r1] r_into_rtranclp)
  have sub: "0 \<in> set (bus_subscribers (br_bus ?r2))"
    by (simp add: publish_event_def Let_def put_nowait_def subscribe_def empty_bus_def queue_full_def maxsize_def)
  with event_stream_without_gaps [OF reach] have "queue_of (br_bus ?r2) 0 = [demo_event]"
    by (fastforce simp: empty_run_def)
  with reach sub show ?thesis by blast
qed

end
