(* ===== verification/Control_Plane.thy ===== *)
theory Control_Plane
  imports Workflow_Engine Event_Bus
begin

text \<open>
  \<open>dtq/control/app.py\<close>: the handlers of the HTTP API. A handler returns a response, an
  \<open>HTTPException\<close> with its status, or an exception that no handler catches, which the framework
  answers with status 500. The requests are those that the schemas of
  \<open>dtq/control/schemas.py\<close> admit.
\<close>

section \<open>Requests and responses\<close>

datatype http_error = HTTPException nat string | InternalError exn

record ('s, 'd) plane =
  pl_world :: "('s, 'd) world"
  pl_bus :: bus

record create_task_request =
  rq_queue :: string
  rq_task_name :: string
  rq_payload :: json
  rq_dedup_key :: "string option"
  rq_priority :: int
  rq_run_at :: "timestamp option"
  rq_max_attempts :: int

record attempt_info =
  ai_attempt_no :: int
  ai_worker_id :: string
  ai_fence :: int
  ai_started_at :: timestamp
  ai_finished_at :: "timestamp option"
  ai_outcome :: "string option"
  ai_error_type :: "string option"
  ai_error_repr :: "string option"

record task_detail =
  td_task :: task_row
  td_attempts :: "attempt_info list"

text \<open>
  A step of a workflow request; \<open>retry\<close> is \<open>None\<close> or a dictionary, of which the engine reads
  \<open>max_attempts\<close>.
\<close>

record workflow_step =
  st_name :: string
  st_task :: string
  st_payload :: json
  st_depends_on :: "string list"
  st_fan_out :: "string option"
  st_retry :: "int option option"

definition model_dump :: "workflow_step \<Rightarrow> wf_step" where
  "model_dump s = \<lparr>ws_name = st_name s, ws_task = st_task s, ws_payload = Some (st_payload s),
     ws_depends_on = Some (st_depends_on s), ws_fan_out = st_fan_out s,
     ws_retry = (case st_retry s of None \<Rightarrow> RetryNone | Some mx \<Rightarrow> RetryDict mx)\<rparr>"

record step_state =
  ss_name :: string
  ss_task_name :: string
  ss_state :: "task_state"
  ss_task_id :: "uuid option"

record workflow_detail =
  wd_id :: uuid
  wd_name :: string
  wd_state :: string
  wd_created_at :: timestamp
  wd_steps :: "step_state list"

record dlq_task =
  dl_task_id :: uuid
  dl_queue :: string
  dl_task_name :: string
  dl_payload :: json
  dl_attempt :: int

definition new_event :: "timestamp \<Rightarrow> string \<Rightarrow> uuid \<Rightarrow> string \<Rightarrow> string \<Rightarrow> task_event" where
  "new_event now ty task_id queue state = \<lparr>ev_type = ty, ev_task_id = task_id, ev_queue = queue,
     ev_state = state, ev_timestamp = now, ev_metadata = JObj []\<rparr>"

definition pl_event :: "timestamp \<Rightarrow> string \<Rightarrow> uuid \<Rightarrow> string \<Rightarrow> string \<Rightarrow> ('s, 'd) plane \<Rightarrow> ('s, 'd) plane" where
  "pl_event now ty task_id queue state p =
     p\<lparr>pl_bus := publish_event (new_event now ty task_id queue state) (pl_bus p)\<rparr>"

definition pl_db :: "'d \<Rightarrow> ('s, 'd) plane \<Rightarrow> ('s, 'd) plane" where
  "pl_db d p = p\<lparr>pl_world := (pl_world p)\<lparr>w_db := d\<rparr>\<rparr>"

definition pl_redis :: "'s \<Rightarrow> ('s, 'd) plane \<Rightarrow> ('s, 'd) plane" where
  "pl_redis s p = p\<lparr>pl_world := (pl_world p)\<lparr>w_redis := s\<rparr>\<rparr>"

section \<open>Tasks\<close>

definition request_envelope :: "timestamp \<Rightarrow> uuid \<Rightarrow> create_task_request \<Rightarrow> task_envelope" where
  "request_envelope now task_id req =
     (new_envelope now task_id (rq_queue req) (rq_task_name req) (rq_payload req))
       \<lparr>env_max_attempts := rq_max_attempts req, env_priority := rq_priority req,
        env_dedup_key := rq_dedup_key req,
        env_retry_policy := default_retry_policy\<lparr>policy_max_attempts := rq_max_attempts req\<rparr>\<rparr>"

definition api_create_task ::
  "('s, 'v) redis \<Rightarrow> 'd postgres \<Rightarrow> 'v codec \<Rightarrow> timestamp \<Rightarrow> uuid \<Rightarrow> create_task_request \<Rightarrow>
   ('s, 'd) plane \<Rightarrow> (http_error + uuid \<times> bool) \<times> ('s, 'd) plane" where
  "api_create_task R P C now task_id req p =
     (case run_tx P (create_task P now task_id (rq_queue req) (rq_task_name req) (rq_payload req)
             (rq_dedup_key req) (rq_priority req) (rq_max_attempts req) (rq_run_at req) None None)
             (w_db (pl_world p)) of
        (Inl e, d) \<Rightarrow> (Inl (InternalError e), pl_db d p)
      | (Inr (task_row, deduplicated), d) \<Rightarrow>
          if deduplicated then (Inr (tr_id task_row, True), pl_db d p)
          else
            let p1 = pl_db d p;
                s = w_redis (pl_world p1);
                e = request_envelope now (tr_id task_row) req;
                accepted = (\<lambda>s'. (Inr (tr_id task_row, False),
                  pl_event now ''enqueue'' (tr_id task_row) (rq_queue req) ''pending'' (pl_redis s' p1)))
            in case rq_run_at req of
                 Some t \<Rightarrow>
                   if t > now then accepted (schedule R C (rq_queue req) e t s)
                   else (case ensure_queue R (rq_queue req) s of
                           (Inl x, s1) \<Rightarrow> (Inl (InternalError x), pl_redis s1 p1)
                         | (Inr _, s1) \<Rightarrow> accepted (publish R C (rq_queue req) e s1))
               | None \<Rightarrow>
                   (case ensure_queue R (rq_queue req) s of
                      (Inl x, s1) \<Rightarrow> (Inl (InternalError x), pl_redis s1 p1)
                    | (Inr _, s1) \<Rightarrow> accepted (publish R C (rq_queue req) e s1)))"

definition attempt_details :: "attempt_row \<Rightarrow> attempt_info" where
  "attempt_details a = \<lparr>ai_attempt_no = ar_attempt_no a, ai_worker_id = ar_worker_id a, ai_fence = ar_fence a,
     ai_started_at = ar_started_at a, ai_finished_at = ar_finished_at a, ai_outcome = ar_outcome a,
     ai_error_type = ar_error_type a, ai_error_repr = ar_error_repr a\<rparr>"

definition api_get_task :: "'d postgres \<Rightarrow> uuid \<Rightarrow> ('s, 'd) plane \<Rightarrow> http_error + task_detail" where
  "api_get_task P task_id p =
     (case get_task P task_id (w_db (pl_world p)) of
        Inl e \<Rightarrow> Inl (HTTPException 404 ''Task not found'')
      | Inr (task_row, d) \<Rightarrow>
          (case get_attempts P task_id d of
             Inl e \<Rightarrow> Inl (InternalError e)
           | Inr (rows, d') \<Rightarrow> Inr \<lparr>td_task = task_row, td_attempts = map attempt_details rows\<rparr>))"

definition api_cancel_task ::
  "'d postgres \<Rightarrow> timestamp \<Rightarrow> uuid \<Rightarrow> ('s, 'd) plane \<Rightarrow> (http_error + uuid) \<times> ('s, 'd) plane" where
  "api_cancel_task P now task_id p =
     (case run_tx P (cancel_task P now task_id) (w_db (pl_world p)) of
        (Inl e, d) \<Rightarrow> (Inl (InternalError e), pl_db d p)
      | (Inr cancelled, d) \<Rightarrow>
          if \<not> cancelled
          then (Inl (HTTPException 409 ''Task cannot be cancelled (already leased or completed)''), pl_db d p)
          else (Inr task_id, pl_event now ''state_change'' task_id [] ''cancelled'' (pl_db d p)))"

section \<open>Workflows\<close>

definition api_create_workflow ::
  "('s, 'v) redis \<Rightarrow> 'd postgres \<Rightarrow> 'v codec \<Rightarrow> (string list \<Rightarrow> string list) \<Rightarrow> (string list \<Rightarrow> string) \<Rightarrow>
   timestamp \<Rightarrow> (nat \<Rightarrow> uuid) \<Rightarrow> uuid \<Rightarrow> string \<Rightarrow> workflow_step list \<Rightarrow>
   ('s, 'd) plane \<Rightarrow> (http_error + uuid) \<times> ('s, 'd) plane" where
  "api_create_workflow R P C iter sh now fresh workflow_id name steps p =
     (case submit R P C iter sh now fresh workflow_id name (map model_dump steps) (pl_world p) of
        (Inl e, w) \<Rightarrow>
          (if is_value_error e then Inl (HTTPException 422 (exn_msg e)) else Inl (InternalError e),
           p\<lparr>pl_world := w\<rparr>)
      | (Inr wid, w) \<Rightarrow> (Inr wid, p\<lparr>pl_world := w\<rparr>))"

text \<open>The last task of each step name.\<close>

fun step_map :: "task_row list \<Rightarrow> string \<Rightarrow> task_row option" where
  "step_map [] = (\<lambda>_. None)"
| "step_map (t # ts) = (\<lambda>n. case step_map ts n of
     Some r \<Rightarrow> Some r | None \<Rightarrow> if opt_truthy (tr_step_name t) \<and> tr_step_name t = Some n then Some t else None)"

definition api_get_workflow :: "'d postgres \<Rightarrow> uuid \<Rightarrow> ('s, 'd) plane \<Rightarrow> http_error + workflow_detail" where
  "api_get_workflow P workflow_id p =
     (case get_workflow P workflow_id (w_db (pl_world p)) of
        Inl e \<Rightarrow> Inl (InternalError e)
      | Inr (None, d) \<Rightarrow> Inl (HTTPException 404 ''Workflow not found'')
      | Inr (Some row, d) \<Rightarrow>
          (case get_tasks_for_workflow P workflow_id d of
             Inl e \<Rightarrow> Inl (InternalError e)
           | Inr (rows, d') \<Rightarrow>
               Inr \<lparr>wd_id = wr_id row, wd_name = wr_name row, wd_state = wr_state row,
                    wd_created_at = wr_created_at row,
                    wd_steps = map (\<lambda>s. let t = step_map rows (ws_name s) in
                      \<lparr>ss_name = ws_name s, ss_task_name = ws_task s,
                       ss_state = (case t of Some r \<Rightarrow> tr_state r | None \<Rightarrow> PENDING),
                       ss_task_id = map_option tr_id t\<rparr>) (snd (wr_spec row))\<rparr>))"

section \<open>Queues and dead letters\<close>

definition api_list_queues :: "('s, 'v) redis \<Rightarrow> settings \<Rightarrow> ('s, 'd) plane \<Rightarrow> (string \<times> nat \<times> nat) list" where
  "api_list_queues R cfg p =
     map (\<lambda>q. (q, queue_depth R q (w_redis (pl_world p)), in_flight_count R q q (w_redis (pl_world p))))
       (cfg_worker_queues cfg)"

definition api_get_dlq :: "('s, 'v) redis \<Rightarrow> 'v codec \<Rightarrow> string \<Rightarrow> ('s, 'd) plane \<Rightarrow> http_error + dlq_task list" where
  "api_get_dlq R C queue p =
     (case get_dlq_messages R C queue 50 (w_redis (pl_world p)) of
        Inl e \<Rightarrow> Inl (InternalError e)
      | Inr ms \<Rightarrow> Inr (map (\<lambda>m. \<lparr>dl_task_id = env_task_id (envelope m), dl_queue = env_queue (envelope m),
          dl_task_name = env_task_name (envelope m), dl_payload = env_payload (envelope m),
          dl_attempt = env_attempt (envelope m)\<rparr>) ms))"

definition requeue_envelope :: "timestamp \<Rightarrow> string \<Rightarrow> uuid \<Rightarrow> task_row \<Rightarrow> task_envelope" where
  "requeue_envelope now queue task_id task_row =
     (new_envelope now task_id queue (tr_task_name task_row) (tr_payload task_row))
       \<lparr>env_max_attempts := tr_max_attempts task_row, env_priority := tr_priority task_row,
        env_dedup_key := None,
        env_retry_policy := default_retry_policy\<lparr>policy_max_attempts := tr_max_attempts task_row\<rparr>\<rparr>"

text \<open>
  The loop of \<open>requeue_dlq\<close> shares one session. An error of the database aborts the transaction:
  every later statement raises, and the final commit is a rollback. An exception of the program's
  own is logged and the loop goes on.
\<close>

fun is_db_error :: "exn \<Rightarrow> bool" where
  "is_db_error (IntegrityError m) = True"
| "is_db_error (OperationalError m) = True"
| "is_db_error _ = False"

fun requeue_loop ::
  "('s, 'v) redis \<Rightarrow> 'd postgres \<Rightarrow> 'v codec \<Rightarrow> timestamp \<Rightarrow> string \<Rightarrow> uuid list \<Rightarrow> nat \<Rightarrow> bool \<Rightarrow> 'd \<Rightarrow>
   ('s, 'd) plane \<Rightarrow> nat \<times> bool \<times> 'd \<times> ('s, 'd) plane" where
  "requeue_loop R P C now queue [] requeued aborted d p = (requeued, aborted, d, p)"
| "requeue_loop R P C now queue (task_id # task_ids) requeued aborted d p =
     (if aborted then requeue_loop R P C now queue task_ids requeued aborted d p
      else case tx_bind (get_task P task_id)
                  (\<lambda>row. tx_bind (update_task_state P now task_id PENDING (Some 0)) (\<lambda>_. tx_return row)) d of
             Inl e \<Rightarrow> requeue_loop R P C now queue task_ids requeued (is_db_error e) d p
           | Inr (task_row, d1) \<Rightarrow>
               let p1 = pl_redis (publish R C queue (requeue_envelope now queue task_id task_row)
                                   (w_redis (pl_world p))) p;
                   p2 = pl_event now ''requeue'' task_id queue ''pending'' p1
               in requeue_loop R P C now queue task_ids (requeued + 1) False d1 p2)"

definition api_requeue_dlq ::
  "('s, 'v) redis \<Rightarrow> 'd postgres \<Rightarrow> 'v codec \<Rightarrow> timestamp \<Rightarrow> string \<Rightarrow> uuid list \<Rightarrow>
   ('s, 'd) plane \<Rightarrow> (http_error + nat \<times> nat) \<times> ('s, 'd) plane" where
  "api_requeue_dlq R P C now queue task_ids p =
     (let d = w_db (pl_world p);
          (requeued, aborted, d1, p1) = requeue_loop R P C now queue task_ids 0 False d p
      in if aborted then (Inr (requeued, length task_ids), p1)
         else case pg_commit P d d1 of
                (Inl e, d2) \<Rightarrow> (Inl (InternalError e), pl_db d2 p1)
              | (Inr _, d2) \<Rightarrow> (Inr (requeued, length task_ids), pl_db d2 p1))"

section \<open>Chaos endpoints\<close>

definition api_chaos_kill_worker ::
  "('s, 'v) redis \<Rightarrow> string \<Rightarrow> ('s, 'd) plane \<Rightarrow> string \<times> ('s, 'd) plane" where
  "api_chaos_kill_worker R worker_id p =
     (worker_id, pl_redis (r_del R (worker_key worker_id) (w_redis (pl_world p))) p)"

text \<open>\<open>SET key 1 EX n\<close> is \<open>SET key 1 PX 1000n\<close>.\<close>

definition api_chaos_pause_queue ::
  "('s, 'v) redis \<Rightarrow> string \<Rightarrow> real \<Rightarrow> ('s, 'd) plane \<Rightarrow> (http_error + string) \<times> ('s, 'd) plane" where
  "api_chaos_pause_queue R queue duration_s p =
     (let secs = (if duration_s < 0 then \<lceil>duration_s\<rceil> else \<lfloor>duration_s\<rfloor>)
      in case r_set_px R (pause_key queue) ''1'' (1000 * secs) (w_redis (pl_world p)) of
           (Inl e, s) \<Rightarrow> (Inl (InternalError (ResponseError e)), pl_redis s p)
         | (Inr _, s) \<Rightarrow> (Inr queue, pl_redis s p))"

definition api_chaos_inject_failure ::
  "('s, 'v) redis \<Rightarrow> 'v codec \<Rightarrow> timestamp \<Rightarrow> uuid \<Rightarrow> string \<Rightarrow> string \<Rightarrow> (string \<times> json) list \<Rightarrow> string \<Rightarrow>
   ('s, 'd) plane \<Rightarrow> (http_error + uuid \<times> string) \<times> ('s, 'd) plane" where
  "api_chaos_inject_failure R C now task_id queue task_name payload error_type p =
     (let e = (new_envelope now task_id queue task_name
                 (JObj (AList.update ''_inject_error'' (JStr error_type) payload)))
              \<lparr>env_max_attempts := 1,
               env_retry_policy := default_retry_policy\<lparr>policy_max_attempts := 1\<rparr>\<rparr>
      in case ensure_queue R queue (w_redis (pl_world p)) of
           (Inl x, s) \<Rightarrow> (Inl (InternalError x), pl_redis s p)
         | (Inr _, s) \<Rightarrow> (Inr (task_id, error_type), pl_redis (publish R C queue e s) p))"

end
