(* ===== verification/Engine_Contract.thy ===== *)
theory Engine_Contract
  imports Workflow_Engine
begin

text \<open>
  What the workflow engine does to the database: a workflow completes only when every step has a
  task that succeeded and fails only when one is dead, and a step is launched only when the steps it
  depends on have succeeded and no task carries its name. The same facts show that \<open>advance\<close> does not
  complete a workflow with a fan-out step: no task carries the name of that step.
\<close>

section \<open>Histories of engine computations\<close>

definition eng_keeps :: "('d \<Rightarrow> 'b) \<Rightarrow> ('b \<Rightarrow> 'b \<Rightarrow> bool) \<Rightarrow> ('s, 'd, 'a) eng \<Rightarrow> bool" where
  "eng_keeps D G m \<longleftrightarrow> (\<forall>s d a d' s'. m s d = (Inr (a, d'), s') \<longrightarrow> G (D d) (D d'))"

lemma eng_keepsD: "eng_keeps D G m \<Longrightarrow> m s d = (Inr (a, d'), s') \<Longrightarrow> G (D d) (D d')"
  unfolding eng_keeps_def by blast

lemma eng_bind_Inr:
  assumes "eng_bind m f s d = (Inr (b, d'), s')"
  obtains a d1 s1 where "m s d = (Inr (a, d1), s1)" and "f a s1 d1 = (Inr (b, d'), s')"
  using assms by (auto simp: eng_bind_def split: prod.splits sum.splits)

context history
begin

lemma eng_keeps_return [tx_keeps_intros]: "eng_keeps D G (eng_return a)"
  by (simp add: eng_keeps_def eng_return_def G_refl)

lemma eng_keeps_tx [tx_keeps_intros]: "tx_keeps D G t \<Longrightarrow> eng_keeps D G (eng_tx t)"
  by (auto simp: eng_keeps_def eng_tx_def dest: tx_keepsD)

lemma eng_keeps_redis [tx_keeps_intros]: "eng_keeps D G (eng_redis f)"
  by (auto simp: eng_keeps_def eng_redis_def G_refl split: prod.splits sum.splits)

lemma eng_keeps_lift [tx_keeps_intros]: "eng_keeps D G (eng_lift r)"
  by (auto simp: eng_keeps_def eng_lift_def eng_raise_def eng_return_def G_refl split: sum.splits)

lemma eng_keeps_bind [tx_keeps_intros]:
  assumes "eng_keeps D G m" and "\<And>a. eng_keeps D G (f a)"
  shows "eng_keeps D G (eng_bind m f)"
  unfolding eng_keeps_def
proof (intro allI impI)
  fix s d b d' s' assume "eng_bind m f s d = (Inr (b, d'), s')"
  then obtain a d1 s1 where "m s d = (Inr (a, d1), s1)" "f a s1 d1 = (Inr (b, d'), s')"
    by (rule eng_bind_Inr)
  then show "G (D d) (D d')" using assms by (meson G_trans eng_keepsD)
qed

lemma eng_keeps_if [tx_keeps_intros]:
  "eng_keeps D G m \<Longrightarrow> eng_keeps D G m' \<Longrightarrow> eng_keeps D G (if b then m else m')"
  by simp

end

section \<open>Launching\<close>

text \<open>The relation of a launch: workflows stay, and every new task row satisfies \<open>Q\<close>.\<close>

definition launches :: "(task_row \<Rightarrow> bool) \<Rightarrow> db \<Rightarrow> db \<Rightarrow> bool" where
  "launches Q b b' \<longleftrightarrow> workflows b' = workflows b \<and>
     (\<forall>j t. tasks b' j = Some t \<longrightarrow> tasks b j = Some t \<or> Q t)"

interpretation lau: history "D :: 'd \<Rightarrow> db" "launches Q" for D Q
  by unfold_locales (auto simp: launches_def)

definition launched_by :: "uuid \<Rightarrow> wf_step \<Rightarrow> string \<Rightarrow> task_row \<Rightarrow> bool" where
  "launched_by wid step n t \<longleftrightarrow> tr_workflow_id t = Some wid \<and> tr_task_name t = ws_task step \<and>
     tr_step_name t = Some n \<and> tr_state t = PENDING"

text \<open>The names that tasks of a step get.\<close>

definition launch_name :: "wf_step \<Rightarrow> string \<Rightarrow> bool" where
  "launch_name step n \<longleftrightarrow> (if opt_truthy (ws_fan_out step) then \<exists>i. n = fan_step_name (ws_name step) i
     else n = ws_name step)"

definition launch_ok :: "uuid \<Rightarrow> wf_step set \<Rightarrow> task_row \<Rightarrow> bool" where
  "launch_ok wid S t \<longleftrightarrow> (\<exists>step \<in> S. \<exists>n. launch_name step n \<and> launched_by wid step n t)"

context postgres_service
begin

lemma create_task_launches:
  assumes "step \<in> S" and "launch_name step n"
  shows "tx_keeps D (launches (launch_ok wid S))
    (create_task P now tid q (ws_task step) pl None pr mx None (Some wid) (Some n))"
  unfolding tx_keeps_def
proof (intro allI impI)
  fix d r d'
  assume "create_task P now tid q (ws_task step) pl None pr mx None (Some wid) (Some n) d = Inr (r, d')"
  then obtain t where "ins_task P t d = Inr d'" and "launched_by wid step n t"
    by (auto simp: create_task_def Let_def tx_defs launched_by_def split: sum.splits)
  then have ok: "launch_ok wid S t" and D: "D d' = (D d)\<lparr>tasks := (tasks (D d))(tr_id t \<mapsto> t)\<rparr>"
    using assms ins_task [of t d d'] unfolding launch_ok_def by auto
  then show "launches (launch_ok wid S) (D d) (D d')"
    by (simp add: launches_def)
qed

lemma launch_task_launches:
  assumes "step \<in> S" and "launch_name step n"
  shows "eng_keeps D (launches (launch_ok wid S)) (launch_task R P C now wid tid step n pl)"
  unfolding launch_task_def case_prod_unfold
  by (intro tx_keeps_intros create_task_launches [OF assms])

lemma launch_fan_launches:
  assumes "step \<in> S" and "opt_truthy (ws_fan_out step)"
  shows "eng_keeps D (launches (launch_ok wid S)) (launch_fan R P C now fresh wid step i items k)"
proof (induction items arbitrary: i k)
  case (Cons x items)
  have "launch_name step (fan_step_name (ws_name step) i)" using assms(2) by (auto simp: launch_name_def)
  with Cons assms(1) show ?case
    unfolding launch_fan.simps by (intro tx_keeps_intros launch_task_launches)
qed (simp, intro tx_keeps_intros)

lemma launch_steps_launches:
  assumes "\<And>step. step \<in> set steps \<Longrightarrow> map_of (step_states i) (ws_name step) = None \<Longrightarrow> step \<in> S"
  shows "eng_keeps D (launches (launch_ok wid S)) (launch_steps R P C now fresh wid i steps k)"
  using assms
proof (induction steps arbitrary: k)
  case Nil
  show ?case by simp (intro tx_keeps_intros)
next
  case (Cons step steps)
  have rest: "eng_keeps D (launches (launch_ok wid S)) (launch_steps R P C now fresh wid i steps k)" for k
    using Cons by simp
  show ?case
  proof (cases "map_of (step_states i) (ws_name step) = None")
    case False
    with rest show ?thesis by simp
  next
    case True
    with Cons.prems have S: "step \<in> S" by simp
    show ?thesis
    proof (cases "opt_truthy (ws_fan_out step)")
      case fan: True
      show ?thesis using True fan
        by (simp, intro tx_keeps_intros launch_fan_launches [OF S fan] rest)
    next
      case False
      then have "launch_name step (ws_name step)" by (simp add: launch_name_def)
      with True False show ?thesis
        by (simp, intro tx_keeps_intros launch_task_launches [OF S] rest)
    qed
  qed
qed

end

section \<open>What the scan of the tasks finds\<close>

definition named_tasks :: "db \<Rightarrow> uuid \<Rightarrow> string \<Rightarrow> task_row set" where
  "named_tasks b wid n = {t \<in> ran (tasks b). tr_workflow_id t = Some wid \<and> tr_step_name t = Some n}"

lemma set_update: "set (AList.update k v xs) \<subseteq> insert (k, v) (set xs)"
  by (induction xs) auto

lemma fst_update: "fst ` set (AList.update k v xs) = insert k (fst ` set xs)"
  by (metis dom_map_of_conv_image_fst dom_fun_upd option.distinct(1) update_conv')

lemma scalar_one_same: "scalar_one_or_none rows d = Inr (x, d') \<Longrightarrow> d' = d"
  by (cases rows rule: scalar_one_or_none.cases) (simp_all add: tx_return_def tx_raise_def)

lemma get_effect_same: "get_effect P k d = Inr (x, d') \<Longrightarrow> d' = d"
  by (auto simp: get_effect_def tx_bind_def tx_query_def split: sum.splits dest: scalar_one_same)

lemma scan_tasks_named:
  assumes "scan_tasks P (t # ts) i d = Inr (i', d')" and "tr_step_name t = Some n" and "n \<noteq> []"
  shows "\<exists>i1. step_states i1 = AList.update n (tr_state t) (step_states i) \<and> scan_tasks P ts i1 d = Inr (i', d')"
proof (cases "tr_state t = SUCCEEDED")
  case True
  let ?i1 = "i\<lparr>step_states := AList.update n SUCCEEDED (step_states i)\<rparr>"
  have step: "scan_tasks P (t # ts) i = tx_bind (get_effect P (row_key t))
      (\<lambda>effect. scan_tasks P ts (note_result n effect ?i1))"
    using assms(2,3) True by (simp add: opt_truthy_def Let_def)
  obtain e d1 where e: "get_effect P (row_key t) d = Inr (e, d1)" "scan_tasks P ts (note_result n e ?i1) d1 = Inr (i', d')"
    using assms(1) unfolding step by (auto simp: tx_bind_def split: sum.splits)
  moreover have "d1 = d" using e(1) by (rule get_effect_same)
  moreover have "step_states (note_result n e ?i1) = AList.update n (tr_state t) (step_states i)"
    using True by (simp add: note_result_def split: option.split)
  ultimately show ?thesis by blast
next
  case False
  with assms show ?thesis
    by (intro exI [of _ "i\<lparr>step_states := AList.update n (tr_state t) (step_states i)\<rparr>"])
      (simp add: opt_truthy_def Let_def)
qed

lemma scan_tasks_names:
  assumes "scan_tasks P ts i d = Inr (i', d')"
  shows "d' = d \<and> fst ` set (step_states i') =
      fst ` set (step_states i) \<union> {n. n \<noteq> [] \<and> (\<exists>t \<in> set ts. tr_step_name t = Some n)}"
  using assms
proof (induction ts arbitrary: i)
  case (Cons t ts)
  show ?case
  proof (cases "opt_truthy (tr_step_name t)")
    case False
    then have "n = []" if "tr_step_name t = Some n" for n using that by (auto simp: opt_truthy_def)
    moreover have run: "scan_tasks P ts i d = Inr (i', d')" using Cons.prems False by simp
    ultimately show ?thesis using Cons.IH [OF run] by auto
  next
    case True
    then obtain n where n: "tr_step_name t = Some n" "n \<noteq> []" by (auto simp: opt_truthy_def)
    obtain i1 where "step_states i1 = AList.update n (tr_state t) (step_states i)" "scan_tasks P ts i1 d = Inr (i', d')"
      using scan_tasks_named [OF Cons.prems n] by blast
    with Cons.IH n show ?thesis by (auto simp: fst_update)
  qed
qed (simp add: tx_return_def)

lemma scan_tasks_states:
  assumes "scan_tasks P ts i d = Inr (i', d')" and "(n, st) \<in> set (step_states i')"
  shows "(n, st) \<in> set (step_states i) \<or> (\<exists>t \<in> set ts. tr_step_name t = Some n \<and> tr_state t = st)"
  using assms
proof (induction ts arbitrary: i)
  case (Cons t ts)
  show ?case
  proof (cases "opt_truthy (tr_step_name t)")
    case False
    then have run: "scan_tasks P ts i d = Inr (i', d')" using Cons.prems(1) by simp
    from Cons.IH [OF run Cons.prems(2)] show ?thesis by auto
  next
    case True
    then obtain m where m: "tr_step_name t = Some m" "m \<noteq> []" by (auto simp: opt_truthy_def)
    obtain i1 where i1: "step_states i1 = AList.update m (tr_state t) (step_states i)" "scan_tasks P ts i1 d = Inr (i', d')"
      using scan_tasks_named [OF Cons.prems(1) m] by blast
    from Cons.IH [OF i1(2) Cons.prems(2)] i1(1) set_update [of m "tr_state t" "step_states i"] m(1)
    show ?thesis by auto
  qed
qed (simp add: tx_return_def)

section \<open>Advancing\<close>

text \<open>
  What a call of \<open>advance\<close> on a running workflow may do to the database: fail the workflow, complete
  it, or launch steps.
\<close>

definition has_succeeded :: "db \<Rightarrow> uuid \<Rightarrow> string \<Rightarrow> bool" where
  "has_succeeded b wid n \<longleftrightarrow> (\<exists>t \<in> named_tasks b wid n. tr_state t = SUCCEEDED)"

definition wf_set_state :: "uuid \<Rightarrow> string \<Rightarrow> db \<Rightarrow> db" where
  "wf_set_state wid st b = b\<lparr>workflows := upd_map (\<lambda>r. wr_id r = wid) (\<lambda>r. r\<lparr>wr_state := st\<rparr>) (workflows b)\<rparr>"

definition may_launch :: "db \<Rightarrow> uuid \<Rightarrow> wf_step list \<Rightarrow> wf_step set" where
  "may_launch b wid steps = {step \<in> set steps.
     (\<forall>d \<in> set (deps_of step). has_succeeded b wid d) \<and> (ws_name step \<noteq> [] \<longrightarrow> named_tasks b wid (ws_name step) = {})}"

definition advance_ok :: "uuid \<Rightarrow> wf_step list \<Rightarrow> db \<Rightarrow> db \<Rightarrow> bool" where
  "advance_ok wid steps b b' \<longleftrightarrow>
     b' = wf_set_state wid ''failed'' b \<and> (\<exists>n. \<exists>t \<in> named_tasks b wid n. tr_state t = DEAD) \<or>
     b' = wf_set_state wid ''completed'' b \<and> (\<forall>step \<in> set steps. has_succeeded b wid (ws_name step)) \<or>
     launches (launch_ok wid (may_launch b wid steps)) b b'"

context postgres_service
begin

lemma get_workflow_row:
  assumes "get_workflow P wid d = Inr (r, d')"
  shows "d' = d \<and> r = workflows (D d) wid"
proof -
  obtain rows where rows: "sel_workflows P (\<lambda>r. wr_id r = wid) d = Inr rows" "scalar_one_or_none rows d = Inr (r, d')"
    using assms by (auto simp: get_workflow_def tx_bind_def tx_query_def split: sum.splits)
  from rows(2) show ?thesis
    unfolding workflow_rows [OF rows(1)] one_or_none_row by (auto simp: tx_return_def)
qed

lemma update_workflow_state_spec:
  assumes "update_workflow_state P wid st d = Inr (u, d')"
  shows "D d' = wf_set_state wid st (D d)"
proof -
  obtain n where run: "upd_workflows P (\<lambda>r. wr_id r = wid) (\<lambda>r. r\<lparr>wr_state := st\<rparr>) d = Inr (n, d')"
    using assms by (auto simp: update_workflow_state_def tx_defs split: sum.splits)
  from upd_workflows [OF run] show ?thesis by (simp add: wf_set_state_def)
qed

lemma scan_workflow:
  assumes "get_tasks_for_workflow P wid d = Inr (ts, d1)"
    and "scan_tasks P ts \<lparr>step_states = [], step_results = []\<rparr> d1 = Inr (i, d2)"
  shows "d2 = d" and "(n, st) \<in> set (step_states i) \<Longrightarrow> \<exists>t \<in> named_tasks (D d) wid n. tr_state t = st"
    and "map_of (step_states i) n = None \<Longrightarrow> n \<noteq> [] \<Longrightarrow> named_tasks (D d) wid n = {}"
proof -
  have d1: "d1 = d" and ts: "set ts = {t \<in> ran (tasks (D d)). tr_workflow_id t = Some wid}"
    using assms(1) sel_tasks by (auto simp: get_tasks_for_workflow_def tx_query_def split: sum.splits)
  show "d2 = d" using scan_tasks_names [OF assms(2)] d1 by simp
  show "\<exists>t \<in> named_tasks (D d) wid n. tr_state t = st" if "(n, st) \<in> set (step_states i)"
    using scan_tasks_states [OF assms(2) that] by (auto simp: ts named_tasks_def)
  show "named_tasks (D d) wid n = {}" if "map_of (step_states i) n = None" "n \<noteq> []"
    using scan_tasks_names [OF assms(2)] that by (auto simp: map_of_eq_None_iff ts named_tasks_def)
qed

lemma advance_body_ok:
  assumes "advance_body R P C now fresh wid s d = (Inr (b, d'), s')"
    and "workflows (D d) wid = Some row" and "wr_state row = ''running''"
  shows "advance_ok wid (snd (wr_spec row)) (D d) (D d')"
proof -
  let ?steps = "snd (wr_spec row)"
  obtain r d0 where "get_workflow P wid d = Inr (r, d0)"
    using assms(1) by (auto simp: advance_body_def eng_tx_def elim!: eng_bind_Inr)
  note gw = this get_workflow_row [OF this]
  obtain ts d1 i d2 where g: "get_tasks_for_workflow P wid d = Inr (ts, d1)"
      and sc: "scan_tasks P ts \<lparr>step_states = [], step_results = []\<rparr> d1 = Inr (i, d2)"
      and rest: "(if dead_steps i \<noteq> {}
          then eng_bind (eng_tx (update_workflow_state P wid ''failed'')) (\<lambda>_. eng_return True)
          else if ws_name ` set ?steps \<subseteq> completed_steps i
          then eng_bind (eng_tx (update_workflow_state P wid ''completed'')) (\<lambda>_. eng_return True)
          else eng_bind (launch_steps R P C now fresh wid i (get_ready_steps ?steps (completed_steps i)) 0)
                 (\<lambda>launched. eng_return True)) s d2 = (Inr (b, d'), s')"
    using assms gw by (auto simp: advance_body_def eng_tx_def Let_def elim!: eng_bind_Inr)
  note scan = scan_workflow [OF g sc]
  consider (dead) "dead_steps i \<noteq> {}" | (compl) "dead_steps i = {}" "ws_name ` set ?steps \<subseteq> completed_steps i"
    | (launch) "dead_steps i = {}" "\<not> ws_name ` set ?steps \<subseteq> completed_steps i" by blast
  then show ?thesis
  proof cases
    case dead
    then obtain n where "(n, DEAD) \<in> set (step_states i)" by (auto simp: dead_steps_def)
    with scan(2) have "\<exists>n. \<exists>t \<in> named_tasks (D d) wid n. tr_state t = DEAD" by blast
    moreover obtain u where "update_workflow_state P wid ''failed'' d = Inr (u, d')"
      using rest dead scan(1) by (auto simp: eng_tx_def eng_return_def elim!: eng_bind_Inr)
    ultimately show ?thesis using update_workflow_state_spec by (auto simp: advance_ok_def)
  next
    case compl
    then have "\<forall>step \<in> set ?steps. (ws_name step, SUCCEEDED) \<in> set (step_states i)" by (force simp: completed_steps_def)
    with scan(2) have "\<forall>step \<in> set ?steps. has_succeeded (D d) wid (ws_name step)" by (auto simp: has_succeeded_def)
    moreover obtain u where "update_workflow_state P wid ''completed'' d = Inr (u, d')"
      using rest compl scan(1) by (auto simp: eng_tx_def eng_return_def elim!: eng_bind_Inr)
    ultimately show ?thesis using update_workflow_state_spec by (auto simp: advance_ok_def)
  next
    case launch
    have "step \<in> may_launch (D d) wid ?steps"
      if "step \<in> set (get_ready_steps ?steps (completed_steps i))" "map_of (step_states i) (ws_name step) = None" for step
      using that scan(2,3) by (fastforce simp: may_launch_def get_ready_steps_def list_all_iff completed_steps_def has_succeeded_def)
    from launch_steps_launches [OF this] have
      "eng_keeps D (launches (launch_ok wid (may_launch (D d) wid ?steps)))
        (launch_steps R P C now fresh wid i (get_ready_steps ?steps (completed_steps i)) 0)" .
    then show ?thesis
      using rest launch scan(1) by (auto simp: advance_ok_def eng_return_def elim!: eng_bind_Inr dest!: eng_keepsD)
  qed
qed

lemma advance_db:
  assumes "workflows (D (w_db w)) wid = Some row" and "wr_state row = ''running''"
  shows "D (w_db (snd (advance R P C now fresh wid w))) = D (w_db w) \<or>
    advance_ok wid (snd (wr_spec row)) (D (w_db w)) (D (w_db (snd (advance R P C now fresh wid w))))"
proof -
  obtain r s' where m: "advance_body R P C now fresh wid (w_redis w) (w_db w) = (r, s')" by fastforce
  show ?thesis
  proof (cases "\<exists>d'. r = Inr (True, d')")
    case True
    then obtain d' where r: "r = Inr (True, d')" by blast
    obtain c d'' where c: "pg_commit P (w_db w) d' = (c, d'')" by fastforce
    then have "D d'' = D (w_db w) \<or> D d'' = D d'"
      using commit_ok commit_raised by (cases c) auto
    moreover have "advance_ok wid (snd (wr_spec row)) (D (w_db w)) (D d')"
      using advance_body_ok [OF _ assms] m r by simp
    ultimately show ?thesis by (auto simp: advance_def run_eng_def m r c)
  next
    case False
    then show ?thesis by (auto simp: advance_def run_eng_def m split: sum.splits prod.splits bool.splits)
  qed
qed

lemma advance_idle:
  assumes "\<And>row. workflows (D (w_db w)) wid = Some row \<Longrightarrow> wr_state row \<noteq> ''running''"
  shows "w_db (snd (advance R P C now fresh wid w)) = w_db w"
proof -
  obtain r s' where m: "advance_body R P C now fresh wid (w_redis w) (w_db w) = (r, s')" by fastforce
  have "b = False" if "r = Inr (b, d')" for b d'
    using m that assms by (auto simp: advance_body_def eng_tx_def eng_return_def Let_def elim!: eng_bind_Inr
        dest!: get_workflow_row split: option.splits if_splits)
  then show ?thesis
    by (auto simp: advance_def run_eng_def m split: sum.splits prod.splits bool.splits)
qed

end

lemma wf_set_state_row:
  assumes "workflows (wf_set_state wid st b) wid = Some row'" and "\<And>r. workflows b wid = Some r \<Longrightarrow> wr_id r = wid"
  obtains row where "workflows b wid = Some row" and "row' = row\<lparr>wr_state := st\<rparr>"
  using assms by (auto simp: wf_set_state_def upd_map_def split: option.splits)

lemma wf_set_state_tasks [simp]: "tasks (wf_set_state wid st b) = tasks b"
  by (simp add: wf_set_state_def)

section \<open>Fan-out\<close>

text \<open>
  A workflow that is on record and not completed, with a step named \<open>n\<close> under whose name no step launches tasks and no task exists.
  A fan-out step launches its tasks under indexed names, so its own name is such an \<open>n\<close> unless another step launches under it.
\<close>

definition fan_stuck :: "db \<Rightarrow> uuid \<Rightarrow> string \<Rightarrow> bool" where
  "fan_stuck b wid n \<longleftrightarrow> named_tasks b wid n = {} \<and>
     (\<exists>row. workflows b wid = Some row \<and> wr_id row = wid \<and> wr_state row \<noteq> ''completed'' \<and>
        (\<forall>step \<in> set (snd (wr_spec row)). \<not> launch_name step n) \<and>
        (\<exists>step \<in> set (snd (wr_spec row)). ws_name step = n))"

lemma fan_step_name_neq [simp]: "fan_step_name n i \<noteq> n"
  by (simp add: fan_step_name_def)

lemma fan_stuck_advance:
  assumes "fan_stuck b wid n" and "workflows b wid = Some row" and "advance_ok wid (snd (wr_spec row)) b b'"
  shows "fan_stuck b' wid n"
proof -
  have row: "wr_id row = wid" "wr_state row \<noteq> ''completed''"
      "\<forall>step \<in> set (snd (wr_spec row)). \<not> launch_name step n"
      "\<exists>step \<in> set (snd (wr_spec row)). ws_name step = n" and none: "named_tasks b wid n = {}"
    using assms(1,2) by (auto simp: fan_stuck_def)
  from assms(3) consider (failed) "b' = wf_set_state wid ''failed'' b"
    | (completed) "\<forall>step \<in> set (snd (wr_spec row)). has_succeeded b wid (ws_name step)"
    | (launch) "launches (launch_ok wid (may_launch b wid (snd (wr_spec row)))) b b'"
    unfolding advance_ok_def by blast
  then show ?thesis
  proof cases
    case failed
    have "workflows b' wid = Some (row\<lparr>wr_state := ''failed''\<rparr>)"
      using assms(2) row(1) by (simp add: failed wf_set_state_def upd_map_def)
    then show ?thesis
      using row none by (simp add: fan_stuck_def named_tasks_def failed)
  next
    case completed
    with row(4) none show ?thesis by (auto simp: has_succeeded_def)
  next
    case launch
    have "named_tasks b' wid n = {}"
    proof (rule ccontr)
      assume "named_tasks b' wid n \<noteq> {}"
      then obtain j t where t: "tasks b' j = Some t" "tr_workflow_id t = Some wid" "tr_step_name t = Some n"
        by (auto simp: named_tasks_def ran_def)
      with launch consider "tasks b j = Some t" | "launch_ok wid (may_launch b wid (snd (wr_spec row))) t"
        by (auto simp: launches_def)
      then show False
      proof cases
        case 1
        with t none show False by (auto simp: named_tasks_def ran_def)
      next
        case 2
        with t(3) row(3) show False by (auto simp: launch_ok_def may_launch_def launched_by_def)
      qed
    qed
    then show ?thesis
      using launch assms(2) row by (simp add: fan_stuck_def launches_def)
  qed
qed

lemma fan_stuck_kept:
  assumes "postgres_service P D" and "fan_stuck (D (w_db w)) wid n"
  shows "fan_stuck (D (w_db (snd (advance R P C now fresh wid w)))) wid n"
proof -
  obtain row where row: "workflows (D (w_db w)) wid = Some row" using assms(2) by (auto simp: fan_stuck_def)
  show ?thesis
  proof (cases "wr_state row = ''running''")
    case True
    from postgres_service.advance_db [OF assms(1) row True, of R C now fresh] fan_stuck_advance [OF assms(2) row] assms(2)
    show ?thesis by auto
  next
    case False
    with row have "w_db (snd (advance R P C now fresh wid w)) = w_db w"
      by (intro postgres_service.advance_idle [OF assms(1)]) simp
    with assms(2) show ?thesis by simp
  qed
qed

section \<open>Properties\<close>

text \<open>
  C17: Advancing a running workflow follows the rules of a workflow. Afterwards it is \<open>completed\<close>
  only if every step has a task that succeeded, and \<open>failed\<close> only if some task of it is dead; and
  every task that the call created belongs to a step of the workflow all of whose dependencies
  have succeeded, and no task of the workflow carried the name of that step before (if the name is not empty). The tasks of a step
  without \<open>fan_out\<close> carry its name, so such a step is launched once; the tasks of a fan-out step carry the
  name with an index, so for it the condition says nothing about earlier launches.
\<close>

theorem advance_follows_dag:
  assumes "postgres_service P D" and "workflows (D (w_db w)) wid = Some row" and "wr_state row = ''running''"
    and "b' = D (w_db (snd (advance R P C now fresh wid w)))" and "workflows b' wid = Some row'"
  shows "(wr_state row' = ''completed'' \<longrightarrow>
        (\<forall>step \<in> set (snd (wr_spec row)). has_succeeded (D (w_db w)) wid (ws_name step))) \<and>
    (wr_state row' = ''failed'' \<longrightarrow> (\<exists>n. \<exists>t \<in> named_tasks (D (w_db w)) wid n. tr_state t = DEAD)) \<and>
    (\<forall>j t. tasks b' j = Some t \<longrightarrow> tasks (D (w_db w)) j = Some t \<or>
       (\<exists>step \<in> set (snd (wr_spec row)). \<exists>n. launch_name step n \<and> launched_by wid step n t \<and>
          (\<forall>d \<in> set (deps_of step). has_succeeded (D (w_db w)) wid d) \<and>
          (ws_name step \<noteq> [] \<longrightarrow> named_tasks (D (w_db w)) wid (ws_name step) = {})))"
proof -
  have key: "\<And>r. workflows (D (w_db w)) wid = Some r \<Longrightarrow> wr_id r = wid"
    using postgres_service.keyed(4) [OF assms(1)] .
  from postgres_service.advance_db [OF assms(1-3), of R C now fresh]
  consider "b' = D (w_db w)" | "advance_ok wid (snd (wr_spec row)) (D (w_db w)) b'"
    using assms(4) by blast
  then show ?thesis
  proof cases
    case 1
    with assms(2,3,5) show ?thesis by simp
  next
    case 2
    with assms(2,3,5) show ?thesis
      by (auto simp: advance_ok_def launches_def launch_ok_def may_launch_def elim!: wf_set_state_row [OF _ key])
        blast
  qed
qed

text \<open>A workflow whose step \<open>a\<close> can start, and one with a fan-out step.\<close>

definition demo_workflow :: "wf_step list \<Rightarrow> (task_envelope keyspace, ref_db) world" where
  "demo_workflow steps = \<lparr>w_redis = empty_keyspace, w_db = empty_ref_db\<lparr>rd_workflows :=
     [\<lparr>wr_id = ''wf'', wr_name = ''demo'', wr_spec = (''demo'', steps), wr_state = ''running'', wr_created_at = 0\<rparr>]\<rparr>\<rparr>"

definition demo_advance :: "wf_step list \<Rightarrow> db" where
  "demo_advance steps = ref_view (w_db (snd (advance ref_redis ref_postgres ref_codec 0
     (\<lambda>n. replicate (Suc n) CHR ''u'') ''wf'' (demo_workflow steps))))"

lemma demo_workflow_row: "workflows (ref_view (w_db (demo_workflow steps))) ''wf'' = Some
    \<lparr>wr_id = ''wf'', wr_name = ''demo'', wr_spec = (''demo'', steps), wr_state = ''running'', wr_created_at = 0\<rparr>"
  by (simp add: demo_workflow_def ref_view_def indexed_Cons empty_ref_db_def)

lemma demo_advance_row: "\<exists>row. workflows (demo_advance demo_steps) ''wf'' = Some row"
  and demo_advance_tasks: "tasks (demo_advance demo_steps) ''u'' \<noteq> None"
  by (simp_all add: demo_advance_def advance_def run_eng_def advance_body_def eng_bind_def eng_tx_def
      eng_return_def eng_lift_def eng_redis_def get_workflow_def get_tasks_for_workflow_def
      eval_db demo_workflow_def empty_ref_db_def demo_steps_def demo_step_def dead_steps_def completed_steps_def
      get_ready_steps_def deps_of_def launch_task_def create_task_def ref_task_ok_def task_cols_ok_def
      engine_envelope_def step_payload_def get_or_def opt_truthy_def ensure_queue_def ref_redis_def
      group_at_def empty_keyspace_def new_envelope_def default_retry_policy_def
      ref_view_def indexed_Cons)

theorem advance_follows_dag_witness:
  "\<exists>t. tasks (demo_advance demo_steps) ''u'' = Some t \<and>
     (\<exists>step \<in> set demo_steps. \<exists>n. launch_name step n \<and> launched_by ''wf'' step n t)"
proof -
  obtain row' where row': "workflows (demo_advance demo_steps) ''wf'' = Some row'" using demo_advance_row by blast
  obtain t where t: "tasks (demo_advance demo_steps) ''u'' = Some t" using demo_advance_tasks by blast
  have "tasks (ref_view (w_db (demo_workflow demo_steps))) ''u'' = None"
    by (simp add: demo_workflow_def ref_view_def empty_ref_db_def)
  with advance_follows_dag [OF ref_postgres_service demo_workflow_row _ demo_advance_def row'] t
  show ?thesis by fastforce
qed

end
