(* ===== verification/Control_Contract.thy ===== *)
theory Control_Contract
  imports Control_Plane Engine_Contract
begin

text \<open>
  What the control plane promises: an accepted task is both on record and on its way to a worker,
  and a deduplicated one is not sent again; and two ways in which the API departs from its
  documentation (a cyclic workflow, a workflow with default retries).
\<close>

lemmas pl_defs = pl_db_def pl_redis_def pl_event_def

section \<open>Creating a task\<close>

lemma scalar_one_mem: "scalar_one_or_none rows d = Inr (Some r, d') \<Longrightarrow> r \<in> set rows \<and> d' = d"
  by (cases rows rule: scalar_one_or_none.cases) (auto simp: tx_return_def tx_raise_def)

context postgres_service
begin

lemma create_task_cases:
  assumes "create_task P now i q n pl dk pr mx ra w st d = Inr ((row, dup), d')"
  shows "if dup then d' = d \<and> tasks (D d) (tr_id row) = Some row \<and> tr_queue row = q \<and> tr_dedup_key row = dk
    else tr_id row = i \<and> tasks (D d) i = None \<and> D d' = (D d)\<lparr>tasks := (tasks (D d))(i \<mapsto> row)\<rparr> \<and>
      tr_queue row = q \<and> tr_payload row = pl \<and> tr_state row = (if ra = None then PENDING else SCHEDULED)"
proof -
  have new: "if dup then d' = d \<and> tasks (D d) (tr_id row) = Some row \<and> tr_queue row = q \<and> tr_dedup_key row = dk
    else tr_id row = i \<and> tasks (D d) i = None \<and> D d' = (D d)\<lparr>tasks := (tasks (D d))(i \<mapsto> row)\<rparr> \<and>
      tr_queue row = q \<and> tr_payload row = pl \<and> tr_state row = (if ra = None then PENDING else SCHEDULED)"
    if "ins_task P row d = Inr d'" "\<not> dup" "tr_id row = i" "tr_queue row = q" "tr_payload row = pl"
      "tr_state row = (if ra = None then PENDING else SCHEDULED)"
    using ins_task [OF that(1)] that(2-) by (simp add: task_ok_def)
  show ?thesis
  proof (cases "dk \<noteq> None \<and> dk \<noteq> Some []")
    case False
    with assms new show ?thesis
      by (auto simp: create_task_def Let_def tx_defs split: sum.splits)
  next
    case True
    then obtain rows where sel: "sel_tasks P (\<lambda>r. tr_queue r = q \<and> tr_dedup_key r = dk) d = Inr rows"
      using assms by (auto simp: create_task_def Let_def tx_bind_def tx_query_def split: sum.splits)
    with assms True obtain r d1 where "scalar_one_or_none rows d = Inr (r, d1)"
      by (auto simp: create_task_def Let_def tx_bind_def tx_query_def split: sum.splits)
    with scalar_one_same have one: "scalar_one_or_none rows d = Inr (r, d)" by metis
    show ?thesis
    proof (cases r)
      case None
      with assms sel one new True show ?thesis
        by (auto simp: create_task_def Let_def tx_defs split: sum.splits)
    next
      case (Some t)
      with one have "t \<in> set rows" by (simp add: scalar_one_mem)
      then have "tasks (D d) (tr_id t) = Some t" "tr_queue t = q" "tr_dedup_key t = dk"
        using sel_tasks [OF sel] keyed(1) by (auto simp: ran_def)
      with assms sel one Some True show ?thesis
        by (auto simp: create_task_def Let_def tx_defs split: sum.splits)
    qed
  qed
qed

end

section \<open>Sending a message\<close>

context redis_service
begin

lemma ensure_queue_state:
  assumes "ensure_queue R q s = (Inr u, s')"
  shows "V s' = V s \<or> V s' = ks_xgroup_create (q_key q) q (V s)"
proof (cases "group_at (V s) (q_key q) q = None")
  case True
  with xgroup_create_new [OF key_types(5) True] assms show ?thesis
    by (cases "r_xgroup_create R (q_key q) q s") (auto simp: ensure_queue_def)
next
  case False
  with xgroup_create_busy [OF key_types(5) False] assms show ?thesis
    by (cases "r_xgroup_create R (q_key q) q s") (auto simp: ensure_queue_def split: if_splits)
qed

lemma ensure_queue_keeps:
  assumes "ensure_queue R q s = (Inr u, s')"
  shows "queue_data (V s') q = queue_data (V s) q" and "zsets (V s') = zsets (V s)"
proof -
  show "queue_data (V s') q = queue_data (V s) q"
    using ensure_queue_state [OF assms] by (auto simp: queue_data_def ks_xgroup_create_def Let_def)
  show "zsets (V s') = zsets (V s)"
    using ensure_queue_state [OF assms] by (auto simp: ks_xgroup_create_def put_stream_def Let_def)
qed

lemma publish_data: "queue_data (V (publish R C q e s)) q = queue_data (V s) q @ [model_dump_json C e]"
  by (simp add: publish_def xadd queue_data_xadd)

lemma publish_queued:
  assumes "ensure_queue R q s = (Inr u, s')"
  shows "queue_data (V (publish R C q e s')) q = queue_data (V s) q @ [model_dump_json C e]"
    and "zsets (V (publish R C q e s')) = zsets (V s)"
  using ensure_queue_keeps [OF assms] by (simp_all add: publish_data) (simp add: publish_def xadd)

lemma schedule_member: "(model_dump_json C e, t) \<in> set (zsets (V (schedule R C q e t s)) (sched_key q))"
  by (simp add: schedule_def zadd ks_zadd_def zinsert_mem)

lemma schedule_streams: "streams (V (schedule R C q e t s)) = streams (V s)"
  by (simp add: schedule_def zadd ks_zadd_def)

end

section \<open>Properties\<close>

text \<open>
  Where an accepted task waits: at the end of the stream of its queue, or in the schedule under its
  time when that is in the future.
\<close>

definition task_sent ::
  "'v codec \<Rightarrow> timestamp \<Rightarrow> create_task_request \<Rightarrow> task_envelope \<Rightarrow> 'v keyspace \<Rightarrow> 'v keyspace \<Rightarrow> bool" where
  "task_sent C now req e ks ks' \<longleftrightarrow>
     (case rq_run_at req of
        Some t \<Rightarrow> if t > now
          then (model_dump_json C e, t) \<in> set (zsets ks' (sched_key (rq_queue req))) \<and> streams ks' = streams ks
          else queue_data ks' (rq_queue req) = queue_data ks (rq_queue req) @ [model_dump_json C e] \<and> zsets ks' = zsets ks
      | None \<Rightarrow> queue_data ks' (rq_queue req) = queue_data ks (rq_queue req) @ [model_dump_json C e] \<and> zsets ks' = zsets ks)"

text \<open>
  C19: A task that the API accepts is both on record and on its way to a worker. If
  \<open>POST /v1/tasks\<close> answers with a new task, exactly one row was inserted, with the requested queue
  and payload and in state \<open>pending\<close> (\<open>scheduled\<close> when a time was given), and its message stands
  at the end of the stream, or in the schedule when the time lies in the future. If it answers with
  a duplicate, that task is on record with the same queue and key, and neither the database nor
  Redis was changed.
\<close>

theorem accepted_task_recorded_and_sent:
  assumes "redis_service R V before" and "postgres_service P D"
    and "api_create_task R P C now tid req p = (Inr (i, dup), p')"
  shows "if dup
    then (\<exists>row. tasks (D (w_db (pl_world p))) i = Some row \<and> tr_queue row = rq_queue req
        \<and> tr_dedup_key row = rq_dedup_key req)
      \<and> D (w_db (pl_world p')) = D (w_db (pl_world p)) \<and> w_redis (pl_world p') = w_redis (pl_world p)
    else i = tid \<and> tasks (D (w_db (pl_world p))) tid = None
      \<and> (\<exists>row. D (w_db (pl_world p')) =
            (D (w_db (pl_world p)))\<lparr>tasks := (tasks (D (w_db (pl_world p))))(tid \<mapsto> row)\<rparr>
          \<and> tr_queue row = rq_queue req \<and> tr_payload row = rq_payload req
          \<and> tr_state row = (if rq_run_at req = None then PENDING else SCHEDULED))
      \<and> task_sent C now req (request_envelope now tid req) (V (w_redis (pl_world p))) (V (w_redis (pl_world p')))"
proof -
  let ?tx = "create_task P now tid (rq_queue req) (rq_task_name req) (rq_payload req)
      (rq_dedup_key req) (rq_priority req) (rq_max_attempts req) (rq_run_at req) None None"
  let ?d = "w_db (pl_world p)"
  obtain row d1 where run: "run_tx P ?tx ?d = (Inr (row, dup), d1)" and p': "w_db (pl_world p') = d1" "i = tr_id row"
    using assms(3) by (auto simp: api_create_task_def Let_def pl_defs split: prod.splits sum.splits option.splits if_splits)
  then obtain d2 where d2: "?tx ?d = Inr ((row, dup), d2)" "D d1 = D d2"
    using postgres_service.run_tx_Inr [OF assms(2), of ?tx ?d] by (metis fst_conv snd_conv)
  note row = postgres_service.create_task_cases [OF assms(2) d2(1), folded d2(2)]
  show ?thesis
  proof (cases dup)
    case True
    with row run assms(3) p' show ?thesis by (auto simp: api_create_task_def pl_defs d2(2))
  next
    case False
    have "task_sent C now req (request_envelope now (tr_id row) req) (V (w_redis (pl_world p))) (V (w_redis (pl_world p')))"
      using assms(3) run False
      by (auto simp: api_create_task_def Let_def pl_defs task_sent_def redis_service.publish_queued [OF assms(1)]
          redis_service.schedule_member [OF assms(1)] redis_service.schedule_streams [OF assms(1)]
          split: prod.splits sum.splits option.splits if_splits)
    with False row p' show ?thesis by auto
  qed
qed

definition demo_plane :: "(task_envelope keyspace, ref_db) plane" where
  "demo_plane = \<lparr>pl_world = \<lparr>w_redis = empty_keyspace, w_db = empty_ref_db\<rparr>, pl_bus = empty_bus\<rparr>"

definition demo_request :: create_task_request where
  "demo_request = \<lparr>rq_queue = ''default'', rq_task_name = ''mail'', rq_payload = JObj [], rq_dedup_key = None,
     rq_priority = 0, rq_run_at = None, rq_max_attempts = 5\<rparr>"

abbreviation demo_accept where
  "demo_accept \<equiv> api_create_task ref_redis ref_postgres ref_codec 0 ''t1'' demo_request demo_plane"

lemma demo_accept_ok: "fst demo_accept = Inr (''t1'', False)"
  by (simp add: api_create_task_def demo_request_def demo_plane_def Let_def create_task_def run_tx_def eval_db
      ref_task_ok_def task_cols_ok_def empty_ref_db_def pl_defs ensure_queue_def ref_redis_def group_at_def
      empty_keyspace_def)

theorem accepted_task_recorded_and_sent_witness:
  "tasks (ref_view (w_db (pl_world (snd demo_accept)))) ''t1'' \<noteq> None \<and>
   queue_data (w_redis (pl_world (snd demo_accept))) ''default'' = [request_envelope 0 ''t1'' demo_request]"
proof -
  have "demo_accept = (Inr (''t1'', False), snd demo_accept)" using demo_accept_ok by (metis prod.collapse)
  from accepted_task_recorded_and_sent [OF ref_redis_service ref_postgres_service this]
  show ?thesis
    by (auto simp: task_sent_def demo_request_def demo_plane_def ref_codec_def queue_data_def empty_keyspace_def
        stream_at_def empty_stream_def)
qed

text \<open>
  C29: A workflow request that is not a DAG is refused without a trace, but as an internal error. If
  the steps have a cycle or name an unknown dependency, \<open>POST /v1/workflows\<close> ends in a
  \<open>WorkflowCycleError\<close> that its \<open>except ValueError\<close> does not catch, so the answer is a 500 and never
  the documented 422; the database, Redis and the event bus are unchanged.
\<close>

theorem cyclic_workflow_internal_error:
  assumes "iter_ok iter"
    and "\<not> (deps_known (map model_dump steps) \<and> acyclic (set (edges_of (map model_dump steps))))"
  shows "\<exists>m. api_create_workflow R P C iter sh now fresh wid name steps p =
    (Inl (InternalError (Dtq WorkflowCycleError m)), p)"
proof -
  have "\<exists>m. validate_dag iter sh (map model_dump steps) = Some (Inl (Dtq WorkflowCycleError m))"
    using validate_dag_cases [OF assms(1), of "map model_dump steps" sh] assms(2) by (auto split: if_splits)
  then show ?thesis by (auto simp: api_create_workflow_def submit_def)
qed

definition demo_request_step :: "string \<Rightarrow> string list \<Rightarrow> workflow_step" where
  "demo_request_step n deps = \<lparr>st_name = n, st_task = ''noop'', st_payload = JObj [], st_depends_on = deps,
     st_fan_out = None, st_retry = None\<rparr>"

theorem cyclic_workflow_internal_error_witness:
  "\<exists>m. api_create_workflow ref_redis ref_postgres ref_codec (\<lambda>xs. xs) concat 0 (\<lambda>_. ''u'') ''wf'' ''w''
     [demo_request_step ''a'' [''b''], demo_request_step ''b'' [''a'']] demo_plane =
    (Inl (InternalError (Dtq WorkflowCycleError m)), demo_plane)"
proof (rule cyclic_workflow_internal_error [OF iter_ok_id])
  let ?steps = "map model_dump [demo_request_step ''a'' [''b''], demo_request_step ''b'' [''a'']]"
  have "(''a'', ''b'') \<in> set (edges_of ?steps)" "(''b'', ''a'') \<in> set (edges_of ?steps)"
    by (simp_all add: edges_of_def demo_request_step_def model_dump_def deps_of_def)
  then have "(''a'', ''a'') \<in> (set (edges_of ?steps))\<^sup>+" by (meson trancl.intros)
  then show "\<not> (deps_known ?steps \<and> acyclic (set (edges_of ?steps)))" by (auto simp: acyclic_def)
qed

section \<open>Starting a workflow\<close>

context postgres_up
begin

lemma create_workflow_up:
  assumes "workflows (D d) wid = None"
  shows "\<exists>d' row. run_tx P (create_workflow P now wid name spec) d = (Inr row, d') \<and>
    row = \<lparr>wr_id = wid, wr_name = name, wr_spec = spec, wr_state = ''running'', wr_created_at = now\<rparr> \<and>
    D d' = (D d)\<lparr>workflows := (workflows (D d))(wid \<mapsto> row)\<rparr>"
proof -
  let ?row = "\<lparr>wr_id = wid, wr_name = name, wr_spec = spec, wr_state = ''running'', wr_created_at = now\<rparr>"
  obtain d1 where d1: "ins_workflow P ?row d = Inr d1"
    using ins_workflow_up [of d ?row] assms by (auto simp: workflow_ok_def)
  then have tx: "create_workflow P now wid name spec d = Inr (?row, d1)"
    by (simp add: create_workflow_def Let_def tx_defs)
  from run_tx_up [of "create_workflow P now wid name spec", OF tx] ins_workflow [OF d1] show ?thesis
    by (metis prod.collapse workflow_row.select_convs(1))
qed

text \<open>The first call of \<open>advance\<close> finds no tasks and goes on to launch the steps that are ready.\<close>

lemma advance_first:
  assumes "workflows (D d) wid = Some row" and "wr_state row = ''running''"
    and "\<And>j t. tasks (D d) j = Some t \<Longrightarrow> tr_workflow_id t \<noteq> Some wid"
    and "snd (wr_spec row) \<noteq> []"
  shows "advance_body R P C now fresh wid s d =
    eng_bind (launch_steps R P C now fresh wid \<lparr>step_states = [], step_results = []\<rparr>
       (get_ready_steps (snd (wr_spec row)) {}) 0) (\<lambda>_. eng_return True) s d"
proof -
  obtain ws where ws: "sel_workflows P (\<lambda>r. wr_id r = wid) d = Inr ws" using sel_up(4) by blast
  have gw: "get_workflow P wid d = Inr (Some row, d)"
    using ws workflow_rows [OF ws] assms(1) by (simp add: get_workflow_def tx_defs)
  obtain ts where ts: "sel_tasks P (\<lambda>r. tr_workflow_id r = Some wid) d = Inr ts" using sel_up(1) by blast
  have "t \<notin> set ts" for t
    using sel_tasks [OF ts] assms(3) [of _ t] by (auto simp: ran_def)
  then have "ts = []" by (metis list.set_intros(1) neq_Nil_conv)
  with ts have "get_tasks_for_workflow P wid d = Inr ([], d)" by (simp add: get_tasks_for_workflow_def tx_defs)
  with gw assms(2,4) show ?thesis
    by (simp add: advance_body_def Let_def eng_bind_def eng_tx_def tx_return_def dead_steps_def completed_steps_def)
qed

end

text \<open>
  C30: A workflow whose steps leave \<open>retry\<close> at its default does not start. The request model turns
  the omitted field into \<open>None\<close>, on which the engine calls \<open>get\<close>: for every valid DAG of such
  steps without fan-out, \<open>POST /v1/workflows\<close> answers with an internal error although the workflow
  is on record as \<open>running\<close>; no task is created and nothing is published.
\<close>

theorem default_retry_workflow_fails:
  assumes "postgres_up P D" and "iter_ok iter" and "db_wf (D (w_db (pl_world p)))"
    and "workflows (D (w_db (pl_world p))) wid = None" and "steps \<noteq> []"
    and "\<forall>s \<in> set steps. st_retry s = None \<and> st_fan_out s = None"
    and "deps_known (map model_dump steps)" and "acyclic (set (edges_of (map model_dump steps)))"
    and "api_create_workflow R P C iter sh now fresh wid name steps p = (r, p')"
  shows "\<exists>m. r = Inl (InternalError (PyAttributeError m)) \<and>
    D (w_db (pl_world p')) = (D (w_db (pl_world p)))\<lparr>workflows := (workflows (D (w_db (pl_world p))))(wid \<mapsto>
      \<lparr>wr_id = wid, wr_name = name, wr_spec = (name, map model_dump steps), wr_state = ''running'',
       wr_created_at = now\<rparr>)\<rparr> \<and> w_redis (pl_world p') = w_redis (pl_world p)"
proof -
  let ?steps = "map model_dump steps" and ?d = "w_db (pl_world p)"
  obtain order where order: "validate_dag iter sh ?steps = Some (Inr order)"
    using validate_dag_cases [OF assms(2), of ?steps sh] assms(7,8) by auto
  obtain d1 row where run: "run_tx P (create_workflow P now wid name (name, ?steps)) ?d = (Inr row, d1)"
      and row: "row = \<lparr>wr_id = wid, wr_name = name, wr_spec = (name, ?steps), wr_state = ''running'', wr_created_at = now\<rparr>"
      and D1: "D d1 = (D ?d)\<lparr>workflows := (workflows (D ?d))(wid \<mapsto> row)\<rparr>"
    using postgres_up.create_workflow_up [OF assms(1,4)] by blast
  obtain x xs where ready: "get_ready_steps ?steps {} = x # xs"
    using ready_exists [OF assms(2) order, of "{}"] assms(5) by (cases "get_ready_steps ?steps {}") auto
  then have "x \<in> set ?steps" by (metis filter_is_subset get_ready_steps_def list.set_intros(1) subsetD)
  then have x: "ws_retry x = RetryNone" "ws_fan_out x = None" using assms(6) by (auto simp: model_dump_def)
  have fresh: "tr_workflow_id t \<noteq> Some wid" if "tasks (D ?d) j = Some t" for j t
    using assms(3,4) that unfolding db_wf_def by metis
  have "advance_body R P C now fresh wid (w_redis (pl_world p)) d1 =
      eng_bind (launch_steps R P C now fresh wid \<lparr>step_states = [], step_results = []\<rparr> (x # xs) 0)
        (\<lambda>_. eng_return True) (w_redis (pl_world p)) d1"
    using postgres_up.advance_first [OF assms(1), of d1 wid row R C now fresh "w_redis (pl_world p)"] assms(5) fresh
    by (simp only: ready [symmetric]) (simp add: D1 row)
  then have "\<exists>m. advance_body R P C now fresh wid (w_redis (pl_world p)) d1 =
      (Inl (PyAttributeError m), w_redis (pl_world p))"
    using x by (simp add: launch_task_def eng_bind_def eng_lift_def eng_raise_def opt_truthy_def)
  with assms(9) order run D1 row show ?thesis
    by (auto simp: api_create_workflow_def submit_def advance_def run_eng_def)
qed

theorem default_retry_workflow_fails_witness:
  "\<exists>m. fst (api_create_workflow ref_redis ref_postgres ref_codec (\<lambda>xs. xs) concat 0 (\<lambda>_. ''u'') ''wf'' ''w''
     [demo_request_step ''a'' [], demo_request_step ''b'' [''a'']] demo_plane) =
    Inl (InternalError (PyAttributeError m))"
proof -
  let ?steps = "[demo_request_step ''a'' [], demo_request_step ''b'' [''a'']]"
  let ?run = "api_create_workflow ref_redis ref_postgres ref_codec (\<lambda>xs. xs) concat 0 (\<lambda>_. ''u'') ''wf'' ''w'' ?steps demo_plane"
  have edges: "set (edges_of (map model_dump ?steps)) = {(''a'', ''b'')}"
    by (simp add: edges_of_def demo_request_step_def model_dump_def deps_of_def)
  then have ac: "acyclic (set (edges_of (map model_dump ?steps)))"
    by (simp add: acyclic_insert) (simp add: acyclic_def)
  have known: "deps_known (map model_dump ?steps)"
    by (simp add: deps_known_def demo_request_step_def model_dump_def deps_of_def)
  have db: "db_wf (ref_view (w_db (pl_world demo_plane)))" "workflows (ref_view (w_db (pl_world demo_plane))) ''wf'' = None"
    by (simp_all add: db_wf_def ref_view_def demo_plane_def empty_ref_db_def)
  have "\<forall>s \<in> set ?steps. st_retry s = None \<and> st_fan_out s = None" by (simp add: demo_request_step_def)
  from default_retry_workflow_fails [OF ref_postgres_up iter_ok_id db _ this known ac prod.collapse [symmetric]]
  show ?thesis by blast
qed

end
