(* ===== verification/Worker_Loop.thy ===== *)
theory Worker_Loop
  imports Executor_Contract Broker_Delivery
begin

text \<open>
  \<open>dtq/worker/loop.py\<close>: processing one message, the body of each of the four loops, and the worker's
  own state (the semaphore and the set of tasks in flight) as a state machine of the event loop.
  The sleeps between two rounds of a loop are left out: a round may run at any time.
\<close>

text \<open>The executor that \<open>WorkerLoop.__init__\<close> creates.\<close>

definition executor_of :: "settings \<Rightarrow> executor" where
  "executor_of cfg = \<lparr>ex_worker_id = cfg_worker_id cfg, ex_lease_ms = cfg_lease_ms cfg\<rparr>"

section \<open>Processing a message\<close>

definition error_type_of :: "string option \<Rightarrow> string" where
  "error_type_of error_repr = (case error_repr of
       None \<Rightarrow> []
     | Some s \<Rightarrow> if s = [] then [] else if CHR '':'' \<in> set s then hd (split_on CHR '':'' s) else s)"

text \<open>
  What follows the execution: \<open>Inl\<close> is an exception, which \<open>_process_message\<close> logs; the message is
  then not acknowledged. \<open>u\<close> is the draw of \<open>compute_delay\<close>, and \<open>clk AtSettle\<close> is \<open>time.time()\<close>.
\<close>

definition settle_failure ::
  "('s, 'v) redis \<Rightarrow> 'd postgres \<Rightarrow> 'v codec \<Rightarrow> (await_point \<Rightarrow> timestamp) \<Rightarrow>
   (await_point \<Rightarrow> ('s, 'd) world \<Rightarrow> ('s, 'd) world) \<Rightarrow> real \<Rightarrow> string \<Rightarrow> task_envelope \<Rightarrow>
   string option \<Rightarrow> ('s, 'd) world \<Rightarrow> (exn + unit) \<times> ('s, 'd) world" where
  "settle_failure R P C clk itf u queue e error_repr w =
     (let error_type = error_type_of error_repr;
          policy = env_retry_policy e
      in if is_retryable policy error_type (env_attempt e + 1)
         then (case compute_delay policy (env_attempt e + 1) u of
                 Inl x \<Rightarrow> (Inl x, w)
               | Inr delay \<Rightarrow>
                   let run_at = clk AtSettle + delay;
                       retry_envelope = e\<lparr>env_attempt := env_attempt e + 1\<rparr>
                   in (Inr (), w\<lparr>w_redis := schedule R C queue retry_envelope run_at (w_redis w)\<rparr>))
         else
           let reason = (case error_repr of
                  None \<Rightarrow> ''max_attempts_exhausted''
                | Some m \<Rightarrow> if m \<noteq> [] then m else ''max_attempts_exhausted'');
               w1 = itf AtDead (w\<lparr>w_redis := dead_letter R C queue e reason (w_redis w)\<rparr>);
               (r, d) = run_tx P (update_task_state P (clk AtDead) (env_task_id e) DEAD None) (w_db w1)
           in (r, w1\<lparr>w_db := d\<rparr>))"

definition process_message ::
  "('s, 'v) redis \<Rightarrow> 'd postgres \<Rightarrow> 'v codec \<Rightarrow> executor \<Rightarrow> py_text \<Rightarrow> registry \<Rightarrow>
   (await_point \<Rightarrow> timestamp) \<Rightarrow> (await_point \<Rightarrow> ('s, 'd) world \<Rightarrow> ('s, 'd) world) \<Rightarrow>
   (('s, 'd) world \<Rightarrow> ('s, 'd) world) list \<Rightarrow> real \<Rightarrow> string \<Rightarrow> leased \<Rightarrow> ('s, 'd) world \<Rightarrow> ('s, 'd) world" where
  "process_message R P C ex py reg clk itf ticks u queue msg w =
     (let ack_it = (\<lambda>w. w\<lparr>w_redis := ack R queue queue [broker_msg_id msg] (w_redis w)\<rparr>)
      in case execute R P ex py reg clk itf ticks (envelope msg) w of
           (Inl x, w1) \<Rightarrow> w1
         | (Inr (success, error_repr), w1) \<Rightarrow>
             if success then ack_it (itf AtAck w1)
             else (case settle_failure R P C clk itf u queue (envelope msg) error_repr (itf AtSettle w1) of
                     (Inl x, w2) \<Rightarrow> w2
                   | (Inr _, w2) \<Rightarrow> ack_it (itf AtAck w2)))"

section \<open>The scheduler and the reclaimer\<close>

text \<open>A round of the scheduler; \<open>clk\<close> gives the time of each of its calls.\<close>

fun scheduler_tick :: "('s, 'v) redis \<Rightarrow> (nat \<Rightarrow> timestamp) \<Rightarrow> string list \<Rightarrow> 's \<Rightarrow> 's" where
  "scheduler_tick R clk [] s = s"
| "scheduler_tick R clk (queue # queues) s =
     scheduler_tick R (clk \<circ> Suc) queues (snd (promote_scheduled R (clk 0) queue s))"

text \<open>
  The reclaimer closes the attempt of a reclaimed message, ignoring a database error, and hands
  the message on with the next attempt number.
\<close>

definition close_lost ::
  "'d postgres \<Rightarrow> timestamp \<Rightarrow> leased \<Rightarrow> 'd \<Rightarrow> 'd" where
  "close_lost P now msg d =
     snd (run_tx P (close_attempt P now (env_task_id (envelope msg)) (env_attempt (envelope msg))
                      ''lease_lost'' None None) d)"

definition adopt :: "leased \<Rightarrow> leased" where
  "adopt msg = msg\<lparr>envelope := (envelope msg)\<lparr>env_attempt := env_attempt (envelope msg) + 1\<rparr>\<rparr>"

definition reclaim_queue ::
  "('s, 'v) redis \<Rightarrow> 'v codec \<Rightarrow> settings \<Rightarrow> string \<Rightarrow> ('s, 'd) world \<Rightarrow> leased list \<times> ('s, 'd) world" where
  "reclaim_queue R C cfg queue w =
     (case reclaim R C queue queue (cfg_worker_id cfg) (nat (cfg_reclaim_min_idle_ms cfg)) 5 (w_redis w) of
        (Inl x, s) \<Rightarrow> ([], w\<lparr>w_redis := s\<rparr>)
      | (Inr msgs, s) \<Rightarrow> (msgs, w\<lparr>w_redis := s\<rparr>))"

text \<open>
  A round of the reclaimer on a queue: every reclaimed message has its attempt closed and is
  adopted, in order; \<open>itf\<close> is what other processes do before each message, while the reclaimer
  waits for the server, the database or the semaphore.
\<close>

fun adopt_all ::
  "'d postgres \<Rightarrow> (nat \<Rightarrow> timestamp) \<Rightarrow> (nat \<Rightarrow> ('s, 'd) world \<Rightarrow> ('s, 'd) world) \<Rightarrow> leased list \<Rightarrow>
   ('s, 'd) world \<Rightarrow> leased list \<times> ('s, 'd) world" where
  "adopt_all P clk itf [] w = ([], w)"
| "adopt_all P clk itf (msg # msgs) w =
     (let w1 = itf 0 w;
          w2 = w1\<lparr>w_db := close_lost P (clk 0) msg (w_db w1)\<rparr>;
          (adopted, w3) = adopt_all P (clk \<circ> Suc) (itf \<circ> Suc) msgs w2
      in (adopt msg # adopted, w3))"

definition reclaim_round ::
  "('s, 'v) redis \<Rightarrow> 'd postgres \<Rightarrow> 'v codec \<Rightarrow> (nat \<Rightarrow> timestamp) \<Rightarrow>
   (nat \<Rightarrow> ('s, 'd) world \<Rightarrow> ('s, 'd) world) \<Rightarrow> settings \<Rightarrow> string \<Rightarrow> ('s, 'd) world \<Rightarrow>
   leased list \<times> ('s, 'd) world" where
  "reclaim_round R P C clk itf cfg queue w =
     (let (reclaimed, w1) = reclaim_queue R C cfg queue w in adopt_all P clk itf reclaimed w1)"

definition poll_queue ::
  "('s, 'v) redis \<Rightarrow> 'v codec \<Rightarrow> settings \<Rightarrow> int \<Rightarrow> string \<Rightarrow> ('s, 'd) world \<Rightarrow> leased list \<times> ('s, 'd) world" where
  "poll_queue R C cfg sem queue w =
     (if sem = 0 then ([], w)
      else case lease R C queue queue (cfg_worker_id cfg) (nat (min sem 5)) (w_redis w) of
             (Inl x, s) \<Rightarrow> ([], w\<lparr>w_redis := s\<rparr>)
           | (Inr msgs, s) \<Rightarrow> (msgs, w\<lparr>w_redis := s\<rparr>))"

section \<open>The presence key\<close>

definition heartbeat_data :: "settings \<Rightarrow> nat \<Rightarrow> timestamp \<Rightarrow> timestamp \<Rightarrow> json" where
  "heartbeat_data cfg in_flight started_at now =
     JObj [(''queues'', JArr (map JStr (cfg_worker_queues cfg))),
           (''in_flight'', JNum (of_nat in_flight)),
           (''concurrency'', JNum (of_int (cfg_worker_concurrency cfg))),
           (''started_at'', JNum started_at),
           (''version'', JStr ''0.1.0''),
           (''timestamp'', JNum now)]"

text \<open>
  A round of the heartbeat loop; \<open>dumps\<close> is \<open>json.dumps\<close>. An error reply is logged. \<open>int(x)\<close> rounds
  a positive float down.
\<close>

definition worker_heartbeat ::
  "('s, 'v) redis \<Rightarrow> (json \<Rightarrow> string) \<Rightarrow> settings \<Rightarrow> nat \<Rightarrow> timestamp \<Rightarrow> timestamp \<Rightarrow> 's \<Rightarrow> 's" where
  "worker_heartbeat R dumps cfg in_flight started_at now s =
     (let ttl_ms = \<lfloor>cfg_heartbeat_interval_s cfg * 3 * 1000\<rfloor>
      in snd (set_worker_heartbeat R (cfg_worker_id cfg)
               (dumps (heartbeat_data cfg in_flight started_at now)) ttl_ms s))"

section \<open>The worker's own state\<close>

text \<open>
  The asyncio tasks of a worker with the flag whether their coroutine has returned: returning
  releases the semaphore, and the callback that discards the task from \<open>_in_flight\<close> runs later.
  \<open>wk_todo\<close> are the messages that the poll loop or the reclaimer has in hand and has not dispatched.
\<close>

record worker =
  wk_concurrency :: int
  wk_running :: bool
  wk_shutting_down :: bool
  wk_drained :: bool
  wk_semaphore :: int
  wk_in_flight :: "(string \<times> leased \<times> bool) list"
  wk_todo :: "(string \<times> leased) list"

definition new_worker :: "settings \<Rightarrow> worker" where
  "new_worker cfg = \<lparr>wk_concurrency = cfg_worker_concurrency cfg, wk_running = False,
     wk_shutting_down = False, wk_drained = False, wk_semaphore = cfg_worker_concurrency cfg,
     wk_in_flight = [], wk_todo = []\<rparr>"

text \<open>
  Parts of \<open>start\<close>: it creates the queues of the worker, where an exception of a queue ends it, and
  sets \<open>_running\<close>.
\<close>

fun ensure_queues :: "('s, 'v) redis \<Rightarrow> string list \<Rightarrow> 's \<Rightarrow> (exn + unit) \<times> 's" where
  "ensure_queues R [] s = (Inr (), s)"
| "ensure_queues R (queue # queues) s =
     (case ensure_queue R queue s of
        (Inl e, s1) \<Rightarrow> (Inl e, s1)
      | (Inr _, s1) \<Rightarrow> ensure_queues R queues s1)"

definition run_loops :: "worker \<Rightarrow> worker" where
  "run_loops k = k\<lparr>wk_running := True\<rparr>"

text \<open>The assignments of the signal handler, of \<open>drain\<close> and of \<open>stop\<close>.\<close>

definition signal_shutdown :: "worker \<Rightarrow> worker" where
  "signal_shutdown k =
     (if \<not> wk_shutting_down k then k\<lparr>wk_shutting_down := True, wk_running := False\<rparr> else k)"

definition drain :: "worker \<Rightarrow> worker" where
  "drain k = k\<lparr>wk_running := False, wk_drained := True\<rparr>"

definition stop :: "worker \<Rightarrow> worker" where
  "stop k = k\<lparr>wk_running := False\<rparr>"

text \<open>
  \<open>await self._semaphore.acquire()\<close> and the creation of the task: \<open>None\<close> is a worker that waits.
\<close>

definition dispatch :: "nat \<Rightarrow> worker \<Rightarrow> worker option" where
  "dispatch i k =
     (if i < length (wk_todo k) \<and> 0 < wk_semaphore k
      then case wk_todo k ! i of (q, m) \<Rightarrow>
        Some (k\<lparr>wk_semaphore := wk_semaphore k - 1,
                wk_todo := take i (wk_todo k) @ drop (Suc i) (wk_todo k),
                wk_in_flight := wk_in_flight k @ [(q, m, False)]\<rparr>)
      else None)"

text \<open>The \<open>finally\<close> of \<open>_process_message\<close>, and the callback.\<close>

definition finish :: "nat \<Rightarrow> worker \<Rightarrow> worker option" where
  "finish i k =
     (if i < length (wk_in_flight k) then
        (case wk_in_flight k ! i of
           (q, m, False) \<Rightarrow> Some (k\<lparr>wk_semaphore := wk_semaphore k + 1,
                                   wk_in_flight := (wk_in_flight k)[i := (q, m, True)]\<rparr>)
         | (q, m, True) \<Rightarrow> None)
      else None)"

definition discard :: "nat \<Rightarrow> worker \<Rightarrow> worker option" where
  "discard i k =
     (if i < length (wk_in_flight k) then
        (case wk_in_flight k ! i of
           (q, m, True) \<Rightarrow> Some (k\<lparr>wk_in_flight := take i (wk_in_flight k) @ drop (Suc i) (wk_in_flight k)\<rparr>)
         | (q, m, False) \<Rightarrow> None)
      else None)"

text \<open>
  The steps of the event loop of a worker. A loop that has begun a round goes through the rest of its
  queues even when \<open>_running\<close> is cleared meanwhile, so a poll does not depend on it.
\<close>

inductive worker_step :: "worker \<Rightarrow> worker \<Rightarrow> bool" where
  step_start: "worker_step k (run_loops k)"
| step_signal: "worker_step k (signal_shutdown k)"
| step_drain: "worker_step k (drain k)"
| step_stop: "worker_step k (stop k)"
| step_poll: "wk_semaphore k \<noteq> 0 \<Longrightarrow> length ms \<le> nat (min (wk_semaphore k) 5) \<Longrightarrow>
    worker_step k (k\<lparr>wk_todo := wk_todo k @ map (Pair q) ms\<rparr>)"
| step_reclaim: "worker_step k (k\<lparr>wk_todo := wk_todo k @ map (Pair q) (map adopt ms)\<rparr>)"
| step_dispatch: "dispatch i k = Some k' \<Longrightarrow> worker_step k k'"
| step_finish: "finish i k = Some k' \<Longrightarrow> worker_step k k'"
| step_discard: "discard i k = Some k' \<Longrightarrow> worker_step k k'"

inductive_simps worker_step_simps: "worker_step k k'"

end
