(* ===== verification/Worker_Contract.thy ===== *)
theory Worker_Contract
  imports Worker_Loop
begin

text \<open>
  What the worker loop promises, whatever other processes do meanwhile: a message is acknowledged only
  when its task is settled (an effect, a scheduled retry, or a dead letter), retries end, a poll takes no
  more messages than the worker has free slots, and a worker never runs more tasks than its concurrency.
\<close>

section \<open>Lease operations leave the queues alone\<close>

definition same_queues :: "'v keyspace \<Rightarrow> 'v keyspace \<Rightarrow> bool" where
  "same_queues ks ks' \<longleftrightarrow> streams ks' = streams ks \<and> zsets ks' = zsets ks"

lemma same_queues_refl [simp]: "same_queues ks ks"
  by (simp add: same_queues_def)

lemma same_queues_trans [trans]: "same_queues a b \<Longrightarrow> same_queues b c \<Longrightarrow> same_queues a c"
  by (simp add: same_queues_def)

lemma same_queues_strs [simp]:
  "same_queues ks (ks_set k v t ks)" "same_queues ks (set_ctr k n ks)" "same_queues ks (ks_del k ks)"
  "same_queues ks (ks_pexpire k ms ks)"
  by (simp_all add: same_queues_def ks_set_def set_ctr_def ks_del_def ks_pexpire_def split: option.split)

lemma same_queues_group:
  assumes "same_queues ks ks'"
  shows "queue_group ks' q = queue_group ks q" and "stream_at ks' k = stream_at ks k"
  using assms by (simp_all add: same_queues_def queue_group_def group_at_def stream_at_def)

lemma same_queues_ids:
  assumes "same_queues ks ks'"
  shows "pending_ids ks' q = pending_ids ks q" and "queue_wf ks' q \<longleftrightarrow> queue_wf ks q"
  by (simp_all add: pending_ids_def queue_wf_def same_queues_group [OF assms])

context redis_service
begin

lemma incr_same: "same_queues (V s) (V (snd (r_incr R fence_key s)))"
proof (cases "\<exists>n. ctr (V s) fence_key = Some n \<and> - (2 ^ 63) \<le> n \<and> n < 2 ^ 63 - 1")
  case True
  then show ?thesis using incr_ok [OF key_types(1)] by fastforce
next
  case False
  then show ?thesis using incr_error [OF key_types(1), of s] by fastforce
qed

lemma incr_Inr:
  assumes "fst (r_incr R fence_key s) = Inr f"
  shows "ctr (V s) fence_key = Some (f - 1) \<and> - (2 ^ 63) \<le> f - 1 \<and> f - 1 < 2 ^ 63 - 1"
proof (cases "\<exists>n. ctr (V s) fence_key = Some n \<and> - (2 ^ 63) \<le> n \<and> n < 2 ^ 63 - 1")
  case True
  then show ?thesis using incr_ok [OF key_types(1)] assms by fastforce
next
  case False
  then show ?thesis using incr_error [OF key_types(1), of s] assms by fastforce
qed

lemma set_nx_same: "same_queues (V s) (V (snd (r_set_nx_px R (lease_key tid) v ms s)))"
  using set_nx_px_free [OF key_types(2)] set_nx_px_held [OF key_types(2)]
    set_nx_px_error [OF key_types(2)]
  by (cases "ms \<le> 0"; cases "strs (V s) (lease_key tid) = None") (fastforce simp: not_le)+

lemma set_nx_False:
  assumes "fst (r_set_nx_px R (lease_key tid) v ms s) = Inr False"
  shows "V (snd (r_set_nx_px R (lease_key tid) v ms s)) = V s"
  using assms set_nx_px_free [OF key_types(2), of ms s tid v] set_nx_px_held [OF key_types(2), of ms s tid v]
    set_nx_px_error [OF key_types(2), of ms tid v s]
  by (cases "ms \<le> 0"; cases "strs (V s) (lease_key tid) = None") auto

lemma acquire_same: "same_queues (V s) (V (snd (acquire_lease R tid wk ms s)))"
proof -
  obtain a s1 where i: "r_incr R fence_key s = (a, s1)" by fastforce
  have e1: "same_queues (V s) (V s1)" using incr_same [of s] by (simp add: i)
  show ?thesis
  proof (cases a)
    case (Inl x)
    then show ?thesis using e1 by (simp add: acquire_lease_def acquire_lease_lua_def i)
  next
    case (Inr f)
    let ?v = "lease_value wk f"
    obtain b s2 where n: "r_set_nx_px R (lease_key tid) ?v ms s1 = (b, s2)" by fastforce
    have e2: "same_queues (V s1) (V s2)" using set_nx_same [of s1 tid ?v ms] by (simp add: n)
    have c: "ctr (V s) fence_key = Some (f - 1)" "- (2 ^ 63) \<le> f - 1" "f - 1 < 2 ^ 63 - 1"
      using incr_Inr [of s f] by (simp_all add: i Inr)
    show ?thesis
    proof (cases "b = Inr False")
      case True
      then have "V s2 = V s1" using set_nx_False [of tid ?v ms s1] by (simp add: n)
      then have "ctr (V s2) fence_key = Some f"
        using incr_ok [OF key_types(1) c] by (simp add: i ctr_def set_ctr_def)
      then have "V (snd (r_decr R fence_key s2)) = set_ctr fence_key (f - 1) (V s2)"
        using decr_ok [OF key_types(1)] c(2,3) by simp
      then have "same_queues (V s2) (V (snd (r_decr R fence_key s2)))" by simp
      then have "same_queues (V s) (V (snd (r_decr R fence_key s2)))"
        using e1 e2 same_queues_trans by blast
      then show ?thesis
        using True Inr by (auto simp: acquire_lease_def acquire_lease_lua_def i n split: prod.splits sum.splits)
    next
      case False
      then have "V (snd (acquire_lease R tid wk ms s)) = V s2"
        using Inr by (auto simp: acquire_lease_def acquire_lease_lua_def i n split: sum.splits)
      then show ?thesis using e1 e2 same_queues_trans by metis
    qed
  qed
qed

lemma release_same: "same_queues (V s) (V (snd (release_lease R tid wk f s)))"
  by (simp add: release_lease_def release_lease_lua_def del)

lemma extend_same: "same_queues (V s) (V (snd (extend_lease R tid wk f ms s)))"
  by (simp add: extend_lease_def extend_lease_lua_def pexpire)

end

text \<open>
  A condition \<open>G\<close> on the keyspace before and after that other processes keep while this one waits
  (\<open>rely\<close>), and that a whole execution then keeps: acquiring, renewing and releasing a lease leave the queues alone.
\<close>

definition rely :: "('s \<Rightarrow> 'v keyspace) \<Rightarrow> ('v keyspace \<Rightarrow> 'v keyspace \<Rightarrow> bool) \<Rightarrow>
    (('s, 'd) world \<Rightarrow> ('s, 'd) world) \<Rightarrow> bool" where
  "rely V G f \<longleftrightarrow> (\<forall>w. G (V (w_redis w)) (V (w_redis (f w))))"

locale queue_rely = redis_service R V before
  for R :: "('s, 'v) redis" and V :: "'s \<Rightarrow> 'v keyspace" and before :: "'v \<Rightarrow> 'v \<Rightarrow> bool" +
  fixes G :: "'v keyspace \<Rightarrow> 'v keyspace \<Rightarrow> bool"
  assumes G_trans: "G a b \<Longrightarrow> G b c \<Longrightarrow> G a c"
    and G_same: "same_queues a b \<Longrightarrow> G a b"
begin

lemma fold_rely: "list_all (rely V G) fs \<Longrightarrow> G (V (w_redis w)) (V (w_redis (fold (\<lambda>f. f) fs w)))"
proof (induction fs arbitrary: w)
  case (Cons f fs)
  then have "G (V (w_redis w)) (V (w_redis (f w)))" by (simp add: rely_def)
  with Cons.IH [of "f w"] Cons.prems show ?case by (auto intro: G_trans)
qed (simp add: G_same)

lemma heartbeat_rely:
  "list_all (rely V G) ticks \<Longrightarrow> G (V (w_redis w)) (V (w_redis (heartbeat_loop R ex e fence ticks w)))"
proof (induction ticks arbitrary: w)
  case (Cons f ticks)
  obtain b s where x: "extend_lease R (env_task_id e) (ex_worker_id ex) fence (ex_lease_ms ex) (w_redis (f w)) = (b, s)" by fastforce
  let ?w = "(f w)\<lparr>w_redis := s\<rparr>"
  have "G (V (w_redis w)) (V (w_redis (f w)))" using Cons.prems by (simp add: rely_def)
  moreover have "G (V (w_redis (f w))) (V s)"
    using extend_same [of "w_redis (f w)" "env_task_id e" "ex_worker_id ex" fence "ex_lease_ms ex"] by (auto simp: x intro: G_same)
  ultimately have one: "G (V (w_redis w)) (V (w_redis ?w))" by (auto intro: G_trans)
  show ?case using G_trans [OF one Cons.IH [of ?w]] G_trans [OF one fold_rely [of ticks ?w]] Cons.prems by (simp add: x Let_def)
qed (simp add: G_same)

lemma execute_rely:
  assumes itf: "\<And>pt. rely V G (itf pt)" and ticks: "list_all (rely V G) ticks"
  shows "G (V (w_redis w)) (V (w_redis (snd (execute R P ex py reg clk itf ticks e w))))"
proof -
  have i: "G k (V (w_redis (itf pt w)))" if "G k (V (w_redis w))" for k pt w
    using that itf [of pt] unfolding rely_def by (blast intro: G_trans)
  obtain a w1 where acq: "exec_acquire R ex e (itf AtAcquire w) = (a, w1)" by fastforce
  have "same_queues (V (w_redis (itf AtAcquire w))) (V (w_redis w1))"
    using acquire_same acq by (auto simp: exec_acquire_def split: prod.splits) (metis snd_conv)
  with i [OF G_same] have g1: "G (V (w_redis w)) (V (w_redis w1))" by (meson G_same G_trans same_queues_refl)
  have rel: "G k (V (w_redis (exec_release R ex e f (itf AtRelease w))))" if "G k (V (w_redis w))" for k f w
    using G_trans [OF i [OF that, of AtRelease] G_same [OF release_same]] by (simp add: exec_release_def)
  show ?thesis
  proof (cases "\<exists>f. a = Inr f \<and> f \<noteq> 0")
    case False
    then show ?thesis using g1 by (auto simp: execute_def acq split: sum.splits)
  next
    case True
    then obtain f where a: "a = Inr f" "f \<noteq> 0" by blast
    obtain m w2 where rec: "exec_record P (clk AtRecord) ex e f (itf AtRecord w1) = (m, w2)" by fastforce
    have g2: "G (V (w_redis w)) (V (w_redis w2))"
      using i [OF g1, of AtRecord] exec_redis_same(1) [of P "clk AtRecord" ex e f "itf AtRecord w1"] by (simp add: rec)
    let ?w3 = "itf AtCommit (heartbeat_loop R ex e f ticks w2)"
    obtain r w4 where com: "exec_commit P (clk AtCommit) e f (run_handler ex py reg e) ?w3 = (r, w4)" by fastforce
    have "G (V (w_redis w)) (V (w_redis w4))"
      using i [OF G_trans [OF g2 heartbeat_rely [OF ticks]], of AtCommit ex e f]
        exec_redis_same(2) [of P "clk AtCommit" e f "run_handler ex py reg e" ?w3] by (simp add: com)
    then show ?thesis using rel [OF g2] rel by (cases m) (simp_all add: execute_def acq a rec com Let_def)
  qed
qed

end

section \<open>Acknowledging\<close>

lemma zinsert_set: "set (zinsert before m sc zs) = insert (m, sc) (set zs)"
  by (induction zs) (auto split: if_splits)

lemma zadd_mem: "(m, sc) \<in> set (zsets (ks_zadd before k m sc ks) k)"
  by (simp add: ks_zadd_def zinsert_mem)

lemma zsets_xack [simp]: "zsets (ks_xack k g ids ks) = zsets ks"
  by (simp add: ks_xack_def put_group_def put_stream_def Let_def split: option.split)

lemma dlq_xack [simp]: "stream_at (ks_xack (q_key q) g ids ks) (dlq_key q') = stream_at ks (dlq_key q')"
  by (simp add: ks_xack_def put_group_def Let_def split: option.split)

lemma pending_zadd [simp]: "pending_ids (ks_zadd before k m sc ks) q = pending_ids ks q"
  by (simp add: pending_ids_def queue_group_def group_at_def ks_zadd_def)

lemma pending_dlq [simp]: "pending_ids (ks_xadd i (dlq_key q') f ks) q = pending_ids ks q"
  by (simp add: pending_ids_def queue_group_def ks_xadd_def Let_def)

lemma entries_xadd: "st_entries (stream_at (ks_xadd i k f ks) k) = st_entries (stream_at ks k) @ [(i, f)]"
  by (simp add: ks_xadd_def Let_def)

lemma spec_state_at:
  assumes "\<And>i t. tasks b i = Some t \<Longrightarrow> tr_id t = i" and "tasks (spec_state now i st a b) i = Some t"
  shows "tr_state t = st"
  using assms by (auto simp: spec_state_def upd_map_def Let_def split: option.splits)

text \<open>A task is settled: an effect, a scheduled retry, or a dead letter and a row marked dead.\<close>

definition retry_scheduled :: "'v codec \<Rightarrow> 'v keyspace \<Rightarrow> string \<Rightarrow> task_envelope \<Rightarrow> bool" where
  "retry_scheduled C ks q e \<longleftrightarrow>
     (\<exists>run_at. (model_dump_json C (e\<lparr>env_attempt := env_attempt e + 1\<rparr>), run_at) \<in> set (zsets ks (sched_key q)))"

definition dead_lettered :: "'v codec \<Rightarrow> 'v keyspace \<Rightarrow> db \<Rightarrow> string \<Rightarrow> task_envelope \<Rightarrow> bool" where
  "dead_lettered C ks b q e \<longleftrightarrow>
     (\<exists>i f. (i, f) \<in> set (st_entries (stream_at ks (dlq_key q))) \<and> f_data f = model_dump_json C e) \<and>
     (\<forall>t. tasks b (env_task_id e) = Some t \<longrightarrow> tr_state t = DEAD)"

text \<open>A message stays pending and the dead letters of its queue only grow; the schedule of a queue only shrinks.\<close>

definition message_kept :: "string \<Rightarrow> nat \<Rightarrow> 'v keyspace \<Rightarrow> 'v keyspace \<Rightarrow> bool" where
  "message_kept q i ks ks' \<longleftrightarrow> (i \<in> set (pending_ids ks q) \<longrightarrow> i \<in> set (pending_ids ks' q)) \<and>
     set (st_entries (stream_at ks (dlq_key q))) \<subseteq> set (st_entries (stream_at ks' (dlq_key q)))"

definition schedule_shrinks :: "string \<Rightarrow> 'v keyspace \<Rightarrow> 'v keyspace \<Rightarrow> bool" where
  "schedule_shrinks q ks ks' \<longleftrightarrow> set (zsets ks' (sched_key q)) \<subseteq> set (zsets ks (sched_key q))"

lemma rely_same:
  assumes "redis_service R V before"
  shows "queue_rely R V before same_queues"
  by (intro queue_rely.intro queue_rely_axioms.intro assms) (auto intro: same_queues_trans)

lemma rely_message_kept:
  assumes "redis_service R V before"
  shows "queue_rely R V before (message_kept q i)"
  by (intro queue_rely.intro queue_rely_axioms.intro assms) (auto simp: message_kept_def same_queues_ids same_queues_group)

lemma rely_schedule_shrinks:
  assumes "redis_service R V before"
  shows "queue_rely R V before (schedule_shrinks q)"
  by (intro queue_rely.intro queue_rely_axioms.intro assms) (auto simp: schedule_shrinks_def same_queues_def)

interpretation ref_kept: queue_rely "ref_redis :: ('v keyspace, 'v) redis" id "\<lambda>_ _. False" "message_kept q i" for q i
  by (rule rely_message_kept) simp

interpretation ref_shrinks: queue_rely "ref_redis :: ('v keyspace, 'v) redis" id "\<lambda>_ _. False" "schedule_shrinks q" for q
  by (rule rely_schedule_shrinks) simp

lemma settle_failure_state:
  assumes R: "redis_service R V before" and settle: "settle_failure R P C clk itf u q e er w = (r, w')"
  obtains (same) x where "r = Inl x" and "w' = w"
  | (retry) t where "r = Inr ()" and "w_db w' = w_db w" and "env_attempt e + 1 < policy_max_attempts (env_retry_policy e)"
      and "V (w_redis w') = ks_zadd before (sched_key q) (model_dump_json C (e\<lparr>env_attempt := env_attempt e + 1\<rparr>)) t (V (w_redis w))"
  | (dead) i rs w1 where
      "V (w_redis w1) = ks_xadd i (dlq_key q) \<lparr>f_data = model_dump_json C e, f_reason = Some rs\<rparr> (V (w_redis w))"
      and "w_redis w' = w_redis (itf AtDead w1)"
      and "run_tx P (update_task_state P (clk AtDead) (env_task_id e) DEAD None) (w_db (itf AtDead w1)) = (r, w_db w')"
proof (cases "is_retryable (env_retry_policy e) (error_type_of er) (env_attempt e + 1)")
  case True
  then show ?thesis
  proof (cases "compute_delay (env_retry_policy e) (env_attempt e + 1) u")
    case (Inl x)
    with True settle show ?thesis by (intro same) (auto simp: settle_failure_def Let_def)
  next
    case (Inr delay)
    with True settle is_retryable_less_max [OF True] show ?thesis
      by (intro retry) (auto simp: settle_failure_def Let_def schedule_def redis_service.zadd [OF R])
  qed
next
  case False
  let ?rs = "case er of None \<Rightarrow> ''max_attempts_exhausted'' | Some m \<Rightarrow> if m \<noteq> [] then m else ''max_attempts_exhausted''"
  let ?w1 = "w\<lparr>w_redis := dead_letter R C q e ?rs (w_redis w)\<rparr>"
  obtain rt d where t: "run_tx P (update_task_state P (clk AtDead) (env_task_id e) DEAD None) (w_db (itf AtDead ?w1)) = (rt, d)" by fastforce
  have "(r, w') = (rt, (itf AtDead ?w1)\<lparr>w_db := d\<rparr>)"
    using False settle by (simp add: settle_failure_def Let_def t)
  then show ?thesis using t by (intro dead [of ?w1]) (auto simp: dead_letter_def redis_service.xadd [OF R])
qed

lemma settle_failure_settles:
  assumes R: "redis_service R V before" and P: "postgres_service P D"
    and settle: "settle_failure R P C clk itf u q e er w = (r, w')"
    and itf: "rely V (message_kept q i) (itf AtDead)"
  shows "message_kept q i (V (w_redis w)) (V (w_redis w'))"
    and "r = Inr () \<Longrightarrow> retry_scheduled C (V (w_redis w')) q e \<or>
      dead_lettered C (V (w_redis w')) (D (w_db w')) q e"
proof -
  have "message_kept q i (V (w_redis w)) (V (w_redis w')) \<and> (r = Inr () \<longrightarrow> retry_scheduled C (V (w_redis w')) q e \<or>
      dead_lettered C (V (w_redis w')) (D (w_db w')) q e)"
    using R settle
  proof (cases rule: settle_failure_state)
    case (same x)
    then show ?thesis by (simp add: message_kept_def)
  next
    case (retry t)
    then show ?thesis
      by (auto simp: message_kept_def retry_scheduled_def queue_same_streams [OF streams_zset(1)] intro: zadd_mem)
  next
    case (dead j rs w1)
    let ?f = "\<lparr>f_data = model_dump_json C e, f_reason = Some rs\<rparr>"
    have kept: "message_kept q i (V (w_redis w1)) (V (w_redis w'))" using itf dead(2) by (simp add: rely_def)
    have first: "message_kept q i (V (w_redis w)) (V (w_redis w1))" by (auto simp: dead(1) message_kept_def entries_xadd)
    have letter: "(j, ?f) \<in> set (st_entries (stream_at (V (w_redis w')) (dlq_key q)))"
      using kept by (auto simp: message_kept_def dead(1) entries_xadd)
    have row: "tr_state t = DEAD" if r: "r = Inr ()" and t: "tasks (D (w_db w')) (env_task_id e) = Some t" for t
    proof -
      let ?t = "update_task_state P (clk AtDead) (env_task_id e) DEAD None"
      obtain d' where "?t (w_db (itf AtDead w1)) = Inr ((), d')" "D (w_db w') = D d'"
        using postgres_service.run_tx_Inr [OF P, of ?t "w_db (itf AtDead w1)" "()"] dead(3) r by auto
      then show ?thesis
        using postgres_service.update_task_state_spec [OF P, of "clk AtDead" "env_task_id e" DEAD None "w_db (itf AtDead w1)" _ d']
          spec_state_at [OF postgres_service.keyed(1) [OF P]] t by simp
    qed
    have "dead_lettered C (V (w_redis w')) (D (w_db w')) q e" if "r = Inr ()"
      unfolding dead_lettered_def using letter row [OF that] by (intro conjI exI [of _ j] exI [of _ ?f]) auto
    moreover have "message_kept q i (V (w_redis w)) (V (w_redis w'))" using first kept by (auto simp: message_kept_def)
    ultimately show ?thesis by simp
  qed
  then show "message_kept q i (V (w_redis w)) (V (w_redis w'))"
    and "r = Inr () \<Longrightarrow> retry_scheduled C (V (w_redis w')) q e \<or> dead_lettered C (V (w_redis w')) (D (w_db w')) q e" by simp_all
qed

lemma process_message_acks:
  assumes R: "redis_service R V before" and P: "postgres_service P D"
    and db: "\<And>pt. itf_ok D (itf pt)" "list_all (itf_ok D) ticks"
    and kept: "\<And>pt. rely V (message_kept q (broker_msg_id msg)) (itf pt)" "list_all (rely V (message_kept q (broker_msg_id msg))) ticks"
    and w': "w' = process_message R P C ex py reg clk itf ticks u q msg w"
    and before: "broker_msg_id msg \<in> set (pending_ids (V (w_redis w)) q)"
    and after: "broker_msg_id msg \<notin> set (pending_ids (V (w_redis w')) q)"
  shows "\<exists>w1. w' = (itf AtAck w1)\<lparr>w_redis := ack R q q [broker_msg_id msg] (w_redis (itf AtAck w1))\<rparr> \<and>
    ((\<exists>row. effects (D (w_db w1)) (effect_key (envelope msg)) = Some row) \<or>
     retry_scheduled C (V (w_redis w1)) q (envelope msg) \<or>
     dead_lettered C (V (w_redis w1)) (D (w_db w1)) q (envelope msg))"
proof -
  let ?e = "envelope msg" and ?i = "broker_msg_id msg"
  note Rk = rely_message_kept [OF R, of q ?i]
  obtain x w1 where ex: "execute R P ex py reg clk itf ticks ?e w = (x, w1)" by fastforce
  have pend: "?i \<in> set (pending_ids (V (w_redis w1)) q)"
    using queue_rely.execute_rely [where itf = itf and ticks = ticks and w = w and P = P and ex = ex and py = py and reg = reg
        and clk = clk and e = ?e, OF Rk kept] before by (simp add: ex message_kept_def)
  then obtain b er where x: "x = Inr (b, er)"
    using w' after by (cases x) (auto simp: process_message_def ex)
  show ?thesis
  proof (cases b)
    case True
    have "\<exists>row. effects (D (w_db w1)) (effect_key ?e) = Some row"
      using execute_effect [where itf = itf and ticks = ticks and w = w and R = R and ex = ex and py = py and reg = reg
        and clk = clk and e = ?e, OF P db] ex x True by simp
    then show ?thesis using w' True by (intro exI [of _ w1]) (simp add: process_message_def ex x)
  next
    case False
    obtain r w2 where st: "settle_failure R P C clk itf u q ?e er (itf AtSettle w1) = (r, w2)" by fastforce
    note settled = settle_failure_settles [OF R P st kept(1)]
    have "?i \<in> set (pending_ids (V (w_redis w2)) q)"
      using settled(1) kept(1) [of AtSettle] pend by (simp add: rely_def message_kept_def)
    then have r: "r = Inr ()" using w' after False by (cases r) (auto simp: process_message_def ex x st)
    then show ?thesis
      using w' False settled(2) [OF r] by (intro exI [of _ w2]) (simp add: process_message_def ex x st)
  qed
qed

lemma process_message_schedules:
  assumes R: "redis_service R V before"
    and itf: "\<And>pt. rely V (schedule_shrinks q) (itf pt)" and ticks: "list_all (rely V (schedule_shrinks q)) ticks"
    and w': "w' = process_message R P C ex py reg clk itf ticks u q msg w"
    and new: "(m, t) \<in> set (zsets (V (w_redis w')) (sched_key q))" "(m, t) \<notin> set (zsets (V (w_redis w)) (sched_key q))"
  shows "m = model_dump_json C ((envelope msg)\<lparr>env_attempt := env_attempt (envelope msg) + 1\<rparr>) \<and>
    env_attempt (envelope msg) + 1 < policy_max_attempts (env_retry_policy (envelope msg))"
proof -
  let ?e = "envelope msg" and ?z = "\<lambda>w. set (zsets (V (w_redis w)) (sched_key q))"
  have i: "?z (itf pt w) \<subseteq> ?z w" for pt w using itf [of pt] by (simp add: rely_def schedule_shrinks_def)
  have a: "?z (w\<lparr>w_redis := ack R q q [broker_msg_id msg] (w_redis w)\<rparr>) = ?z w" for w
    by (simp add: ack_def redis_service.xack [OF R])
  obtain x w1 where ex: "execute R P ex py reg clk itf ticks ?e w = (x, w1)" by fastforce
  have e: "?z w1 \<subseteq> ?z w"
    using queue_rely.execute_rely [where itf = itf and ticks = ticks and w = w and P = P and ex = ex and py = py and reg = reg
        and clk = clk and e = ?e, OF rely_schedule_shrinks [OF R] itf ticks]
    by (simp add: ex schedule_shrinks_def)
  obtain er r w2 where st: "settle_failure R P C clk itf u q ?e er (itf AtSettle w1) = (r, w2)" and w2: "(m, t) \<in> ?z w2"
  proof (cases "\<exists>er. x = Inr (False, er)")
    case False
    then have "?z w' \<subseteq> ?z w1"
      using w' i [of AtAck w1] a by (auto simp: process_message_def ex split: sum.splits prod.splits)
    with new e show ?thesis by blast
  next
    case True
    then obtain er r w2 where x: "x = Inr (False, er)" "settle_failure R P C clk itf u q ?e er (itf AtSettle w1) = (r, w2)" by fastforce
    then have "?z w' \<subseteq> ?z w2" using w' i [of AtAck w2] a by (cases r) (auto simp: process_message_def ex)
    with x(2) new(1) show ?thesis using that by blast
  qed
  have "(m, t) \<notin> ?z (itf AtSettle w1)" using i e new(2) by blast
  with R st show ?thesis
  proof (cases rule: settle_failure_state)
    case (retry t')
    with w2 \<open>(m, t) \<notin> ?z (itf AtSettle w1)\<close> show ?thesis by (auto simp: ks_zadd_def zinsert_set)
  next
    case (dead j rs v)
    then have "?z w2 \<subseteq> ?z (itf AtSettle w1)" using i [of AtDead v] by simp
    with w2 \<open>(m, t) \<notin> ?z (itf AtSettle w1)\<close> show ?thesis by blast
  qed (use w2 in simp)
qed

section \<open>Polling\<close>

lemma poll_queue_takes:
  assumes R: "redis_service R V before" and C: "codec_ok C" and wf: "queue_wf (V (w_redis w)) q"
    and wire: "wire_ok C (st_entries (stream_at (V (w_redis w)) (q_key q)))" and sem: "0 \<le> sem"
  shows "\<exists>ms s. poll_queue R C cfg sem q w = (ms, w\<lparr>w_redis := s\<rparr>) \<and>
    map broker_msg_id ms = take (nat (min sem 5)) (ready_ids (V (w_redis w)) q) \<and>
    (\<forall>m \<in> set ms. \<exists>f. (broker_msg_id m, f) \<in> set (st_entries (stream_at (V (w_redis w)) (q_key q))) \<and>
       f_data f = model_dump_json C (envelope m)) \<and>
    ready_ids (V s) q = drop (nat (min sem 5)) (ready_ids (V (w_redis w)) q) \<and>
    pending_ids (V s) q = pending_ids (V (w_redis w)) q @ take (nat (min sem 5)) (ready_ids (V (w_redis w)) q)"
proof (cases "sem = 0")
  case True
  then show ?thesis by (intro exI [of _ "[]"] exI [of _ "w_redis w"]) (simp add: poll_queue_def)
next
  case False
  let ?n = "nat (min sem 5)" and ?c = "cfg_worker_id cfg" and ?es = "st_entries (stream_at (V (w_redis w)) (q_key q))"
  let ?r = "ks_xreadgroup q ?c (q_key q) ?n (V (w_redis w))"
  have rq: "redis_queue R V before C" using R C by (simp add: redis_queue_def redis_queue_axioms_def)
  have sub: "set (fst ?r) \<subseteq> set ?es"
    by (auto simp: ks_xreadgroup_def Let_def undelivered_def split: option.splits dest!: in_set_takeD)
  then have "wire_ok C (fst ?r)" using wire by (auto simp: wire_ok_def)
  from parse_messages_wire [OF C this, of 0] obtain ms where ms: "parse_messages C 0 (fst ?r) = Inr ms"
      "map broker_msg_id ms = map fst (fst ?r)" "list_all2 (\<lambda>l (i, f). f_data f = model_dump_json C (envelope l)) ms (fst ?r)" by blast
  obtain s where s: "lease R C q q ?c ?n (w_redis w) = (Inr ms, s)"
    using redis_service.xreadgroup_ok [OF R key_types(5) redis_queue.group_of_wf [OF rq wf], of ?c ?n] ms(1)
    by (cases "r_xreadgroup R q ?c (q_key q) ?n (w_redis w)"; cases "fst ?r = []") (auto simp: lease_def)
  have v: "V s = snd ?r" using redis_queue.lease_state [OF rq wf, of ?c ?n] by (simp add: s)
  have "\<exists>f. (broker_msg_id m, f) \<in> set ?es \<and> f_data f = model_dump_json C (envelope m)" if "m \<in> set ms" for m
    using parsed_in_entries [OF ms(3,2) sub that] .
  then show ?thesis
    using False s ms(2) queue_wf_xreadgroup(2-4) [OF wf, of ?c ?n]
    by (intro exI [of _ ms] exI [of _ s]) (simp add: poll_queue_def v)
qed

section \<open>The event loop\<close>

definition running_tasks :: "worker \<Rightarrow> nat" where
  "running_tasks k = length (filter (\<lambda>(q, m, finished). \<not> finished) (wk_in_flight k))"

definition worker_inv :: "worker \<Rightarrow> bool" where
  "worker_inv k \<longleftrightarrow> 0 \<le> wk_semaphore k \<and> wk_semaphore k + int (running_tasks k) = wk_concurrency k"

lemma filter_update_length:
  assumes "i < length xs" and "p (xs ! i)" and "\<not> p y"
  shows "length (filter p xs) = Suc (length (filter p (xs[i := y])))"
  using assms
proof (induction xs arbitrary: i)
  case (Cons x xs)
  then show ?case by (cases i) auto
qed simp

lemma filter_remove_length:
  assumes "i < length xs" and "\<not> p (xs ! i)"
  shows "filter p (take i xs @ drop (Suc i) xs) = filter p xs"
proof -
  have "xs = take i xs @ xs ! i # drop (Suc i) xs" using assms(1) by (rule id_take_nth_drop)
  then have "filter p xs = filter p (take i xs) @ filter p (xs ! i # drop (Suc i) xs)"
    by (metis filter_append)
  then show ?thesis using assms(2) by simp
qed

lemma worker_step_inv:
  assumes "worker_step k k'" and "worker_inv k"
  shows "worker_inv k' \<and> wk_concurrency k' = wk_concurrency k"
  using assms
proof (induction rule: worker_step.induct)
  case (step_finish i k k')
  then obtain q m where i: "i < length (wk_in_flight k)" "wk_in_flight k ! i = (q, m, False)"
      and k': "k' = k\<lparr>wk_semaphore := wk_semaphore k + 1, wk_in_flight := (wk_in_flight k)[i := (q, m, True)]\<rparr>"
    by (auto simp: finish_def split: if_splits bool.splits prod.splits)
  from filter_update_length [OF i(1), of "\<lambda>(q, m, fin). \<not> fin" "(q, m, True)"] i(2) step_finish(2)
  show ?case by (simp add: k' worker_inv_def running_tasks_def)
next
  case (step_discard i k k')
  then obtain q m where i: "i < length (wk_in_flight k)" "wk_in_flight k ! i = (q, m, True)"
      and k': "k' = k\<lparr>wk_in_flight := take i (wk_in_flight k) @ drop (Suc i) (wk_in_flight k)\<rparr>"
    by (auto simp: discard_def split: if_splits bool.splits prod.splits)
  from filter_remove_length [OF i(1), of "\<lambda>(q, m, fin). \<not> fin"] i(2) step_discard(2)
  show ?case by (simp add: k' worker_inv_def running_tasks_def del: filter_append)
qed (auto simp: worker_inv_def running_tasks_def run_loops_def signal_shutdown_def drain_def stop_def dispatch_def
    split: if_splits prod.splits)

lemma worker_reach_inv:
  assumes "worker_step\<^sup>*\<^sup>* k k'" and "worker_inv k"
  shows "worker_inv k' \<and> wk_concurrency k' = wk_concurrency k"
  using assms by (induction rule: rtranclp_induct) (auto dest: worker_step_inv)

section \<open>Retries\<close>

text \<open>
  \<open>retried e e'\<close>: processing some message with the envelope \<open>e\<close>, on any worker and with any handlers, put
  \<open>e'\<close> into the schedule of the queue, while other processes at most took members out of it.
\<close>

definition retried :: "('s, 'v) redis \<Rightarrow> ('s \<Rightarrow> 'v keyspace) \<Rightarrow> 'd postgres \<Rightarrow> 'v codec \<Rightarrow> string \<Rightarrow>
    task_envelope \<Rightarrow> task_envelope \<Rightarrow> bool" where
  "retried R V P C q e e' \<longleftrightarrow> (\<exists>ex py reg clk itf ticks u msg w w' t. envelope msg = e \<and>
     (\<forall>pt. rely V (schedule_shrinks q) (itf pt)) \<and> list_all (rely V (schedule_shrinks q)) ticks \<and>
     w' = process_message R P C ex py reg clk itf ticks u q msg w \<and>
     (model_dump_json C e', t) \<in> set (zsets (V (w_redis w')) (sched_key q)) \<and>
     (model_dump_json C e', t) \<notin> set (zsets (V (w_redis w)) (sched_key q)))"

lemma retriedD:
  assumes "redis_service R V before" and "codec_ok C" and "retried R V P C q e e'"
  shows "e' = e\<lparr>env_attempt := env_attempt e + 1\<rparr> \<and> env_attempt e + 1 < policy_max_attempts (env_retry_policy e)"
proof -
  from assms(3) have "model_dump_json C e' = model_dump_json C (e\<lparr>env_attempt := env_attempt e + 1\<rparr>) \<and>
      env_attempt e + 1 < policy_max_attempts (env_retry_policy e)"
    unfolding retried_def using process_message_schedules [OF assms(1)] by blast
  then show ?thesis using assms(2) unfolding codec_ok_def by (metis sum.inject(2))
qed

lemma retries_wf:
  assumes "redis_service R V before" and "codec_ok C"
  shows "wf {(e', e). retried R V P C q e e'}"
  by (rule wf_subset [OF wf_measure [of "\<lambda>e. nat (policy_max_attempts (env_retry_policy e) - env_attempt e)"]])
    (auto dest: retriedD [OF assms])

lemma retry_chain_attempts:
  assumes "redis_service R V before" and "codec_ok C"
    and "\<forall>i. Suc i < length es \<longrightarrow> retried R V P C q (es ! i) (es ! Suc i)"
  shows "i < length es \<Longrightarrow> es ! i = (es ! 0)\<lparr>env_attempt := env_attempt (es ! 0) + int i\<rparr> \<and>
    (0 < i \<longrightarrow> env_attempt (es ! 0) + int i < policy_max_attempts (env_retry_policy (es ! 0)))"
proof (induction i)
  case (Suc i)
  then have "retried R V P C q (es ! i) (es ! Suc i)" using assms(3) by blast
  from retriedD [OF assms(1,2) this] Suc.IH Suc.prems show ?case by (simp add: algebra_simps)
qed simp

lemma error_type_traceback:
  "error_type_of (Some (format_exc ty msg frames)) = ''Traceback (most recent call last)''"
  by (simp add: error_type_of_def format_exc_def hd_split_on)

lemma close_attempt_other:
  assumes "postgres_service P D" and "j \<noteq> n"
  shows "attempts (D (snd (run_tx P (close_attempt P now i n oc et er) d))) (i, j) = attempts (D d) (i, j)"
proof -
  let ?G = "\<lambda>b b'. attempts b' (i, j) = attempts b (i, j)"
  let ?p = "\<lambda>r. ar_task_id r = i \<and> ar_attempt_no r = n"
  let ?f = "\<lambda>r. r\<lparr>ar_finished_at := Some now, ar_outcome := Some oc, ar_error_type := et, ar_error_repr := er\<rparr>"
  have hist: "history ?G" by unfold_locales auto
  have "?G (D d) (D d')" if run: "upd_attempts P ?p ?f d = Inr (m, d')" for d m d'
  proof -
    have "D d' = (D d)\<lparr>attempts := upd_map ?p ?f (attempts (D d))\<rparr>"
      using postgres_service.upd_attempts [OF assms(1) run] by (simp add: attempt_key_def)
    then show ?thesis
      using postgres_service.keyed(2) [OF assms(1), of d "(i, j)"] assms(2)
      by (cases "attempts (D d) (i, j)") (auto simp: upd_map_def attempt_key_def)
  qed
  then have "tx_keeps D ?G (close_attempt P now i n oc et er)"
    by (auto simp: tx_keeps_def close_attempt_def tx_defs split: sum.splits)
  from postgres_service.run_tx_keeps [OF assms(1) hist this] show ?thesis .
qed

section \<open>Properties\<close>

text \<open>
  C13: A message is acknowledged only when its task is settled. Let other processes do anything while
  \<open>process_message\<close> waits, between any two of its steps and between the heartbeats, short of acknowledging this message, removing dead
  letters or undoing the history of the database. If the message was pending before and is not after, then the last
  thing \<open>process_message\<close> did was to acknowledge it, and when it came to that (in \<open>w1\<close>) the task's effect was committed, or its
  envelope with the next attempt number was in the queue's schedule, or it was in the dead-letter
  stream and its row, if it has one, was marked dead; the effect and the dead letter are still there at the end. In every other case
  (Redis or Postgres raised, the backoff overflowed) the message stays pending, to be reclaimed.
\<close>

theorem acked_only_when_settled:
  assumes "redis_service R V before" and "postgres_service P D"
    and "\<And>pt. itf_ok D (itf pt)" and "list_all (itf_ok D) ticks"
    and "\<And>pt. rely V (message_kept q (broker_msg_id msg)) (itf pt)" and "list_all (rely V (message_kept q (broker_msg_id msg))) ticks"
    and "w' = process_message R P C ex py reg clk itf ticks u q msg w"
    and "broker_msg_id msg \<in> set (pending_ids (V (w_redis w)) q)"
    and "broker_msg_id msg \<notin> set (pending_ids (V (w_redis w')) q)"
  shows "\<exists>w1. w' = (itf AtAck w1)\<lparr>w_redis := ack R q q [broker_msg_id msg] (w_redis (itf AtAck w1))\<rparr> \<and>
    ((\<exists>row. effects (D (w_db w1)) (effect_key (envelope msg)) = Some row \<and>
        effects (D (w_db w')) (effect_key (envelope msg)) = Some row) \<or>
     retry_scheduled C (V (w_redis w1)) q (envelope msg) \<or>
     dead_lettered C (V (w_redis w1)) (D (w_db w1)) q (envelope msg) \<and>
       set (st_entries (stream_at (V (w_redis w1)) (dlq_key q))) \<subseteq> set (st_entries (stream_at (V (w_redis w')) (dlq_key q))))"
proof -
  from process_message_acks [OF assms] obtain w1 where
    w1: "w' = (itf AtAck w1)\<lparr>w_redis := ack R q q [broker_msg_id msg] (w_redis (itf AtAck w1))\<rparr>"
      "(\<exists>row. effects (D (w_db w1)) (effect_key (envelope msg)) = Some row) \<or>
       retry_scheduled C (V (w_redis w1)) q (envelope msg) \<or> dead_lettered C (V (w_redis w1)) (D (w_db w1)) q (envelope msg)"
    by blast
  have "effects (D (w_db w')) k = Some row" if "effects (D (w_db w1)) k = Some row" for k row
    using itf_okD [OF assms(3), of w1 AtAck] that by (simp add: w1(1) evolves_def map_le_def) (metis domI)
  moreover have "set (st_entries (stream_at (V (w_redis w1)) (dlq_key q))) \<subseteq> set (st_entries (stream_at (V (w_redis w')) (dlq_key q)))"
    using assms(5) [of AtAck] by (simp add: w1(1) rely_def message_kept_def ack_def redis_service.xack [OF assms(1)])
  ultimately show ?thesis using w1 by blast
qed

text \<open>A message whose task has no row: its attempt cannot be recorded, and a retry is scheduled.\<close>

definition demo_msg :: leased where
  "demo_msg = \<lparr>envelope = demo_envelope, broker_msg_id = 1, idle_ms = 0\<rparr>"

definition demo_before :: "(task_envelope keyspace, ref_db) world" where
  "demo_before = \<lparr>w_redis = demo_queue, w_db = empty_ref_db\<rparr>"

definition demo_after :: "(task_envelope keyspace, ref_db) world" where
  "demo_after = process_message ref_redis ref_postgres ref_codec demo_ex demo_py demo_reg (\<lambda>_. 1)
     (\<lambda>_ w. w) [] 0 ''default'' demo_msg demo_before"

lemma demo_execute:
  "\<exists>w1. execute ref_redis ref_postgres demo_ex demo_py demo_reg (\<lambda>_. 1) (\<lambda>_ w. w) [] demo_envelope demo_before
      = (Inr (False, Some ''StoreError: attempts''), w1)"
proof -
  have "ctr (id demo_queue) fence_key = Some 0" and "strs (id demo_queue) (lease_key ''t'') = None"
    by (simp_all add: ctr_def demo_queue_strs)
  from redis_service.acquire_free [OF ref_redis_service this(1) _ _ _ this(2), of 30000 "''w1''"]
  obtain s where "exec_acquire ref_redis demo_ex demo_envelope demo_before = (Inr 1, demo_before\<lparr>w_redis := s\<rparr>)"
    by (auto simp: exec_acquire_def demo_ex_def demo_envelope_def new_envelope_def demo_before_def)
  then show ?thesis
    by (simp add: execute_def exec_record_def record_tx_def eval_db demo_before_def empty_ref_db_def
        demo_envelope_def new_envelope_def attempt_no_def)
qed

lemma demo_after_redis:
  "\<exists>k. same_queues demo_queue k \<and> w_redis demo_after = ks_xack (q_key ''default'') ''default'' [1]
     (ks_zadd (\<lambda>_ _. False) (sched_key ''default'') (demo_envelope\<lparr>env_attempt := 1\<rparr>) 1 k)"
proof -
  obtain w1 where w1: "execute ref_redis ref_postgres demo_ex demo_py demo_reg (\<lambda>_. 1) (\<lambda>_ w. w) []
      demo_envelope demo_before = (Inr (False, Some ''StoreError: attempts''), w1)"
    using demo_execute by blast
  have "same_queues (w_redis demo_before) (w_redis w1)"
    using queue_rely.execute_rely [OF rely_same [OF ref_redis_service], where itf = "\<lambda>_ w. w" and ticks = "[]" and w = demo_before
        and P = ref_postgres and ex = demo_ex and py = demo_py and reg = demo_reg and clk = "\<lambda>_. 1" and e = demo_envelope] by (simp add: w1 rely_def)
  then have "same_queues demo_queue (w_redis w1)" by (simp add: demo_before_def)
  moreover have "is_retryable (env_retry_policy demo_envelope) ''StoreError'' (env_attempt demo_envelope + 1)"
      "compute_delay (env_retry_policy demo_envelope) (env_attempt demo_envelope + 1) 0 = Inr 0" "env_attempt demo_envelope = 0"
    by (simp_all add: demo_envelope_def new_envelope_def is_retryable_def compute_delay_def default_retry_policy_def)
  ultimately show ?thesis
    by (intro exI [of _ "w_redis w1"]) (simp add: demo_after_def process_message_def demo_msg_def w1 settle_failure_def Let_def
        error_type_of_def schedule_def ack_def ref_redis_run ref_codec_def)
qed

lemma demo_after_pending: "pending_ids (w_redis demo_after) ''default'' = []"
proof -
  obtain k where k: "same_queues demo_queue k" "w_redis demo_after = ks_xack (q_key ''default'') ''default'' [1]
      (ks_zadd (\<lambda>_ _. False) (sched_key ''default'') (demo_envelope\<lparr>env_attempt := 1\<rparr>) 1 k)"
    using demo_after_redis by blast
  note z = queue_same_streams [where ks = k, OF streams_zset(1)]
  show ?thesis
    using queue_wf_xack(3) [of "ks_zadd (\<lambda>_ _. False) (sched_key ''default'') (demo_envelope\<lparr>env_attempt := 1\<rparr>) 1 k" "''default''" "[1]"]
      same_queues_ids [OF k(1)] demo_queue_wf demo_queue_pending by (simp add: k(2) z)
qed

theorem acked_only_when_settled_witness:
  "\<exists>w1. demo_after = w1\<lparr>w_redis := ack ref_redis ''default'' ''default'' [1] (w_redis w1)\<rparr> \<and>
    ((\<exists>row. effects (ref_view (w_db demo_after)) (effect_key demo_envelope) = Some row) \<or>
     retry_scheduled ref_codec (w_redis w1) ''default'' demo_envelope \<or>
     dead_lettered ref_codec (w_redis w1) (ref_view (w_db w1)) ''default'' demo_envelope)"
proof -
  have "1 \<in> set (pending_ids (id (w_redis demo_before)) ''default'')" using demo_queue_pending by (simp add: demo_before_def)
  moreover have "1 \<notin> set (pending_ids (id (w_redis demo_after)) ''default'')" using demo_after_pending by simp
  ultimately show ?thesis
    using acked_only_when_settled [OF ref_redis_service ref_postgres_service, of "\<lambda>_ w. w" "[]" "''default''" demo_msg demo_after ref_codec
        demo_ex demo_py demo_reg "\<lambda>_. 1" 0 demo_before]
    by (auto simp: demo_after_def [symmetric] rely_def message_kept_def) (auto simp: demo_msg_def)
qed

text \<open>
  C22: A worker never runs more tasks at a time than its concurrency, whatever the order of polls,
  reclaims, dispatches, completions, callbacks and shutdown requests: the permits of the semaphore
  and the running tasks always add up to the configured concurrency.
\<close>

theorem worker_concurrency_bound:
  assumes "0 \<le> cfg_worker_concurrency cfg" and "worker_step\<^sup>*\<^sup>* (new_worker cfg) k"
  shows "0 \<le> wk_semaphore k \<and> wk_semaphore k + int (running_tasks k) = cfg_worker_concurrency cfg"
proof -
  have "worker_inv (new_worker cfg)"
    using assms(1) by (simp add: worker_inv_def new_worker_def running_tasks_def)
  from worker_reach_inv [OF assms(2) this] show ?thesis
    by (simp add: worker_inv_def new_worker_def)
qed

definition demo_leased :: leased where
  "demo_leased = \<lparr>envelope = demo_task, broker_msg_id = 1, idle_ms = 0\<rparr>"

theorem worker_concurrency_bound_witness:
  "\<exists>k. worker_step\<^sup>*\<^sup>* (new_worker default_settings) k \<and> running_tasks k = 1 \<and> wk_semaphore k = 7"
proof -
  let ?k0 = "new_worker default_settings"
  let ?k1 = "run_loops ?k0"
  let ?k2 = "?k1\<lparr>wk_todo := wk_todo ?k1 @ map (Pair ''default'') [demo_leased]\<rparr>"
  let ?k3 = "the (dispatch 0 ?k2)"
  have s1: "worker_step ?k0 ?k1" by (rule step_start)
  have s2: "worker_step ?k1 ?k2"
    by (rule step_poll) (simp_all add: run_loops_def new_worker_def default_settings_def)
  have "dispatch 0 ?k2 = Some ?k3"
    by (simp add: dispatch_def run_loops_def new_worker_def default_settings_def)
  then have s3: "worker_step ?k2 ?k3" by (rule step_dispatch)
  have reach: "worker_step\<^sup>*\<^sup>* ?k0 ?k3"
    using s1 s2 s3 by (intro converse_rtranclp_into_rtranclp [of worker_step ?k0 ?k1]
        converse_rtranclp_into_rtranclp [of worker_step ?k1 ?k2] r_into_rtranclp)
  have "running_tasks ?k3 = 1"
    by (simp add: dispatch_def run_loops_def new_worker_def default_settings_def running_tasks_def)
  with worker_concurrency_bound [OF _ reach] reach show ?thesis
    by (intro exI [of _ ?k3]) (simp add: default_settings_def)
qed

text \<open>
  C23: A poll takes exactly what the worker can run. Whatever the worker did before, when it polls a queue of well-formed messages with \<open>sem\<close>
  permits left it gets the first \<open>min(sem, 5)\<close> ready messages, in order and with the envelopes
  that were published; these become pending, the others stay ready. The messages it gets and the tasks it runs
  are together no more than its concurrency; a worker without a permit takes nothing.
\<close>

theorem poll_batch_fits:
  assumes "redis_service R V before" and "codec_ok C" and "queue_wf (V (w_redis w)) q"
    and "wire_ok C (st_entries (stream_at (V (w_redis w)) (q_key q)))"
    and "0 \<le> cfg_worker_concurrency cfg" and "worker_step\<^sup>*\<^sup>* (new_worker cfg) k"
  shows "\<exists>ms s. poll_queue R C cfg (wk_semaphore k) q w = (ms, w\<lparr>w_redis := s\<rparr>) \<and>
    map broker_msg_id ms = take (nat (min (wk_semaphore k) 5)) (ready_ids (V (w_redis w)) q) \<and>
    (\<forall>m \<in> set ms. \<exists>f. (broker_msg_id m, f) \<in> set (st_entries (stream_at (V (w_redis w)) (q_key q))) \<and>
       f_data f = model_dump_json C (envelope m)) \<and>
    ready_ids (V s) q = drop (nat (min (wk_semaphore k) 5)) (ready_ids (V (w_redis w)) q) \<and>
    pending_ids (V s) q = pending_ids (V (w_redis w)) q @ map broker_msg_id ms \<and>
    int (length ms) + int (running_tasks k) \<le> cfg_worker_concurrency cfg"
proof -
  let ?n = "nat (min (wk_semaphore k) 5)"
  have "worker_inv (new_worker cfg)" using assms(5) by (simp add: worker_inv_def new_worker_def running_tasks_def)
  from worker_reach_inv [OF assms(6) this]
  have k: "0 \<le> wk_semaphore k" "wk_semaphore k + int (running_tasks k) = cfg_worker_concurrency cfg"
    by (simp_all add: worker_inv_def new_worker_def)
  obtain ms s where ms: "poll_queue R C cfg (wk_semaphore k) q w = (ms, w\<lparr>w_redis := s\<rparr>)"
      "map broker_msg_id ms = take ?n (ready_ids (V (w_redis w)) q)"
      "\<forall>m \<in> set ms. \<exists>f. (broker_msg_id m, f) \<in> set (st_entries (stream_at (V (w_redis w)) (q_key q))) \<and>
         f_data f = model_dump_json C (envelope m)"
      "ready_ids (V s) q = drop ?n (ready_ids (V (w_redis w)) q)"
      "pending_ids (V s) q = pending_ids (V (w_redis w)) q @ take ?n (ready_ids (V (w_redis w)) q)"
    using poll_queue_takes [OF assms(1-4) k(1)] by blast
  have "length ms \<le> ?n" using arg_cong [OF ms(2), of length] by simp
  with k have "int (length ms) + int (running_tasks k) \<le> cfg_worker_concurrency cfg" by linarith
  with ms show ?thesis by auto
qed

text \<open>A worker with one slot on a queue where two messages wait.\<close>

definition demo_two :: "task_envelope keyspace" where
  "demo_two = fold (redis_perform ref_redis ref_codec ''default'') [Publish demo_envelope, Publish demo_envelope]
     (snd (ensure_queue ref_redis ''default'' empty_keyspace))"

lemma demo_two_queue:
  "queue_wf demo_two ''default''" "ready_ids demo_two ''default'' = [1, 2]"
  "wire_ok ref_codec (st_entries (stream_at demo_two (q_key ''default'')))"
  by (auto simp: demo_two_def ensure_queue_def ref_redis_def group_at_def empty_keyspace_def
      ks_xgroup_create_def stream_at_def empty_stream_def put_stream_def publish_def Let_def
      ks_xadd_def undelivered_def queue_wf_def queue_group_def group_wf_def sorted_ids_def ready_ids_def wire_ok_def ref_codec_def)

theorem poll_batch_fits_witness:
  "\<exists>ms s. poll_queue ref_redis ref_codec (default_settings\<lparr>cfg_worker_concurrency := 1\<rparr>) 1 ''default''
      \<lparr>w_redis = demo_two, w_db = empty_ref_db\<rparr> = (ms, \<lparr>w_redis = s, w_db = empty_ref_db\<rparr>) \<and>
    map broker_msg_id ms = [1] \<and> ready_ids s ''default'' = [2]"
  using poll_batch_fits [OF ref_redis_service codec_ok_ref, of "\<lparr>w_redis = demo_two, w_db = empty_ref_db\<rparr>" "''default''"
      "default_settings\<lparr>cfg_worker_concurrency := 1\<rparr>" "new_worker (default_settings\<lparr>cfg_worker_concurrency := 1\<rparr>)"] demo_two_queue
  by (auto simp: new_worker_def)

text \<open>
  C24: Retries end. Take envelopes each of which was put into the schedule by processing the one before it, on any
  workers, with any handlers and errors and at any time, while other processes only take members out of that schedule. Each is the
  first one with its attempt number increased by its position, and if there was a retry at all they are no more than
  \<open>max_attempts - attempt\<close> of the first: a task that is submitted with attempt 0 and fails each time is put back at most
  \<open>max_attempts - 1\<close> times. In particular there is no infinite chain of retries.
\<close>

theorem retries_bounded:
  assumes "redis_service R V before" and "codec_ok C"
    and "\<forall>i. Suc i < length es \<longrightarrow> retried R V P C q (es ! i) (es ! Suc i)"
  shows "(\<forall>i < length es. es ! i = (es ! 0)\<lparr>env_attempt := env_attempt (es ! 0) + int i\<rparr>) \<and>
    (2 \<le> length es \<longrightarrow> int (length es) \<le> policy_max_attempts (env_retry_policy (es ! 0)) - env_attempt (es ! 0)) \<and>
    wf {(e', e). retried R V P C q e e'}"
proof -
  have "int (length es) \<le> policy_max_attempts (env_retry_policy (es ! 0)) - env_attempt (es ! 0)" if "2 \<le> length es"
  proof -
    have "length es - 1 < length es" "0 < length es - 1" using that by simp_all
    with retry_chain_attempts [OF assms this(1)] show ?thesis by (simp add: of_nat_diff)
  qed
  then show ?thesis using retry_chain_attempts [OF assms] retries_wf [OF assms(1,2)] by blast
qed

theorem retries_bounded_witness:
  "retried ref_redis id ref_postgres ref_codec ''default'' demo_envelope (demo_envelope\<lparr>env_attempt := 1\<rparr>) \<and>
   2 \<le> policy_max_attempts (env_retry_policy demo_envelope) - env_attempt demo_envelope"
proof -
  obtain k where k: "w_redis demo_after = ks_xack (q_key ''default'') ''default'' [1]
      (ks_zadd (\<lambda>_ _. False) (sched_key ''default'') (demo_envelope\<lparr>env_attempt := 1\<rparr>) 1 k)"
    using demo_after_redis by blast
  have "(model_dump_json ref_codec (demo_envelope\<lparr>env_attempt := 1\<rparr>), 1) \<in> set (zsets (id (w_redis demo_after)) (sched_key ''default''))"
    by (simp add: k ref_codec_def zadd_mem)
  moreover have "zsets (id (w_redis demo_before)) (sched_key ''default'') = []" by (simp add: demo_before_def demo_queue_schedule)
  ultimately have r: "retried ref_redis id ref_postgres ref_codec ''default'' demo_envelope (demo_envelope\<lparr>env_attempt := 1\<rparr>)"
    unfolding retried_def
    by (intro exI [of _ demo_ex] exI [of _ demo_py] exI [of _ demo_reg] exI [of _ "\<lambda>_. 1"] exI [of _ "\<lambda>_ w. w"] exI [of _ "[]"]
        exI [of _ 0] exI [of _ demo_msg] exI [of _ demo_before] exI [of _ demo_after] exI [of _ 1])
      (simp add: demo_after_def rely_def schedule_shrinks_def demo_msg_def)
  then show ?thesis
    using retries_bounded [OF ref_redis_service codec_ok_ref, of "[demo_envelope, demo_envelope\<lparr>env_attempt := 1\<rparr>]" ref_postgres "''default''"]
    by (auto simp: less_Suc_eq)
qed

text \<open>
  The retry decision ignores the class of a handler's exception. The worker takes the error class
  from the text before the first colon, and the text of an exception is a traceback: so whatever a
  handler raises (other than a timeout or a rejected fence), the class is taken to be
  \<open>Traceback (most recent call last)\<close>, and an exception class listed in the policy's
  \<open>terminal_errors\<close> is retried like any other.
\<close>

lemma handler_error_class_ignored:
  assumes "reg (env_task_name e) = Some h" and "h (env_payload e) = HRaise ty msg frames"
    and "''Traceback (most recent call last)'' \<notin> set (terminal_errors (env_retry_policy e))"
    and "retryable_errors (env_retry_policy e) = []"
    and "env_attempt e + 1 < policy_max_attempts (env_retry_policy e)"
  shows "\<not> hr_success (run_handler ex py reg e) \<and>
    is_retryable (env_retry_policy e) (error_type_of (hr_error_repr (run_handler ex py reg e))) (env_attempt e + 1)"
  using assms by (simp add: run_handler_def get_handler_def hr_failed_def error_type_traceback is_retryable_def)

text \<open>
  The reclaimer closes an attempt other than the one that was lost. For a message whose envelope
  has attempt number \<open>n\<close>, \<open>execute\<close> records the attempt as \<open>n + 1\<close>, and closing the lost attempt
  never changes that row: it stays open.
\<close>

lemma reclaim_leaves_lost_attempt_open:
  assumes "postgres_service P D"
  shows "attempts (D (close_lost P now msg d)) (env_task_id (envelope msg), attempt_no (envelope msg)) =
    attempts (D d) (env_task_id (envelope msg), attempt_no (envelope msg))"
  using close_attempt_other [OF assms, of "attempt_no (envelope msg)" "env_attempt (envelope msg)"]
  by (simp add: close_lost_def attempt_no_def)

end
