(* ===== verification/System.thy ===== *)
theory System
  imports Control_Contract Worker_Contract
begin

text \<open>
  The whole deployment: any number of workers, reclaimers, schedulers and API calls on one Redis
  server and one database. The processes share no memory, so a run of the system is a sequence of
  the steps between which they give up control; any process may take any step at any time, with
  any arguments, also one that is slow, was declared dead or starts over. What one step keeps, the
  system keeps: the rows of the database evolve and effects stay, and the leases behave as the
  abstract lock although all other commands run on the same server.
\<close>

section \<open>The steps of the processes\<close>

record ('s, 'v, 'd) deployment =
  dep_redis :: "('s, 'v) redis"
  dep_db :: "'d postgres"
  dep_codec :: "'v codec"
  dep_iter :: "string list \<Rightarrow> string list"
  dep_show :: "string list \<Rightarrow> string"
  dep_dumps :: "json \<Rightarrow> string"

datatype sys_op =
    SAcquire executor task_envelope
  | SRecord timestamp executor task_envelope int
  | SRenew executor task_envelope int
  | SCommit timestamp task_envelope int handler_run
  | SRelease executor task_envelope int
  | SRetry string task_envelope timestamp
  | SDeadLetter string task_envelope string
  | SMarkDead timestamp uuid
  | SAck string "nat list"
  | SPoll settings int string
  | SReclaim settings string
  | SCloseLost timestamp leased
  | SPromote "nat \<Rightarrow> timestamp" "string list"
  | SStart settings
  | SPresence settings nat timestamp timestamp
  | SCreateTask timestamp uuid create_task_request
  | SCancelTask timestamp uuid
  | SCreateWorkflow timestamp "nat \<Rightarrow> uuid" uuid string "workflow_step list"
  | STaskCompleted timestamp "nat \<Rightarrow> uuid" uuid
  | SRequeue timestamp string "uuid list"
  | SKillWorker string
  | SPauseQueue string real
  | SInjectFailure timestamp uuid string string "(string \<times> json) list" string
  | SElapse nat

text \<open>The steps of workers act on the world; an API call acts on the event bus too.\<close>

definition on_redis :: "('s \<Rightarrow> 's) \<Rightarrow> ('s, 'd) plane \<Rightarrow> ('s, 'd) plane" where
  "on_redis f p = pl_redis (f (w_redis (pl_world p))) p"

definition on_world :: "(('s, 'd) world \<Rightarrow> ('s, 'd) world) \<Rightarrow> ('s, 'd) plane \<Rightarrow> ('s, 'd) plane" where
  "on_world f p = p\<lparr>pl_world := f (pl_world p)\<rparr>"

text \<open>
  A step with its result: the fence of an acquisition, whether a commit reports success, and 0 for
  the steps whose result does not matter to other processes.
\<close>

fun sys_do :: "('s, 'v, 'd) deployment \<Rightarrow> sys_op \<Rightarrow> ('s, 'd) plane \<Rightarrow> int \<times> ('s, 'd) plane" where
  "sys_do dep (SAcquire ex e) p =
     (let (r, w) = exec_acquire (dep_redis dep) ex e (pl_world p) in (fence_result r, p\<lparr>pl_world := w\<rparr>))"
| "sys_do dep (SRecord now ex e fence) p =
     (0, on_world (\<lambda>w. snd (exec_record (dep_db dep) now ex e fence w)) p)"
| "sys_do dep (SRenew ex e fence) p =
     (0, on_redis (\<lambda>s. snd (extend_lease (dep_redis dep) (env_task_id e) (ex_worker_id ex) fence (ex_lease_ms ex) s)) p)"
| "sys_do dep (SCommit now e fence hr) p =
     (let (r, w) = exec_commit (dep_db dep) now e fence hr (pl_world p) in (of_bool (fst r), p\<lparr>pl_world := w\<rparr>))"
| "sys_do dep (SRelease ex e fence) p = (0, on_world (exec_release (dep_redis dep) ex e fence) p)"
| "sys_do dep (SRetry queue e run_at) p = (0, on_redis (schedule (dep_redis dep) (dep_codec dep) queue e run_at) p)"
| "sys_do dep (SDeadLetter queue e reason) p =
     (0, on_redis (dead_letter (dep_redis dep) (dep_codec dep) queue e reason) p)"
| "sys_do dep (SMarkDead now task_id) p =
     (0, pl_db (snd (run_tx (dep_db dep) (update_task_state (dep_db dep) now task_id DEAD None) (w_db (pl_world p)))) p)"
| "sys_do dep (SAck queue ids) p = (0, on_redis (ack (dep_redis dep) queue queue ids) p)"
| "sys_do dep (SPoll cfg sem queue) p =
     (0, on_world (\<lambda>w. snd (poll_queue (dep_redis dep) (dep_codec dep) cfg sem queue w)) p)"
| "sys_do dep (SReclaim cfg queue) p =
     (0, on_world (\<lambda>w. snd (reclaim_queue (dep_redis dep) (dep_codec dep) cfg queue w)) p)"
| "sys_do dep (SCloseLost now msg) p = (0, pl_db (close_lost (dep_db dep) now msg (w_db (pl_world p))) p)"
| "sys_do dep (SPromote clk queues) p = (0, on_redis (scheduler_tick (dep_redis dep) clk queues) p)"
| "sys_do dep (SStart cfg) p = (0, on_redis (\<lambda>s. snd (ensure_queues (dep_redis dep) (cfg_worker_queues cfg) s)) p)"
| "sys_do dep (SPresence cfg in_flight started_at now) p =
     (0, on_redis (worker_heartbeat (dep_redis dep) (dep_dumps dep) cfg in_flight started_at now) p)"
| "sys_do dep (SCreateTask now task_id req) p =
     (0, snd (api_create_task (dep_redis dep) (dep_db dep) (dep_codec dep) now task_id req p))"
| "sys_do dep (SCancelTask now task_id) p = (0, snd (api_cancel_task (dep_db dep) now task_id p))"
| "sys_do dep (SCreateWorkflow now fresh wid name steps) p =
     (0, snd (api_create_workflow (dep_redis dep) (dep_db dep) (dep_codec dep) (dep_iter dep) (dep_show dep)
                now fresh wid name steps p))"
| "sys_do dep (STaskCompleted now fresh task_id) p =
     (0, on_world (\<lambda>w. snd (on_task_completed (dep_redis dep) (dep_db dep) (dep_codec dep) now fresh task_id w)) p)"
| "sys_do dep (SRequeue now queue task_ids) p =
     (0, snd (api_requeue_dlq (dep_redis dep) (dep_db dep) (dep_codec dep) now queue task_ids p))"
| "sys_do dep (SKillWorker worker_id) p = (0, snd (api_chaos_kill_worker (dep_redis dep) worker_id p))"
| "sys_do dep (SPauseQueue queue duration_s) p = (0, snd (api_chaos_pause_queue (dep_redis dep) queue duration_s p))"
| "sys_do dep (SInjectFailure now task_id queue task_name payload error_type) p =
     (0, snd (api_chaos_inject_failure (dep_redis dep) (dep_codec dep) now task_id queue task_name payload error_type p))"
| "sys_do dep (SElapse d) p = (0, on_redis (r_elapse (dep_redis dep) d) p)"

fun sys_run :: "('s, 'v, 'd) deployment \<Rightarrow> sys_op list \<Rightarrow> ('s, 'd) plane \<Rightarrow> int list \<times> ('s, 'd) plane" where
  "sys_run dep [] p = ([], p)"
| "sys_run dep (x # xs) p = (let (y, p1) = sys_do dep x p; (ys, p2) = sys_run dep xs p1 in (y # ys, p2))"

section \<open>The database under the system\<close>

context postgres_service
begin

lemma launch_evolves: "eng_keeps D evolves (launch_task R P C now wid tid step n pl)"
  unfolding launch_task_def case_prod_unfold by (intro tx_keeps_intros)

lemma launch_fan_evolves: "eng_keeps D evolves (launch_fan R P C now fresh wid step i items k)"
proof (induction items arbitrary: i k)
  case (Cons x items)
  then show ?case unfolding launch_fan.simps by (intro tx_keeps_intros launch_evolves)
qed (simp, intro tx_keeps_intros)

lemma launch_steps_evolves: "eng_keeps D evolves (launch_steps R P C now fresh wid i steps k)"
proof (induction steps arbitrary: k)
  case (Cons x steps)
  then show ?case
    unfolding launch_steps.simps by (intro tx_keeps_intros launch_evolves launch_fan_evolves)
qed (simp, intro tx_keeps_intros)

lemma scan_tasks_evolves: "tx_keeps D evolves (scan_tasks P ts i)"
proof (induction ts arbitrary: i)
  case (Cons t ts)
  then show ?case unfolding scan_tasks.simps Let_def by (intro tx_keeps_intros)
qed (simp, intro tx_keeps_intros)

lemma eng_keeps_found [tx_keeps_intros]:
  "eng_keeps D G m \<Longrightarrow> (\<And>r. eng_keeps D G (f r)) \<Longrightarrow> eng_keeps D G (case x of None \<Rightarrow> m | Some r \<Rightarrow> f r)"
  by (cases x) simp_all

lemma advance_body_evolves: "eng_keeps D evolves (advance_body R P C now fresh wid)"
  unfolding advance_body_def Let_def
  by (intro tx_keeps_intros scan_tasks_evolves launch_steps_evolves)

lemma advance_evolves: "evolves (D (w_db w)) (D (w_db (snd (advance R P C now fresh wid w))))"
proof -
  obtain r s' where m: "advance_body R P C now fresh wid (w_redis w) (w_db w) = (r, s')" by fastforce
  show ?thesis
  proof (cases "\<exists>d'. r = Inr (True, d')")
    case True
    then obtain d' where r: "r = Inr (True, d')" by blast
    obtain c d'' where c: "pg_commit P (w_db w) d' = (c, d'')" by fastforce
    then have "D d'' = D (w_db w) \<or> D d'' = D d'" using commit_ok commit_raised by (cases c) auto
    moreover have "evolves (D (w_db w)) (D d')" using eng_keepsD [OF advance_body_evolves m [unfolded r]] .
    ultimately show ?thesis by (auto simp: advance_def run_eng_def m r c)
  next
    case False
    then show ?thesis by (auto simp: advance_def run_eng_def m split: sum.splits prod.splits bool.splits)
  qed
qed

lemma submit_evolves:
  "evolves (D (w_db w)) (D (w_db (snd (submit R P C iter sh now fresh wid name steps w))))"
proof -
  obtain c d where run: "run_tx P (create_workflow P now wid name (name, steps)) (w_db w) = (c, d)" by fastforce
  have d: "evolves (D (w_db w)) (D d)"
    using run_tx_evolves [of "create_workflow P now wid name (name, steps)" "w_db w"] keeps_create_workflow run by simp
  have "evolves (D d) (D (w_db (snd (advance R P C now fresh wid (w\<lparr>w_db := d\<rparr>)))))"
    using advance_evolves [of "w\<lparr>w_db := d\<rparr>"] by simp
  with d evolves_trans [OF d this] show ?thesis
    by (auto simp: submit_def run split: option.splits sum.splits prod.splits)
qed

end

text \<open>
  A relation \<open>G\<close> between the database before and after that the operations of the store and the engine keep
  is kept by every step, and so by every run, of the deployment.
\<close>

locale sys_history = postgres_service "dep_db dep" D + history D G
  for dep :: "('s, 'v, 'd) deployment" and D :: "'d \<Rightarrow> db" and G :: "db \<Rightarrow> db \<Rightarrow> bool" +
  assumes op_create: "tx_keeps D G (create_task (dep_db dep) now i q n pl dk pr mx ra None None)"
    and op_state: "tx_keeps D G (update_task_state (dep_db dep) now i st a)"
    and op_cancel: "tx_keeps D G (cancel_task (dep_db dep) now i)"
    and op_attempt: "tx_keeps D G (create_attempt (dep_db dep) now i k wk f)"
    and op_close: "tx_keeps D G (close_attempt (dep_db dep) now i k oc et er)"
    and op_effect: "tx_keeps D G (commit_effect (dep_db dep) now key i f res)"
    and op_advance: "G (D (w_db w)) (D (w_db (snd (advance (dep_redis dep) (dep_db dep) (dep_codec dep) now fresh wid w))))"
    and op_submit: "G (D (w_db w)) (D (w_db (snd (submit (dep_redis dep) (dep_db dep) (dep_codec dep) (dep_iter dep) (dep_show dep)
      now fresh wid name steps w))))"
begin

lemmas op_run = run_tx_keeps [OF history_axioms]

lemma op_get: "tx_keeps D G (get_task (dep_db dep) i)"
  unfolding get_task_def by (intro tx_keeps_intros)

lemma op_record_tx: "tx_keeps D G (record_tx (dep_db dep) now ex e f)"
  unfolding record_tx_def by (intro tx_keeps_intros op_attempt op_state)

lemma op_commit_tx: "tx_keeps D G (commit_tx (dep_db dep) now e f hr)"
  unfolding commit_tx_def by (intro tx_keeps_intros op_effect op_state op_close)

lemma exec_record_keeps: "G (D (w_db w)) (D (w_db (snd (exec_record (dep_db dep) now ex e f w))))"
  using op_run [OF op_record_tx, of "w_db w" now ex e f] by (auto simp: exec_record_def split: prod.splits sum.splits)

lemma exec_commit_keeps: "G (D (w_db w)) (D (w_db (snd (exec_commit (dep_db dep) now e f hr w))))"
  using op_run [OF op_commit_tx, of "w_db w" now e f hr]
  by (auto simp: exec_commit_def split: prod.splits sum.splits exn.splits dtq_class.splits)

lemma requeue_loop_keeps:
  assumes "requeue_loop R (dep_db dep) C now q is n a d p = (n', a', d', p')"
  shows "G (D d) (D d') \<and> w_db (pl_world p') = w_db (pl_world p)"
  using assms
proof (induction "is" arbitrary: n a d p)
  case (Cons i "is")
  let ?t = "tx_bind (get_task (dep_db dep) i) (\<lambda>row. tx_bind (update_task_state (dep_db dep) now i PENDING (Some 0)) (\<lambda>_. tx_return row))"
  have keeps: "tx_keeps D G ?t" by (intro tx_keeps_intros op_get op_state)
  show ?case
  proof (cases "a \<or> (\<exists>e. ?t d = Inl e)")
    case True
    with Cons show ?thesis by (auto simp: G_refl split: if_splits)
  next
    case False
    then obtain row d1 where t: "?t d = Inr (row, d1)" by (metis sum.exhaust prod.exhaust)
    with False Cons.prems obtain p1 where "requeue_loop R (dep_db dep) C now q is (n + 1) False d1 p1 = (n', a', d', p')"
        and "w_db (pl_world p1) = w_db (pl_world p)"
      by (auto simp: Let_def pl_defs)
    with Cons.IH tx_keepsD [OF keeps t] show ?thesis by (metis G_trans)
  qed
qed (simp add: G_refl)

lemma requeue_keeps:
  "G (D (w_db (pl_world p))) (D (w_db (pl_world (snd (api_requeue_dlq R (dep_db dep) C now q is p)))))"
proof -
  obtain n a d1 p1 where loop: "requeue_loop R (dep_db dep) C now q is 0 False (w_db (pl_world p)) p = (n, a, d1, p1)"
    by (cases "requeue_loop R (dep_db dep) C now q is 0 False (w_db (pl_world p)) p")
  obtain c d2 where c: "pg_commit (dep_db dep) (w_db (pl_world p)) d1 = (c, d2)" by fastforce
  then have "D d2 = D (w_db (pl_world p)) \<or> D d2 = D d1" using commit_ok commit_raised by (cases c) auto
  with requeue_loop_keeps [OF loop] show ?thesis
    by (auto simp: api_requeue_dlq_def Let_def loop c pl_defs G_refl split: sum.splits)
qed

lemma sys_do_keeps: "G (D (w_db (pl_world p))) (D (w_db (pl_world (snd (sys_do dep x p)))))"
proof -
  note splits = prod.splits sum.splits option.splits if_splits
  show ?thesis
  proof (cases x)
    case (SRecord now ex e f)
    then show ?thesis using exec_record_keeps by (simp add: on_world_def)
  next
    case (SCommit now e f hr)
    then show ?thesis using exec_commit_keeps [of "pl_world p" now e f hr] by (auto split: prod.split)
  next
    case (SMarkDead now i)
    then show ?thesis using op_run [OF op_state] by (simp add: pl_defs)
  next
    case (SCloseLost now m)
    then show ?thesis using op_run [OF op_close] by (simp add: pl_defs close_lost_def)
  next
    case (SCreateTask now i req)
    then show ?thesis
      using op_run [OF op_create, of "w_db (pl_world p)" now i "rq_queue req" "rq_task_name req" "rq_payload req"
          "rq_dedup_key req" "rq_priority req" "rq_max_attempts req" "rq_run_at req"]
      by (auto simp: api_create_task_def Let_def pl_defs split: splits)
  next
    case (SCancelTask now i)
    then show ?thesis
      using op_run [OF op_cancel, of "w_db (pl_world p)" now i]
      by (auto simp: api_cancel_task_def pl_defs split: splits)
  next
    case (SCreateWorkflow now fresh wid name steps)
    then show ?thesis
      using op_submit [of "pl_world p" now fresh wid name "map model_dump steps"]
      by (auto simp: api_create_workflow_def split: splits)
  next
    case (STaskCompleted now fresh i)
    then show ?thesis
      using op_advance by (auto simp: on_task_completed_def on_world_def G_refl split: splits)
  next
    case (SRequeue now q "is")
    then show ?thesis using requeue_keeps by simp
  qed (auto simp: exec_acquire_def exec_release_def on_redis_def on_world_def pl_defs poll_queue_def
      reclaim_queue_def api_chaos_kill_worker_def api_chaos_pause_queue_def api_chaos_inject_failure_def Let_def G_refl
      split: splits)
qed

lemma sys_run_keeps: "G (D (w_db (pl_world p))) (D (w_db (pl_world (snd (sys_run dep ops p)))))"
proof (induction ops arbitrary: p)
  case (Cons x xs)
  from G_trans [OF sys_do_keeps [of p x] Cons] show ?case by (simp add: split_def Let_def)
qed (simp add: G_refl)

end

lemma sys_history_evolves:
  assumes "postgres_service (dep_db dep) D"
  shows "sys_history dep D evolves"
  by (intro sys_history.intro sys_history_axioms.intro assms dbh.history_axioms postgres_service.keeps_create_task [OF assms]
      postgres_service.keeps_update_task_state [OF assms] postgres_service.keeps_cancel_task [OF assms]
      postgres_service.keeps_create_attempt [OF assms] postgres_service.keeps_close_attempt [OF assms]
      postgres_service.keeps_commit_effect [OF assms] postgres_service.advance_evolves [OF assms]
      postgres_service.submit_evolves [OF assms])

lemma sys_run_evolves:
  assumes "postgres_service (dep_db dep) D"
  shows "evolves (D (w_db (pl_world p))) (D (w_db (pl_world (snd (sys_run dep ops p)))))"
  by (rule sys_history.sys_run_keeps [OF sys_history_evolves [OF assms]])

section \<open>The leases under the system\<close>

text \<open>A step that leaves the fence counter and all leases alone.\<close>

definition same_locks :: "'v keyspace \<Rightarrow> 'v keyspace \<Rightarrow> bool" where
  "same_locks ks ks' \<longleftrightarrow> strs ks' fence_key = strs ks fence_key \<and>
     (\<forall>tid. strs ks' (lease_key tid) = strs ks (lease_key tid))"

lemma same_locks_refl [simp]: "same_locks ks ks"
  by (simp add: same_locks_def)

lemma same_locks_trans: "same_locks a b \<Longrightarrow> same_locks b c \<Longrightarrow> same_locks a c"
  by (simp add: same_locks_def)

lemma same_locks_strs: "strs ks' = strs ks \<Longrightarrow> same_locks ks ks'"
  by (simp add: same_locks_def)

lemma lock_rel_same: "same_locks ks ks' \<Longrightarrow> lock_rel ks l \<Longrightarrow> lock_rel ks' l"
  by (simp add: same_locks_def lock_rel_def)

lemma key_no_lock [simp]:
  "pause_key q \<noteq> fence_key" "pause_key q \<noteq> lease_key i" "fence_key \<noteq> pause_key q" "lease_key i \<noteq> pause_key q"
  by (simp_all add: key_defs)

lemma strs_keyspace_ops [simp]:
  "strs (ks_xgroup_create k g ks) = strs ks" "strs (snd (ks_xreadgroup g c k n ks)) = strs ks"
  "strs (snd (ks_xautoclaim k g c mi n ks)) = strs ks" "strs (ks_xack k g ids ks) = strs ks"
  "strs (ks_zadd before k m sc ks) = strs ks" "strs (ks_zrem k m ks) = strs ks"
  by (simp_all add: ks_xgroup_create_def ks_xreadgroup_def ks_xautoclaim_def ks_xack_def ks_zadd_def ks_zrem_def
      put_stream_def put_group_def Let_def split: option.split)

definition eng_frame :: "('s \<Rightarrow> 'v keyspace) \<Rightarrow> ('s, 'd, 'a) eng \<Rightarrow> bool" where
  "eng_frame V m \<longleftrightarrow> (\<forall>s d. same_locks (V s) (V (snd (m s d))))"

lemma eng_frame_intros:
  "eng_frame V (eng_return a)" "eng_frame V (eng_raise e)" "eng_frame V (eng_tx t)" "eng_frame V (eng_lift r)"
  "eng_frame V m \<Longrightarrow> eng_frame V m' \<Longrightarrow> eng_frame V (if b then m else m')"
  "(\<And>s. same_locks (V s) (V (snd (f s)))) \<Longrightarrow> eng_frame V (eng_redis f)"
  by (auto simp: eng_frame_def eng_return_def eng_raise_def eng_tx_def eng_lift_def eng_redis_def
      split: sum.splits prod.splits) (metis snd_conv)+

lemma eng_frame_option:
  "eng_frame V m \<Longrightarrow> (\<And>r. eng_frame V (f r)) \<Longrightarrow> eng_frame V (case x of None \<Rightarrow> m | Some r \<Rightarrow> f r)"
  by (cases x) simp_all

lemma eng_frame_bind:
  assumes "eng_frame V m" and "\<And>a. eng_frame V (f a)"
  shows "eng_frame V (eng_bind m f)"
  unfolding eng_frame_def
proof (intro allI)
  fix s d
  obtain r s1 where m: "m s d = (r, s1)" by fastforce
  then have s1: "same_locks (V s) (V s1)" using assms(1) by (metis eng_frame_def snd_conv)
  show "same_locks (V s) (V (snd (eng_bind m f s d)))"
  proof (cases r)
    case (Inl e)
    with m s1 show ?thesis by (simp add: eng_bind_def)
  next
    case (Inr b)
    obtain a d1 where b: "b = (a, d1)" by (cases b)
    have "same_locks (V s1) (V (snd (f a s1 d1)))" using assms(2) by (simp add: eng_frame_def)
    with m s1 Inr b show ?thesis by (auto simp: eng_bind_def intro: same_locks_trans)
  qed
qed

context redis_service
begin

lemma strs_commands:
  "strs (V (publish R C q e s)) = strs (V s)" "strs (V (dead_letter R C q e m s)) = strs (V s)"
  "strs (V (schedule R C q e t s)) = strs (V s)" "strs (V (ack R q g ids s)) = strs (V s)"
  by (simp_all add: publish_def dead_letter_def schedule_def ack_def xadd zadd xack)

lemma strs_ensure_queue: "strs (V (snd (ensure_queue R q s))) = strs (V s)"
proof -
  have "strs (V (snd (r_xgroup_create R (q_key q) q s))) = strs (V s)"
    using xgroup_create_new [of "q_key q" s q] xgroup_create_busy [of "q_key q" s q]
    by (cases "group_at (V s) (q_key q) q = None") (auto simp del: not_None_eq)
  then show ?thesis by (auto simp: ensure_queue_def split: prod.splits sum.splits)
qed

lemma strs_lease: "strs (V (snd (lease R C q g c n s))) = strs (V s)"
proof -
  have "strs (V (snd (r_xreadgroup R g c (q_key q) n s))) = strs (V s)"
    using xreadgroup_ok [of "q_key q" s g c n] xreadgroup_nogroup [of "q_key q" s g c n]
    by (cases "group_at (V s) (q_key q) g = None") (auto simp del: not_None_eq)
  then show ?thesis by (auto simp: lease_def split: prod.splits sum.splits)
qed

lemma strs_reclaim: "strs (V (snd (reclaim R C q g c mi n s))) = strs (V s)"
proof -
  have "strs (V (snd (r_xautoclaim R (q_key q) g c mi n s))) = strs (V s)"
    using xautoclaim_ok [of "q_key q" s g c mi n] xautoclaim_nogroup [of "q_key q" s g c mi n]
    by (cases "group_at (V s) (q_key q) g = None") (auto simp del: not_None_eq)
  then show ?thesis by (auto simp: reclaim_def split: prod.splits sum.splits)
qed

lemma strs_promote: "strs (V (snd (promote_loop R (sched_key q) (q_key q) ms n s))) = strs (V s)"
  by (induction ms arbitrary: n s) (simp_all add: Let_def xadd zrem)

lemma strs_scheduler_tick: "strs (V (scheduler_tick R clk qs s)) = strs (V s)"
  by (induction qs arbitrary: clk s) (simp_all add: promote_scheduled_def promote_scheduled_lua_def strs_promote)

lemma strs_ensure_queues: "strs (V (snd (ensure_queues R qs s))) = strs (V s)"
proof (induction qs arbitrary: s)
  case (Cons q qs)
  then show ?case using strs_ensure_queue [of q s] by (auto split: prod.split sum.split)
qed simp

lemma set_px_same_locks:
  assumes "str_key k" and "k \<noteq> fence_key" and "\<forall>i. lease_key i \<noteq> k"
  shows "same_locks (V s) (V (snd (r_set_px R k v ms s)))"
  using set_px_ok [OF assms(1)] set_px_error [OF assms(1)] assms
  by (cases "0 < ms") (auto simp: same_locks_def ks_set_def not_less)

lemmas frame_strs = strs_commands strs_ensure_queue strs_ensure_queues strs_lease strs_reclaim strs_scheduler_tick

lemma launch_frame: "eng_frame V (launch_task R P C now wid tid step n pl)"
  unfolding launch_task_def case_prod_unfold
  by (intro eng_frame_bind eng_frame_intros) (simp_all add: same_locks_strs frame_strs)

lemma launch_fan_frame: "eng_frame V (launch_fan R P C now fresh wid step i items k)"
proof (induction items arbitrary: i k)
  case (Cons x items)
  then show ?case unfolding launch_fan.simps by (intro eng_frame_bind launch_frame)
qed (simp add: eng_frame_intros)

lemma launch_steps_frame: "eng_frame V (launch_steps R P C now fresh wid i steps k)"
proof (induction steps arbitrary: k)
  case (Cons x steps)
  then show ?case
    unfolding launch_steps.simps by (intro eng_frame_bind eng_frame_intros launch_frame launch_fan_frame)
qed (simp add: eng_frame_intros)

lemma advance_frame: "same_locks (V (w_redis w)) (V (w_redis (snd (advance R P C now fresh wid w))))"
proof -
  have "eng_frame V (advance_body R P C now fresh wid)"
    unfolding advance_body_def Let_def
    by (intro eng_frame_bind eng_frame_intros eng_frame_option launch_steps_frame)
  then have "same_locks (V (w_redis w)) (V (snd (advance_body R P C now fresh wid (w_redis w) (w_db w))))"
    by (simp add: eng_frame_def)
  then show ?thesis
    by (auto simp: advance_def run_eng_def Let_def split: prod.splits sum.splits bool.splits)
qed

end

text \<open>The operation on the abstract lock that a step is, if any.\<close>

fun sys_lease_op :: "sys_op \<Rightarrow> lease_op option" where
  "sys_lease_op (SAcquire ex e) = Some (Acquire (env_task_id e) (ex_worker_id ex) (ex_lease_ms ex))"
| "sys_lease_op (SRenew ex e f) = Some (Extend (env_task_id e) (ex_worker_id ex) f (ex_lease_ms ex))"
| "sys_lease_op (SRelease ex e f) = Some (Release (env_task_id e) (ex_worker_id ex) f)"
| "sys_lease_op (SElapse d) = Some (Elapse d)"
| "sys_lease_op _ = None"

definition lease_ops :: "sys_op list \<Rightarrow> lease_op list" where
  "lease_ops xs = List.map_filter sys_lease_op xs"

lemma lease_ops_simps [simp]:
  "lease_ops [] = []"
  "lease_ops (x # xs) = (case sys_lease_op x of None \<Rightarrow> lease_ops xs | Some y \<Rightarrow> y # lease_ops xs)"
  "lease_ops (xs @ ys) = lease_ops xs @ lease_ops ys"
  by (simp_all add: lease_ops_def map_filter_def split: option.split)

text \<open>The fences that a run grants to the acquisitions that satisfy \<open>Q\<close>.\<close>

fun sys_granted :: "(lease_op \<Rightarrow> bool) \<Rightarrow> sys_op list \<Rightarrow> int list \<Rightarrow> int list" where
  "sys_granted Q (x # xs) (y # ys) =
     (if (\<exists>a. sys_lease_op x = Some a \<and> is_acquire a \<and> Q a) \<and> y \<noteq> 0 then y # sys_granted Q xs ys
      else sys_granted Q xs ys)"
| "sys_granted Q _ _ = []"

context redis_service
begin

lemma submit_frame: "same_locks (V (w_redis w)) (V (w_redis (snd (submit R P C iter sh now fresh wid name steps w))))"
proof -
  have "same_locks (V (w_redis w)) (V (w_redis (snd (advance R P C now fresh wid (w\<lparr>w_db := d\<rparr>)))))" for d
    using advance_frame [of "w\<lparr>w_db := d\<rparr>"] by simp
  then show ?thesis
    by (auto simp: submit_def split: option.splits sum.splits prod.splits) (metis snd_conv)+
qed

lemma requeue_frame:
  "requeue_loop R P C now q is n a d p = (n', a', d', p') \<Longrightarrow>
   strs (V (w_redis (pl_world p'))) = strs (V (w_redis (pl_world p)))"
proof (induction "is" arbitrary: n a d p)
  case (Cons i "is")
  then show ?case
    by (auto simp: Let_def pl_defs frame_strs split: if_splits sum.splits)
qed simp

lemma create_task_frame: "strs (V (w_redis (pl_world (snd (api_create_task R P C now i req p))))) = strs (V (w_redis (pl_world p)))"
proof -
  have "strs (V s') = strs (V s)" if "ensure_queue R q s = (r, s')" for q r s s'
    using strs_ensure_queue [of q s] that by simp
  then show ?thesis
    by (auto simp: api_create_task_def Let_def pl_defs frame_strs split: prod.splits sum.splits option.splits)
qed

lemma sys_do_frame:
  assumes "dep_redis dep = R" and "sys_lease_op x = None"
  shows "same_locks (V (w_redis (pl_world p))) (V (w_redis (pl_world (snd (sys_do dep x p)))))"
proof (cases x)
  case (SPoll cfg sem q)
  have "strs (V s') = strs (V s)" if "lease R C q q c n s = (r, s')" for C c n r s s'
    using strs_lease [of C q q c n s] that by simp
  with SPoll assms(1) show ?thesis
    by (auto simp: on_world_def poll_queue_def intro!: same_locks_strs split: prod.splits sum.splits)
next
  case (SReclaim cfg q)
  have "strs (V s') = strs (V s)" if "reclaim R C q q c mi n s = (r, s')" for C c mi n r s s'
    using strs_reclaim [of C q q c mi n s] that by simp
  with SReclaim assms(1) show ?thesis
    by (auto simp: on_world_def reclaim_queue_def intro!: same_locks_strs split: prod.splits sum.splits)
next
  case (SPresence cfg n st now)
  with assms(1) set_px_same_locks [of "worker_key (cfg_worker_id cfg)"] show ?thesis
    by (auto simp: on_redis_def pl_defs worker_heartbeat_def set_worker_heartbeat_def Let_def split: prod.splits sum.splits)
      (metis key_distinct key_types(3) snd_conv)+
next
  case (SPauseQueue q du)
  with assms(1) set_px_same_locks [of "pause_key q"] show ?thesis
    by (auto simp: api_chaos_pause_queue_def pl_defs Let_def split: prod.splits sum.splits)
      (metis key_no_lock key_types(4) snd_conv)+
next
  case (SInjectFailure now i q n pl et)
  have "strs (V s') = strs (V s)" if "ensure_queue R q s = (r, s')" for r s s'
    using strs_ensure_queue [of q s] that by simp
  with SInjectFailure show ?thesis
    by (auto simp: assms(1) api_chaos_inject_failure_def pl_defs Let_def frame_strs intro!: same_locks_strs
        split: prod.splits sum.splits)
next
  case (SRequeue now q "is")
  obtain n a d1 p1 where "requeue_loop R (dep_db dep) (dep_codec dep) now q is 0 False (w_db (pl_world p)) p = (n, a, d1, p1)"
    by (cases "requeue_loop R (dep_db dep) (dep_codec dep) now q is 0 False (w_db (pl_world p)) p")
  with SRequeue assms(1) requeue_frame [OF this] show ?thesis
    by (auto simp: api_requeue_dlq_def Let_def pl_defs intro!: same_locks_strs split: sum.splits prod.splits)
next
  case (SCreateWorkflow now fresh wid name steps)
  with assms(1) submit_frame [of "pl_world p" "dep_db dep" "dep_codec dep" "dep_iter dep" "dep_show dep" now fresh wid
      name "map model_dump steps"] show ?thesis
    by (auto simp: api_create_workflow_def split: prod.splits sum.splits)
next
  case (SCommit now e f hr)
  obtain r w where c: "exec_commit (dep_db dep) now e f hr (pl_world p) = (r, w)" by fastforce
  then have "w_redis w = w_redis (pl_world p)" by (metis exec_redis_same(2) snd_conv)
  with SCommit c show ?thesis by simp
next
  case (STaskCompleted now fresh i)
  then show ?thesis
    by (auto simp: assms(1) on_world_def on_task_completed_def advance_frame split: sum.splits option.splits)
qed (use assms in \<open>auto simp: on_world_def on_redis_def pl_defs frame_strs create_task_frame api_cancel_task_def
      api_chaos_kill_worker_def del ks_del_def same_locks_def Let_def
      split: prod.splits sum.splits option.splits\<close>)

lemma lease_op_result:
  assumes "dep_redis dep = R" and "sys_lease_op x = Some a"
  shows "w_redis (pl_world (snd (sys_do dep x p))) = snd (lease_do R a (w_redis (pl_world p)))"
    and "is_acquire a \<Longrightarrow> fst (sys_do dep x p) = fence_result (fst (lease_do R a (w_redis (pl_world p))))"
  using assms(2)
  by (cases x; auto simp: assms(1) exec_acquire_def exec_release_def on_redis_def on_world_def pl_defs split: prod.split)+

lemma sys_run_locks:
  assumes "dep_redis dep = R" and "lock_rel (V (w_redis (pl_world p))) l" and "list_all op_ok (lease_ops xs)"
    and "lk_seq l + int (length (filter is_acquire (lease_ops xs))) < 10 ^ 14"
  shows "lock_rel (V (w_redis (pl_world (snd (sys_run dep xs p))))) (snd (lock_run (lease_ops xs) l)) \<and>
    sys_granted Q xs (fst (sys_run dep xs p)) =
      granted (\<lambda>a. is_acquire a \<and> Q a) (lease_ops xs) (fst (lock_run (lease_ops xs) l))"
  using assms(2-)
proof (induction xs arbitrary: p l)
  case (Cons x xs)
  obtain y p1 where x: "sys_do dep x p = (y, p1)" by fastforce
  show ?case
  proof (cases "sys_lease_op x")
    case None
    have "lock_rel (V (w_redis (pl_world p1))) l"
      using lock_rel_same [OF sys_do_frame [OF assms(1) None] Cons.prems(1)] x by (metis snd_conv)
    from Cons.IH [OF this] Cons.prems None show ?thesis by (auto simp: x split_def Let_def)
  next
    case (Some a)
    obtain z l1 where l1: "lock_do a l = (z, l1)" by fastforce
    have b: "lk_seq l + of_bool (is_acquire a) < 10 ^ 14" using Cons.prems(3) Some by (auto split: if_splits)
    have ok: "op_ok a" using Cons.prems(2) Some by simp
    note step = lease_do_refines [OF Cons.prems(1) ok b]
    have rel: "lock_rel (V (w_redis (pl_world p1))) l1"
      using step lease_op_result(1) [OF assms(1) Some, of p] by (simp add: l1 x)
    have y: "is_acquire a \<Longrightarrow> y = z"
      using step lease_op_result(2) [OF assms(1) Some, of p] by (simp add: l1 x fence_result_def)
    have "lk_seq l1 \<le> lk_seq l + of_bool (is_acquire a)"
      using lock_do_seq_le [of a l] l1 by simp
    then have "lk_seq l1 + int (length (filter is_acquire (lease_ops xs))) < 10 ^ 14"
      using Cons.prems(3) Some by (auto split: if_splits)
    from Cons.IH [OF rel _ this] Cons.prems(2) Some y show ?thesis
      by (auto simp: x l1 split_def Let_def)
  qed
qed simp

end

section \<open>Properties\<close>

text \<open>
  C10: Fences increase across the whole system. In any run of the deployment, whatever the workers,
  reclaimers, schedulers and API calls do in between, the fences that lease acquisitions return are
  strictly increasing: no two executions of any task ever run under the same fence.
\<close>

theorem system_fences_increase:
  assumes "redis_service (dep_redis dep) V before" and "lock_rel (V (w_redis (pl_world p))) l"
    and "list_all op_ok (lease_ops ops)"
    and "lk_seq l + int (length (filter is_acquire (lease_ops ops))) < 10 ^ 14"
  shows "sorted_wrt (<) (sys_granted (\<lambda>_. True) ops (fst (sys_run dep ops p)))"
  using redis_service.sys_run_locks [OF assms(1) refl assms(2-4), of "\<lambda>_. True"]
    lock_run_granted [of "lease_ops ops" l] by simp

text \<open>
  C11: A lease is exclusive in the whole system: while a worker holds the lease of a task with \<open>t\<close>
  milliseconds left, no acquisition of that task succeeds in a run of the deployment in which less
  than \<open>t\<close> milliseconds pass and that worker neither releases nor renews the lease.
\<close>

theorem system_lease_exclusive:
  assumes "redis_service (dep_redis dep) V before" and "lock_rel (V (w_redis (pl_world p))) l"
    and "list_all op_ok (lease_ops ops)"
    and "lk_seq l + int (length (filter is_acquire (lease_ops ops))) < 10 ^ 14"
    and "lk_held l tid = Some (w, f, t)" and "list_all (\<lambda>x. \<not> by_holder tid w f x) (lease_ops ops)"
    and "sum_list (map duration (lease_ops ops)) < t"
  shows "sys_granted (acquires tid) ops (fst (sys_run dep ops p)) = []"
proof -
  have eq: "(\<lambda>a. is_acquire a \<and> acquires tid a) = acquires tid"
    by (rule ext) (case_tac a; simp)
  show ?thesis
    using redis_service.sys_run_locks [OF assms(1) refl assms(2-4), of "acquires tid"] lock_run_held [OF assms(5-7)]
    by (simp add: eq)
qed

text \<open>
  C4: An effect is committed once and for all. If a commit reports success, the effect of its key is
  on record afterwards with a fence that is not higher; if there was none before, it is the one of
  this commit, with its task, fence and result; and after any further run of the deployment, with
  other commits, retries, cancellations and requeues, that very row is still there.
\<close>

theorem effect_committed_once:
  assumes "postgres_service (dep_db dep) D" and "sys_do dep (SCommit now e f hr) p = (1, p1)"
  shows "\<exists>row. effects (D (w_db (pl_world p1))) (effect_key e) = Some row \<and> er_fence row \<le> f \<and>
    (effects (D (w_db (pl_world p))) (effect_key e) = None \<longrightarrow> row = \<lparr>er_dedup_key = effect_key e,
       er_task_id = env_task_id e, er_fence = f, er_result = hr_result hr, er_committed_at = now\<rparr>) \<and>
    effects (D (w_db (pl_world (snd (sys_run dep ops p1))))) (effect_key e) = Some row"
proof -
  obtain r w where c: "exec_commit (dep_db dep) now e f hr (pl_world p) = ((True, r), w)" and w: "pl_world p1 = w"
    using assms(2) by (auto split: prod.splits if_splits)
  note eff = postgres_service.exec_commit_success [OF assms(1) c, THEN conjunct2]
  obtain row where row: "effects (D (w_db w)) (effect_key e) = Some row" and "er_fence row \<le> f"
      "effects (D (w_db (pl_world p))) (effect_key e) = None \<longrightarrow> row = \<lparr>er_dedup_key = effect_key e,
         er_task_id = env_task_id e, er_fence = f, er_result = hr_result hr, er_committed_at = now\<rparr>"
    using eff by (auto split: option.splits)
  then show ?thesis
    using evolves_effect [OF sys_run_evolves [OF assms(1), of p1 ops], of "effect_key e" row]
    by (intro exI [of _ row]) (simp add: w)
qed

section \<open>Zombies\<close>

lemma exec_commit_fenced:
  assumes "postgres_service P D" and "effects (D (w_db w)) (effect_key e) = Some row" and "f < er_fence row"
    and "hr_success hr"
  shows "\<exists>m. exec_commit P now e f hr w = ((False, Some m), w)"
proof (cases "sel_effects P (\<lambda>r. er_dedup_key r = effect_key e) (w_db w)")
  case (Inl x)
  then show ?thesis
    using assms(4) by (auto simp: exec_commit_def commit_tx_def commit_effect_def run_tx_def tx_bind_def tx_query_def
        split: exn.split dtq_class.split)
next
  case (Inr rows)
  then have "rows = [row]" using postgres_service.effect_rows [OF assms(1) Inr] assms(2) by simp
  with Inr assms(3,4) show ?thesis
    by (auto simp: exec_commit_def commit_tx_def commit_effect_def run_tx_def tx_bind_def tx_query_def tx_return_def tx_raise_def)
qed

lemma later_fence_higher:
  assumes "redis_service (dep_redis dep) V before" and "lock_rel (V (w_redis (pl_world p))) l"
    and "list_all op_ok (lease_ops (SAcquire exA eA # xs @ [SAcquire exB eB]))"
    and "lk_seq l + int (length (filter is_acquire (lease_ops (SAcquire exA eA # xs @ [SAcquire exB eB])))) < 10 ^ 14"
    and "sys_run dep (SAcquire exA eA # xs @ [SAcquire exB eB]) p = (fA # ys @ [fB], p1)" and "length ys = length xs"
    and "fA \<noteq> 0" and "fB \<noteq> 0"
  shows "fA < fB"
proof -
  have snoc: "sys_granted Q (xs @ [x]) (ys @ [y]) = sys_granted Q xs ys @ sys_granted Q [x] [y]"
    if "length ys = length xs" for Q xs x ys y
    using that by (induction ys xs rule: list_induct2) auto
  have "sorted_wrt (<) (sys_granted (\<lambda>_. True) (SAcquire exA eA # xs @ [SAcquire exB eB]) (fA # ys @ [fB]))"
    using redis_service.sys_run_locks [OF assms(1) refl assms(2-4), of "\<lambda>_. True"]
      lock_run_granted [of "lease_ops (SAcquire exA eA # xs @ [SAcquire exB eB])" l] assms(5) by simp
  with assms(6-8) show ?thesis by (simp add: snoc sorted_wrt_append)
qed

text \<open>
  C3: A zombie cannot overwrite a result. Let worker A acquire a lease and, later in the run of the
  deployment, worker B one for the same effect (A stalled and its lease expired); let B, after any
  further run, be the first to commit the effect. Then whenever A wakes up afterwards and commits
  its successful handler run, the commit reports failure and changes nothing.
\<close>

theorem zombie_commit_rejected:
  assumes "redis_service (dep_redis dep) V before" and "postgres_service (dep_db dep) D"
    and "lock_rel (V (w_redis (pl_world p))) l"
    and "list_all op_ok (lease_ops (SAcquire exA eA # xs @ [SAcquire exB eB]))"
    and "lk_seq l + int (length (filter is_acquire (lease_ops (SAcquire exA eA # xs @ [SAcquire exB eB])))) < 10 ^ 14"
    and "sys_run dep (SAcquire exA eA # xs @ [SAcquire exB eB]) p = (fA # ys @ [fB], p1)" and "length ys = length xs"
    and "fA \<noteq> 0" and "fB \<noteq> 0" and "effect_key eA = effect_key eB"
    and "p2 = snd (sys_run dep ops p1)" and "effects (D (w_db (pl_world p2))) (effect_key eB) = None"
    and "sys_do dep (SCommit nowB eB fB hrB) p2 = (1, p3)"
    and "p4 = snd (sys_run dep ops' p3)" and "hr_success hrA"
  shows "sys_do dep (SCommit nowA eA fA hrA) p4 = (0, p4)"
proof -
  have "fA < fB" using later_fence_higher [OF assms(1,3-9)] .
  obtain r w where c: "exec_commit (dep_db dep) nowB eB fB hrB (pl_world p2) = ((True, r), w)" and w: "pl_world p3 = w"
    using assms(13) by (auto split: prod.splits if_splits)
  then obtain row where "effects (D (w_db (pl_world p3))) (effect_key eA) = Some row" "er_fence row = fB"
    using postgres_service.exec_commit_success [OF assms(2) c] assms(10,12) by auto
  then have "effects (D (w_db (pl_world p4))) (effect_key eA) = Some row" "fA < er_fence row"
    using evolves_effect [OF sys_run_evolves [OF assms(2), of p3 ops']] assms(14) \<open>fA < fB\<close> by auto
  from exec_commit_fenced [OF assms(2) this assms(15), of nowA] show ?thesis by auto
qed

section \<open>A concrete deployment\<close>

definition demo_dep :: "(task_envelope keyspace, task_envelope, ref_db) deployment" where
  "demo_dep = \<lparr>dep_redis = ref_redis, dep_db = ref_postgres, dep_codec = ref_codec, dep_iter = (\<lambda>xs. xs),
     dep_show = concat, dep_dumps = (\<lambda>_. [])\<rparr>"

definition demo_site :: "(task_envelope keyspace, ref_db) plane" where
  "demo_site = demo_plane\<lparr>pl_world := \<lparr>w_redis = empty_keyspace, w_db = empty_ref_db\<lparr>rd_tasks := [demo_row]\<rparr>\<rparr>\<rparr>"

definition demo_ex2 :: executor where
  "demo_ex2 = \<lparr>ex_worker_id = ''w2'', ex_lease_ms = 30000\<rparr>"

definition demo_takeover :: "sys_op list" where
  "demo_takeover = SAcquire demo_ex demo_task # [SElapse 30000] @ [SAcquire demo_ex2 demo_task]"

lemma demo_dep_sel [simp]: "dep_redis demo_dep = ref_redis" "dep_db demo_dep = ref_postgres"
  by (simp_all add: demo_dep_def)

interpretation demo_history: sys_history demo_dep ref_view evolves
  by (rule sys_history_evolves) simp

lemma demo_site_locks: "lock_rel (id (w_redis (pl_world demo_site))) free_lock"
  by (simp add: demo_site_def lock_rel_empty free_lock_def)

lemma demo_takeover_ops:
  "list_all op_ok (lease_ops demo_takeover)"
  "lk_seq free_lock + int (length (filter is_acquire (lease_ops demo_takeover))) < 10 ^ 14"
  by (simp_all add: demo_takeover_def demo_ex_def demo_ex2_def free_lock_def)

theorem system_fences_increase_witness:
  "sorted_wrt (<) (sys_granted (\<lambda>_. True) demo_takeover (fst (sys_run demo_dep demo_takeover demo_site)))"
  using system_fences_increase [of demo_dep id "\<lambda>_ _. False" demo_site free_lock demo_takeover] demo_site_locks demo_takeover_ops
  by (simp add: ref_redis_service)

lemma demo_takeover_results:
  "\<exists>p. sys_run demo_dep demo_takeover demo_site = (1 # [0] @ [2], p) \<and> w_db (pl_world p) = w_db (pl_world demo_site)"
proof -
  obtain a c p where run: "sys_run demo_dep demo_takeover demo_site = ([a, 0, c], p)"
    by (simp add: demo_takeover_def split_def Let_def)
  have db: "w_db (pl_world (snd (sys_run demo_dep demo_takeover demo_site))) = w_db (pl_world demo_site)"
    by (simp add: demo_takeover_def split_def Let_def on_redis_def pl_defs)
  have "sys_granted (\<lambda>_. True) demo_takeover [a, 0, c] = [1, 2]"
    using redis_service.sys_run_locks [OF ref_redis_service demo_dep_sel(1) demo_site_locks demo_takeover_ops, of "\<lambda>_. True"]
    by (simp add: run) (simp add: demo_takeover_def free_lock_def lock_acquire_def lock_elapse_def demo_ex_def demo_ex2_def)
  then have "a = 1 \<and> c = 2" by (simp add: demo_takeover_def split: if_splits)
  with run db show ?thesis by simp
qed

theorem system_lease_exclusive_witness:
  "sys_granted (acquires ''t1'') [SElapse 50, SAcquire demo_ex2 demo_task]
     (fst (sys_run demo_dep [SElapse 50, SAcquire demo_ex2 demo_task]
       (snd (sys_run demo_dep [SAcquire demo_ex demo_task] demo_site)))) = []"
proof -
  let ?p = "snd (sys_run demo_dep [SAcquire demo_ex demo_task] demo_site)"
  let ?l = "snd (lock_run [Acquire ''t1'' ''w1'' 30000] free_lock)"
  have "lock_rel (id (w_redis (pl_world ?p))) ?l"
    using redis_service.sys_run_locks [OF ref_redis_service demo_dep_sel(1) demo_site_locks, of "[SAcquire demo_ex demo_task]"]
    by (simp add: demo_ex_def demo_task_def new_envelope_def free_lock_def)
  then show ?thesis
    by (intro system_lease_exclusive [where V = id and l = ?l and w = "''w1''" and f = 1 and t = 30000 and before = "\<lambda>_ _. False"])
      (simp_all add: free_lock_def lock_acquire_def demo_ex2_def demo_task_def new_envelope_def)
qed

definition demo_hr :: handler_run where
  "demo_hr = \<lparr>hr_success = True, hr_result = None, hr_error_type = None, hr_error_repr = None\<rparr>"

lemma demo_hr_success: "hr_success demo_hr"
  by (simp add: demo_hr_def)

lemma demo_commit:
  assumes "w_db (pl_world p) = w_db (pl_world demo_site)"
  shows "\<exists>p'. sys_do demo_dep (SCommit 5 demo_task 2 demo_hr) p = (1, p')"
  using assms
  by (simp add: exec_commit_def commit_tx_def demo_hr_def effect_key_def attempt_no_def demo_site_def eval_db demo_defs)

theorem effect_committed_once_witness:
  "\<exists>row p. sys_do demo_dep (SCommit 5 demo_task 2 demo_hr) demo_site = (1, p) \<and> er_fence row \<le> 2 \<and>
     effects (ref_view (w_db (pl_world (snd (sys_run demo_dep [SCancelTask 6 ''t1''] p))))) ''t1'' = Some row"
proof -
  obtain p where p: "sys_do demo_dep (SCommit 5 demo_task 2 demo_hr) demo_site = (1, p)"
    using demo_commit by blast
  have "effect_key demo_task = ''t1''" by (simp add: effect_key_def demo_task_def new_envelope_def)
  with effect_committed_once [of demo_dep ref_view, OF _ p, of "[SCancelTask 6 ''t1'']"] p show ?thesis
    by (metis demo_dep_sel(2) ref_postgres_service)
qed

theorem zombie_commit_rejected_witness:
  "\<exists>p1 p3. sys_run demo_dep demo_takeover demo_site = ([1, 0, 2], p1) \<and>
     sys_do demo_dep (SCommit 5 demo_task 2 demo_hr) p1 = (1, p3) \<and>
     sys_do demo_dep (SCommit 6 demo_task 1 demo_hr) p3 = (0, p3)"
proof -
  obtain p1 where p1: "sys_run demo_dep demo_takeover demo_site = (1 # [0] @ [2], p1)"
      "w_db (pl_world p1) = w_db (pl_world demo_site)"
    using demo_takeover_results by blast
  obtain p3 where p3: "sys_do demo_dep (SCommit 5 demo_task 2 demo_hr) p1 = (1, p3)" using demo_commit [OF p1(2)] by blast
  have none: "effects (ref_view (w_db (pl_world (snd (sys_run demo_dep [] p1))))) (effect_key demo_task) = None"
    by (simp add: p1(2)) (simp add: demo_site_def ref_view_def empty_ref_db_def)
  have svc: "redis_service (dep_redis demo_dep) id (\<lambda>_ _. False)" "postgres_service (dep_db demo_dep) ref_view" by simp_all
  have "sys_do demo_dep (SCommit 6 demo_task 1 demo_hr) (snd (sys_run demo_dep [] p3)) = (0, snd (sys_run demo_dep [] p3))"
    by (rule zombie_commit_rejected [where nowB = 5 and hrB = demo_hr, OF svc demo_site_locks demo_takeover_ops [unfolded demo_takeover_def]
          p1(1) [unfolded demo_takeover_def] _ _ _ refl refl none _ refl])
      (simp_all add: p3 demo_hr_success del: sys_do.simps)
  with p1(1) p3 show ?thesis by simp
qed

end
