(* ===== verification/Queue_Order.thy ===== *)
theory Queue_Order
  imports Broker_Delivery
begin

text \<open>
  The order of first deliveries on a queue of the Redis broker: what the producers publish and the
  scheduler promotes, and what the leases of all consumers return, are the same sequence of envelopes,
  however publishing, scheduling, promoting, leasing, acknowledging, reclaiming, burying and passing time
  are mixed.
\<close>

section \<open>The payloads that wait\<close>

definition waiting :: "'v keyspace \<Rightarrow> string \<Rightarrow> 'v list" where
  "waiting ks q = (case queue_group ks q of
       None \<Rightarrow> [] | Some gr \<Rightarrow> map (\<lambda>(_, f). f_data f) (undelivered (stream_at ks (q_key q)) gr))"

lemma waiting_put_group:
  "waiting (put_group (q_key q) q gr ks) q = map (\<lambda>(_, f). f_data f) (undelivered (stream_at ks (q_key q)) gr)"
  by (simp add: waiting_def put_queue_group undelivered_def)

lemma waiting_xadd:
  assumes wf: "queue_wf ks q" and i: "st_last (stream_at ks (q_key q)) < i"
  shows "waiting (ks_xadd i (q_key q) f ks) q = waiting ks q @ [f_data f]"
proof -
  obtain gr where gr: "group_at ks (q_key q) q = Some gr" and w: "group_wf (stream_at ks (q_key q)) gr"
    using wf by (auto simp: queue_wf_def queue_group_def)
  then have "group_at (ks_xadd i (q_key q) f ks) (q_key q) q = Some gr"
    using group_at_Some [OF gr] by (simp add: ks_xadd_def Let_def)
  with gr w i show ?thesis
    by (simp add: waiting_def queue_group_def undelivered_def group_wf_def) (simp add: ks_xadd_def Let_def)
qed

lemma waiting_xreadgroup:
  assumes wf: "queue_wf ks q"
  shows "waiting (snd (ks_xreadgroup q c (q_key q) n ks)) q = drop n (waiting ks q)"
    and "map (\<lambda>(_, f). f_data f) (fst (ks_xreadgroup q c (q_key q) n ks)) = take n (waiting ks q)"
proof -
  obtain gr where gr: "queue_group ks q = Some gr" and w: "group_wf (stream_at ks (q_key q)) gr"
    using wf by (rule queue_wf_Some)
  let ?u = "undelivered (stream_at ks (q_key q)) gr"
  have r: "ks_xreadgroup q c (q_key q) n ks = (if take n ?u = [] then ([], ks)
      else (take n ?u, put_group (q_key q) q (deliver c (take n ?u) gr) ks))"
    using gr by (simp add: ks_xreadgroup_def queue_group_def Let_def deliver_def)
  have wt: "waiting ks q = map (\<lambda>(_, f). f_data f) ?u" by (simp add: waiting_def gr)
  show "waiting (snd (ks_xreadgroup q c (q_key q) n ks)) q = drop n (waiting ks q)"
    using undelivered_deliver [OF w, of n c] by (auto simp: r wt waiting_put_group drop_map)
  show "map (\<lambda>(_, f). f_data f) (fst (ks_xreadgroup q c (q_key q) n ks)) = take n (waiting ks q)"
    by (simp add: r wt take_map)
qed

lemma waiting_same:
  assumes "queue_wf ks q"
  shows "waiting (ks_xack (q_key q) q ids ks) q = waiting ks q"
    and "waiting (snd (ks_xautoclaim (q_key q) q c mi n ks)) q = waiting ks q"
    and "waiting (ks_elapse d ks) q = waiting ks q"
proof -
  obtain gr where gr: "queue_group ks q = Some gr" using assms by (rule queue_wf_Some)
  then have at: "group_at ks (q_key q) q = Some gr" by (simp add: queue_group_def)
  show "waiting (ks_xack (q_key q) q ids ks) q = waiting ks q"
    by (simp add: ks_xack_def at waiting_put_group) (simp add: waiting_def gr undelivered_def)
  show "waiting (snd (ks_xautoclaim (q_key q) q c mi n ks)) q = waiting ks q"
    by (simp add: ks_xautoclaim_def at Let_def waiting_put_group) (simp add: waiting_def gr undelivered_def claim_def)
  show "waiting (ks_elapse d ks) q = waiting ks q"
    by (simp add: waiting_def queue_group_elapse gr undelivered_def entries_elapse elapse_group_def)
qed

lemma waiting_same_streams:
  assumes "streams ks' = streams ks"
  shows "waiting ks' q = waiting ks q"
  using queue_same_streams [OF assms] by (simp add: waiting_def cong: option.case_cong)

lemma zset_commands [simp]:
  "zsets (put_group k g gr ks) = zsets ks" "zsets (snd (ks_xreadgroup g c k n ks)) = zsets ks"
  "zsets (ks_xack k g ids ks) = zsets ks" "zsets (snd (ks_xautoclaim k g c mi n ks)) = zsets ks"
  "zsets (ks_elapse d ks) = zsets ks"
  by (simp_all add: put_group_def put_stream_def Let_def ks_xreadgroup_def ks_xack_def ks_xautoclaim_def ks_elapse_def split: option.split)

lemma zset_zinsert [simp]: "set (zinsert before m sc zs) = insert (m, sc) (set zs)"
  by (induction zs) (auto split: if_splits)

lemma waiting_dlq: "waiting (ks_xadd i (dlq_key q') f ks) q = waiting ks q"
  by (simp add: waiting_def queue_group_def ks_xadd_def Let_def cong: option.case_cong)

context redis_service
begin

lemma waiting_promote:
  assumes "queue_wf (V s) q"
  shows "waiting (V (snd (promote_loop R (sched_key q) (q_key q) ms n s))) q = waiting (V s) q @ ms"
  using assms
proof (induction ms arbitrary: n s)
  case (Cons m ms)
  let ?f = "\<lparr>f_data = m, f_reason = None\<rparr>" and ?s1 = "snd (r_xadd R (q_key q) \<lparr>f_data = m, f_reason = None\<rparr> s)"
  let ?s2 = "r_zrem R (sched_key q) m ?s1"
  have same: "streams (V ?s2) = streams (V ?s1)" by (simp add: zrem)
  have i: "st_last (stream_at (V s) (q_key q)) < fst (r_xadd R (q_key q) ?f s)" by (simp add: xadd_id)
  have "queue_wf (V ?s2) q" "waiting (V ?s2) q = waiting (V s) q @ [m]"
    using queue_wf_xadd(1) [OF Cons.prems i] waiting_xadd [OF Cons.prems i]
    by (simp_all add: queue_same_streams [OF same] waiting_same_streams [OF same] xadd)
  with Cons.IH [of ?s2 "n + 1"] show ?case by (simp add: Let_def)
qed simp

end

section \<open>What goes in and what comes out\<close>

text \<open>The payloads that an operation appends to the stream of the queue.\<close>

fun sent_by :: "('s \<Rightarrow> 'v keyspace) \<Rightarrow> 'v codec \<Rightarrow> string \<Rightarrow> broker_op \<Rightarrow> 's \<Rightarrow> 'v list" where
  "sent_by V C q (Publish e) s = [model_dump_json C e]"
| "sent_by V C q (Promote now) s = take 100 (due (V s) q now)"
| "sent_by V C q _ s = []"

fun stream_log :: "('s, 'v) redis \<Rightarrow> ('s \<Rightarrow> 'v keyspace) \<Rightarrow> 'v codec \<Rightarrow> string \<Rightarrow> broker_op list \<Rightarrow> 's \<Rightarrow> 'v list" where
  "stream_log R V C q [] s = []"
| "stream_log R V C q (x # xs) s = sent_by V C q x s @ stream_log R V C q xs (redis_perform R C q x s)"

text \<open>A lease that raises returns no envelope.\<close>

fun got_by :: "('s, 'v) redis \<Rightarrow> 'v codec \<Rightarrow> string \<Rightarrow> broker_op \<Rightarrow> 's \<Rightarrow> task_envelope list" where
  "got_by R C q (Lease c n) s = (case fst (lease R C q q c n s) of Inl e \<Rightarrow> [] | Inr ls \<Rightarrow> map envelope ls)"
| "got_by R C q _ s = []"

fun deliveries :: "('s, 'v) redis \<Rightarrow> 'v codec \<Rightarrow> string \<Rightarrow> broker_op list \<Rightarrow> 's \<Rightarrow> task_envelope list" where
  "deliveries R C q [] s = []"
| "deliveries R C q (x # xs) s = got_by R C q x s @ deliveries R C q xs (redis_perform R C q x s)"

text \<open>The schedule of a queue holds serialised envelopes.\<close>

definition in_schedule :: "'v codec \<Rightarrow> 'v keyspace \<Rightarrow> string \<Rightarrow> task_envelope \<Rightarrow> bool" where
  "in_schedule C ks q e \<longleftrightarrow> model_dump_json C e \<in> fst ` set (zsets ks (sched_key q))"

definition schedule_ok :: "'v codec \<Rightarrow> 'v keyspace \<Rightarrow> string \<Rightarrow> bool" where
  "schedule_ok C ks q \<longleftrightarrow> fst ` set (zsets ks (sched_key q)) \<subseteq> range (model_dump_json C)"

lemma codec_inj: "codec_ok C \<Longrightarrow> model_dump_json C e = model_dump_json C e' \<longleftrightarrow> e = e'"
  unfolding codec_ok_def by (metis sum.inject(2))

lemma parse_messages_dumped:
  assumes "codec_ok C" and "map (\<lambda>(_, f). f_data f) ms = map (model_dump_json C) es"
  shows "\<exists>ls. parse_messages C idle ms = Inr ls \<and> map envelope ls = es"
  using assms(2)
proof (induction ms arbitrary: es)
  case (Cons m ms)
  then obtain e es' where es: "es = e # es'" by (cases es) auto
  with Cons obtain ls where "parse_messages C idle ms = Inr ls" "map envelope ls = es'" by auto
  with Cons.prems assms(1) show ?case by (cases m) (auto simp: es codec_ok_def)
qed simp

context redis_queue
begin

lemma lease_returns:
  assumes wf: "queue_wf (V s) q" and es: "waiting (V s) q = map (model_dump_json C) es"
  shows "\<exists>ls. fst (lease R C q q c n s) = Inr ls \<and> map envelope ls = take n es"
proof -
  have "map (\<lambda>(_, f). f_data f) (fst (ks_xreadgroup q c (q_key q) n (V s))) = map (model_dump_json C) (take n es)"
    using waiting_xreadgroup(2) [OF wf] by (simp add: es take_map)
  from parse_messages_dumped [OF codec this, of 0] show ?thesis
    using xreadgroup_ok [OF key_types(5) group_of_wf [OF wf], of c n]
    by (auto simp: lease_def split: prod.splits)
qed

lemma schedule_step:
  assumes wf: "queue_wf (V s) q"
  shows "fst ` set (zsets (V (redis_perform R C q x s)) (sched_key q)) \<subseteq>
      fst ` set (zsets (V s) (sched_key q)) \<union> range (model_dump_json C)"
    and "in_schedule C (V s) q e \<Longrightarrow> in_schedule C (V (redis_perform R C q x s)) q e \<or>
      model_dump_json C e \<in> set (sent_by V C q x s)"
    and "x = Schedule e t \<Longrightarrow> in_schedule C (V (redis_perform R C q x s)) q e"
proof -
  let ?z = "\<lambda>s. zsets (V s) (sched_key q)"
  consider (Schedule) e' t' where "x = Schedule e' t'" | (Promote) now where "x = Promote now"
    | (other) "?z (redis_perform R C q x s) = ?z s" "\<And>e t. x \<noteq> Schedule e t"
  proof (cases x)
    case (Publish e')
    then show ?thesis using that(3) publish_state [of s e'] by auto
  next
    case (DeadLetter e' reason)
    then show ?thesis using that(3) dead_letter_state [of e' reason s] by auto
  qed (use that in \<open>simp_all add: lease_state [OF wf] reclaim_state [OF wf] ack_def nack_def xack elapse ensure_queue_again [OF wf]\<close>)
  then have "fst ` set (?z (redis_perform R C q x s)) \<subseteq> fst ` set (?z s) \<union> range (model_dump_json C) \<and>
      (in_schedule C (V s) q e \<longrightarrow> in_schedule C (V (redis_perform R C q x s)) q e \<or> model_dump_json C e \<in> set (sent_by V C q x s)) \<and>
      (x = Schedule e t \<longrightarrow> in_schedule C (V (redis_perform R C q x s)) q e)"
  proof cases
    case Schedule
    have "?z (redis_perform R C q x s) = zinsert before (model_dump_json C e') t' (filter (\<lambda>(m', _). m' \<noteq> model_dump_json C e') (?z s))"
      by (simp add: Schedule schedule_state ks_zadd_def)
    then show ?thesis by (force simp: Schedule in_schedule_def)
  next
    case Promote
    have "?z (redis_perform R C q x s) = filter (\<lambda>(m, _). m \<notin> set (take 100 (due (V s) q now))) (?z s)"
      using promote_scheduled_moves_due [OF redis_service_axioms, of now q s] by (simp add: Promote)
    then show ?thesis by (force simp: Promote in_schedule_def)
  qed (simp add: in_schedule_def)
  then show "fst ` set (zsets (V (redis_perform R C q x s)) (sched_key q)) \<subseteq>
      fst ` set (zsets (V s) (sched_key q)) \<union> range (model_dump_json C)"
    and "in_schedule C (V s) q e \<Longrightarrow> in_schedule C (V (redis_perform R C q x s)) q e \<or>
      model_dump_json C e \<in> set (sent_by V C q x s)"
    and "x = Schedule e t \<Longrightarrow> in_schedule C (V (redis_perform R C q x s)) q e" by blast+
qed

lemma step_in_order:
  assumes wf: "queue_wf (V s) q" and es: "waiting (V s) q = map (model_dump_json C) es" and sc: "schedule_ok C (V s) q"
  shows "\<exists>rest. map (model_dump_json C) (got_by R C q x s @ rest) = map (model_dump_json C) es @ sent_by V C q x s \<and>
    waiting (V (redis_perform R C q x s)) q = map (model_dump_json C) rest"
proof (cases x)
  case (Publish e)
  then show ?thesis using publish_state [of s e] waiting_xadd [OF wf] es by (auto intro: exI [of _ "es @ [e]"])
next
  case (Lease c n)
  obtain ls where "fst (lease R C q q c n s) = Inr ls" "map envelope ls = take n es"
    using lease_returns [OF wf es, of c n] by blast
  with Lease show ?thesis
    using waiting_xreadgroup(1) [OF wf] by (auto simp: lease_state [OF wf] es drop_map simp flip: map_append intro: exI [of _ "drop n es"])
next
  case (Promote now)
  have "set (take 100 (due (V s) q now)) \<subseteq> range (model_dump_json C)"
    using sc by (force simp: schedule_ok_def due_def dest!: in_set_takeD)
  then obtain ps where ps: "take 100 (due (V s) q now) = map (model_dump_json C) ps" by (metis ex_map_conv subsetD imageE)
  have "r_zrangebyscore R (sched_key q) now 100 s = take 100 (due (V s) q now)"
    by (simp add: zrangebyscore ks_zrangebyscore_def due_def)
  with Promote show ?thesis
    using waiting_promote [OF wf] by (simp add: promote_scheduled_def promote_scheduled_lua_def es ps exI [of _ "es @ ps"])
next
  case (DeadLetter e reason)
  then show ?thesis using dead_letter_state [of e reason s] es by (auto simp: waiting_dlq intro: exI [of _ es])
next
  case (Schedule e t)
  then show ?thesis by (intro exI [of _ es]) (simp add: schedule_state waiting_same_streams [OF streams_zset(1)] es)
qed (use waiting_same [OF wf] es in
  \<open>auto simp: reclaim_state [OF wf] ack_def nack_def xack elapse ensure_queue_again [OF wf] intro: exI [of _ es]\<close>)

lemma schedule_ok_step:
  "queue_wf (V s) q \<Longrightarrow> schedule_ok C (V s) q \<Longrightarrow> schedule_ok C (V (redis_perform R C q x s)) q"
  using schedule_step(1) [of s x] unfolding schedule_ok_def by blast

lemma run_in_order:
  assumes "queue_wf (V s) q" and "waiting (V s) q = map (model_dump_json C) es" and "schedule_ok C (V s) q"
  shows "\<exists>rest. map (model_dump_json C) (deliveries R C q xs s @ rest) = map (model_dump_json C) es @ stream_log R V C q xs s \<and>
    waiting (V (fold (redis_perform R C q) xs s)) q = map (model_dump_json C) rest"
  using assms
proof (induction xs arbitrary: s es)
  case (Cons x xs)
  obtain r1 where r1: "map (model_dump_json C) (got_by R C q x s @ r1) = map (model_dump_json C) es @ sent_by V C q x s"
      "waiting (V (redis_perform R C q x s)) q = map (model_dump_json C) r1"
    using step_in_order [OF Cons.prems] by blast
  from Cons.IH [OF alo.wf_perform [OF Cons.prems(1)] r1(2) schedule_ok_step [OF Cons.prems(1,3)]] obtain r2 where
    r2: "map (model_dump_json C) (deliveries R C q xs (redis_perform R C q x s) @ r2) =
        map (model_dump_json C) r1 @ stream_log R V C q xs (redis_perform R C q x s)"
      "waiting (V (fold (redis_perform R C q) xs (redis_perform R C q x s))) q = map (model_dump_json C) r2" by blast
  have "map (model_dump_json C) (deliveries R C q (x # xs) s @ r2) = map (model_dump_json C) es @ stream_log R V C q (x # xs) s"
    using r1(1) r2(1) by (metis append_assoc map_append deliveries.simps(2) stream_log.simps(2))
  with r2(2) show ?case by auto
qed auto

lemma scheduled_kept:
  assumes "queue_wf (V s) q" and "in_schedule C (V s) q e \<or> (\<exists>t. Schedule e t \<in> set xs)"
  shows "in_schedule C (V (fold (redis_perform R C q) xs s)) q e \<or> model_dump_json C e \<in> set (stream_log R V C q xs s)"
  using assms
proof (induction xs arbitrary: s)
  case (Cons x xs)
  then consider "in_schedule C (V (redis_perform R C q x s)) q e \<or> (\<exists>t. Schedule e t \<in> set xs)"
    | "model_dump_json C e \<in> set (sent_by V C q x s)"
    using schedule_step(2,3) [OF Cons.prems(1), where x = x and e = e] by auto
  then show ?case using Cons.IH [OF alo.wf_perform [OF Cons.prems(1), of x]] by cases auto
qed simp

end

text \<open>
  C15: First deliveries are exactly what was put on the stream, in order, and nothing scheduled is lost. Consider a
  queue with nothing left to deliver whose schedule holds serialised envelopes only, and any sequence of
  publications, schedulings, promotions by the scheduler, leases, acknowledgements, negative acknowledgements,
  reclaims, dead letters, repeated creations of the queue and passing time. The
  envelopes that the leases return, one after the other, followed by those that still wait on the stream, are those
  that were appended to the stream: at each publication the published one, at each promotion the first 100 members
  of the schedule that are due, in this order, each once and unchanged. An envelope that was in the schedule or
  was scheduled meanwhile is still in the schedule, was leased or waits on the stream.
\<close>

theorem published_leased_in_order:
  assumes "redis_service R V before" and "codec_ok C" and "queue_wf (V s) q" and "ready_ids (V s) q = []"
    and "schedule_ok C (V s) q"
  shows "\<exists>rest. map (model_dump_json C) (deliveries R C q xs s @ rest) = stream_log R V C q xs s \<and>
    waiting (V (fold (redis_perform R C q) xs s)) q = map (model_dump_json C) rest \<and>
    (\<forall>e. in_schedule C (V s) q e \<or> (\<exists>t. Schedule e t \<in> set xs) \<longrightarrow>
      in_schedule C (V (fold (redis_perform R C q) xs s)) q e \<or> e \<in> set (deliveries R C q xs s @ rest))"
proof -
  have rq: "redis_queue R V before C" using assms(1,2) by (simp add: redis_queue_def redis_queue_axioms_def)
  moreover have "waiting (V s) q = map (model_dump_json C) []"
    using assms(4) by (auto simp: waiting_def ready_ids_def split: option.splits)
  ultimately obtain rest where rest: "map (model_dump_json C) (deliveries R C q xs s @ rest) = stream_log R V C q xs s"
      "waiting (V (fold (redis_perform R C q) xs s)) q = map (model_dump_json C) rest"
    using redis_queue.run_in_order [of R V before C s q "[]" xs] assms(3,5) by auto
  moreover have "e \<in> set (deliveries R C q xs s @ rest)" if "model_dump_json C e \<in> set (stream_log R V C q xs s)" for e
    using that codec_inj [OF assms(2)] by (force simp flip: rest(1))
  ultimately show ?thesis using redis_queue.scheduled_kept [OF rq assms(3), of _ xs] by blast
qed

lemma demo_queue_ready: "ready_ids demo_queue ''default'' = []"
  by (simp add: demo_queue_def ensure_queue_def ref_redis_def group_at_def empty_keyspace_def
      ks_xgroup_create_def stream_at_def empty_stream_def put_stream_def publish_def lease_def Let_def
      ks_xadd_def ks_xreadgroup_def undelivered_def put_group_def ready_ids_def queue_group_def)

definition demo_ops :: "broker_op list" where
  "demo_ops = [Publish (demo_envelope\<lparr>env_priority := 1\<rparr>), Schedule (demo_envelope\<lparr>env_priority := 2\<rparr>) 5, Lease ''b'' 1,
     Promote 9, Reclaim ''c'' 0 5, Lease ''c'' 3]"

theorem published_leased_in_order_witness:
  "\<exists>rest. map (model_dump_json ref_codec) (deliveries ref_redis ref_codec ''default'' demo_ops demo_queue @ rest) =
      stream_log ref_redis id ref_codec ''default'' demo_ops demo_queue \<and>
    waiting (id (fold (redis_perform ref_redis ref_codec ''default'') demo_ops demo_queue)) ''default'' =
      map (model_dump_json ref_codec) rest \<and>
    (in_schedule ref_codec (id (fold (redis_perform ref_redis ref_codec ''default'') demo_ops demo_queue)) ''default''
        (demo_envelope\<lparr>env_priority := 2\<rparr>) \<or>
      demo_envelope\<lparr>env_priority := 2\<rparr> \<in> set (deliveries ref_redis ref_codec ''default'' demo_ops demo_queue @ rest))"
proof -
  have "Schedule (demo_envelope\<lparr>env_priority := 2\<rparr>) 5 \<in> set demo_ops" by (simp add: demo_ops_def)
  moreover have "schedule_ok ref_codec (id demo_queue) ''default''" by (auto simp: schedule_ok_def ref_codec_def)
  ultimately show ?thesis
    using published_leased_in_order [OF ref_redis_service codec_ok_ref, of demo_queue "''default''" demo_ops]
      demo_queue_wf demo_queue_ready by (simp only: id_apply) blast
qed

end
