(* ===== verification/Fleet.thy ===== *)
theory Fleet
  imports Worker_Loop Control_Plane
begin

text \<open>
  The fleet as the control plane sees it: the settings a worker is started with
  (\<open>dtq/worker/__main__.py\<close>), the handler \<open>list_workers\<close> of \<open>dtq/control/app.py\<close> that reads the presence
  keys which the heartbeat loops of the workers write, and the handler \<open>event_stream\<close> that passes
  the events of the bus on. The contract relates the workers that are listed to the history of
  heartbeats, kills and passing time.
\<close>

section \<open>Starting a worker\<close>

text \<open>
  \<open>main\<close>: the command line overrides the settings \<open>env\<close> that the environment gives; \<open>hex8\<close> are the
  first eight digits of a fresh \<open>uuid4\<close>. An empty worker id counts as absent.
\<close>

definition main_settings ::
  "settings \<Rightarrow> string \<Rightarrow> string \<Rightarrow> int \<Rightarrow> int \<Rightarrow> string option \<Rightarrow> string \<Rightarrow> settings" where
  "main_settings env hex8 queues concurrency metrics_port worker_id broker =
     env\<lparr>cfg_worker_queues := split_on CHR '','' queues,
         cfg_worker_concurrency := concurrency,
         cfg_metrics_port := metrics_port,
         cfg_worker_id := (case worker_id of
             Some w \<Rightarrow> if w \<noteq> [] then w else ''worker-'' @ hex8
           | None \<Rightarrow> ''worker-'' @ hex8),
         cfg_broker_backend := broker\<rparr>"

section \<open>Listing the workers\<close>

text \<open>Python's \<open>s.replace(p, "")\<close> for a non-empty \<open>p\<close>, \<open>d.get(k, default)\<close> on a JSON value, the
  difference of a float and a JSON value, and \<open>round(x, 1)\<close>, which rounds a tie to the even digit.\<close>

function remove_all :: "string \<Rightarrow> string \<Rightarrow> string" where
  "remove_all p [] = []"
| "remove_all p (c # cs) =
     (if p \<noteq> [] \<and> has_prefix p (c # cs) then remove_all p (drop (length p) (c # cs))
      else c # remove_all p cs)"
  by pat_completeness auto
termination
  by (relation "measure (\<lambda>(p, s). length s)") auto

definition dict_get :: "json \<Rightarrow> string \<Rightarrow> json \<Rightarrow> exn + json" where
  "dict_get data k d = (case data of
       JObj ms \<Rightarrow> Inr (case map_of ms k of None \<Rightarrow> d | Some v \<Rightarrow> v)
     | _ \<Rightarrow> Inl (PyAttributeError ''object has no attribute get''))"

definition py_minus :: "real \<Rightarrow> json \<Rightarrow> exn + real" where
  "py_minus x v = (case v of
       JNum y \<Rightarrow> Inr (x - y)
     | JBool b \<Rightarrow> Inr (x - of_bool b)
     | _ \<Rightarrow> Inl (PyTypeError ''unsupported operand type(s) for -''))"

definition py_round1 :: "real \<Rightarrow> real" where
  "py_round1 x =
     (let n = \<lfloor>10 * x\<rfloor>; f = 10 * x - of_int n
      in of_int (if f < 1 / 2 \<or> f = 1 / 2 \<and> even n then n else n + 1) / 10)"

record worker_info =
  wi_worker_id :: string
  wi_queues :: "string list"
  wi_in_flight :: int
  wi_concurrency :: int
  wi_heartbeat_age_s :: real
  wi_version :: string
  wi_alive :: bool

text \<open>
  The validation of the fields that come from the presence key is pydantic's; \<open>validates\<close> is what
  is assumed of it: values of the declared types are taken as they are.
\<close>

type_synonym schema = "json \<Rightarrow> json \<Rightarrow> json \<Rightarrow> json \<Rightarrow> exn + string list \<times> int \<times> int \<times> string"

definition validates :: "schema \<Rightarrow> bool" where
  "validates W \<longleftrightarrow> (\<forall>queues (in_flight :: int) (concurrency :: int) version.
     W (JArr (map JStr queues)) (JNum (of_int in_flight)) (JNum (of_int concurrency)) (JStr version) =
       Inr (queues, in_flight, concurrency, version))"

text \<open>An expression that raises ends the handler.\<close>

definition res_bind :: "exn + 'a \<Rightarrow> ('a \<Rightarrow> exn + 'b) \<Rightarrow> exn + 'b" where
  "res_bind m f = (case m of Inl e \<Rightarrow> Inl e | Inr a \<Rightarrow> f a)"

lemma res_bind_simps [simp]: "res_bind (Inl e) f = Inl e" "res_bind (Inr a) f = f a"
  by (simp_all add: res_bind_def)

definition worker_response ::
  "schema \<Rightarrow> settings \<Rightarrow> string \<Rightarrow> json \<Rightarrow> timestamp \<Rightarrow> exn + worker_info" where
  "worker_response W cfg worker_id data now =
     res_bind (dict_get data ''timestamp'' (JNum 0)) (\<lambda>timestamp.
     res_bind (py_minus now timestamp) (\<lambda>age.
     res_bind (dict_get data ''queues'' (JArr [])) (\<lambda>queues.
     res_bind (dict_get data ''in_flight'' (JNum 0)) (\<lambda>in_flight.
     res_bind (dict_get data ''concurrency'' (JNum 0)) (\<lambda>concurrency.
     res_bind (dict_get data ''version'' (JStr [])) (\<lambda>version.
     res_bind (W queues in_flight concurrency version) (\<lambda>(qs, i, c, v).
       Inr \<lparr>wi_worker_id = worker_id, wi_queues = qs, wi_in_flight = i, wi_concurrency = c,
            wi_heartbeat_age_s = py_round1 age, wi_version = v,
            wi_alive = (age < cfg_heartbeat_interval_s cfg * 3)\<rparr>)))))))"

text \<open>
  The loop of \<open>list_workers\<close> over the keys that the scan yields, each with the state of the server and the
  clock when the loop reads it; \<open>loads\<close> is \<open>json.loads\<close>. The first exception ends the handler with
  an internal error.
\<close>

fun visit_workers ::
  "('s, 'v) redis \<Rightarrow> (string \<Rightarrow> exn + json) \<Rightarrow> schema \<Rightarrow> settings \<Rightarrow> (string \<times> 's \<times> timestamp) list \<Rightarrow>
   http_error + worker_info list" where
  "visit_workers R loads W cfg [] = Inr []"
| "visit_workers R loads W cfg ((key, s, now) # visits) =
     (let worker_id = remove_all ''worker:'' key
      in case r_get R key s of
           None \<Rightarrow> visit_workers R loads W cfg visits
         | Some raw \<Rightarrow>
             if raw = [] then visit_workers R loads W cfg visits
             else case res_bind (loads raw) (\<lambda>data. worker_response W cfg worker_id data now) of
                Inl e \<Rightarrow> Inl (InternalError e)
              | Inr w \<Rightarrow> (case visit_workers R loads W cfg visits of
                    Inl e \<Rightarrow> Inl e
                  | Inr workers \<Rightarrow> Inr (w # workers)))"

text \<open>
  \<open>scan_iter(match="worker:*")\<close> is a parameter: \<open>scan\<close> gives the keys that the iteration yields for a pattern
  while the server goes through the states \<open>seen 0\<close>, \<open>seen 1\<close>, \<open>\<dots>\<close>, of which the read of the \<open>i\<close>-th key
  finds \<open>seen i\<close> at the time \<open>clock i\<close>. Redis documents of a full iteration that it returns every key which
  exists from its start to its end, and only keys that match the pattern; it may return a key more
  than once, and it may or may not return one that comes or goes meanwhile.
\<close>

type_synonym 's scan = "string \<Rightarrow> (nat \<Rightarrow> 's) \<Rightarrow> string list"

definition scan_ok :: "('s \<Rightarrow> 'v keyspace) \<Rightarrow> 's scan \<Rightarrow> (nat \<Rightarrow> 's) \<Rightarrow> bool" where
  "scan_ok V scan seen \<longleftrightarrow> (\<forall>prefix.
     (\<forall>k. has_prefix prefix k \<and> (\<forall>i. strs (V (seen i)) k \<noteq> None) \<longrightarrow> k \<in> set (scan (prefix @ ''*'') seen)) \<and>
     (\<forall>k \<in> set (scan (prefix @ ''*'') seen). has_prefix prefix k))"

definition list_workers ::
  "('s, 'v) redis \<Rightarrow> 's scan \<Rightarrow> (string \<Rightarrow> exn + json) \<Rightarrow> schema \<Rightarrow> settings \<Rightarrow> (nat \<Rightarrow> 's) \<Rightarrow> (nat \<Rightarrow> timestamp) \<Rightarrow>
   http_error + worker_info list" where
  "list_workers R scan loads W cfg seen clock =
     visit_workers R loads W cfg
       (map (\<lambda>(i, key). (key, seen i, clock i)) (List.enumerate 0 (scan ''worker:*'' seen)))"

section \<open>The event stream\<close>

text \<open>
  A round of \<open>generate\<close> in \<open>event_stream\<close> for the subscription \<open>q\<close>: it waits (\<open>None\<close>), or takes an event and
  passes it on, or ends because the client is gone, and the event it took is dropped. Ending
  closes the subscription. \<open>dump\<close> is \<open>model_dump_json\<close>.
\<close>

definition sse_round :: "(task_event \<Rightarrow> string) \<Rightarrow> bool \<Rightarrow> nat \<Rightarrow> bus \<Rightarrow> ((string \<times> string) option \<times> bus) option" where
  "sse_round dump disconnected q b = (case next_event q b of
       None \<Rightarrow> None
     | Some (event, b') \<Rightarrow>
         Some (if disconnected then (None, unsubscribe q b') else (Some (ev_type event, dump event), b')))"

section \<open>The history of the fleet\<close>

text \<open>
  Heartbeats of workers, kills through the chaos endpoint and the passing of milliseconds, on the
  control plane's server and one clock for all hosts; and what the history says: the last
  heartbeat of each worker that was not killed since.
\<close>

datatype fleet_op =
    Beat settings nat timestamp
  | Kill string
  | Tick nat

fun fleet_do :: "('s, 'v) redis \<Rightarrow> (json \<Rightarrow> string) \<Rightarrow> fleet_op \<Rightarrow> ('s, 'd) plane \<times> nat \<Rightarrow> ('s, 'd) plane \<times> nat" where
  "fleet_do R dumps (Beat cfg n started) (p, t) =
     (pl_redis (worker_heartbeat R dumps cfg n started (real t / 1000) (w_redis (pl_world p))) p, t)"
| "fleet_do R dumps (Kill worker_id) (p, t) = (snd (api_chaos_kill_worker R worker_id p), t)"
| "fleet_do R dumps (Tick d) (p, t) = (pl_redis (r_elapse R d (w_redis (pl_world p))) p, t + d)"

record beat =
  b_cfg :: settings
  b_in_flight :: nat
  b_started :: timestamp
  b_at :: nat

definition ttl_of :: "settings \<Rightarrow> int" where
  "ttl_of cfg = \<lfloor>cfg_heartbeat_interval_s cfg * 3 * 1000\<rfloor>"

definition beat_data :: "beat \<Rightarrow> json" where
  "beat_data b = heartbeat_data (b_cfg b) (b_in_flight b) (b_started b) (real (b_at b) / 1000)"

fun beat_do :: "fleet_op \<Rightarrow> (string \<rightharpoonup> beat) \<times> nat \<Rightarrow> (string \<rightharpoonup> beat) \<times> nat" where
  "beat_do (Beat cfg n started) (bs, t) =
     (if 0 < ttl_of cfg then bs(cfg_worker_id cfg \<mapsto> \<lparr>b_cfg = cfg, b_in_flight = n, b_started = started, b_at = t\<rparr>)
      else bs, t)"
| "beat_do (Kill worker_id) (bs, t) = (bs(worker_id := None), t)"
| "beat_do (Tick d) (bs, t) = (bs, t + d)"

text \<open>A beat is present until its time to live has passed; a worker with a present beat is reported.\<close>

definition present :: "nat \<Rightarrow> beat \<Rightarrow> bool" where
  "present t b \<longleftrightarrow> int t < int (b_at b) + ttl_of (b_cfg b)"

definition report :: "settings \<Rightarrow> nat \<Rightarrow> (string \<rightharpoonup> beat) \<Rightarrow> string \<Rightarrow> worker_info option" where
  "report cfg t bs worker_id = (case bs worker_id of
       None \<Rightarrow> None
     | Some b \<Rightarrow> if present t b
         then Some \<lparr>wi_worker_id = remove_all ''worker:'' worker_id, wi_queues = cfg_worker_queues (b_cfg b),
           wi_in_flight = int (b_in_flight b), wi_concurrency = cfg_worker_concurrency (b_cfg b),
           wi_heartbeat_age_s = py_round1 (real t / 1000 - real (b_at b) / 1000), wi_version = ''0.1.0'',
           wi_alive = (real t / 1000 - real (b_at b) / 1000 < cfg_heartbeat_interval_s cfg * 3)\<rparr>
         else None)"

section \<open>The presence keys follow the history\<close>

lemma remove_all_worker_key: "remove_all ''worker:'' (worker_key w) = remove_all ''worker:'' w"
  by (simp add: worker_key_def has_prefix_def)

lemma worker_response_beat:
  assumes "validates W"
  shows "worker_response W cfg w (beat_data b) now = Inr \<lparr>wi_worker_id = w, wi_queues = cfg_worker_queues (b_cfg b),
    wi_in_flight = int (b_in_flight b), wi_concurrency = cfg_worker_concurrency (b_cfg b),
    wi_heartbeat_age_s = py_round1 (now - real (b_at b) / 1000), wi_version = ''0.1.0'',
    wi_alive = (now - real (b_at b) / 1000 < cfg_heartbeat_interval_s cfg * 3)\<rparr>"
proof -
  have "W (JArr (map JStr qs)) (JNum (real n)) (JNum (of_int c)) (JStr v) = Inr (qs, int n, c, v)" for qs n c v
    using assms unfolding validates_def by (metis of_int_of_nat_eq)
  then show ?thesis by (simp add: worker_response_def beat_data_def heartbeat_data_def dict_get_def py_minus_def)
qed

text \<open>The presence keys as the history gives them.\<close>

definition presence :: "(json \<Rightarrow> string) \<Rightarrow> (string \<rightharpoonup> beat) \<Rightarrow> nat \<Rightarrow> string \<Rightarrow> (string \<times> nat option) option" where
  "presence dumps bs t w = Option.bind (bs w) (\<lambda>b.
     if present t b then Some (dumps (beat_data b), Some (nat (int (b_at b) + ttl_of (b_cfg b) - int t))) else None)"

definition beats_ok :: "(string \<rightharpoonup> beat) \<times> nat \<Rightarrow> bool" where
  "beats_ok h \<longleftrightarrow> (\<forall>w b. fst h w = Some b \<longrightarrow> b_at b \<le> snd h \<and> 0 < ttl_of (b_cfg b))"

lemma presence_pass:
  "presence dumps bs (t + d) w = Option.bind (presence dumps bs t w) (elapse_str d)"
  by (cases "bs w") (auto simp: presence_def present_def elapse_str_def)

lemma beat_do_ok: "beats_ok h \<Longrightarrow> beats_ok (beat_do x h)"
  by (cases x; cases h) (auto simp: beats_ok_def intro: trans_le_add1)

lemma beats_run_ok: "beats_ok h \<Longrightarrow> beats_ok (fold beat_do xs h)"
  by (induction xs arbitrary: h) (simp_all add: beat_do_ok)

definition follows ::
  "('s \<Rightarrow> 'v keyspace) \<Rightarrow> (json \<Rightarrow> string) \<Rightarrow> ('s, 'd) plane \<times> nat \<Rightarrow> (string \<rightharpoonup> beat) \<times> nat \<Rightarrow> bool" where
  "follows V dumps r h \<longleftrightarrow> snd r = snd h \<and>
     (\<forall>w. strs (V (w_redis (pl_world (fst r)))) (worker_key w) = presence dumps (fst h) (snd h) w)"

lemma worker_heartbeat_set:
  "worker_heartbeat R dumps cfg n started now s =
     snd (r_set_px R (worker_key (cfg_worker_id cfg)) (dumps (heartbeat_data cfg n started now)) (ttl_of cfg) s)"
  by (simp add: worker_heartbeat_def set_worker_heartbeat_def ttl_of_def Let_def split: prod.split sum.split)

context redis_service begin

lemma heartbeat_written:
  "strs (V (worker_heartbeat R dumps cfg n started now s)) k =
     (if 0 < ttl_of cfg \<and> k = worker_key (cfg_worker_id cfg)
      then Some (dumps (heartbeat_data cfg n started now), Some (nat (ttl_of cfg))) else strs (V s) k)"
proof (cases "0 < ttl_of cfg")
  case True
  then show ?thesis by (simp add: worker_heartbeat_set set_px_ok ks_set_def)
next
  case False
  then show ?thesis
    using set_px_error [of "worker_key (cfg_worker_id cfg)" "ttl_of cfg" "dumps (heartbeat_data cfg n started now)" s]
    by (auto simp: worker_heartbeat_set)
qed

lemma follows_step:
  assumes "follows V dumps r h"
  shows "follows V dumps (fleet_do R dumps x r) (beat_do x h)"
proof -
  obtain p t bs where r: "r = (p, t)" "h = (bs, t)" using assms by (cases r; cases h) (auto simp: follows_def)
  then have eq: "strs (V (w_redis (pl_world p))) (worker_key w) = presence dumps bs t w" for w
    using assms by (simp add: follows_def)
  show ?thesis
  proof (cases x)
    case (Beat cfg n started)
    then show ?thesis
      by (auto simp: r follows_def pl_redis_def heartbeat_written eq) (auto simp: presence_def present_def beat_data_def)
  next
    case (Kill w)
    then show ?thesis
      by (auto simp: r follows_def pl_redis_def api_chaos_kill_worker_def del ks_del_def eq) (auto simp: presence_def)
  next
    case (Tick d)
    then show ?thesis by (simp add: r follows_def pl_redis_def elapse ks_elapse_def eq presence_pass)
  qed
qed

lemma follows_run: "follows V dumps r h \<Longrightarrow> follows V dumps (fold (fleet_do R dumps) xs r) (fold beat_do xs h)"
  by (induction xs arbitrary: r h) (simp_all add: follows_step)

lemma visit_workers_follows:
  assumes "follows V dumps (p, t) (bs, t)" "validates W"
    and codec: "\<And>w b. bs w = Some b \<Longrightarrow> loads (dumps (beat_data b)) = Inr (beat_data b) \<and> dumps (beat_data b) \<noteq> []"
  shows "visit_workers R loads W cfg (map (\<lambda>w. (worker_key w, w_redis (pl_world p), real t / 1000)) ws) =
    Inr (List.map_filter (report cfg t bs) ws)"
proof (induction ws)
  case (Cons w ws)
  have get_w: "r_get R (worker_key w) (w_redis (pl_world p)) = map_option fst (presence dumps bs t w)"
    using assms(1) by (simp add: get ks_get_def follows_def)
  show ?case
  proof (cases "bs w")
    case (Some b)
    with Cons codec [OF Some] show ?thesis
      by (simp add: get_w presence_def report_def map_filter_simps remove_all_worker_key
          worker_response_beat [OF assms(2)])
  qed (use Cons in \<open>simp add: get_w presence_def report_def map_filter_simps\<close>)
qed (simp add: map_filter_simps)

end

text \<open>With one clock, a worker that is still present is younger than three intervals.\<close>

lemma report_alive:
  assumes "beats_ok (bs, t)" "report cfg t bs w = Some i"
    and "\<And>b. bs w = Some b \<Longrightarrow> cfg_heartbeat_interval_s (b_cfg b) = cfg_heartbeat_interval_s cfg"
  shows "wi_alive i"
proof -
  obtain b where b: "bs w = Some b" "present t b" "b_at b \<le> t"
    using assms(1,2) by (auto simp: report_def beats_ok_def split: option.splits if_splits)
  then have "real_of_int (int t - int (b_at b)) < 3000 * cfg_heartbeat_interval_s (b_cfg b)"
    by (simp add: present_def ttl_of_def) linarith
  with b assms(2,3) show ?thesis by (auto simp: report_def)
qed

section \<open>The listing\<close>

text \<open>A key that matches the pattern is the presence key of some worker, and a reported worker has a presence key.\<close>

lemma scanned_keys:
  assumes "scan_ok V scan seen"
  shows "\<exists>ws. scan ''worker:*'' seen = map worker_key ws \<and> (\<forall>w. (\<forall>i. strs (V (seen i)) (worker_key w) \<noteq> None) \<longrightarrow> w \<in> set ws)"
proof -
  let ?keys = "scan ''worker:*'' seen"
  have all: "has_prefix ''worker:'' k \<Longrightarrow> (\<And>i. strs (V (seen i)) k \<noteq> None) \<Longrightarrow> k \<in> set ?keys" for k
    using assms [unfolded scan_ok_def, rule_format, of "''worker:''"] by simp
  have only: "has_prefix ''worker:'' k" if "k \<in> set ?keys" for k
    using assms [unfolded scan_ok_def, rule_format, of "''worker:''"] that by auto
  have key: "worker_key (drop 7 k) = k" if "has_prefix ''worker:'' k" for k
  proof -
    have "take (length ''worker:'') k = ''worker:''" using that by (simp only: has_prefix_def)
    then have "take 7 k = ''worker:''" by (simp add: numeral_eq_Suc)
    then show ?thesis using append_take_drop_id [of 7 k] unfolding worker_key_def by (simp only:)
  qed
  have "map worker_key (map (drop 7) ?keys) = ?keys"
    using only key by (auto intro: map_idI)
  moreover have "w \<in> set (map (drop 7) ?keys)" if "\<And>i. strs (V (seen i)) (worker_key w) \<noteq> None" for w
    using all [of "worker_key w"] that by (force simp: worker_key_def has_prefix_def image_iff)
  ultimately show ?thesis by metis
qed

lemma reported_present: "report cfg t bs w = Some i \<Longrightarrow> presence dumps bs t w \<noteq> None"
  by (auto simp: report_def presence_def split: option.splits if_splits)

lemma enumerate_const: "map (\<lambda>(i, key). f key) (List.enumerate n keys) = map f keys"
  by (induction keys arbitrary: n) auto

text \<open>
  C34: The listing of the workers is exact. After any history of heartbeats, kills and passing time on
  a server without presence keys, and with nothing changing while it runs, \<open>list_workers\<close> answers with
  exactly the workers whose last heartbeat is younger than three of their intervals and that were not
  killed since, with the queues, concurrency and number of tasks of that heartbeat and its age; nobody
  else is listed and nobody is missing (a worker may be listed twice when the scan repeats its key).
  A worker that is not heard of for three intervals is therefore not listed as dead but not listed at all: where
  all processes have the same interval, the field \<open>alive\<close> is true for everybody listed.
\<close>

theorem list_workers_exact:
  assumes "redis_service R V before" and "scan_ok V scan (\<lambda>_. w_redis (pl_world p'))"
    and "\<forall>w. strs (V (w_redis (pl_world p))) (worker_key w) = None"
    and "fold (fleet_do R dumps) xs (p, 0) = (p', t)" and "fold beat_do xs (Map.empty, 0) = (bs, t')"
    and "\<forall>w b. bs w = Some b \<longrightarrow> loads (dumps (beat_data b)) = Inr (beat_data b) \<and> dumps (beat_data b) \<noteq> []"
    and "validates W"
  shows "\<exists>workers. list_workers R scan loads W cfg (\<lambda>_. w_redis (pl_world p')) (\<lambda>_. real t / 1000) = Inr workers \<and>
    set workers = {i. \<exists>w. report cfg t bs w = Some i} \<and>
    ((\<forall>w b. bs w = Some b \<longrightarrow> cfg_heartbeat_interval_s (b_cfg b) = cfg_heartbeat_interval_s cfg) \<longrightarrow>
      list_all wi_alive workers)"
proof -
  let ?s = "w_redis (pl_world p')"
  have "follows V dumps (p, 0) (Map.empty, 0)" using assms(3) by (simp add: follows_def presence_def)
  from redis_service.follows_run [OF assms(1) this, of xs]
  have "follows V dumps (p', t) (bs, t')" by (simp add: assms(4,5))
  then have t: "t' = t" and f: "follows V dumps (p', t) (bs, t)" by (simp_all add: follows_def)
  have ok: "beats_ok (bs, t)" using beats_run_ok [of "(Map.empty, 0)" xs] by (simp add: beats_ok_def assms(5) t)
  obtain ws where ws: "scan ''worker:*'' (\<lambda>_. ?s) = map worker_key ws"
      "\<And>w. strs (V ?s) (worker_key w) \<noteq> None \<Longrightarrow> w \<in> set ws"
    using scanned_keys [OF assms(2)] by auto
  have all: "report cfg t bs w = Some i \<Longrightarrow> w \<in> set ws" for w i
    using ws(2) reported_present [of cfg t bs w i dumps] f by (simp add: follows_def)
  have "list_workers R scan loads W cfg (\<lambda>_. ?s) (\<lambda>_. real t / 1000) = Inr (List.map_filter (report cfg t bs) ws)"
    using redis_service.visit_workers_follows [OF assms(1) f assms(7), of loads cfg ws] assms(6)
    by (simp add: list_workers_def ws(1) enumerate_const o_def)
  moreover have "set (List.map_filter (report cfg t bs) ws) = {i. \<exists>w. report cfg t bs w = Some i}"
    using all by (force simp: map_filter_def)
  ultimately show ?thesis using report_alive [OF ok] by (fastforce simp: list_all_iff)
qed

definition demo_plane :: "(unit keyspace, unit) plane" where
  "demo_plane = \<lparr>pl_world = \<lparr>w_redis = empty_keyspace, w_db = ()\<rparr>, pl_bus = empty_bus\<rparr>"

definition demo_beat :: beat where
  "demo_beat = \<lparr>b_cfg = default_settings, b_in_flight = 2, b_started = 0, b_at = 0\<rparr>"

fun ref_schema :: schema where
  "ref_schema (JArr queues) (JNum i) (JNum c) (JStr v) =
     Inr (map (\<lambda>q. case q of JStr s \<Rightarrow> s | _ \<Rightarrow> []) queues, \<lfloor>i\<rfloor>, \<lfloor>c\<rfloor>, v)"
| "ref_schema _ _ _ _ = Inl (ValidationError [])"

lemma validates_ref_schema: "validates ref_schema"
  by (simp add: validates_def o_def)

text \<open>A scan for the reference server where two workers were seen: it yields the keys of those that exist.\<close>

definition demo_scan :: "unit keyspace scan" where
  "demo_scan pattern seen =
     filter (\<lambda>k. has_prefix (butlast pattern) k \<and> strs (seen 0) k \<noteq> None) [''worker:w2'', ''worker:worker-1'']"

definition demo_history :: "fleet_op list" where
  "demo_history = [Beat default_settings 2 0, Tick 5000, Beat (default_settings\<lparr>cfg_worker_id := ''w2''\<rparr>) 1 5, Kill ''w2'']"

definition demo_fleet :: "(unit keyspace, unit) plane \<times> nat" where
  "demo_fleet = fold (fleet_do ref_redis (\<lambda>_. ''{}'')) demo_history (demo_plane, 0)"

lemma demo_beats: "fold beat_do demo_history (Map.empty, 0) = ([''worker-1'' \<mapsto> demo_beat], 5000)"
  by (simp add: demo_history_def ttl_of_def default_settings_def demo_beat_def fun_upd_idem_iff)

lemma demo_present: "strs (w_redis (pl_world (fst demo_fleet))) k = (if k = ''worker:worker-1'' then Some (''{}'', Some 25000) else None)"
proof -
  have "0 < ttl_of default_settings \<and> 0 < ttl_of (default_settings\<lparr>cfg_worker_id := ''w2''\<rparr>)"
    by (simp add: ttl_of_def default_settings_def)
  then show ?thesis
    by (simp add: demo_fleet_def demo_history_def pl_redis_def ref.heartbeat_written [unfolded id_apply] api_chaos_kill_worker_def
        ref_redis_run ks_del_def ks_elapse_def elapse_str_def demo_plane_def empty_keyspace_def worker_key_def default_settings_def
        ttl_of_def)
qed

lemma demo_scan_ok: "scan_ok id demo_scan (\<lambda>_. w_redis (pl_world (fst demo_fleet)))"
  by (auto simp: scan_ok_def demo_scan_def demo_present split: if_splits)

theorem list_workers_exact_witness:
  "\<exists>workers. list_workers ref_redis demo_scan (\<lambda>_. Inr (beat_data demo_beat)) ref_schema default_settings
        (\<lambda>_. w_redis (pl_world (fst demo_fleet))) (\<lambda>_. real 5000 / 1000) = Inr workers \<and>
      set workers = {\<lparr>wi_worker_id = ''worker-1'', wi_queues = [''default''], wi_in_flight = 2, wi_concurrency = 8,
        wi_heartbeat_age_s = 5, wi_version = ''0.1.0'', wi_alive = True\<rparr>}"
proof -
  let ?i = "\<lparr>wi_worker_id = ''worker-1'', wi_queues = [''default''], wi_in_flight = 2, wi_concurrency = 8,
        wi_heartbeat_age_s = 5, wi_version = ''0.1.0'', wi_alive = True\<rparr>"
  have "demo_fleet = (fst demo_fleet, 5000)" by (simp add: demo_fleet_def demo_history_def)
  then have run: "fold (fleet_do ref_redis (\<lambda>_. ''{}'')) demo_history (demo_plane, 0) = (fst demo_fleet, 5000)"
    by (simp add: demo_fleet_def)
  have "report default_settings 5000 [''worker-1'' \<mapsto> demo_beat] w = (if w = ''worker-1'' then Some ?i else None)" for w
    by (simp add: report_def demo_beat_def present_def ttl_of_def default_settings_def py_round1_def has_prefix_def)
  then have "{i. \<exists>w. report default_settings 5000 [''worker-1'' \<mapsto> demo_beat] w = Some i} = {?i}" by auto
  moreover have "strs (id (w_redis (pl_world demo_plane))) (worker_key w) = None" for w
    by (simp add: demo_plane_def empty_keyspace_def)
  moreover have "[''worker-1'' \<mapsto> demo_beat] w = Some b \<Longrightarrow>
      Inr (beat_data demo_beat) = Inr (beat_data b) \<and> ''{}'' \<noteq> []" for w b by (simp split: if_splits)
  ultimately show ?thesis
    using list_workers_exact [OF ref_redis_service demo_scan_ok _ run demo_beats _ validates_ref_schema,
        of "\<lambda>_. Inr (beat_data demo_beat)" default_settings] by simp blast
qed

end
