(* ===== verification/Grpc_Control.thy ===== *)
theory Grpc_Control
  imports Core_Models
begin

text \<open>
  The worker control channel: \<open>dtq/control/grpc_server.py\<close> and \<open>dtq/worker/grpc_client.py\<close>. A
  \<open>WorkerSession\<close> is an object that the registry \<open>_sessions\<close> and the coroutine of a stream may share
  or not, so the objects live in an explicit store: the registry maps a worker to the address of its
  session, and a stream keeps the address it found with its first event. Requests and events are
  dictionaries decoded from JSON; a field that is absent is \<open>None\<close>.
\<close>

section \<open>Server state\<close>

datatype command = Command string "(string \<times> json) list"

record session =
  se_worker_id :: string
  se_queues :: "string list"
  se_concurrency :: int
  se_version :: string
  se_in_flight :: int
  se_last_heartbeat :: timestamp
  se_connected_at :: timestamp
  se_command_queue :: "command list"
  se_alive :: bool

definition new_session :: "timestamp \<Rightarrow> string \<Rightarrow> session" where
  "new_session now worker_id = \<lparr>se_worker_id = worker_id, se_queues = [], se_concurrency = 0, se_version = [],
     se_in_flight = 0, se_last_heartbeat = now, se_connected_at = now, se_command_queue = [], se_alive = True\<rparr>"

text \<open>The local variables of a call of \<open>Session\<close>.\<close>

record stream_call =
  sc_worker_id :: "string option"
  sc_session :: "nat option"

record server =
  sv_store :: "session list"
  sv_sessions :: "string \<Rightarrow> nat option"
  sv_streams :: "nat \<Rightarrow> stream_call option"

definition start_server :: server where
  "start_server = \<lparr>sv_store = [], sv_sessions = (\<lambda>_. None), sv_streams = (\<lambda>_. None)\<rparr>"

definition upd_session :: "nat \<Rightarrow> (session \<Rightarrow> session) \<Rightarrow> server \<Rightarrow> server" where
  "upd_session a f sv =
     (if a < length (sv_store sv) then sv\<lparr>sv_store := (sv_store sv)[a := f (sv_store sv ! a)]\<rparr> else sv)"

definition get_worker_sessions :: "server \<Rightarrow> string \<Rightarrow> nat option" where
  "get_worker_sessions sv = sv_sessions sv"

text \<open>\<open>_sessions[worker_id] = session\<close> for a new object.\<close>

definition add_session :: "session \<Rightarrow> server \<Rightarrow> server" where
  "add_session s sv = sv\<lparr>sv_store := sv_store sv @ [s],
     sv_sessions := (sv_sessions sv)(se_worker_id s \<mapsto> length (sv_store sv))\<rparr>"

section \<open>Commands\<close>

definition send_command :: "string \<Rightarrow> command \<Rightarrow> server \<Rightarrow> bool \<times> server" where
  "send_command worker_id command sv =
     (case sv_sessions sv worker_id of
        None \<Rightarrow> (False, sv)
      | Some a \<Rightarrow>
          if \<not> se_alive (sv_store sv ! a) then (False, sv)
          else (True, upd_session a (\<lambda>s. s\<lparr>se_command_queue := se_command_queue s @ [command]\<rparr>) sv))"

definition drain_worker :: "string \<Rightarrow> int \<Rightarrow> server \<Rightarrow> (bool \<times> string) \<times> server" where
  "drain_worker worker_id timeout_s sv =
     (let (sent, sv') = send_command worker_id
            (Command ''drain'' [(''timeout_s'', JNum (of_int timeout_s))]) sv
      in if \<not> sent then ((False, ''Worker '' @ worker_id @ '' not connected''), sv')
         else ((True, ''Drain command sent to '' @ worker_id), sv'))"

section \<open>The servicer\<close>

definition get_field :: "'a \<Rightarrow> 'a option \<Rightarrow> 'a" where
  "get_field d x = (case x of None \<Rightarrow> d | Some v \<Rightarrow> v)"

record register_request =
  rr_worker_id :: "string option"
  rr_queues :: "string list option"
  rr_concurrency :: "int option"
  rr_version :: "string option"

record register_reply =
  rp_accepted :: bool
  rp_message :: string

definition Register :: "timestamp \<Rightarrow> register_request \<Rightarrow> server \<Rightarrow> register_reply \<times> server" where
  "Register now request sv =
     (let session = (new_session now (get_field [] (rr_worker_id request)))
            \<lparr>se_queues := get_field [] (rr_queues request), se_concurrency := get_field 8 (rr_concurrency request),
             se_version := get_field [] (rr_version request)\<rparr>
      in (\<lparr>rp_accepted = True, rp_message = ''Registered''\<rparr>, add_session session sv))"

record drain_request =
  dr_worker_id :: "string option"
  dr_timeout_s :: "int option"

record drain_reply =
  dp_success :: bool
  dp_tasks_drained :: int
  dp_message :: string

definition Drain :: "drain_request \<Rightarrow> server \<Rightarrow> drain_reply \<times> server" where
  "Drain request sv =
     (let ((success, message), sv') =
            drain_worker (get_field [] (dr_worker_id request)) (get_field 30 (dr_timeout_s request)) sv
      in (\<lparr>dp_success = success, dp_tasks_drained = 0, dp_message = message\<rparr>, sv'))"

text \<open>
  A call of \<open>Session\<close>: its start, one event of the request iterator in \<open>read_events\<close>, one round of
  the loop that yields commands (\<open>None\<close> is a loop that waits: for the session, or for a command),
  and the \<open>finally\<close> block.
\<close>

record worker_event =
  we_worker_id :: "string option"
  we_type :: "string option"
  we_in_flight :: "int option"

definition open_stream :: "nat \<Rightarrow> server \<Rightarrow> server" where
  "open_stream i sv = sv\<lparr>sv_streams := (sv_streams sv)(i \<mapsto> \<lparr>sc_worker_id = None, sc_session = None\<rparr>)\<rparr>"

definition bind_stream :: "timestamp \<Rightarrow> nat \<Rightarrow> string \<Rightarrow> server \<Rightarrow> server" where
  "bind_stream now i wid sv =
     (let sv1 = (if sv_sessions sv wid = None then add_session (new_session now wid) sv else sv)
      in sv1\<lparr>sv_streams := (sv_streams sv1)(i \<mapsto> \<lparr>sc_worker_id = Some wid, sc_session = sv_sessions sv1 wid\<rparr>)\<rparr>)"

definition read_event :: "timestamp \<Rightarrow> nat \<Rightarrow> worker_event \<Rightarrow> server \<Rightarrow> server" where
  "read_event now i event sv =
     (case sv_streams sv i of
        None \<Rightarrow> sv
      | Some st \<Rightarrow>
          let wid = get_field [] (we_worker_id event);
              sv1 = (if sc_worker_id st = None then bind_stream now i wid sv else sv)
          in case Option.bind (sv_streams sv1 i) sc_session of
               None \<Rightarrow> sv1
             | Some a \<Rightarrow>
                 if we_type event = Some ''heartbeat''
                 then upd_session a (\<lambda>s. s\<lparr>se_in_flight := get_field 0 (we_in_flight event),
                                           se_last_heartbeat := now\<rparr>) sv1
                 else sv1)"

definition next_command :: "nat \<Rightarrow> server \<Rightarrow> (command \<times> server) option" where
  "next_command i sv =
     (case Option.bind (sv_streams sv i) sc_session of
        None \<Rightarrow> None
      | Some a \<Rightarrow>
          (case se_command_queue (sv_store sv ! a) of
             [] \<Rightarrow> None
           | c # cs \<Rightarrow> Some (c, upd_session a (\<lambda>s. s\<lparr>se_command_queue := cs\<rparr>) sv)))"

definition close_stream :: "nat \<Rightarrow> server \<Rightarrow> server" where
  "close_stream i sv =
     (let sv1 = sv\<lparr>sv_streams := (sv_streams sv)(i := None)\<rparr>
      in case Option.bind (sv_streams sv i) sc_worker_id of
           None \<Rightarrow> sv1
         | Some wid \<Rightarrow>
             if wid = [] then sv1
             else (case sv_sessions sv1 wid of
                     None \<Rightarrow> sv1
                   | Some a \<Rightarrow> upd_session a (\<lambda>s. s\<lparr>se_alive := False\<rparr>) sv1))"

text \<open>The methods that \<open>serve_grpc\<close> has a handler for.\<close>

datatype rpc_handler = HandleRegister | HandleDrain

definition service :: "string \<Rightarrow> rpc_handler option" where
  "service method =
     (if method = ''/dtq.worker_control.WorkerControl/Register'' then Some HandleRegister
      else if method = ''/dtq.worker_control.WorkerControl/Drain'' then Some HandleDrain
      else None)"

text \<open>
  What \<open>serve_grpc\<close> starts: the address it listens on (a port of 0 or \<open>None\<close> means the configured
  one) and its generic handler.
\<close>

record grpc_listener =
  gl_address :: string
  gl_handlers :: "string \<Rightarrow> rpc_handler option"

definition serve_grpc :: "settings \<Rightarrow> int option \<Rightarrow> grpc_listener" where
  "serve_grpc cfg port =
     (let grpc_port = (case port of Some p \<Rightarrow> if p \<noteq> 0 then p else cfg_grpc_port cfg | None \<Rightarrow> cfg_grpc_port cfg)
      in \<lparr>gl_address = ''[::]:'' @ str_int grpc_port, gl_handlers = service\<rparr>)"

section \<open>The client\<close>

text \<open>A callback is its name; what it does is up to the worker that registers it.\<close>

record client =
  cl_worker_id :: string
  cl_queues :: "string list"
  cl_concurrency :: int
  cl_channel :: bool
  cl_connected :: bool
  cl_callbacks :: "string \<Rightarrow> string option"
  cl_event_queue :: "json list"

definition new_client :: "settings \<Rightarrow> client" where
  "new_client cfg = \<lparr>cl_worker_id = cfg_worker_id cfg, cl_queues = cfg_worker_queues cfg,
     cl_concurrency = cfg_worker_concurrency cfg, cl_channel = False, cl_connected = False,
     cl_callbacks = (\<lambda>_. None), cl_event_queue = []\<rparr>"

text \<open>\<open>ready\<close> says whether \<open>channel_ready()\<close> returns or raises.\<close>

definition cl_connect :: "bool \<Rightarrow> client \<Rightarrow> client" where
  "cl_connect ready c = c\<lparr>cl_channel := True, cl_connected := ready\<rparr>"

definition cl_close :: "client \<Rightarrow> client" where
  "cl_close c = c\<lparr>cl_channel := False, cl_connected := False\<rparr>"

text \<open>
  \<open>rpc\<close> is the call of the method \<open>Register\<close> over the channel; \<open>Inr\<close> is the field \<open>accepted\<close> of the
  reply, if it has one.
\<close>

definition cl_register ::
  "(register_request \<Rightarrow> 'w \<Rightarrow> (exn + bool option) \<times> 'w) \<Rightarrow> client \<Rightarrow> 'w \<Rightarrow> bool \<times> 'w" where
  "cl_register rpc c w =
     (if \<not> cl_connected c \<or> \<not> cl_channel c then (False, w)
      else case rpc \<lparr>rr_worker_id = Some (cl_worker_id c), rr_queues = Some (cl_queues c),
                     rr_concurrency = Some (cl_concurrency c), rr_version = Some ''0.1.0''\<rparr> w of
             (Inl e, w') \<Rightarrow> (False, w')
           | (Inr accepted, w') \<Rightarrow> (get_field False accepted, w'))"

definition put_event :: "(string \<times> json) list \<Rightarrow> client \<Rightarrow> client" where
  "put_event kvs c = c\<lparr>cl_event_queue := cl_event_queue c @ [JObj ((''worker_id'', JStr (cl_worker_id c)) # kvs)]\<rparr>"

definition send_heartbeat :: "timestamp \<Rightarrow> int \<Rightarrow> int \<Rightarrow> client \<Rightarrow> client" where
  "send_heartbeat now in_flight concurrency = put_event [(''type'', JStr ''heartbeat''),
     (''in_flight'', JNum (of_int in_flight)), (''concurrency'', JNum (of_int concurrency)), (''timestamp'', JNum now)]"

definition send_task_started :: "string \<Rightarrow> string \<Rightarrow> int \<Rightarrow> int \<Rightarrow> client \<Rightarrow> client" where
  "send_task_started task_id task_name attempt fence = put_event [(''type'', JStr ''task_started''),
     (''task_id'', JStr task_id), (''task_name'', JStr task_name), (''attempt'', JNum (of_int attempt)),
     (''fence'', JNum (of_int fence))]"

definition send_task_completed :: "string \<Rightarrow> string \<Rightarrow> real \<Rightarrow> client \<Rightarrow> client" where
  "send_task_completed task_id outcome duration_ms = put_event [(''type'', JStr ''task_completed''),
     (''task_id'', JStr task_id), (''outcome'', JStr outcome), (''duration_ms'', JNum duration_ms)]"

definition on_command :: "string \<Rightarrow> string \<Rightarrow> client \<Rightarrow> client" where
  "on_command command_type callback c = c\<lparr>cl_callbacks := (cl_callbacks c)(command_type \<mapsto> callback)\<rparr>"

text \<open>
  A round of \<open>session_loop\<close>: \<open>None\<close> when the loop does not run. The event that it takes from the queue
  is only logged.
\<close>

definition session_round :: "client \<Rightarrow> client option" where
  "session_round c = (if \<not> cl_connected c then None else Some (c\<lparr>cl_event_queue := tl (cl_event_queue c)\<rparr>))"

text \<open>The callback that \<open>_handle_command\<close> calls; \<open>None\<close> is an unknown command, which is logged.\<close>

definition handle_command :: "command \<Rightarrow> client \<Rightarrow> (string \<times> command) option" where
  "handle_command command c =
     (case command of Command ty args \<Rightarrow> map_option (\<lambda>callback. (callback, command)) (cl_callbacks c ty))"

section \<open>Runs of the server\<close>

datatype grpc_op =
    GRegister timestamp register_request
  | GDrain drain_request
  | GSend string command
  | GOpen nat
  | GEvent timestamp nat worker_event
  | GNext nat
  | GClose nat

text \<open>The server with the commands that it accepted for a session object, and those it yielded.\<close>

record channel_run =
  cr_server :: server
  cr_sent :: "nat \<Rightarrow> command list"
  cr_got :: "nat \<Rightarrow> command list"

definition start_run :: channel_run where
  "start_run = \<lparr>cr_server = start_server, cr_sent = (\<lambda>_. []), cr_got = (\<lambda>_. [])\<rparr>"

text \<open>Note what a call of \<open>send_command\<close> accepted.\<close>

definition note_sent :: "string \<Rightarrow> command \<Rightarrow> bool \<Rightarrow> channel_run \<Rightarrow> channel_run" where
  "note_sent w c ok r = (case sv_sessions (cr_server r) w of
       Some a \<Rightarrow> if ok then r\<lparr>cr_sent := (cr_sent r)(a := cr_sent r a @ [c])\<rparr> else r
     | None \<Rightarrow> r)"

fun grpc_do :: "grpc_op \<Rightarrow> channel_run \<Rightarrow> channel_run" where
  "grpc_do (GRegister now req) r = r\<lparr>cr_server := snd (Register now req (cr_server r))\<rparr>"
| "grpc_do (GDrain req) r =
     (let (reply, sv) = Drain req (cr_server r)
      in (note_sent (get_field [] (dr_worker_id req))
            (Command ''drain'' [(''timeout_s'', JNum (of_int (get_field 30 (dr_timeout_s req))))])
            (dp_success reply) r)\<lparr>cr_server := sv\<rparr>)"
| "grpc_do (GSend w c) r =
     (let (ok, sv) = send_command w c (cr_server r) in (note_sent w c ok r)\<lparr>cr_server := sv\<rparr>)"
| "grpc_do (GOpen i) r = r\<lparr>cr_server := open_stream i (cr_server r)\<rparr>"
| "grpc_do (GEvent now i ev) r = r\<lparr>cr_server := read_event now i ev (cr_server r)\<rparr>"
| "grpc_do (GNext i) r =
     (case next_command i (cr_server r) of
        None \<Rightarrow> r
      | Some (c, sv) \<Rightarrow>
          let a = the (Option.bind (sv_streams (cr_server r) i) sc_session)
          in r\<lparr>cr_server := sv, cr_got := (cr_got r)(a := cr_got r a @ [c])\<rparr>)"
| "grpc_do (GClose i) r = r\<lparr>cr_server := close_stream i (cr_server r)\<rparr>"

definition queue_at :: "server \<Rightarrow> nat \<Rightarrow> command list" where
  "queue_at sv a = (if a < length (sv_store sv) then se_command_queue (sv_store sv ! a) else [])"

text \<open>Addresses are valid and belong to the worker under whose name they are known.\<close>

definition server_wf :: "server \<Rightarrow> bool" where
  "server_wf sv \<longleftrightarrow>
     (\<forall>w a. sv_sessions sv w = Some a \<longrightarrow> a < length (sv_store sv) \<and> se_worker_id (sv_store sv ! a) = w) \<and>
     (\<forall>i st a. sv_streams sv i = Some st \<longrightarrow> sc_session st = Some a \<longrightarrow>
        a < length (sv_store sv) \<and> sc_worker_id st = Some (se_worker_id (sv_store sv ! a))) \<and>
     (\<forall>i st w. sv_streams sv i = Some st \<longrightarrow> sc_worker_id st = Some w \<longrightarrow> sv_sessions sv w \<noteq> None)"

definition channel_inv :: "channel_run \<Rightarrow> bool" where
  "channel_inv r \<longleftrightarrow> server_wf (cr_server r) \<and>
     (\<forall>a. cr_sent r a = cr_got r a @ queue_at (cr_server r) a)"

lemma upd_session_simps [simp]:
  "sv_sessions (upd_session a f sv) = sv_sessions sv" "sv_streams (upd_session a f sv) = sv_streams sv"
  "length (sv_store (upd_session a f sv)) = length (sv_store sv)"
  by (simp_all add: upd_session_def)

lemma upd_session_nth:
  "b < length (sv_store sv) \<Longrightarrow>
   sv_store (upd_session a f sv) ! b = (if a = b then f (sv_store sv ! b) else sv_store sv ! b)"
  by (simp add: upd_session_def nth_list_update)

lemma queue_at_upd:
  "queue_at (upd_session a f sv) b =
     (if a = b \<and> b < length (sv_store sv) then se_command_queue (f (sv_store sv ! b)) else queue_at sv b)"
  by (auto simp: queue_at_def upd_session_nth)

lemma queue_at_add: "se_command_queue s = [] \<Longrightarrow> queue_at (add_session s sv) b = queue_at sv b"
  by (auto simp: queue_at_def add_session_def nth_append)

lemma queue_at_streams [simp]: "queue_at (sv\<lparr>sv_streams := x\<rparr>) b = queue_at sv b"
  by (simp add: queue_at_def)

lemma wf_upd: "server_wf sv \<Longrightarrow> (\<And>s. se_worker_id (f s) = se_worker_id s) \<Longrightarrow> server_wf (upd_session a f sv)"
  by (force simp: server_wf_def upd_session_nth)

lemma wf_add: "server_wf sv \<Longrightarrow> server_wf (add_session s sv)"
  by (force simp: server_wf_def add_session_def nth_append)

lemma wf_rebind:
  assumes "server_wf sv" and "sv_sessions sv wid = Some a"
  shows "server_wf (sv\<lparr>sv_streams := (sv_streams sv)(i \<mapsto> \<lparr>sc_worker_id = Some wid, sc_session = Some a\<rparr>)\<rparr>)"
  using assms by (auto simp: server_wf_def)

lemma wf_bind:
  assumes "server_wf sv"
  shows "server_wf (bind_stream now i wid sv)"
proof (cases "sv_sessions sv wid")
  case None
  then show ?thesis
    using wf_rebind [OF wf_add [OF assms, of "new_session now wid"], of wid]
    by (simp add: bind_stream_def Let_def) (simp add: add_session_def new_session_def)
next
  case (Some a)
  then show ?thesis using wf_rebind [OF assms Some] by (simp add: bind_stream_def)
qed

lemma queue_at_bind: "queue_at (bind_stream now i wid sv) b = queue_at sv b"
  by (simp add: bind_stream_def Let_def queue_at_add new_session_def)

lemma wf_streams_None: "server_wf sv \<Longrightarrow> server_wf (sv\<lparr>sv_streams := (sv_streams sv)(i := None)\<rparr>)"
  by (auto simp: server_wf_def)

lemma read_event_wf: "server_wf sv \<Longrightarrow> server_wf (read_event now i ev sv)"
  by (auto simp: read_event_def Let_def intro!: wf_upd wf_bind split: option.split)

lemma read_event_queue: "queue_at (read_event now i ev sv) b = queue_at sv b"
proof -
  have "queue_at (upd_session a (\<lambda>s. s\<lparr>se_in_flight := n, se_last_heartbeat := now\<rparr>) sv') b = queue_at sv' b"
    for a n and sv' :: server
    by (auto simp: queue_at_upd) (simp add: queue_at_def)
  then show ?thesis by (auto simp: read_event_def Let_def queue_at_bind split: option.split)
qed

lemma close_stream_wf: "server_wf sv \<Longrightarrow> server_wf (close_stream i sv)"
  by (auto simp: close_stream_def Let_def intro!: wf_upd wf_streams_None split: option.split)

lemma close_stream_queue: "queue_at (close_stream i sv) b = queue_at sv b"
proof -
  have "queue_at (upd_session a (\<lambda>s. s\<lparr>se_alive := False\<rparr>) sv') b = queue_at sv' b" for a and sv' :: server
    by (auto simp: queue_at_upd) (simp add: queue_at_def)
  then show ?thesis by (auto simp: close_stream_def Let_def split: option.split)
qed

lemma send_inv:
  assumes "channel_inv r" and "send_command w c (cr_server r) = (ok, sv)"
  shows "channel_inv ((note_sent w c ok r)\<lparr>cr_server := sv\<rparr>)"
proof -
  have wf: "server_wf (cr_server r)" and q: "\<And>a. cr_sent r a = cr_got r a @ queue_at (cr_server r) a"
    using assms(1) by (auto simp: channel_inv_def)
  show ?thesis
  proof (cases "sv_sessions (cr_server r) w")
    case None
    with assms show ?thesis by (auto simp: send_command_def note_sent_def channel_inv_def)
  next
    case (Some a)
    then have a: "a < length (sv_store (cr_server r))" using wf by (auto simp: server_wf_def)
    show ?thesis
    proof (cases ok)
      case False
      with assms Some show ?thesis by (auto simp: send_command_def note_sent_def split: if_splits)
    next
      case True
      with assms(2) Some have sv: "sv = upd_session a (\<lambda>s. s\<lparr>se_command_queue := se_command_queue s @ [c]\<rparr>) (cr_server r)"
        by (auto simp: send_command_def split: if_splits)
      have "queue_at sv b = (if b = a then queue_at (cr_server r) a @ [c] else queue_at (cr_server r) b)" for b
        using a by (auto simp: sv queue_at_upd) (simp add: queue_at_def)
      with True Some wf q show ?thesis by (simp add: channel_inv_def note_sent_def sv wf_upd)
    qed
  qed
qed

lemma next_inv:
  assumes "channel_inv r"
  shows "channel_inv (grpc_do (GNext i) r)"
proof (cases "next_command i (cr_server r)")
  case None
  with assms show ?thesis by simp
next
  case (Some x)
  then obtain a c cs where a: "Option.bind (sv_streams (cr_server r) i) sc_session = Some a"
      "se_command_queue (sv_store (cr_server r) ! a) = c # cs"
      and x: "x = (c, upd_session a (\<lambda>s. s\<lparr>se_command_queue := cs\<rparr>) (cr_server r))"
    by (auto simp: next_command_def split: option.splits list.splits)
  have wf: "server_wf (cr_server r)" and q: "\<And>b. cr_sent r b = cr_got r b @ queue_at (cr_server r) b"
    using assms by (auto simp: channel_inv_def)
  then have "a < length (sv_store (cr_server r))"
    using a(1) by (auto simp: server_wf_def bind_eq_Some_conv)
  with a wf q show ?thesis
    by (auto simp: Some x channel_inv_def Let_def wf_upd queue_at_upd) (simp_all add: queue_at_def)
qed

lemma grpc_do_inv:
  assumes "channel_inv r"
  shows "channel_inv (grpc_do x r)"
proof (cases x)
  case (GDrain req)
  obtain ok sv where send: "send_command (get_field [] (dr_worker_id req))
      (Command ''drain'' [(''timeout_s'', JNum (of_int (get_field 30 (dr_timeout_s req))))]) (cr_server r) = (ok, sv)"
    by fastforce
  from send_inv [OF assms this] GDrain show ?thesis
    by (cases ok) (simp_all add: Drain_def drain_worker_def send Let_def)
next
  case (GSend w c)
  obtain ok sv where "send_command w c (cr_server r) = (ok, sv)" by fastforce
  with send_inv [OF assms this] GSend show ?thesis by simp
next
  case (GNext i)
  then show ?thesis using next_inv [OF assms] by simp
next
  case (GOpen i)
  then show ?thesis using assms by (auto simp: channel_inv_def open_stream_def server_wf_def)
qed (use assms in \<open>auto simp: channel_inv_def Register_def Let_def wf_add queue_at_add new_session_def
      read_event_wf read_event_queue close_stream_wf close_stream_queue\<close>)

lemma grpc_run_inv: "channel_inv r \<Longrightarrow> channel_inv (fold grpc_do xs r)"
  by (induction xs arbitrary: r) (auto simp: grpc_do_inv)

lemma start_inv: "channel_inv start_run"
  by (simp add: channel_inv_def start_run_def start_server_def server_wf_def queue_at_def)

section \<open>Lost workers\<close>

text \<open>A worker whose registered session is marked as closed.\<close>

definition unreachable :: "string \<Rightarrow> server \<Rightarrow> bool" where
  "unreachable w sv \<longleftrightarrow> (\<exists>a. sv_sessions sv w = Some a \<and> a < length (sv_store sv) \<and> \<not> se_alive (sv_store sv ! a))"

fun registers :: "string \<Rightarrow> grpc_op \<Rightarrow> bool" where
  "registers w (GRegister now req) = (get_field [] (rr_worker_id req) = w)"
| "registers w _ = False"

lemma unreachable_upd:
  "unreachable w sv \<Longrightarrow> (\<And>s. \<not> se_alive s \<Longrightarrow> \<not> se_alive (f s)) \<Longrightarrow> unreachable w (upd_session a f sv)"
  by (auto simp: unreachable_def upd_session_nth)

lemma unreachable_add: "unreachable w sv \<Longrightarrow> se_worker_id s \<noteq> w \<Longrightarrow> unreachable w (add_session s sv)"
  by (auto simp: unreachable_def add_session_def nth_append)

lemma unreachable_streams [simp]: "unreachable w (sv\<lparr>sv_streams := x\<rparr>) = unreachable w sv"
  by (simp add: unreachable_def)

lemma unreachable_bind: "unreachable w sv \<Longrightarrow> unreachable w (bind_stream now i wid sv)"
  by (auto simp: bind_stream_def Let_def new_session_def intro!: unreachable_add) (auto simp: unreachable_def)

lemma unreachable_send: "unreachable w sv \<Longrightarrow> unreachable w (snd (send_command w' c sv))"
  by (auto simp: send_command_def intro!: unreachable_upd split: option.split)

lemma unreachable_do:
  assumes "unreachable w (cr_server r)" and "\<not> registers w x"
  shows "unreachable w (cr_server (grpc_do x r))"
proof (cases x)
  case (GDrain req)
  have "snd (Drain req (cr_server r)) = snd (send_command (get_field [] (dr_worker_id req))
      (Command ''drain'' [(''timeout_s'', JNum (of_int (get_field 30 (dr_timeout_s req))))]) (cr_server r))"
    by (simp add: Drain_def drain_worker_def Let_def split: prod.split)
  with unreachable_send [OF assms(1)] GDrain show ?thesis by (auto split: prod.split)
next
  case (GSend w' c)
  with unreachable_send [OF assms(1), of w' c] show ?thesis by (auto split: prod.split)
next
  case (GRegister now req)
  with assms show ?thesis by (auto simp: Register_def Let_def new_session_def intro!: unreachable_add)
next
  case (GEvent now i ev)
  with assms(1) show ?thesis
    by (auto simp: read_event_def Let_def intro!: unreachable_upd unreachable_bind split: option.split)
next
  case (GNext i)
  with assms(1) show ?thesis
    by (auto simp: next_command_def Let_def intro!: unreachable_upd split: option.splits list.splits)
next
  case (GClose i)
  with assms(1) show ?thesis
    by (auto simp: close_stream_def Let_def intro!: unreachable_upd split: option.split)
qed (use assms(1) in \<open>simp add: open_stream_def\<close>)

lemma unreachable_run:
  "unreachable w (cr_server r) \<Longrightarrow> list_all (\<lambda>x. \<not> registers w x) xs \<Longrightarrow> unreachable w (cr_server (fold grpc_do xs r))"
  by (induction xs arbitrary: r) (auto simp: unreachable_do)

lemma close_unreachable:
  assumes "server_wf sv" and "sv_streams sv i = Some st" and "sc_worker_id st = Some w" and "w \<noteq> []"
  shows "unreachable w (close_stream i sv)"
proof -
  obtain a where "sv_sessions sv w = Some a" "a < length (sv_store sv)"
    using assms(1-3) unfolding server_wf_def by blast
  with assms(2-4) show ?thesis
    by (auto simp: close_stream_def Let_def unreachable_def upd_session_nth)
qed

section \<open>Properties\<close>

text \<open>
  C33: Control commands are delivered in order and at most once. In every run of the server, with any
  number of registrations, streams, events and disconnections, the commands that \<open>send_command\<close>
  accepted for a session are exactly those that streams of that session have yielded, in the order
  in which they were sent, followed by those still in its queue; and the registry leads from a
  worker to a session of that worker.
\<close>

theorem commands_delivered_in_order:
  assumes "r = fold grpc_do ops start_run"
  shows "cr_sent r a = cr_got r a @ queue_at (cr_server r) a \<and>
    (\<forall>w. sv_sessions (cr_server r) w = Some a \<longrightarrow> se_worker_id (sv_store (cr_server r) ! a) = w)"
  using grpc_run_inv [OF start_inv, of ops] assms by (auto simp: channel_inv_def server_wf_def)

definition demo_channel :: "grpc_op list" where
  "demo_channel = [GRegister 0 \<lparr>rr_worker_id = Some ''w1'', rr_queues = None, rr_concurrency = None, rr_version = None\<rparr>,
     GOpen 0, GEvent 1 0 \<lparr>we_worker_id = Some ''w1'', we_type = Some ''heartbeat'', we_in_flight = Some 2\<rparr>,
     GSend ''w1'' (Command ''pause'' []), GDrain \<lparr>dr_worker_id = Some ''w1'', dr_timeout_s = None\<rparr>, GNext 0]"

lemmas grpc_eval = start_run_def start_server_def Register_def Let_def new_session_def get_field_def add_session_def
  open_stream_def read_event_def bind_stream_def upd_session_def send_command_def note_sent_def Drain_def
  drain_worker_def next_command_def

theorem commands_delivered_in_order_witness:
  "cr_got (fold grpc_do demo_channel start_run) 0 = [Command ''pause'' []] \<and>
   queue_at (cr_server (fold grpc_do demo_channel start_run)) 0 = [Command ''drain'' [(''timeout_s'', JNum 30)]]"
proof -
  have "cr_sent (fold grpc_do demo_channel start_run) 0 = [Command ''pause'' [], Command ''drain'' [(''timeout_s'', JNum 30)]]"
    "cr_got (fold grpc_do demo_channel start_run) 0 = [Command ''pause'' []]"
    by (simp_all add: demo_channel_def grpc_eval)
  with commands_delivered_in_order [OF refl, of demo_channel 0] show ?thesis by simp
qed

text \<open>
  A worker that reconnects without registering again cannot be reached. When a stream of a worker
  closes, its session is marked as closed, and nothing but a new \<open>Register\<close> of that worker
  reverts it: in every later run in which the worker opens new streams and sends heartbeats, commands
  to it are refused.
\<close>

lemma closed_worker_unreachable:
  assumes "r = fold grpc_do ops start_run"
    and "sv_streams (cr_server r) i = Some st" and "sc_worker_id st = Some w" and "w \<noteq> []"
    and "list_all (\<lambda>x. \<not> registers w x) ops'"
    and "sv = cr_server (fold grpc_do ops' (grpc_do (GClose i) r))"
  shows "send_command w c sv = (False, sv)"
proof -
  have "server_wf (cr_server r)" using grpc_run_inv [OF start_inv, of ops] assms(1) by (simp add: channel_inv_def)
  then have "unreachable w (cr_server (grpc_do (GClose i) r))" using close_unreachable assms(2-4) by simp
  from unreachable_run [OF this assms(5)] show ?thesis
    by (auto simp: assms(6) unreachable_def send_command_def)
qed

definition served :: "grpc_op \<Rightarrow> bool" where
  "served x \<longleftrightarrow> (case x of
      GRegister now req \<Rightarrow> service ''/dtq.worker_control.WorkerControl/Register'' = Some HandleRegister
    | GDrain req \<Rightarrow> service ''/dtq.worker_control.WorkerControl/Drain'' = Some HandleDrain
    | GSend w c \<Rightarrow> False
    | _ \<Rightarrow> service ''/dtq.worker_control.WorkerControl/Session'' \<noteq> None)"

lemma served_got: "list_all served xs \<Longrightarrow> cr_got (fold grpc_do xs r) = cr_got r"
proof (induction xs arbitrary: r)
  case (Cons x xs)
  then have "served x" by simp
  then have "cr_got (grpc_do x r) = cr_got r"
    by (cases x) (auto simp: served_def service_def note_sent_def split: prod.split option.split)
  with Cons show ?case by simp
qed simp

text \<open>
  The server that \<open>serve_grpc\<close> starts delivers no commands. It has handlers for \<open>Register\<close> and
  \<open>Drain\<close> only, none for the stream \<open>Session\<close>; and in every run of these two methods no command is
  ever yielded, although \<open>Drain\<close> answers with success: each accepted command stays in the queue.
\<close>

lemma served_drain_never_delivered:
  assumes "r = fold grpc_do ops start_run" and "list_all served ops"
  shows "cr_got r a = [] \<and> queue_at (cr_server r) a = cr_sent r a"
proof -
  have "cr_got r = (\<lambda>_. [])" using served_got [OF assms(2), of start_run] assms(1) by (simp add: start_run_def)
  then show ?thesis using grpc_run_inv [OF start_inv, of ops] assms(1) by (simp add: channel_inv_def)
qed

text \<open>A registration over the channel: \<open>_handle_register\<close> of the server, whose reply has the key \<open>accepted\<close>.\<close>

definition rpc_register :: "timestamp \<Rightarrow> register_request \<Rightarrow> server \<Rightarrow> (exn + bool option) \<times> server" where
  "rpc_register now req sv = (let (reply, sv') = Register now req sv in (Inr (Some (rp_accepted reply)), sv'))"

text \<open>
  Registration end to end. A client that is connected and calls \<open>register\<close> over a channel to the
  server is accepted, and the registry then leads from its worker to a fresh live session with the
  queues and the concurrency of its settings; a client that is not connected returns \<open>False\<close> and the
  server is unchanged.
\<close>

lemma register_end_to_end:
  assumes "cl_register (rpc_register now) (cl_connect ready (new_client cfg)) sv = (ok, sv')"
  shows "ok = ready \<and> (if ready then
      \<exists>a s. sv_sessions sv' (cfg_worker_id cfg) = Some a \<and> a = length (sv_store sv) \<and> sv_store sv' = sv_store sv @ [s] \<and>
        se_alive s \<and> se_worker_id s = cfg_worker_id cfg \<and> se_queues s = cfg_worker_queues cfg \<and>
        se_concurrency s = cfg_worker_concurrency cfg \<and> se_command_queue s = []
    else sv' = sv)"
  using assms by (auto simp: cl_register_def cl_connect_def new_client_def rpc_register_def Register_def Let_def
      new_session_def get_field_def add_session_def)

end
