(* ===== verification/Kafka_Broker.thy ===== *)
theory Kafka_Broker
  imports Core_Models
begin

text \<open>
  \<open>dtq/broker/kafka_broker.py\<close>: the Kafka adapter of the broker protocol. The cluster and its client
  library are a parameter, a record of the calls that the adapter makes; the locale
  \<open>kafka_service\<close> says what a call that does not raise did, through a view of the cluster: the logs of
  the partitions, the offsets that groups have committed, and the positions of the consumers. The
  bodies of messages (JSON text) are written and read by a codec.
\<close>

section \<open>The cluster\<close>

record 'b krecord =
  kr_partition :: nat
  kr_offset :: nat
  kr_key :: "string option"
  kr_value :: 'b

record 'b cluster =
  kv_log :: "string \<Rightarrow> nat \<Rightarrow> (string option \<times> 'b) list"
  kv_committed :: "string \<Rightarrow> string \<Rightarrow> nat \<Rightarrow> nat"
  kv_sub :: "nat \<Rightarrow> (string \<times> string) option"
  kv_assigned :: "nat \<Rightarrow> nat set"
  kv_pos :: "nat \<Rightarrow> nat \<Rightarrow> nat"

record ('k, 'b) kafka =
  k_create_topic :: "string \<Rightarrow> nat \<Rightarrow> 'k \<Rightarrow> (exn + unit) \<times> 'k"
  k_send :: "string \<Rightarrow> 'b \<Rightarrow> string option \<Rightarrow> 'k \<Rightarrow> (exn + unit) \<times> 'k"
  k_consumer :: "string \<Rightarrow> string \<Rightarrow> 'k \<Rightarrow> nat \<times> 'k"
  k_start :: "nat \<Rightarrow> 'k \<Rightarrow> (exn + unit) \<times> 'k"
  k_stop :: "nat \<Rightarrow> 'k \<Rightarrow> 'k"
  k_getmany :: "nat \<Rightarrow> nat \<Rightarrow> 'k \<Rightarrow> (exn + (nat \<times> 'b krecord list) list) \<times> 'k"
  k_commit :: "nat \<Rightarrow> 'k \<Rightarrow> (exn + unit) \<times> 'k"

text \<open>The records of a partition from an offset on.\<close>

definition records_from :: "'b cluster \<Rightarrow> string \<Rightarrow> nat \<Rightarrow> nat \<Rightarrow> nat \<Rightarrow> 'b krecord list" where
  "records_from v t p off n = map (\<lambda>o'. \<lparr>kr_partition = p, kr_offset = o', kr_key = fst (kv_log v t p ! o'),
     kr_value = snd (kv_log v t p ! o')\<rparr>) [off ..< off + n]"

definition append_log :: "string \<Rightarrow> nat \<Rightarrow> string option \<times> 'b \<Rightarrow> 'b cluster \<Rightarrow> 'b cluster" where
  "append_log t p x v = v\<lparr>kv_log := (kv_log v)(t := (kv_log v t)(p := kv_log v t p @ [x]))\<rparr>"

definition read_count :: "(nat \<times> 'b krecord list) list \<Rightarrow> nat \<Rightarrow> nat" where
  "read_count res p = (case map_of res p of None \<Rightarrow> 0 | Some ms \<Rightarrow> length ms)"

text \<open>
  A consumer that has started reads from the offsets its group has committed, from the earliest one
  where there is none. \<open>commit()\<close> commits the positions of all partitions assigned to the consumer.
\<close>

locale kafka_service =
  fixes K :: "('k, 'b) kafka" and W :: "'k \<Rightarrow> 'b cluster"
  assumes create_topic: "W (snd (k_create_topic K t n s)) = W s"
    and send_ok: "k_send K t x key s = (Inr u, s') \<Longrightarrow> \<exists>p. W s' = append_log t p (key, x) (W s)"
    and send_raised: "k_send K t x key s = (Inl e, s') \<Longrightarrow> W s' = W s \<or> (\<exists>p. W s' = append_log t p (key, x) (W s))"
    and consumer_new: "k_consumer K t g s = (c, s') \<Longrightarrow> kv_sub (W s) c = None \<and>
      kv_sub (W s') = (kv_sub (W s))(c \<mapsto> (g, t)) \<and> kv_log (W s') = kv_log (W s) \<and>
      kv_committed (W s') = kv_committed (W s) \<and> kv_pos (W s') = kv_pos (W s)"
    and start_ok: "k_start K c s = (Inr u, s') \<Longrightarrow> kv_sub (W s) c = Some (g, t) \<Longrightarrow>
      kv_pos (W s') c = kv_committed (W s) g t \<and> kv_sub (W s') = kv_sub (W s) \<and>
      kv_log (W s') = kv_log (W s) \<and> kv_committed (W s') = kv_committed (W s)"
    and start_raised: "k_start K c s = (Inl e, s') \<Longrightarrow> kv_log (W s') = kv_log (W s) \<and>
      kv_committed (W s') = kv_committed (W s) \<and> kv_sub (W s') = kv_sub (W s)"
    and stop: "kv_log (W (k_stop K c s)) = kv_log (W s) \<and> kv_committed (W (k_stop K c s)) = kv_committed (W s) \<and>
      kv_sub (W (k_stop K c s)) = kv_sub (W s)"
    and getmany_ok: "k_getmany K c n s = (Inr res, s') \<Longrightarrow> kv_sub (W s) c = Some (g, t) \<Longrightarrow>
      distinct (map fst res) \<and> sum_list (map (length \<circ> snd) res) \<le> n \<and>
      (\<forall>(p, ms) \<in> set res. p \<in> kv_assigned (W s) c \<and> ms = records_from (W s) t p (kv_pos (W s) c p) (length ms)
         \<and> kv_pos (W s) c p + length ms \<le> length (kv_log (W s) t p)) \<and>
      W s' = (W s)\<lparr>kv_pos := (kv_pos (W s))(c := \<lambda>p. kv_pos (W s) c p + read_count res p)\<rparr>"
    and getmany_raised: "k_getmany K c n s = (Inl e, s') \<Longrightarrow> W s' = W s"
    and commit_ok: "k_commit K c s = (Inr u, s') \<Longrightarrow> kv_sub (W s) c = Some (g, t) \<Longrightarrow>
      W s' = (W s)\<lparr>kv_committed := (kv_committed (W s))(g := (kv_committed (W s) g)(t := \<lambda>p.
        if p \<in> kv_assigned (W s) c then kv_pos (W s) c p else kv_committed (W s) g t p))\<rparr>"
    and commit_raised: "k_commit K c s = (Inl e, s') \<Longrightarrow> kv_log (W s') = kv_log (W s)"

section \<open>The adapter\<close>

text \<open>
  Message bodies: an envelope, and the dictionaries of the delay and the dead-letter topic, which
  carry the text of an envelope.
\<close>

record 'b bodies =
  dump_envelope :: "task_envelope \<Rightarrow> 'b"
  parse_envelope :: "'b \<Rightarrow> exn + task_envelope"
  dump_delay :: "task_envelope \<Rightarrow> timestamp \<Rightarrow> 'b"
  parse_run_at :: "'b \<Rightarrow> exn + timestamp"
  dump_dead :: "task_envelope \<Rightarrow> string \<Rightarrow> 'b"
  parse_wrapped :: "'b \<Rightarrow> exn + task_envelope"

definition bodies_ok :: "'b bodies \<Rightarrow> bool" where
  "bodies_ok J \<longleftrightarrow> (\<forall>e. parse_envelope J (dump_envelope J e) = Inr e) \<and>
     (\<forall>e t. parse_run_at J (dump_delay J e t) = Inr t \<and> parse_wrapped J (dump_delay J e t) = Inr e) \<and>
     (\<forall>e r. parse_wrapped J (dump_dead J e r) = Inr e)"

record kleased =
  kl_envelope :: task_envelope
  kl_msg_id :: string

record kbroker =
  kb_consumer :: "nat option"
  kb_subscribed :: "string list"
  kb_delay_consumers :: "string \<Rightarrow> nat option"

definition new_kbroker :: kbroker where
  "new_kbroker = \<lparr>kb_consumer = None, kb_subscribed = [], kb_delay_consumers = (\<lambda>_. None)\<rparr>"

definition topic_name :: "string \<Rightarrow> string" where "topic_name queue = ''dtq-'' @ queue"

definition delay_topic :: "string \<Rightarrow> string" where "delay_topic queue = ''dtq-'' @ queue @ ''-delay''"

definition dlq_topic :: "string \<Rightarrow> string" where "dlq_topic queue = ''dtq-'' @ queue @ ''-dlq''"

text \<open>\<open>create_topics\<close> may raise; the exception is ignored.\<close>

definition kb_ensure_queue :: "('k, 'b) kafka \<Rightarrow> string \<Rightarrow> 'k \<Rightarrow> 'k" where
  "kb_ensure_queue K queue s =
     (let s1 = snd (k_create_topic K (topic_name queue) 4 s);
          s2 = snd (k_create_topic K (delay_topic queue) 1 s1)
      in snd (k_create_topic K (dlq_topic queue) 1 s2))"

definition ensure_consumer ::
  "('k, 'b) kafka \<Rightarrow> string \<Rightarrow> string \<Rightarrow> kbroker \<Rightarrow> 'k \<Rightarrow> (exn + nat) \<times> kbroker \<times> 'k" where
  "ensure_consumer K queue grp b s =
     (let topic = topic_name queue;
          fresh = (\<lambda>s1. let (c, s2) = k_consumer K topic grp s1; b1 = b\<lparr>kb_consumer := Some c\<rparr>
                        in case k_start K c s2 of
                             (Inl e, s3) \<Rightarrow> (Inl e, b1, s3)
                           | (Inr _, s3) \<Rightarrow> (Inr c, b1\<lparr>kb_subscribed := [topic]\<rparr>, s3))
      in case kb_consumer b of
           None \<Rightarrow> fresh s
         | Some c \<Rightarrow> if topic \<notin> set (kb_subscribed b) then fresh (k_stop K c s) else (Inr c, b, s))"

definition kb_publish :: "('k, 'b) kafka \<Rightarrow> 'b bodies \<Rightarrow> string \<Rightarrow> task_envelope \<Rightarrow> 'k \<Rightarrow> (exn + unit) \<times> 'k" where
  "kb_publish K J queue e s = k_send K (topic_name queue) (dump_envelope J e) (Some (env_task_id e)) s"

definition msg_id :: "'b krecord \<Rightarrow> string" where
  "msg_id m = str_int (int (kr_partition m)) @ '':'' @ str_int (int (kr_offset m))"

text \<open>A record whose body does not parse is skipped.\<close>

fun lease_records :: "('b \<Rightarrow> exn + task_envelope) \<Rightarrow> 'b krecord list \<Rightarrow> kleased list" where
  "lease_records parse [] = []"
| "lease_records parse (m # ms) =
     (case parse (kr_value m) of
        Inl e \<Rightarrow> lease_records parse ms
      | Inr env \<Rightarrow> \<lparr>kl_envelope = env, kl_msg_id = msg_id m\<rparr> # lease_records parse ms)"

definition kb_lease ::
  "('k, 'b) kafka \<Rightarrow> 'b bodies \<Rightarrow> string \<Rightarrow> string \<Rightarrow> nat \<Rightarrow> kbroker \<Rightarrow> 'k \<Rightarrow>
   (exn + kleased list) \<times> kbroker \<times> 'k" where
  "kb_lease K J queue grp count b s =
     (case ensure_consumer K queue grp b s of
        (Inl e, b1, s1) \<Rightarrow> (Inl e, b1, s1)
      | (Inr c, b1, s1) \<Rightarrow>
          (case k_getmany K c count s1 of
             (Inl e, s2) \<Rightarrow> (Inl e, b1, s2)
           | (Inr res, s2) \<Rightarrow> (Inr (lease_records (parse_envelope J) (concat (map snd res))), b1, s2)))"

text \<open>The identifiers that the caller acknowledges are not used.\<close>

definition kb_ack :: "('k, 'b) kafka \<Rightarrow> string list \<Rightarrow> kbroker \<Rightarrow> 'k \<Rightarrow> (exn + unit) \<times> 'k" where
  "kb_ack K msg_ids b s = (case kb_consumer b of None \<Rightarrow> (Inr (), s) | Some c \<Rightarrow> k_commit K c s)"

definition kb_nack :: "string list \<Rightarrow> 'k \<Rightarrow> 'k" where
  "kb_nack msg_ids s = s"

definition kb_reclaim :: "string \<Rightarrow> string \<Rightarrow> 'k \<Rightarrow> kleased list \<times> 'k" where
  "kb_reclaim queue grp s = ([], s)"

definition kb_schedule ::
  "('k, 'b) kafka \<Rightarrow> 'b bodies \<Rightarrow> string \<Rightarrow> task_envelope \<Rightarrow> timestamp \<Rightarrow> 'k \<Rightarrow> (exn + unit) \<times> 'k" where
  "kb_schedule K J queue e run_at s = k_send K (delay_topic queue) (dump_delay J e run_at) (Some (env_task_id e)) s"

text \<open>The loop of \<open>promote_scheduled\<close>: an exception of the body of the loop is ignored.\<close>

fun promote_records ::
  "('k, 'b) kafka \<Rightarrow> 'b bodies \<Rightarrow> string \<Rightarrow> timestamp \<Rightarrow> 'b krecord list \<Rightarrow> nat \<Rightarrow> 'k \<Rightarrow> nat \<times> 'k" where
  "promote_records K J queue now [] promoted s = (promoted, s)"
| "promote_records K J queue now (m # ms) promoted s =
     (case parse_run_at J (kr_value m) of
        Inl e \<Rightarrow> promote_records K J queue now ms promoted s
      | Inr run_at \<Rightarrow>
          if run_at \<le> now
          then (case parse_wrapped J (kr_value m) of
                  Inl e \<Rightarrow> promote_records K J queue now ms promoted s
                | Inr env \<Rightarrow>
                    (case kb_publish K J queue env s of
                       (Inl e, s1) \<Rightarrow> promote_records K J queue now ms promoted s1
                     | (Inr _, s1) \<Rightarrow> promote_records K J queue now ms (promoted + 1) s1))
          else (case k_send K (delay_topic queue) (kr_value m) (kr_key m) s of
                  (r, s1) \<Rightarrow> promote_records K J queue now ms promoted s1))"

definition delay_consumer ::
  "('k, 'b) kafka \<Rightarrow> string \<Rightarrow> kbroker \<Rightarrow> 'k \<Rightarrow> (exn + nat) \<times> kbroker \<times> 'k" where
  "delay_consumer K queue b s =
     (case kb_delay_consumers b queue of
        Some c \<Rightarrow> (Inr c, b, s)
      | None \<Rightarrow>
          let (c, s1) = k_consumer K (delay_topic queue) (''dtq-scheduler-'' @ queue) s
          in case k_start K c s1 of
               (Inl e, s2) \<Rightarrow> (Inl e, b, s2)
             | (Inr _, s2) \<Rightarrow> (Inr c, b\<lparr>kb_delay_consumers := (kb_delay_consumers b)(queue \<mapsto> c)\<rparr>, s2))"

definition kb_promote_scheduled ::
  "('k, 'b) kafka \<Rightarrow> 'b bodies \<Rightarrow> timestamp \<Rightarrow> string \<Rightarrow> kbroker \<Rightarrow> 'k \<Rightarrow> (exn + nat) \<times> kbroker \<times> 'k" where
  "kb_promote_scheduled K J now queue b s =
     (case delay_consumer K queue b s of
        (Inl e, b1, s1) \<Rightarrow> (Inl e, b1, s1)
      | (Inr c, b1, s1) \<Rightarrow>
          (case k_getmany K c 100 s1 of
             (Inl e, s2) \<Rightarrow> (Inl e, b1, s2)
           | (Inr res, s2) \<Rightarrow>
               let (promoted, s3) = promote_records K J queue now (concat (map snd res)) 0 s2
               in case k_commit K c s3 of
                    (Inl e, s4) \<Rightarrow> (Inl e, b1, s4)
                  | (Inr _, s4) \<Rightarrow> (Inr promoted, b1, s4)))"

definition kb_dead_letter ::
  "('k, 'b) kafka \<Rightarrow> 'b bodies \<Rightarrow> string \<Rightarrow> task_envelope \<Rightarrow> string \<Rightarrow> 'k \<Rightarrow> (exn + unit) \<times> 'k" where
  "kb_dead_letter K J queue e reason s =
     k_send K (dlq_topic queue) (dump_dead J e reason) (Some (env_task_id e)) s"

definition kb_get_dlq_messages ::
  "('k, 'b) kafka \<Rightarrow> 'b bodies \<Rightarrow> string \<Rightarrow> nat \<Rightarrow> 'k \<Rightarrow> (exn + kleased list) \<times> 'k" where
  "kb_get_dlq_messages K J queue count s =
     (let (c, s1) = k_consumer K (dlq_topic queue) (''dtq-dlq-reader-'' @ queue) s
      in case k_start K c s1 of
           (Inl e, s2) \<Rightarrow> (Inl e, s2)
         | (Inr _, s2) \<Rightarrow>
             (case k_getmany K c count s2 of
                (Inl e, s3) \<Rightarrow> (Inl e, k_stop K c s3)
              | (Inr res, s3) \<Rightarrow>
                  (Inr (lease_records (parse_wrapped J) (concat (map snd res))), k_stop K c s3)))"

definition kb_queue_depth :: "string \<Rightarrow> int" where "kb_queue_depth queue = 0"

definition kb_in_flight_count :: "string \<Rightarrow> string \<Rightarrow> int" where "kb_in_flight_count queue grp = 0"

definition kb_close :: "('k, 'b) kafka \<Rightarrow> string list \<Rightarrow> kbroker \<Rightarrow> 'k \<Rightarrow> kbroker \<times> 'k" where
  "kb_close K queues b s =
     (let s1 = (case kb_consumer b of None \<Rightarrow> s | Some c \<Rightarrow> k_stop K c s);
          s2 = fold (\<lambda>q s. case kb_delay_consumers b q of None \<Rightarrow> s | Some c \<Rightarrow> k_stop K c s) queues s1
      in (b\<lparr>kb_consumer := None, kb_delay_consumers := (\<lambda>_. None)\<rparr>, s2))"

section \<open>Message identifiers\<close>

lemma msg_id_inject:
  assumes "msg_id m = msg_id m'"
  shows "kr_partition m = kr_partition m'" and "kr_offset m = kr_offset m'"
  using assms colon_suffix_unique [of "str_int (int (kr_partition m))" "str_int (int (kr_offset m))"
      "str_int (int (kr_partition m'))" "str_int (int (kr_offset m'))"] str_int_no_colon
  by (auto simp: msg_id_def)

lemma lease_records_ids: "m \<in> set (lease_records f ms) \<Longrightarrow> \<exists>r \<in> set ms. kl_msg_id m = msg_id r"
  by (induction ms) (auto split: sum.splits)

lemma length_records_from [simp]: "length (records_from v t p off n) = n"
  by (simp add: records_from_def)

lemma records_from_mem:
  "r \<in> set (records_from v t p off n) \<Longrightarrow> kr_partition r = p \<and> off \<le> kr_offset r \<and> kr_offset r < off + n"
  by (auto simp: records_from_def)

section \<open>What an acknowledgement commits\<close>

text \<open>The consumer of the adapter reads the topic of its queue for its group.\<close>

definition consumer_of :: "'b cluster \<Rightarrow> string \<Rightarrow> string \<Rightarrow> kbroker \<Rightarrow> bool" where
  "consumer_of v queue grp b \<longleftrightarrow> (\<forall>c. kb_consumer b = Some c \<longrightarrow> topic_name queue \<in> set (kb_subscribed b) \<longrightarrow>
     kv_sub v c = Some (grp, topic_name queue))"

context kafka_service
begin

lemma ensure_consumer_sub:
  assumes "ensure_consumer K q g b s = (Inr c, b1, s1)" and "consumer_of (W s) q g b"
  shows "kb_consumer b1 = Some c \<and> kv_sub (W s1) c = Some (g, topic_name q)"
proof -
  have fresh: "kv_sub (W s3) c' = Some (g, topic_name q)"
    if "k_consumer K (topic_name q) g s0 = (c', s2)" "k_start K c' s2 = (Inr u, s3)" for s0 c' s2 s3 u
    using consumer_new [OF that(1)] start_ok [OF that(2), of g "topic_name q"] by simp
  from assms show ?thesis
    by (auto simp: ensure_consumer_def Let_def consumer_of_def dest: fresh split: option.splits prod.splits sum.splits if_splits)
qed

lemma getmany_read:
  assumes "k_getmany K c n s = (Inr res, s')" and "kv_sub (W s) c = Some (g, t)" and "r \<in> set (concat (map snd res))"
  shows "kr_partition r \<in> kv_assigned (W s) c \<and> kv_pos (W s) c (kr_partition r) \<le> kr_offset r \<and>
    kr_offset r < kv_pos (W s') c (kr_partition r)"
proof -
  note ok = getmany_ok [OF assms(1,2)]
  obtain p ms where ms: "(p, ms) \<in> set res" "r \<in> set ms" using assms(3) by auto
  with ok have rec: "p \<in> kv_assigned (W s) c" "ms = records_from (W s) t p (kv_pos (W s) c p) (length ms)" by auto
  have "map_of res p = Some ms" using ms(1) ok by (simp add: map_of_is_SomeI)
  then have "kv_pos (W s') c p = kv_pos (W s) c p + length ms" using ok by (simp add: read_count_def)
  with rec records_from_mem [of r "W s" t p "kv_pos (W s) c p" "length ms"] ms(2) show ?thesis by metis
qed

end

section \<open>What a promotion sends\<close>

definition is_due :: "'b bodies \<Rightarrow> timestamp \<Rightarrow> 'b krecord \<Rightarrow> bool" where
  "is_due J now m \<longleftrightarrow> (case parse_run_at J (kr_value m) of Inr t \<Rightarrow> t \<le> now | Inl e \<Rightarrow> False)"

text \<open>Where a delayed record goes: its task to the queue when it is due, else the record back.\<close>

definition promote_target :: "'b bodies \<Rightarrow> string \<Rightarrow> timestamp \<Rightarrow> 'b krecord \<Rightarrow> string \<times> string option \<times> 'b" where
  "promote_target J queue now m =
     (case parse_wrapped J (kr_value m) of
        Inr e \<Rightarrow> if is_due J now m then (topic_name queue, Some (env_task_id e), dump_envelope J e)
                 else (delay_topic queue, kr_key m, kr_value m)
      | Inl e \<Rightarrow> (delay_topic queue, kr_key m, kr_value m))"

definition append_all :: "(nat \<times> string \<times> string option \<times> 'b) list \<Rightarrow> 'b cluster \<Rightarrow> 'b cluster" where
  "append_all xs v = fold (\<lambda>(p, t, x). append_log t p x) xs v"

text \<open>The consumer that promotes, where it reads next, and the records that a read takes.\<close>

definition delay_group :: "string \<Rightarrow> string" where
  "delay_group queue = ''dtq-scheduler-'' @ queue"

definition delay_consumer_of :: "'b cluster \<Rightarrow> string \<Rightarrow> kbroker \<Rightarrow> bool" where
  "delay_consumer_of v queue b \<longleftrightarrow>
     (\<forall>c. kb_delay_consumers b queue = Some c \<longrightarrow> kv_sub v c = Some (delay_group queue, delay_topic queue))"

definition delay_start :: "'b cluster \<Rightarrow> string \<Rightarrow> kbroker \<Rightarrow> nat \<Rightarrow> nat" where
  "delay_start v queue b = (case kb_delay_consumers b queue of
       Some c \<Rightarrow> kv_pos v c | None \<Rightarrow> kv_committed v (delay_group queue) (delay_topic queue))"

definition batch :: "'b cluster \<Rightarrow> string \<Rightarrow> (nat \<Rightarrow> nat) \<Rightarrow> (nat \<Rightarrow> nat) \<Rightarrow> nat list \<Rightarrow> 'b krecord list" where
  "batch v t start cnt parts = concat (map (\<lambda>p. records_from v t p (start p) (cnt p)) parts)"

lemma batch_log: "kv_log v = kv_log v' \<Longrightarrow> batch v t start cnt parts = batch v' t start cnt parts"
  by (simp add: batch_def records_from_def)

lemma batch_values:
  assumes "m \<in> set (batch v t start cnt parts)" and "\<forall>p \<in> set parts. start p + cnt p \<le> length (kv_log v t p)"
  shows "\<exists>p. (kr_key m, kr_value m) \<in> set (kv_log v t p)"
proof -
  obtain p o' where p: "p \<in> set parts" "o' < start p + cnt p" and m: "(kr_key m, kr_value m) = kv_log v t p ! o'"
    using assms(1) by (auto simp: batch_def records_from_def)
  from p assms(2) have "o' < length (kv_log v t p)" by auto
  with m show ?thesis by (metis nth_mem)
qed

lemma append_all_keeps [simp]:
  "kv_committed (append_all xs v) = kv_committed v" "kv_sub (append_all xs v) = kv_sub v"
  "kv_assigned (append_all xs v) = kv_assigned v" "kv_pos (append_all xs v) = kv_pos v"
  by (induction xs arbitrary: v) (auto simp: append_all_def append_log_def)

lemma append_all_log: "kv_log v = kv_log v' \<Longrightarrow> kv_log (append_all xs v) = kv_log (append_all xs v')"
proof (induction xs arbitrary: v v')
  case (Cons x xs)
  then have "kv_log (append_log t p y v) = kv_log (append_log t p y v')" for t p y by (simp add: append_log_def)
  from Cons.IH [OF this] show ?case by (cases x) (simp add: append_all_def)
qed (simp add: append_all_def)

text \<open>
  A cluster that can be reached: no call raises. By \<open>send_ok\<close> a send that returns has appended its record once; a
  producer that repeats a request whose answer was lost may append it twice, which is not covered.
\<close>

locale kafka_up = kafka_service +
  assumes send_up: "\<exists>s'. k_send K t x key s = (Inr (), s')"
    and start_up: "\<exists>s'. k_start K c s = (Inr (), s')"
    and getmany_up: "\<exists>res s'. k_getmany K c n s = (Inr res, s')"
    and commit_up: "\<exists>s'. k_commit K c s = (Inr (), s')"
begin

lemma promote_records_sends:
  assumes "bodies_ok J" and "\<forall>m \<in> set ms. \<exists>e t. kr_value m = dump_delay J e t"
  shows "\<exists>ps. length ps = length ms \<and>
      W (snd (promote_records K J q now ms k s)) = append_all (zip ps (map (promote_target J q now) ms)) (W s) \<and>
      fst (promote_records K J q now ms k s) = k + length (filter (is_due J now) ms)"
  using assms(2)
proof (induction ms arbitrary: k s)
  case Nil
  show ?case by (simp add: append_all_def)
next
  case (Cons m ms)
  obtain e t where m: "kr_value m = dump_delay J e t" using Cons.prems by auto
  have J: "parse_run_at J (kr_value m) = Inr t" "parse_wrapped J (kr_value m) = Inr e"
    using assms(1) by (simp_all add: bodies_ok_def m)
  obtain tp key x where tgt: "promote_target J q now m = (tp, key, x)" by (cases "promote_target J q now m")
  obtain s1 where s1: "k_send K tp x key s = (Inr (), s1)" using send_up by blast
  obtain p where p: "W s1 = append_log tp p (key, x) (W s)" using send_ok [OF s1] by blast
  have step: "promote_records K J q now (m # ms) k s =
      promote_records K J q now ms (k + of_bool (is_due J now m)) s1"
    using s1 tgt by (auto simp: J is_due_def promote_target_def kb_publish_def split: if_splits)
  obtain ps where ps: "length ps = length ms"
      "W (snd (promote_records K J q now ms (k + of_bool (is_due J now m)) s1)) =
        append_all (zip ps (map (promote_target J q now) ms)) (W s1)"
      "fst (promote_records K J q now ms (k + of_bool (is_due J now m)) s1) =
        k + of_bool (is_due J now m) + length (filter (is_due J now) ms)"
    using Cons.IH [of "k + of_bool (is_due J now m)" s1] Cons.prems by auto
  then show ?case
    unfolding step by (intro exI [of _ "p # ps"]) (simp add: tgt append_all_def p)
qed

lemma delay_consumer_starts:
  assumes "delay_consumer_of (W s) q b"
  shows "\<exists>c b1 s1. delay_consumer K q b s = (Inr c, b1, s1) \<and> kb_delay_consumers b1 = (kb_delay_consumers b)(q \<mapsto> c) \<and>
    kv_sub (W s1) c = Some (delay_group q, delay_topic q) \<and> kv_pos (W s1) c = delay_start (W s) q b \<and>
    kv_log (W s1) = kv_log (W s) \<and> kv_committed (W s1) = kv_committed (W s)"
proof (cases "kb_delay_consumers b q")
  case None
  obtain c s1 where c: "k_consumer K (delay_topic q) (delay_group q) s = (c, s1)" by fastforce
  obtain s2 where s2: "k_start K c s1 = (Inr (), s2)" using start_up by blast
  have "kv_sub (W s1) c = Some (delay_group q, delay_topic q)" using consumer_new [OF c] by simp
  from start_ok [OF s2 this] consumer_new [OF c] c s2 None show ?thesis
    by (auto simp: delay_consumer_def delay_start_def delay_group_def)
next
  case (Some c)
  with assms show ?thesis by (auto simp: delay_consumer_def delay_start_def delay_consumer_of_def)
qed

text \<open>A batch: from each of some partitions the records that follow the position of the consumer.\<close>

lemma getmany_batch:
  assumes "k_getmany K c n s = (Inr res, s')" and "kv_sub (W s) c = Some (g, t)"
  shows "concat (map snd res) = batch (W s) t (kv_pos (W s) c) (read_count res) (map fst res) \<and> distinct (map fst res) \<and>
    (\<forall>p. p \<notin> set (map fst res) \<longrightarrow> read_count res p = 0) \<and> set (map fst res) \<subseteq> kv_assigned (W s) c \<and>
    length (concat (map snd res)) \<le> n \<and> (\<forall>p. p \<in> set (map fst res) \<longrightarrow> kv_pos (W s) c p + read_count res p \<le> length (kv_log (W s) t p))"
proof -
  note ok = getmany_ok [OF assms]
  have one: "snd x = records_from (W s) t (fst x) (kv_pos (W s) c (fst x)) (read_count res (fst x)) \<and> fst x \<in> kv_assigned (W s) c \<and>
      kv_pos (W s) c (fst x) + read_count res (fst x) \<le> length (kv_log (W s) t (fst x))" if "x \<in> set res" for x
  proof -
    have "map_of res (fst x) = Some (snd x)" using that ok by (simp add: map_of_is_SomeI)
    with ok that show ?thesis by (cases x) (force simp: read_count_def)
  qed
  then have "concat (map snd res) = batch (W s) t (kv_pos (W s) c) (read_count res) (map fst res)"
    by (auto simp: batch_def o_def intro!: arg_cong [where f = concat])
  moreover have "read_count res p = 0" if "p \<notin> set (map fst res)" for p
    using that map_of_SomeD [of res p] by (force simp: read_count_def split: option.split)
  moreover have "length (concat (map snd res)) \<le> n" using ok by (simp add: length_concat o_def)
  moreover have "\<forall>p \<in> set (map fst res). p \<in> kv_assigned (W s) c \<and> kv_pos (W s) c p + read_count res p \<le> length (kv_log (W s) t p)"
    using one by auto
  ultimately show ?thesis using ok by blast
qed

end

section \<open>A reference cluster\<close>

text \<open>Only partition 0 is used, a consumer is its index, and it is assigned every partition.\<close>

record 'b ref_cluster =
  rc_log :: "string \<Rightarrow> (string option \<times> 'b) list"
  rc_committed :: "string \<Rightarrow> string \<Rightarrow> nat"
  rc_subs :: "(string \<times> string) list"
  rc_pos :: "nat \<Rightarrow> nat"

definition cluster_view :: "'b ref_cluster \<Rightarrow> 'b cluster" where
  "cluster_view s = \<lparr>kv_log = (\<lambda>t p. if p = 0 then rc_log s t else []),
     kv_committed = (\<lambda>g t p. if p = 0 then rc_committed s g t else 0),
     kv_sub = (\<lambda>c. if c < length (rc_subs s) then Some (rc_subs s ! c) else None),
     kv_assigned = (\<lambda>_. UNIV), kv_pos = (\<lambda>c p. if p = 0 then rc_pos s c else 0)\<rparr>"

definition empty_cluster :: "'b ref_cluster" where
  "empty_cluster = \<lparr>rc_log = (\<lambda>_. []), rc_committed = (\<lambda>_ _. 0), rc_subs = [], rc_pos = (\<lambda>_. 0)\<rparr>"

definition ref_kafka :: "('b ref_cluster, 'b) kafka" where
  "ref_kafka = \<lparr>
     k_create_topic = (\<lambda>t n s. (Inr (), s)),
     k_send = (\<lambda>t x key s. (Inr (), s\<lparr>rc_log := (rc_log s)(t := rc_log s t @ [(key, x)])\<rparr>)),
     k_consumer = (\<lambda>t g s. (length (rc_subs s), s\<lparr>rc_subs := rc_subs s @ [(g, t)]\<rparr>)),
     k_start = (\<lambda>c s. (Inr (), s\<lparr>rc_pos := (rc_pos s)(c := case_prod (rc_committed s) (rc_subs s ! c))\<rparr>)),
     k_stop = (\<lambda>c s. s),
     k_getmany = (\<lambda>c n s.
         let t = snd (rc_subs s ! c); k = min n (length (rc_log s t) - rc_pos s c)
         in if k = 0 then (Inr [], s)
            else (Inr [(0, records_from (cluster_view s) t 0 (rc_pos s c) k)],
                  s\<lparr>rc_pos := (rc_pos s)(c := rc_pos s c + k)\<rparr>)),
     k_commit = (\<lambda>c s.
         let (g, t) = rc_subs s ! c
         in (Inr (), s\<lparr>rc_committed := (rc_committed s)(g := (rc_committed s g)(t := rc_pos s c))\<rparr>))\<rparr>"

lemma ref_getmany:
  assumes "k_getmany ref_kafka c n s = (Inr res, s')" and "kv_sub (cluster_view s) c = Some (g, t)"
  shows "distinct (map fst res) \<and> sum_list (map (length \<circ> snd) res) \<le> n \<and>
      (\<forall>(p, ms) \<in> set res. p \<in> kv_assigned (cluster_view s) c \<and>
         ms = records_from (cluster_view s) t p (kv_pos (cluster_view s) c p) (length ms)
         \<and> kv_pos (cluster_view s) c p + length ms \<le> length (kv_log (cluster_view s) t p)) \<and>
      cluster_view s' = (cluster_view s)\<lparr>kv_pos := (kv_pos (cluster_view s))(c := \<lambda>p. kv_pos (cluster_view s) c p + read_count res p)\<rparr>"
proof -
  let ?k = "min n (length (rc_log s t) - rc_pos s c)"
  have t: "rc_subs s ! c = (g, t)" using assms(2) by (auto simp: cluster_view_def split: if_splits)
  show ?thesis
  proof (cases "?k = 0")
    case True
    then have "res = []" "s' = s" using assms(1) by (auto simp: ref_kafka_def Let_def t split: if_splits)
    then show ?thesis by (simp add: read_count_def)
  next
    case False
    then have "res = [(0, records_from (cluster_view s) t 0 (rc_pos s c) ?k)]"
        "s' = s\<lparr>rc_pos := (rc_pos s)(c := rc_pos s c + ?k)\<rparr>"
      using assms(1) by (auto simp: ref_kafka_def Let_def t split: if_splits)
    with False show ?thesis by (auto simp: read_count_def) (auto simp: cluster_view_def fun_eq_iff)
  qed
qed

interpretation refk: kafka_up "ref_kafka :: ('b ref_cluster, 'b) kafka" cluster_view
proof unfold_locales
  fix c n g t and s s' :: "'b ref_cluster" and res
  assume "k_getmany ref_kafka c n s = (Inr res, s')" "kv_sub (cluster_view s) c = Some (g, t)"
  from ref_getmany [OF this] show "distinct (map fst res) \<and> sum_list (map (length \<circ> snd) res) \<le> n \<and>
      (\<forall>(p, ms) \<in> set res. p \<in> kv_assigned (cluster_view s) c \<and>
         ms = records_from (cluster_view s) t p (kv_pos (cluster_view s) c p) (length ms)
         \<and> kv_pos (cluster_view s) c p + length ms \<le> length (kv_log (cluster_view s) t p)) \<and>
      cluster_view s' = (cluster_view s)\<lparr>kv_pos := (kv_pos (cluster_view s))(c := \<lambda>p. kv_pos (cluster_view s) c p + read_count res p)\<rparr>" .
qed (auto simp: ref_kafka_def cluster_view_def append_log_def Let_def fun_eq_iff nth_append split: prod.splits if_splits)

lemma ref_kafka_service: "kafka_service ref_kafka cluster_view" "kafka_up ref_kafka cluster_view"
  by unfold_locales

section \<open>Properties\<close>

text \<open>
  With Kafka, acknowledging one message gives up the whole batch. The adapter commits the positions
  of its consumer whatever identifiers it is given; so once a worker that has leased a batch
  acknowledges anything, also an empty list, no consumer that takes over for its group is ever given
  any message of that batch again, processed or not.
\<close>

lemma kafka_ack_commits_batch:
  assumes "kafka_service K W" and "consumer_of (W s) q g b"
    and "kb_lease K J q g n b s = (Inr msgs, b1, s1)" and "kb_ack K ids b1 s1 = (Inr u, s2)"
    and "k_consumer K (topic_name q) g s2 = (c', s3)" and "k_start K c' s3 = (Inr u', s4)"
    and "k_getmany K c' n' s4 = (Inr res', s5)" and "m \<in> set msgs"
  shows "kl_msg_id m \<notin> msg_id ` set (concat (map snd res'))"
proof
  assume "kl_msg_id m \<in> msg_id ` set (concat (map snd res'))"
  then obtain r' where r': "r' \<in> set (concat (map snd res'))" "kl_msg_id m = msg_id r'" by auto
  let ?t = "topic_name q"
  obtain c b' s0 res where ec: "ensure_consumer K q g b s = (Inr c, b', s0)" and gm: "k_getmany K c n s0 = (Inr res, s1)"
      and "b' = b1" and msgs: "msgs = lease_records (parse_envelope J) (concat (map snd res))"
    using assms(3) by (auto simp: kb_lease_def split: prod.splits sum.splits)
  then have c: "kb_consumer b1 = Some c" and sub: "kv_sub (W s0) c = Some (g, ?t)"
    using kafka_service.ensure_consumer_sub [OF assms(1) ec assms(2)] by auto
  obtain r where r: "r \<in> set (concat (map snd res))" "kl_msg_id m = msg_id r"
    using lease_records_ids assms(8) msgs by blast
  with r'(2) have same: "kr_partition r' = kr_partition r" "kr_offset r' = kr_offset r"
    using msg_id_inject by metis+
  note read = kafka_service.getmany_read [OF assms(1) gm sub r(1)]
  have s1: "kv_sub (W s1) c = Some (g, ?t)" "kv_assigned (W s1) = kv_assigned (W s0)"
    using kafka_service.getmany_ok [OF assms(1) gm sub] sub by auto
  have "k_commit K c s1 = (Inr u, s2)" using assms(4) c by (simp add: kb_ack_def)
  from kafka_service.commit_ok [OF assms(1) this s1(1)]
  have "kv_committed (W s2) g ?t (kr_partition r) = kv_pos (W s1) c (kr_partition r)" using read s1(2) by simp
  moreover have "kv_committed (W s3) = kv_committed (W s2)" "kv_sub (W s3) c' = Some (g, ?t)"
    using kafka_service.consumer_new [OF assms(1,5)] by auto
  moreover note st = kafka_service.start_ok [OF assms(1,6) this(2)]
  ultimately have "kv_pos (W s4) c' (kr_partition r) = kv_pos (W s1) c (kr_partition r)" by simp
  moreover have "kv_sub (W s4) c' = Some (g, ?t)" using st \<open>kv_sub (W s3) c' = Some (g, ?t)\<close> by simp
  from kafka_service.getmany_read [OF assms(1,7) this r'(1)] have "kv_pos (W s4) c' (kr_partition r) \<le> kr_offset r"
    using same by simp
  ultimately show False using read by simp
qed

text \<open>Two published tasks, of which the first is acknowledged.\<close>

definition ref_bodies :: "(task_envelope \<times> timestamp) bodies" where
  "ref_bodies = \<lparr>dump_envelope = (\<lambda>e. (e, 0)), parse_envelope = (\<lambda>x. Inr (fst x)), dump_delay = Pair,
     parse_run_at = (\<lambda>x. Inr (snd x)), dump_dead = (\<lambda>e r. (e, 0)), parse_wrapped = (\<lambda>x. Inr (fst x))\<rparr>"

lemma ref_bodies_ok: "bodies_ok ref_bodies"
  by (simp add: bodies_ok_def ref_bodies_def)

definition demo_env :: "string \<Rightarrow> task_envelope" where
  "demo_env i = new_envelope 0 i ''default'' ''mail'' JNull"

text \<open>
  C35: A pass of the Kafka scheduler loses and duplicates nothing. With a reachable cluster whose sends append once,
  \<open>promote_scheduled\<close> returns; it reads a batch of at most 100 records of the delay topic, those which follow the
  position of its consumer (for a new consumer, the offset that its group has committed); it appends exactly one message for
  each of them, in order: the task's envelope on the topic of the queue when it is due, else the record itself on the delay
  topic; it returns the number of the due ones; and it commits, so that the group goes on exactly behind the batch.
\<close>

theorem kafka_promote_conserves:
  assumes "kafka_up K W" and "bodies_ok J" and "delay_consumer_of (W s) q b"
    and "\<forall>p. \<forall>x \<in> set (kv_log (W s) (delay_topic q) p). \<exists>e t. snd x = dump_delay J e t"
  shows "\<exists>c b' s' parts cnt ps ms. ms = batch (W s) (delay_topic q) (delay_start (W s) q b) cnt parts \<and>
    kb_promote_scheduled K J now q b s = (Inr (length (filter (is_due J now) ms)), b', s') \<and>
    kb_delay_consumers b' = (kb_delay_consumers b)(q \<mapsto> c) \<and>
    distinct parts \<and> (\<forall>p. p \<notin> set parts \<longrightarrow> cnt p = 0) \<and> set parts \<subseteq> kv_assigned (W s') c \<and>
    length ms \<le> 100 \<and> length ps = length ms \<and>
    kv_log (W s') = kv_log (append_all (zip ps (map (promote_target J q now) ms)) (W s)) \<and>
    (\<forall>p. kv_committed (W s') (delay_group q) (delay_topic q) p =
      (if p \<in> kv_assigned (W s') c then delay_start (W s) q b p + cnt p
       else kv_committed (W s) (delay_group q) (delay_topic q) p))"
proof -
  note service = kafka_up.axioms(1) [OF assms(1)]
  let ?start = "delay_start (W s) q b" and ?t = "delay_topic q"
  obtain c b1 s1 where c: "delay_consumer K q b s = (Inr c, b1, s1)" "kb_delay_consumers b1 = (kb_delay_consumers b)(q \<mapsto> c)"
      and s1: "kv_sub (W s1) c = Some (delay_group q, ?t)" "kv_pos (W s1) c = ?start" "kv_log (W s1) = kv_log (W s)"
        "kv_committed (W s1) = kv_committed (W s)"
    using kafka_up.delay_consumer_starts [OF assms(1,3)] by blast
  obtain res s2 where res: "k_getmany K c 100 s1 = (Inr res, s2)" using kafka_up.getmany_up [OF assms(1)] by blast
  define ms where "ms = concat (map snd res)"
  note got = kafka_up.getmany_batch [OF assms(1) res s1(1)]
  have ms: "ms = batch (W s) ?t ?start (read_count res) (map fst res)"
    using got batch_log [OF s1(3)] by (simp add: ms_def s1(2))
  have "\<forall>m \<in> set ms. \<exists>e t. kr_value m = dump_delay J e t"
    using batch_values [of _ "W s" ?t ?start "read_count res" "map fst res"] got assms(4) by (fastforce simp: ms s1(2,3))
  from kafka_up.promote_records_sends [OF assms(1,2) this, of q now 0 s2] obtain ps s3 where
      ps: "length ps = length ms" and s3: "W s3 = append_all (zip ps (map (promote_target J q now) ms)) (W s2)"
        "promote_records K J q now ms 0 s2 = (length (filter (is_due J now) ms), s3)"
    by (metis add_0 prod.collapse)
  obtain s4 where s4: "k_commit K c s3 = (Inr (), s4)" using kafka_up.commit_up [OF assms(1)] by blast
  have s2: "W s2 = (W s1)\<lparr>kv_pos := (kv_pos (W s1))(c := \<lambda>p. ?start p + read_count res p)\<rparr>"
    using kafka_service.getmany_ok [OF service res s1(1)] by (simp add: s1(2))
  then have "kv_sub (W s3) c = Some (delay_group q, ?t)" using s1(1) by (simp add: s3(1))
  note commit = kafka_service.commit_ok [OF service s4 this]
  have "kb_promote_scheduled K J now q b s = (Inr (length (filter (is_due J now) ms)), b1, s4)"
    using c(1) res s3(2) s4 by (simp add: kb_promote_scheduled_def ms_def)
  moreover have "kv_log (W s4) = kv_log (append_all (zip ps (map (promote_target J q now) ms)) (W s))"
    using append_all_log [of "W s2" "W s"] by (simp add: commit s3(1) s2 s1(3))
  moreover have assigned: "kv_assigned (W s4) = kv_assigned (W s1)" by (simp add: commit s3(1) s2)
  moreover have "kv_committed (W s4) (delay_group q) ?t p =
      (if p \<in> kv_assigned (W s4) c then ?start p + read_count res p else kv_committed (W s) (delay_group q) ?t p)" for p
    by (simp add: assigned) (simp add: commit s3(1) s2 s1(4))
  moreover have "length ms \<le> 100" using got unfolding ms_def by blast
  moreover have "distinct (map fst res)" "set (map fst res) \<subseteq> kv_assigned (W s1) c" using got by simp_all
  moreover have "p \<notin> set (map fst res) \<Longrightarrow> read_count res p = 0" for p using got by blast
  ultimately show ?thesis
    using c(2) ps ms
    by (intro exI [of _ c] exI [of _ b1] exI [of _ s4] exI [of _ "map fst res"] exI [of _ "read_count res"] exI [of _ ps] exI [of _ ms])
      (intro conjI allI impI; simp only: assigned)
qed

text \<open>Two delayed tasks, of which one is due at time 10.\<close>

definition demo_delayed :: "(task_envelope \<times> timestamp) ref_cluster" where
  "demo_delayed = \<lparr>rc_log = (\<lambda>t. if t = delay_topic ''default''
     then [(None, (demo_env ''t1'', 5)), (None, (demo_env ''t2'', 50))] else []), rc_committed = (\<lambda>_ _. 0), rc_subs = [], rc_pos = (\<lambda>_. 0)\<rparr>"

definition demo_promoted where
  "demo_promoted = kb_promote_scheduled ref_kafka ref_bodies 10 ''default'' new_kbroker demo_delayed"

lemma demo_promoted_one: "fst demo_promoted = Inr 1"
  by (simp add: demo_promoted_def kb_promote_scheduled_def delay_consumer_def new_kbroker_def Let_def ref_kafka_def demo_delayed_def
      empty_cluster_def cluster_view_def records_from_def ref_bodies_def kb_publish_def upt_rec)

theorem kafka_promote_conserves_witness:
  "\<exists>parts cnt ms. ms = batch (cluster_view demo_delayed) (delay_topic ''default'') (\<lambda>_. 0) cnt parts \<and>
     fst demo_promoted = Inr 1 \<and> length (filter (is_due ref_bodies 10) ms) = 1 \<and>
     (\<forall>p. kv_committed (cluster_view (snd (snd demo_promoted))) (delay_group ''default'') (delay_topic ''default'') p = cnt p)"
proof -
  let ?start = "delay_start (cluster_view demo_delayed) ''default'' new_kbroker"
  have "delay_consumer_of (cluster_view demo_delayed) ''default'' new_kbroker" by (simp add: delay_consumer_of_def new_kbroker_def)
  moreover have "\<forall>p. \<forall>x \<in> set (kv_log (cluster_view demo_delayed) (delay_topic ''default'') p). \<exists>e t. snd x = dump_delay ref_bodies e t"
    by (simp add: ref_bodies_def)
  moreover have "?start = (\<lambda>_. 0)"
    by (auto simp: delay_start_def new_kbroker_def demo_delayed_def empty_cluster_def cluster_view_def fun_eq_iff)
  moreover note run = kafka_promote_conserves [OF ref_kafka_service(2) ref_bodies_ok, of demo_delayed "''default''" new_kbroker 10,
      folded demo_promoted_def]
  ultimately obtain c b' s' parts cnt ms where r: "ms = batch (cluster_view demo_delayed) (delay_topic ''default'') (\<lambda>_. 0) cnt parts"
      "demo_promoted = (Inr (length (filter (is_due ref_bodies 10) ms)), b', s')"
      "\<forall>p. kv_committed (cluster_view s') (delay_group ''default'') (delay_topic ''default'') p =
        (if p \<in> kv_assigned (cluster_view s') c then ?start p + cnt p
         else kv_committed (cluster_view demo_delayed) (delay_group ''default'') (delay_topic ''default'') p)"
      "?start = (\<lambda>_. 0)" by metis
  have "kv_assigned (cluster_view s') c = UNIV" by (simp add: cluster_view_def)
  note committed = r(3) [unfolded r(4) this]
  have "length (filter (is_due ref_bodies 10) ms) = 1" using demo_promoted_one unfolding r(2) by simp
  moreover have "\<forall>p. kv_committed (cluster_view (snd (snd demo_promoted))) (delay_group ''default'') (delay_topic ''default'') p = cnt p"
    unfolding r(2) snd_conv using committed by simp
  ultimately show ?thesis using r(1) demo_promoted_one by blast
qed

end
