(* ===== verification/RabbitMQ_Broker.thy ===== *)
theory RabbitMQ_Broker
  imports Kafka_Broker Redis_Service
begin

text \<open>
  \<open>dtq/broker/rabbitmq_broker.py\<close>: the RabbitMQ adapter of the broker protocol. The channel is a
  parameter, a record of the calls that the adapter makes, any of which may raise. The server
  delivers a message by calling back into the adapter, which keeps it in a buffer until a lease
  takes it.
\<close>

section \<open>The channel\<close>

record ('k, 'b) rabbit =
  q_declare_exchange :: "string \<Rightarrow> 'k \<Rightarrow> (exn + unit) \<times> 'k"
  q_declare_queue :: "string \<Rightarrow> (string \<times> string) list \<Rightarrow> 'k \<Rightarrow> (exn + unit) \<times> 'k"
  q_bind :: "string \<Rightarrow> string \<Rightarrow> string \<Rightarrow> 'k \<Rightarrow> (exn + unit) \<times> 'k"
  q_publish :: "string \<Rightarrow> string \<Rightarrow> 'b \<Rightarrow> string option \<Rightarrow> 'k \<Rightarrow> (exn + unit) \<times> 'k"
  q_consume :: "string \<Rightarrow> string \<Rightarrow> 'k \<Rightarrow> (exn + string) \<times> 'k"
  q_ack :: "int \<Rightarrow> 'k \<Rightarrow> (exn + unit) \<times> 'k"
  q_nack :: "int \<Rightarrow> 'k \<Rightarrow> (exn + unit) \<times> 'k"
  q_get :: "string \<Rightarrow> 'k \<Rightarrow> (exn + (nat \<times> 'b) option) \<times> 'k"
  q_declare_passive :: "string \<Rightarrow> 'k \<Rightarrow> exn + nat \<times> nat"

record rbroker =
  rb_buffers :: "string \<Rightarrow> kleased list option"
  rb_consumer_tags :: "string \<Rightarrow> string option"

definition new_rbroker :: rbroker where
  "new_rbroker = \<lparr>rb_buffers = (\<lambda>_. None), rb_consumer_tags = (\<lambda>_. None)\<rparr>"

section \<open>Declarations\<close>

definition rq_name :: "string \<Rightarrow> string" where "rq_name queue = ''dtq.'' @ queue"

definition rdlq_name :: "string \<Rightarrow> string" where "rdlq_name queue = ''dtq.'' @ queue @ ''.dlq''"

definition rdelay_name :: "string \<Rightarrow> string" where "rdelay_name queue = ''dtq.'' @ queue @ ''.delay''"

definition rexchange :: "string \<Rightarrow> string" where "rexchange queue = ''dtq.'' @ queue @ ''.exchange''"

definition rdlx :: "string \<Rightarrow> string" where "rdlx queue = ''dtq.'' @ queue @ ''.dlx''"

definition rdelay_exchange :: "string \<Rightarrow> string" where "rdelay_exchange queue = ''dtq.'' @ queue @ ''.delay-exchange''"

text \<open>Calls one after the other; the first exception ends the sequence.\<close>

fun in_sequence :: "('k \<Rightarrow> (exn + unit) \<times> 'k) list \<Rightarrow> 'k \<Rightarrow> (exn + unit) \<times> 'k" where
  "in_sequence [] s = (Inr (), s)"
| "in_sequence (f # fs) s = (case f s of (Inl e, s') \<Rightarrow> (Inl e, s') | (Inr _, s') \<Rightarrow> in_sequence fs s')"

definition rb_ensure_queue :: "('k, 'b) rabbit \<Rightarrow> string \<Rightarrow> 'k \<Rightarrow> (exn + unit) \<times> 'k" where
  "rb_ensure_queue M queue = in_sequence
     [q_declare_exchange M (rexchange queue), q_declare_exchange M (rdlx queue),
      q_declare_exchange M (rdelay_exchange queue),
      q_declare_queue M (rq_name queue) [(''x-queue-type'', ''quorum''), (''x-dead-letter-exchange'', rdlx queue),
        (''x-dead-letter-routing-key'', rdlq_name queue)],
      q_bind M (rq_name queue) (rexchange queue) (rq_name queue),
      q_declare_queue M (rdlq_name queue) [(''x-queue-type'', ''quorum'')],
      q_bind M (rdlq_name queue) (rdlx queue) (rdlq_name queue),
      q_declare_queue M (rdelay_name queue) [(''x-queue-type'', ''quorum''), (''x-dead-letter-exchange'', rexchange queue),
        (''x-dead-letter-routing-key'', rq_name queue)],
      q_bind M (rdelay_name queue) (rdelay_exchange queue) (rdelay_name queue)]"

section \<open>Publishing\<close>

definition rb_publish :: "('k, 'b) rabbit \<Rightarrow> 'b bodies \<Rightarrow> string \<Rightarrow> task_envelope \<Rightarrow> 'k \<Rightarrow> (exn + unit) \<times> 'k" where
  "rb_publish M J queue e s = q_publish M (rexchange queue) (rq_name queue) (dump_envelope J e) None s"

text \<open>\<open>max(0, int((run_at - time.time()) * 1000))\<close>: \<open>int\<close> rounds towards 0.\<close>

definition delay_ms :: "timestamp \<Rightarrow> timestamp \<Rightarrow> int" where
  "delay_ms now run_at = max 0 (let x = (run_at - now) * 1000 in if x < 0 then \<lceil>x\<rceil> else \<lfloor>x\<rfloor>)"

definition rb_schedule ::
  "('k, 'b) rabbit \<Rightarrow> 'b bodies \<Rightarrow> timestamp \<Rightarrow> string \<Rightarrow> task_envelope \<Rightarrow> timestamp \<Rightarrow> 'k \<Rightarrow> (exn + unit) \<times> 'k" where
  "rb_schedule M J now queue e run_at s =
     q_publish M (rdelay_exchange queue) (rdelay_name queue) (dump_envelope J e) (Some (str_int (delay_ms now run_at))) s"

definition rb_dead_letter ::
  "('k, 'b) rabbit \<Rightarrow> 'b bodies \<Rightarrow> string \<Rightarrow> task_envelope \<Rightarrow> string \<Rightarrow> 'k \<Rightarrow> (exn + unit) \<times> 'k" where
  "rb_dead_letter M J queue e reason s = q_publish M (rdlx queue) (rdlq_name queue) (dump_dead J e reason) None s"

definition rb_promote_scheduled :: "string \<Rightarrow> nat" where "rb_promote_scheduled queue = 0"

section \<open>Leasing\<close>

text \<open>
  The callback: a message that does not parse is given back. When giving back raises, so does the
  callback, which the client library reports; the adapter is not affected.
\<close>

definition on_message ::
  "('k, 'b) rabbit \<Rightarrow> 'b bodies \<Rightarrow> string \<Rightarrow> nat \<times> 'b \<Rightarrow> kleased list \<times> 'k \<Rightarrow> kleased list \<times> 'k" where
  "on_message M J queue_name msg bs =
     (case (msg, bs) of ((tag, body), (buf, s)) \<Rightarrow>
        (case parse_envelope J body of
           Inr env \<Rightarrow> (buf @ [\<lparr>kl_envelope = env, kl_msg_id = str_int (int tag)\<rparr>], s)
         | Inl e \<Rightarrow> (buf, snd (q_nack M (int tag) s))))"

text \<open>
  The loop of \<open>lease\<close>; the list has for every round before the deadline the messages that the server
  delivers while the round waits. A round that finds the buffer empty ends in a timeout.
\<close>

fun lease_loop ::
  "('k, 'b) rabbit \<Rightarrow> 'b bodies \<Rightarrow> string \<Rightarrow> nat \<Rightarrow> (nat \<times> 'b) list list \<Rightarrow> kleased list \<Rightarrow>
   kleased list \<times> 'k \<Rightarrow> kleased list \<times> kleased list \<times> 'k" where
  "lease_loop M J queue_name count [] result bs = (result, bs)"
| "lease_loop M J queue_name count (arrivals # rounds) result bs =
     (if \<not> length result < count then (result, bs)
      else case fold (on_message M J queue_name) arrivals bs of
             ([], s) \<Rightarrow> (result, [], s)
           | (m # ms, s) \<Rightarrow> lease_loop M J queue_name count rounds (result @ [m]) (ms, s))"

text \<open>The buffer is created before the consumer is set up.\<close>

definition ensure_buffer ::
  "('k, 'b) rabbit \<Rightarrow> string \<Rightarrow> string \<Rightarrow> rbroker \<Rightarrow> 'k \<Rightarrow> (exn + unit) \<times> rbroker \<times> 'k" where
  "ensure_buffer M queue_name consumer b s =
     (if rb_buffers b queue_name \<noteq> None then (Inr (), b, s)
      else let b1 = b\<lparr>rb_buffers := (rb_buffers b)(queue_name \<mapsto> [])\<rparr>
           in case q_consume M queue_name consumer s of
                (Inl e, s1) \<Rightarrow> (Inl e, b1, s1)
              | (Inr tag, s1) \<Rightarrow> (Inr (), b1\<lparr>rb_consumer_tags := (rb_consumer_tags b1)(queue_name \<mapsto> tag)\<rparr>, s1))"

definition rb_lease ::
  "('k, 'b) rabbit \<Rightarrow> 'b bodies \<Rightarrow> string \<Rightarrow> string \<Rightarrow> nat \<Rightarrow> (nat \<times> 'b) list list \<Rightarrow> rbroker \<Rightarrow> 'k \<Rightarrow>
   (exn + kleased list) \<times> rbroker \<times> 'k" where
  "rb_lease M J queue consumer count rounds b s =
     (case ensure_buffer M (rq_name queue) consumer b s of
        (Inl e, b1, s1) \<Rightarrow> (Inl e, b1, s1)
      | (Inr _, b1, s1) \<Rightarrow>
          (case lease_loop M J (rq_name queue) count rounds [] (the (rb_buffers b1 (rq_name queue)), s1) of
             (result, buf, s2) \<Rightarrow> (Inr result, b1\<lparr>rb_buffers := (rb_buffers b1)(rq_name queue \<mapsto> buf)\<rparr>, s2)))"

section \<open>Acknowledging and inspecting\<close>

text \<open>Errors of single acknowledgements are ignored.\<close>

fun rb_ack :: "('k, 'b) rabbit \<Rightarrow> string list \<Rightarrow> 'k \<Rightarrow> 'k" where
  "rb_ack M [] s = s"
| "rb_ack M (tag_str # tags) s =
     rb_ack M tags (case parse_int tag_str of None \<Rightarrow> s | Some tag \<Rightarrow> snd (q_ack M tag s))"

fun rb_nack :: "('k, 'b) rabbit \<Rightarrow> string list \<Rightarrow> 'k \<Rightarrow> 'k" where
  "rb_nack M [] s = s"
| "rb_nack M (tag_str # tags) s =
     rb_nack M tags (case parse_int tag_str of None \<Rightarrow> s | Some tag \<Rightarrow> snd (q_nack M tag s))"

definition rb_reclaim :: "string \<Rightarrow> kleased list" where "rb_reclaim queue = []"

text \<open>
  A dead letter is read in either form: \<open>parse\<close> is the nested \<open>try\<close> over the two codecs. The message is
  given back in any case; an exception of that ends the loop.
\<close>

fun rb_dlq_loop ::
  "('k, 'b) rabbit \<Rightarrow> ('b \<Rightarrow> exn + task_envelope) \<Rightarrow> string \<Rightarrow> nat \<Rightarrow> kleased list \<Rightarrow> 'k \<Rightarrow>
   (exn + kleased list) \<times> 'k" where
  "rb_dlq_loop M parse dlq 0 messages s = (Inr messages, s)"
| "rb_dlq_loop M parse dlq (Suc n) messages s =
     (case q_get M dlq s of
        (Inl e, s1) \<Rightarrow> (Inl e, s1)
      | (Inr None, s1) \<Rightarrow> (Inr messages, s1)
      | (Inr (Some (tag, body)), s1) \<Rightarrow>
          let messages' = (case parse body of
                 Inl e \<Rightarrow> messages
               | Inr env \<Rightarrow> messages @ [\<lparr>kl_envelope = env, kl_msg_id = str_int (int tag)\<rparr>])
          in case q_nack M (int tag) s1 of
               (Inl e, s2) \<Rightarrow> (Inl e, s2)
             | (Inr _, s2) \<Rightarrow> rb_dlq_loop M parse dlq n messages' s2)"

definition rb_get_dlq_messages ::
  "('k, 'b) rabbit \<Rightarrow> ('b \<Rightarrow> exn + task_envelope) \<Rightarrow> string \<Rightarrow> nat \<Rightarrow> 'k \<Rightarrow> (exn + kleased list) \<times> 'k" where
  "rb_get_dlq_messages M parse queue count s = rb_dlq_loop M parse (rdlq_name queue) count [] s"

definition rb_queue_depth :: "('k, 'b) rabbit \<Rightarrow> string \<Rightarrow> 'k \<Rightarrow> nat" where
  "rb_queue_depth M queue s = (case q_declare_passive M (rq_name queue) s of Inl e \<Rightarrow> 0 | Inr (n, c) \<Rightarrow> n)"

definition rb_in_flight_count :: "('k, 'b) rabbit \<Rightarrow> string \<Rightarrow> 'k \<Rightarrow> nat" where
  "rb_in_flight_count M queue s = (case q_declare_passive M (rq_name queue) s of Inl e \<Rightarrow> 0 | Inr (n, c) \<Rightarrow> c)"

definition rb_close :: "rbroker \<Rightarrow> rbroker" where
  "rb_close b = new_rbroker"

section \<open>Lemmas\<close>

lemma delay_ms_bounds:
  "0 \<le> delay_ms now run_at"
  "now \<le> run_at \<Longrightarrow> now + of_int (delay_ms now run_at) / 1000 \<le> run_at \<and>
     run_at < now + (of_int (delay_ms now run_at) + 1) / 1000"
proof -
  show "0 \<le> delay_ms now run_at" by (simp add: delay_ms_def)
  assume "now \<le> run_at"
  then have "delay_ms now run_at = \<lfloor>(run_at - now) * 1000\<rfloor>" by (simp add: delay_ms_def Let_def)
  then show "now + of_int (delay_ms now run_at) / 1000 \<le> run_at \<and> run_at < now + (of_int (delay_ms now run_at) + 1) / 1000"
    using of_int_floor_le [of "(run_at - now) * 1000"] floor_less_iff [of "(run_at - now) * 1000"]
      floor_correct [of "(run_at - now) * 1000"] by (simp add: field_simps)
qed

text \<open>What the deliveries of a list of messages put into the buffer.\<close>

fun delivered :: "'b bodies \<Rightarrow> (nat \<times> 'b) list \<Rightarrow> kleased list" where
  "delivered J [] = []"
| "delivered J ((tag, body) # ms) =
     (case parse_envelope J body of
        Inr env \<Rightarrow> \<lparr>kl_envelope = env, kl_msg_id = str_int (int tag)\<rparr> # delivered J ms
      | Inl e \<Rightarrow> delivered J ms)"

lemma delivered_append: "delivered J (xs @ ys) = delivered J xs @ delivered J ys"
  by (induction J xs rule: delivered.induct) (auto split: sum.split)

lemma fold_on_message: "fst (fold (on_message M J qn) ms (buf, s)) = buf @ delivered J ms"
  by (induction ms arbitrary: buf s) (auto simp: on_message_def split: sum.split)

lemma lease_loop_fifo:
  assumes "lease_loop M J qn count rounds result (buf, s) = (result', buf', s')" and "length result \<le> count"
  shows "\<exists>k. result' @ buf' = result @ buf @ delivered J (concat (take k rounds)) \<and> length result' \<le> count"
  using assms
proof (induction rounds arbitrary: result buf s)
  case Nil
  then show ?case by simp
next
  case (Cons arrivals rounds)
  show ?case
  proof (cases "length result < count")
    case False
    with Cons.prems show ?thesis by (intro exI [of _ 0]) auto
  next
    case True
    obtain buf1 s1 where f: "fold (on_message M J qn) arrivals (buf, s) = (buf1, s1)" by fastforce
    then have buf1: "buf1 = buf @ delivered J arrivals" using fold_on_message [of M J qn arrivals buf s] by simp
    show ?thesis
    proof (cases buf1)
      case Nil
      with Cons.prems True f buf1 show ?thesis by (intro exI [of _ 1]) auto
    next
      case ms: (Cons m ms)
      then have "lease_loop M J qn count rounds (result @ [m]) (ms, s1) = (result', buf', s')"
        using Cons.prems(1) True f by simp
      from Cons.IH [OF this] True obtain k where
        k: "result' @ buf' = (result @ [m]) @ ms @ delivered J (concat (take k rounds))" "length result' \<le> count"
        by auto
      have "result @ buf @ delivered J (concat (take (Suc k) (arrivals # rounds))) =
          result @ (buf @ delivered J arrivals) @ delivered J (concat (take k rounds))"
        by (simp add: delivered_append)
      also have "\<dots> = result' @ buf'" using k(1) ms by (simp add: buf1 [symmetric])
      finally show ?thesis using k(2) by (metis (no_types))
    qed
  qed
qed

section \<open>Properties\<close>

text \<open>
  C40: A lease from RabbitMQ returns at most the number of messages asked for, in the order of their
  delivery, and drops none: what it returns, followed by what stays in the buffer, is what was in the
  buffer before followed by the messages that the server delivered during the call and that parse.
\<close>

theorem rabbit_lease_fifo:
  assumes "rb_lease M J q consumer count rounds b s = (Inr msgs, b', s')"
    and "rb_buffers b (rq_name q) = Some buf"
  shows "\<exists>buf' k. rb_buffers b' (rq_name q) = Some buf' \<and> length msgs \<le> count \<and>
    msgs @ buf' = buf @ delivered J (concat (take k rounds))"
proof -
  obtain buf' where loop: "lease_loop M J (rq_name q) count rounds [] (buf, s) = (msgs, buf', s')"
      and "rb_buffers b' (rq_name q) = Some buf'"
    using assms by (auto simp: rb_lease_def ensure_buffer_def split: prod.splits)
  with lease_loop_fifo [OF loop] show ?thesis by auto
qed

definition ref_rabbit :: "(nat, task_envelope \<times> timestamp) rabbit" where
  "ref_rabbit = \<lparr>q_declare_exchange = (\<lambda>x s. (Inr (), s)), q_declare_queue = (\<lambda>q a s. (Inr (), s)),
     q_bind = (\<lambda>q x r s. (Inr (), s)), q_publish = (\<lambda>x r m t s. (Inr (), s)),
     q_consume = (\<lambda>q c s. (if s = 0 then Inl (OperationalError ''not found'') else Inr ''ctag'', s)),
     q_ack = (\<lambda>i s. (Inr (), s)), q_nack = (\<lambda>i s. (Inr (), s)), q_get = (\<lambda>q s. (Inr None, s)),
     q_declare_passive = (\<lambda>q s. Inr (0, 0))\<rparr>"

definition demo_rbroker :: rbroker where
  "demo_rbroker = new_rbroker\<lparr>rb_buffers := (\<lambda>_. None)(rq_name ''default'' \<mapsto>
     [\<lparr>kl_envelope = demo_env ''t1'', kl_msg_id = ''1''\<rparr>, \<lparr>kl_envelope = demo_env ''t2'', kl_msg_id = ''2''\<rparr>])\<rparr>"

theorem rabbit_lease_fifo_witness:
  "\<exists>b' s'. rb_lease ref_rabbit ref_bodies ''default'' ''w1'' 1 [[], []] demo_rbroker 1 =
      (Inr [\<lparr>kl_envelope = demo_env ''t1'', kl_msg_id = ''1''\<rparr>], b', s') \<and>
    rb_buffers b' (rq_name ''default'') = Some [\<lparr>kl_envelope = demo_env ''t2'', kl_msg_id = ''2''\<rparr>]"
proof -
  obtain b' s' where run: "rb_lease ref_rabbit ref_bodies ''default'' ''w1'' 1 [[], []] demo_rbroker 1 =
      (Inr [\<lparr>kl_envelope = demo_env ''t1'', kl_msg_id = ''1''\<rparr>], b', s')"
    by (simp add: rb_lease_def ensure_buffer_def demo_rbroker_def)
  have "rb_buffers demo_rbroker (rq_name ''default'') =
      Some [\<lparr>kl_envelope = demo_env ''t1'', kl_msg_id = ''1''\<rparr>, \<lparr>kl_envelope = demo_env ''t2'', kl_msg_id = ''2''\<rparr>]"
    by (simp add: demo_rbroker_def)
  from rabbit_lease_fifo [OF run this] obtain buf' k where buf': "rb_buffers b' (rq_name ''default'') = Some buf'"
      "[\<lparr>kl_envelope = demo_env ''t1'', kl_msg_id = ''1''\<rparr>] @ buf' =
        [\<lparr>kl_envelope = demo_env ''t1'', kl_msg_id = ''1''\<rparr>, \<lparr>kl_envelope = demo_env ''t2'', kl_msg_id = ''2''\<rparr>] @
        delivered ref_bodies (concat (take k [[], []]))" by blast
  moreover have "concat (take k [[], []]) = ([] :: (nat \<times> task_envelope \<times> timestamp) list)"
    using set_take_subset [of k "[[], []]"] by auto
  ultimately show ?thesis using run by auto
qed

text \<open>
  A consumer that could not be set up is never set up again. The buffer of a queue exists before the
  call that starts its consumer; if that call raises (the queue is not declared yet, say), every
  later lease on that queue makes no call to the server at all and, as nothing is delivered without
  a consumer, returns no message.
\<close>

lemma rabbit_failed_consume_never_retried:
  assumes "rb_lease M J q consumer count rounds b s = (Inl e, b1, s1)" and "list_all (\<lambda>x. x = []) rounds'"
  shows "rb_lease M J q consumer' count' rounds' b1 s' = (Inr [], b1, s')"
proof -
  have b1: "rb_buffers b1 (rq_name q) = Some []"
    using assms(1) by (auto simp: rb_lease_def ensure_buffer_def Let_def split: prod.splits sum.splits if_splits)
  have "lease_loop M J (rq_name q) count' rounds' [] ([], s') = ([], [], s')"
    using assms(2) by (cases rounds') auto
  with b1 show ?thesis by (simp add: rb_lease_def ensure_buffer_def fun_upd_idem)
qed

end
