(* ===== verification/Broker_Factory.thy ===== *)
theory Broker_Factory
  imports Redis_Broker Kafka_Broker RabbitMQ_Broker
begin

text \<open>
  \<open>dtq/broker/factory.py\<close>: the choice of a backend by the settings. Letters outside ASCII, which
  \<open>lower()\<close> would map too, do not matter: the names it is compared with are ASCII.
\<close>

definition lower_char :: "char \<Rightarrow> char" where
  "lower_char c = (let n = of_char c :: nat in if 65 \<le> n \<and> n \<le> 90 then char_of (n + 32) else c)"

definition lower :: "string \<Rightarrow> string" where
  "lower s = map lower_char s"

datatype backend = RedisBroker string | KafkaBroker string | RabbitMQBroker string

definition create_broker :: "(string \<Rightarrow> string) \<Rightarrow> settings \<Rightarrow> exn + backend" where
  "create_broker repr cfg =
     (let backend = lower (cfg_broker_backend cfg)
      in if backend = ''redis'' then Inr (RedisBroker (cfg_redis_url cfg))
         else if backend = ''kafka'' then Inr (KafkaBroker (cfg_kafka_bootstrap_servers cfg))
         else if backend = ''rabbitmq'' then Inr (RabbitMQBroker (cfg_rabbitmq_url cfg))
         else Inl (PyValueError (''Unknown broker backend: '' @ repr backend @ ''. Use '' @ [CHR 0x27] @ ''redis'' @
           [CHR 0x27] @ '', '' @ [CHR 0x27] @ ''kafka'' @ [CHR 0x27] @ '', or '' @ [CHR 0x27] @ ''rabbitmq'' @
           [CHR 0x27] @ ''.'')))"

text \<open>Without configuration the broker is Redis, and the case of the name does not matter.\<close>

lemma lower_lower [simp]: "lower (lower s) = lower s"
proof -
  have "lower_char (lower_char c) = lower_char c" for c
    by (simp add: lower_char_def Let_def)
  then show ?thesis by (simp add: lower_def)
qed

lemma create_broker_case: "create_broker repr (cfg\<lparr>cfg_broker_backend := lower s\<rparr>) = create_broker repr (cfg\<lparr>cfg_broker_backend := s\<rparr>)"
  by (simp add: create_broker_def Let_def)

lemma create_broker_default: "create_broker repr default_settings = Inr (RedisBroker ''redis://localhost:7202/0'')"
  by (simp add: create_broker_def default_settings_def lower_def lower_char_def)

end
