(* ===== verification/Task_Lifecycle.thy ===== *)
theory Task_Lifecycle
  imports System Queue_Order
begin

text \<open>
  The life of a task through all components: the control plane accepts it, a worker polls its queue,
  executes it under heartbeats, commits its effect, releases the lease and acknowledges the message.
  The lemmas say what each component does when its services answer; the theorem composes them.
\<close>

section \<open>Recording an attempt\<close>

definition open_attempt :: "timestamp \<Rightarrow> executor \<Rightarrow> task_envelope \<Rightarrow> int \<Rightarrow> attempt_row" where
  "open_attempt now ex e f = \<lparr>ar_task_id = env_task_id e, ar_attempt_no = attempt_no e,
     ar_worker_id = ex_worker_id ex, ar_fence = f, ar_started_at = now, ar_finished_at = None,
     ar_outcome = None, ar_error_type = None, ar_error_repr = None\<rparr>"

definition spec_record :: "timestamp \<Rightarrow> executor \<Rightarrow> task_envelope \<Rightarrow> int \<Rightarrow> db \<Rightarrow> db" where
  "spec_record now ex e f b = spec_state now (env_task_id e) LEASED (Some (attempt_no e))
     (b\<lparr>attempts := (attempts b)((env_task_id e, attempt_no e) \<mapsto> open_attempt now ex e f)\<rparr>)"

context postgres_up
begin

lemma exec_record_up:
  assumes "tasks (D (w_db w)) (env_task_id e) \<noteq> None"
    and "attempts (D (w_db w)) (env_task_id e, attempt_no e) = None"
    and "int4 (attempt_no e)" and "int8 f" and cols: "\<forall>t \<in> ran (tasks (D (w_db w))). task_cols_ok t"
  shows "\<exists>d. exec_record P now ex e f w = (None, w\<lparr>w_db := d\<rparr>) \<and> D d = spec_record now ex e f (D (w_db w))"
proof -
  let ?a = "open_attempt now ex e f"
  have "attempt_ok (D (w_db w)) ?a"
    using assms by (simp add: attempt_ok_def attempt_key_def open_attempt_def)
  then obtain d1 where i: "ins_attempt P ?a (w_db w) = Inr d1" using ins_attempt_up by blast
  from ins_attempt [OF i] have d1: "D d1 = (D (w_db w))\<lparr>attempts := (attempts (D (w_db w)))
      ((env_task_id e, attempt_no e) \<mapsto> ?a)\<rparr>"
    by (simp add: attempt_key_def open_attempt_def)
  obtain d2 where d2: "update_task_state P now (env_task_id e) LEASED (Some (attempt_no e)) d1 = Inr ((), d2)"
      "D d2 = spec_state now (env_task_id e) LEASED (Some (attempt_no e)) (D d1)"
    by (rule update_task_state_run [of d1 "Some (attempt_no e)" now "env_task_id e" LEASED])
      (use cols assms(3) in \<open>auto simp: d1\<close>)
  have "record_tx P now ex e f (w_db w) = Inr ((), d2)"
    using i d2(1) by (simp add: record_tx_def create_attempt_def open_attempt_def Let_def tx_defs)
  from run_tx_up [of "record_tx P now ex e f", OF this] d1 d2(2) show ?thesis
    by (auto simp: exec_record_def spec_record_def split: prod.splits sum.splits)
qed

end

lemma spec_state_rows_ok:
  assumes "\<forall>t \<in> ran (tasks b). task_cols_ok t" and "\<And>n. a = Some n \<Longrightarrow> int4 n"
  shows "\<forall>t \<in> ran (tasks (spec_state now i st a b)). task_cols_ok t"
proof -
  let ?f = "\<lambda>r. let r' = r\<lparr>tr_state := st, tr_updated_at := now\<rparr>
    in case a of None \<Rightarrow> r' | Some n \<Rightarrow> r'\<lparr>tr_attempt := n\<rparr>"
  have "task_cols_ok (?f r)" if "task_cols_ok r" for r
    using that assms(2) by (simp add: task_cols_ok_def Let_def split: option.split)
  then show ?thesis using assms(1) by (auto simp: spec_state_def ran_def upd_map_def)
qed

section \<open>Time passing under a heartbeat\<close>

definition time_passes :: "('s, 'v) redis \<Rightarrow> nat \<Rightarrow> ('s, 'd) world \<Rightarrow> ('s, 'd) world" where
  "time_passes R d w = w\<lparr>w_redis := r_elapse R d (w_redis w)\<rparr>"

lemma time_passes_simps [simp]:
  "w_redis (time_passes R d w) = r_elapse R d (w_redis w)" "w_db (time_passes R d w) = w_db w"
  "(time_passes R d w)\<lparr>w_redis := s\<rparr> = w\<lparr>w_redis := s\<rparr>"
  by (simp_all add: time_passes_def)

text \<open>The schedule and the dead letters of a queue.\<close>

definition outside :: "string \<Rightarrow> 'v keyspace \<Rightarrow> ('v \<times> real) list \<times> 'v fields list" where
  "outside q ks = (zsets ks (sched_key q), map snd (st_entries (stream_at ks (dlq_key q))))"

text \<open>The queue as its consumers see it, with its schedule and its dead letters.\<close>

definition same_ids :: "string \<Rightarrow> 'v keyspace \<Rightarrow> 'v keyspace \<Rightarrow> bool" where
  "same_ids q ks ks' \<longleftrightarrow> queue_wf ks' q \<and> pending_ids ks' q = pending_ids ks q \<and> ready_ids ks' q = ready_ids ks q \<and>
     st_entries (stream_at ks' (q_key q)) = st_entries (stream_at ks (q_key q)) \<and> outside q ks' = outside q ks"

lemma same_ids_trans [trans]: "same_ids q a b \<Longrightarrow> same_ids q b c \<Longrightarrow> same_ids q a c"
  by (simp add: same_ids_def)

lemma same_ids_refl: "queue_wf ks q \<Longrightarrow> same_ids q ks ks"
  by (simp add: same_ids_def)

lemma same_ids_queues:
  assumes "same_queues ks ks'" and "queue_wf ks q"
  shows "same_ids q ks ks'"
proof -
  have "outside q ks' = outside q ks" "st_entries (stream_at ks' (q_key q)) = st_entries (stream_at ks (q_key q))"
    using assms(1) by (simp_all add: same_queues_def outside_def stream_at_def)
  then show ?thesis
    using assms(2) by (simp add: same_ids_def ready_ids_def same_queues_ids [OF assms(1)] same_queues_group [OF assms(1)]
        split: option.split)
qed

lemma outside_elapse [simp]: "outside q (ks_elapse d ks) = outside q ks"
  by (simp add: outside_def entries_elapse)

lemma same_ids_elapse: "queue_wf ks q \<Longrightarrow> same_ids q ks (ks_elapse d ks)"
  by (simp add: same_ids_def queue_wf_elapse entries_elapse)

context redis_service
begin

lemma heartbeat_over_time:
  assumes "lock_rel (V (w_redis w)) l" and "lk_held l (env_task_id e) = Some (ex_worker_id ex, f, nat (ex_lease_ms ex))"
    and "0 < ex_lease_ms ex" and "lk_seq l < 10 ^ 14" and "\<forall>d \<in> set ds. int d < ex_lease_ms ex"
    and "queue_wf (V (w_redis w)) q"
  shows "\<exists>s l'. heartbeat_loop R ex e f (map (time_passes R) ds) w = w\<lparr>w_redis := s\<rparr> \<and> lock_rel (V s) l' \<and>
    lk_held l' (env_task_id e) = Some (ex_worker_id ex, f, nat (ex_lease_ms ex)) \<and> lk_seq l' = lk_seq l \<and>
    same_ids q (V (w_redis w)) (V s)"
  using assms
proof (induction ds arbitrary: w l)
  case Nil
  then show ?case by (auto intro!: exI [of _ "w_redis w"] exI [of _ l] same_ids_refl)
next
  case (Cons d ds)
  let ?i = "env_task_id e" and ?wk = "ex_worker_id ex" and ?ms = "ex_lease_ms ex"
  let ?s1 = "r_elapse R d (w_redis w)"
  have l1: "lock_rel (V ?s1) (lock_elapse d l)" using Cons.prems(1) by (simp add: elapse lock_rel_elapse)
  have d: "d < nat ?ms" using Cons.prems(3,5) by auto
  have own: "owns (lock_elapse d l) ?i ?wk f" using Cons.prems(2) d by (simp add: owns_def lock_elapse_def)
  have seq: "lk_seq (lock_elapse d l) = lk_seq l" by (simp add: lock_elapse_def)
  obtain s2 where ext: "extend_lease R ?i ?wk f ?ms ?s1 = (True, s2)" and l2: "lock_rel (V s2) (snd (lock_extend ?i ?wk f ?ms (lock_elapse d l)))"
    using lease_do_refines [OF l1, of "Extend ?i ?wk f ?ms"] Cons.prems(3,4) own seq
    by (cases "extend_lease R ?i ?wk f ?ms ?s1") (auto simp: lock_extend_def)
  let ?l2 = "snd (lock_extend ?i ?wk f ?ms (lock_elapse d l))"
  have h2: "lk_held ?l2 ?i = Some (?wk, f, nat ?ms)" "lk_seq ?l2 = lk_seq l" using own seq by (simp_all add: lock_extend_def)
  have ids1: "same_ids q (V (w_redis w)) (V ?s1)" using Cons.prems(6) by (simp add: elapse same_ids_elapse)
  moreover have "same_ids q (V ?s1) (V s2)"
    using extend_same [of ?s1 ?i ?wk f ?ms] ext ids1 by (intro same_ids_queues) (simp_all add: same_ids_def)
  ultimately have ids2: "same_ids q (V (w_redis w)) (V s2)" by (rule same_ids_trans)
  let ?w2 = "w\<lparr>w_redis := s2\<rparr>"
  have "\<exists>s l'. heartbeat_loop R ex e f (map (time_passes R) ds) ?w2 = ?w2\<lparr>w_redis := s\<rparr> \<and> lock_rel (V s) l' \<and>
      lk_held l' ?i = Some (?wk, f, nat ?ms) \<and> lk_seq l' = lk_seq ?l2 \<and> same_ids q (V (w_redis ?w2)) (V s)"
    using Cons.prems(3,4,5) ids2 l2 h2 by (intro Cons.IH) (simp_all add: same_ids_def)
  then show ?case
    using ext ids2 h2 by (auto intro: same_ids_trans)
qed

end

section \<open>An execution that succeeds\<close>

definition spec_commit :: "timestamp \<Rightarrow> task_envelope \<Rightarrow> int \<Rightarrow> json option \<Rightarrow> db \<Rightarrow> db" where
  "spec_commit now e f res b = spec_close now (env_task_id e) (attempt_no e) ''succeeded'' None None
     (spec_state now (env_task_id e) SUCCEEDED None
       (b\<lparr>effects := (effects b)(effect_key e \<mapsto> \<lparr>er_dedup_key = effect_key e, er_task_id = env_task_id e,
          er_fence = f, er_result = res, er_committed_at = now\<rparr>)\<rparr>))"

text \<open>A commit of an effect that is on record already only closes the attempt.\<close>

definition spec_finish :: "timestamp \<Rightarrow> task_envelope \<Rightarrow> int \<Rightarrow> json option \<Rightarrow> db \<Rightarrow> db" where
  "spec_finish now e f res b = (if effects b (effect_key e) = None then spec_commit now e f res b
     else spec_close now (env_task_id e) (attempt_no e) ''succeeded'' None None b)"

lemma spec_record_simps [simp]:
  "effects (spec_record now ex e f b) = effects b"
  by (simp add: spec_record_def spec_state_def)

text \<open>The first half of an execution of a task whose lease is free: lease, attempt, heartbeats.\<close>

lemma execute_begins:
  assumes R: "redis_service R V before" and P: "postgres_up P D"
    and lock: "lock_rel (V (w_redis w)) l" "lk_held l (env_task_id e) = None" "lk_seq l + 1 < 10 ^ 14"
    and ms: "0 < ex_lease_ms ex" "\<forall>d \<in> set ds. int d < ex_lease_ms ex"
    and task: "tasks (D (w_db w)) (env_task_id e) \<noteq> None"
      "attempts (D (w_db w)) (env_task_id e, attempt_no e) = None" "int4 (attempt_no e)"
      "\<forall>t \<in> ran (tasks (D (w_db w))). task_cols_ok t"
    and wf: "queue_wf (V (w_redis w)) q"
  obtains s1 l1 d2 s3 l3 where "exec_acquire R ex e w = (Inr (lk_seq l + 1), w\<lparr>w_redis := s1\<rparr>)"
    and "lock_rel (V s1) l1" "lk_held l1 (env_task_id e) = Some (ex_worker_id ex, lk_seq l + 1, nat (ex_lease_ms ex))" "lk_seq l1 = lk_seq l + 1"
    and "same_ids q (V (w_redis w)) (V s1)" and "lk_seq l + 1 \<noteq> 0" "int8 (lk_seq l + 1)"
    and "exec_record P now ex e (lk_seq l + 1) (w\<lparr>w_redis := s1\<rparr>) = (None, w\<lparr>w_redis := s1, w_db := d2\<rparr>)"
    and "D d2 = spec_record now ex e (lk_seq l + 1) (D (w_db w))" "\<forall>t \<in> ran (tasks (D d2)). task_cols_ok t"
    and "heartbeat_loop R ex e (lk_seq l + 1) (map (time_passes R) ds) (w\<lparr>w_redis := s1, w_db := d2\<rparr>) = w\<lparr>w_redis := s3, w_db := d2\<rparr>"
    and "lock_rel (V s3) l3" "lk_held l3 (env_task_id e) = Some (ex_worker_id ex, lk_seq l + 1, nat (ex_lease_ms ex))" "lk_seq l3 = lk_seq l + 1"
    and "same_ids q (V (w_redis w)) (V s3)"
proof -
  let ?i = "env_task_id e" and ?wk = "ex_worker_id ex" and ?ms = "ex_lease_ms ex" and ?f = "lk_seq l + 1"
  let ?l1 = "snd (lock_acquire ?i ?wk ?ms l)"
  obtain s1 where acq: "acquire_lease R ?i ?wk ?ms (w_redis w) = (Inr ?f, s1)" and l1: "lock_rel (V s1) ?l1"
    using redis_service.lease_do_refines [OF R lock(1), of "Acquire ?i ?wk ?ms"] ms(1) lock(2,3)
    by (cases "acquire_lease R ?i ?wk ?ms (w_redis w)") (auto simp: lock_acquire_def)
  have f: "?f \<noteq> 0" "int8 ?f" using lock(1,3) by (auto simp: lock_rel_def int8_def)
  have h1: "lk_held ?l1 ?i = Some (?wk, ?f, nat ?ms)" "lk_seq ?l1 = ?f" using lock(2) by (simp_all add: lock_acquire_def)
  have ids1: "same_ids q (V (w_redis w)) (V s1)"
    using same_ids_queues [OF redis_service.acquire_same [OF R, of "w_redis w" ?i ?wk ?ms] wf] by (simp add: acq)
  let ?w1 = "w\<lparr>w_redis := s1\<rparr>"
  obtain d2 where rec: "exec_record P now ex e ?f ?w1 = (None, ?w1\<lparr>w_db := d2\<rparr>)"
      and D2: "D d2 = spec_record now ex e ?f (D (w_db w))"
    using postgres_up.exec_record_up [OF P, of ?w1 e ?f now ex] task f(2) by auto
  let ?w2 = "?w1\<lparr>w_db := d2\<rparr>"
  obtain s3 l3 where hb: "heartbeat_loop R ex e ?f (map (time_passes R) ds) ?w2 = ?w2\<lparr>w_redis := s3\<rparr>"
      and l3: "lock_rel (V s3) l3" "lk_held l3 ?i = Some (?wk, ?f, nat ?ms)" "lk_seq l3 = ?f"
      and ids3: "same_ids q (V s1) (V s3)"
    using redis_service.heartbeat_over_time [OF R, of ?w2 ?l1 e ex ?f ds q] l1 h1 ms lock(3) ids1
    by (auto simp: same_ids_def)
  have cols: "\<forall>t \<in> ran (tasks (D d2)). task_cols_ok t"
    unfolding D2 spec_record_def by (rule spec_state_rows_ok) (use task(3,4) in auto)
  show ?thesis
    by (rule that [of s1 ?l1 d2 s3 l3]) (use acq l1 h1 ids1 f rec D2 cols hb l3 same_ids_trans [OF ids1 ids3] in \<open>simp_all add: exec_acquire_def\<close>)
qed

text \<open>The whole execution: everything up to the commit and after it, whatever the handler did.\<close>

lemma execute_run:
  assumes R: "redis_service R V before" and P: "postgres_up P D"
    and lock: "lock_rel (V (w_redis w)) l" "lk_held l (env_task_id e) = None" "lk_seq l + 1 < 10 ^ 14"
    and ms: "0 < ex_lease_ms ex" "\<forall>d \<in> set ds. int d < ex_lease_ms ex"
    and task: "tasks (D (w_db w)) (env_task_id e) \<noteq> None"
      "attempts (D (w_db w)) (env_task_id e, attempt_no e) = None" "int4 (attempt_no e)"
      "\<forall>t \<in> ran (tasks (D (w_db w))). task_cols_ok t"
    and wf: "queue_wf (V (w_redis w)) q"
  shows "\<exists>w3 s5 l5. execute R P ex py reg clk (\<lambda>_ w. w) (map (time_passes R) ds) e w =
      (Inr (fst (exec_commit P (clk AtCommit) e (lk_seq l + 1) (run_handler ex py reg e) w3)),
       (snd (exec_commit P (clk AtCommit) e (lk_seq l + 1) (run_handler ex py reg e) w3))\<lparr>w_redis := s5\<rparr>) \<and>
    D (w_db w3) = spec_record (clk AtRecord) ex e (lk_seq l + 1) (D (w_db w)) \<and>
    (\<forall>t \<in> ran (tasks (D (w_db w3))). task_cols_ok t) \<and> int8 (lk_seq l + 1) \<and>
    lock_rel (V s5) l5 \<and> lk_held l5 (env_task_id e) = None \<and> lk_seq l5 = lk_seq l + 1 \<and>
    same_ids q (V (w_redis w)) (V s5)"
proof (rule execute_begins [OF assms, of "clk AtRecord"])
  let ?i = "env_task_id e" and ?wk = "ex_worker_id ex" and ?f = "lk_seq l + 1"
  fix s1 l1 d2 s3 l3
  assume acq: "exec_acquire R ex e w = (Inr ?f, w\<lparr>w_redis := s1\<rparr>)" and f: "?f \<noteq> 0" "int8 ?f"
    and rec: "exec_record P (clk AtRecord) ex e ?f (w\<lparr>w_redis := s1\<rparr>) = (None, w\<lparr>w_redis := s1, w_db := d2\<rparr>)"
    and D2: "D d2 = spec_record (clk AtRecord) ex e ?f (D (w_db w))" "\<forall>t \<in> ran (tasks (D d2)). task_cols_ok t"
    and hb: "heartbeat_loop R ex e ?f (map (time_passes R) ds) (w\<lparr>w_redis := s1, w_db := d2\<rparr>) = w\<lparr>w_redis := s3, w_db := d2\<rparr>"
    and l3: "lock_rel (V s3) l3" "lk_held l3 ?i = Some (?wk, ?f, nat (ex_lease_ms ex))" "lk_seq l3 = ?f"
    and ids3: "same_ids q (V (w_redis w)) (V s3)"
  let ?w3 = "w\<lparr>w_redis := s3, w_db := d2\<rparr>"
  let ?c = "exec_commit P (clk AtCommit) e ?f (run_handler ex py reg e) ?w3"
  have s4: "w_redis (snd ?c) = s3" by simp
  obtain s5 where rel: "release_lease R ?i ?wk ?f s3 = (True, s5)"
      and l5: "lock_rel (V s5) (snd (lock_release ?i ?wk ?f l3))"
    using redis_service.lease_do_refines [OF R l3(1), of "Release ?i ?wk ?f"] l3(2,3) lock(3)
    by (cases "release_lease R ?i ?wk ?f s3") (auto simp: lock_release_def owns_def)
  have "same_ids q (V s3) (V s5)"
    using same_ids_queues [OF redis_service.release_same [OF R, of s3 ?i ?wk ?f]] ids3 by (simp add: rel same_ids_def)
  with ids3 have "same_ids q (V (w_redis w)) (V s5)" by (rule same_ids_trans)
  moreover have "execute R P ex py reg clk (\<lambda>_ w. w) (map (time_passes R) ds) e w = (Inr (fst ?c), (snd ?c)\<lparr>w_redis := s5\<rparr>)"
    using f(1) s4 by (cases ?c) (simp add: execute_def acq rec hb Let_def exec_release_def rel)
  moreover have "lk_held (snd (lock_release ?i ?wk ?f l3)) ?i = None" "lk_seq (snd (lock_release ?i ?wk ?f l3)) = ?f"
    using l3(2,3) by (simp_all add: lock_release_def owns_def)
  ultimately show ?thesis using D2 l5 f(2)
    by (intro exI [of _ ?w3] exI [of _ s5] exI [of _ "snd (lock_release ?i ?wk ?f l3)"]) simp
qed

lemma execute_succeeds:
  assumes R: "redis_service R V before" and P: "postgres_up P D"
    and lock: "lock_rel (V (w_redis w)) l" "lk_held l (env_task_id e) = None" "lk_seq l + 1 < 10 ^ 14"
    and ms: "0 < ex_lease_ms ex" "\<forall>d \<in> set ds. int d < ex_lease_ms ex"
    and task: "tasks (D (w_db w)) (env_task_id e) \<noteq> None"
      "attempts (D (w_db w)) (env_task_id e, attempt_no e) = None" "int4 (attempt_no e)"
      "\<forall>t \<in> ran (tasks (D (w_db w))). task_cols_ok t"
    and older: "\<And>row. effects (D (w_db w)) (effect_key e) = Some row \<Longrightarrow> er_fence row \<le> lk_seq l + 1"
    and handler: "get_handler reg (env_task_name e) = Some h" "h (env_payload e) = HReturn (JObj kvs)"
    and wf: "queue_wf (V (w_redis w)) q"
  shows "\<exists>w' l'. execute R P ex py reg clk (\<lambda>_ w. w) (map (time_passes R) ds) e w = (Inr (True, None), w') \<and>
    D (w_db w') = spec_finish (clk AtCommit) e (lk_seq l + 1) (Some (JObj kvs))
      (spec_record (clk AtRecord) ex e (lk_seq l + 1) (D (w_db w))) \<and>
    lock_rel (V (w_redis w')) l' \<and> lk_held l' (env_task_id e) = None \<and> lk_seq l' = lk_seq l + 1 \<and>
    same_ids q (V (w_redis w)) (V (w_redis w'))"
proof -
  let ?f = "lk_seq l + 1" and ?hr = "run_handler ex py reg e"
  have hr: "hr_success ?hr" "hr_result ?hr = Some (JObj kvs)" "hr_error_repr ?hr = None"
    using handler by (simp_all add: run_handler_def)
  obtain w3 s5 l5 where run: "execute R P ex py reg clk (\<lambda>_ w. w) (map (time_passes R) ds) e w =
        (Inr (fst (exec_commit P (clk AtCommit) e ?f ?hr w3)), (snd (exec_commit P (clk AtCommit) e ?f ?hr w3))\<lparr>w_redis := s5\<rparr>)"
      and w3: "D (w_db w3) = spec_record (clk AtRecord) ex e ?f (D (w_db w))"
        "\<forall>t \<in> ran (tasks (D (w_db w3))). task_cols_ok t" "int8 ?f"
      and l5: "lock_rel (V s5) l5" "lk_held l5 (env_task_id e) = None" "lk_seq l5 = ?f" "same_ids q (V (w_redis w)) (V s5)"
    using execute_run [OF R P lock ms task wf, of py reg clk] by blast
  have "fst (exec_commit P (clk AtCommit) e ?f ?hr w3) = (True, None)"
      "D (w_db (snd (exec_commit P (clk AtCommit) e ?f ?hr w3))) = spec_finish (clk AtCommit) e ?f (Some (JObj kvs)) (D (w_db w3))"
    using postgres_up.exec_commit_exact [OF P hr(1) w3(3), where w = w3 and e = e and now = "clk AtCommit"] w3(1,2) older hr(2,3)
    by (force simp: spec_commit_def spec_finish_def split: option.splits)+
  with run w3(1) l5 show ?thesis by auto
qed

section \<open>A request that is accepted\<close>

definition request_row :: "timestamp \<Rightarrow> uuid \<Rightarrow> create_task_request \<Rightarrow> task_row" where
  "request_row now i req = \<lparr>tr_id = i, tr_queue = rq_queue req, tr_task_name = rq_task_name req,
     tr_payload = rq_payload req, tr_state = (if rq_run_at req = None then PENDING else SCHEDULED),
     tr_priority = rq_priority req, tr_attempt = 0, tr_max_attempts = rq_max_attempts req,
     tr_dedup_key = rq_dedup_key req, tr_run_at = rq_run_at req, tr_workflow_id = None, tr_step_name = None,
     tr_created_at = now, tr_updated_at = now\<rparr>"

context postgres_up
begin

lemma create_task_new:
  assumes "task_ok (D d) (request_row now i req)"
  shows "\<exists>d'. run_tx P (create_task P now i (rq_queue req) (rq_task_name req) (rq_payload req) (rq_dedup_key req)
      (rq_priority req) (rq_max_attempts req) (rq_run_at req) None None) d = (Inr (request_row now i req, False), d') \<and>
    D d' = (D d)\<lparr>tasks := (tasks (D d))(i \<mapsto> request_row now i req)\<rparr>"
proof -
  let ?row = "request_row now i req"
  let ?tx = "create_task P now i (rq_queue req) (rq_task_name req) (rq_payload req) (rq_dedup_key req)
      (rq_priority req) (rq_max_attempts req) (rq_run_at req) None None"
  obtain d1 where ins: "ins_task P ?row d = Inr d1" using ins_task_up [OF assms] by blast
  obtain rows where rows: "sel_tasks P (\<lambda>r. tr_queue r = rq_queue req \<and> tr_dedup_key r = rq_dedup_key req) d = Inr rows"
    using sel_up(1) by blast
  have "rows = []" if "rq_dedup_key req \<noteq> None"
  proof -
    have "r \<notin> set rows" for r
      using sel_tasks [OF rows] assms that by (auto simp: task_ok_def dedup_clash_def request_row_def)
    then show ?thesis by (metis list.set_intros(1) neq_Nil_conv)
  qed
  then have "?tx d = Inr ((?row, False), d1)"
    using ins rows by (simp add: create_task_def request_row_def Let_def tx_defs)
  from run_tx_up [of ?tx, OF this] ins_task [OF ins] show ?thesis
    by (metis prod.collapse request_row_def task_row.select_convs(1))
qed

end

lemma parse_messages_ids: "parse_messages C idle ms = Inr ls \<Longrightarrow> map broker_msg_id ls = map fst ms"
  by (induction ms arbitrary: ls) (auto split: sum.splits)

text \<open>A message that is added to a queue with nothing to deliver, and one that waits alone.\<close>

lemma outside_commands [simp]:
  "outside q (ks_xadd i (q_key q) f ks) = outside q ks" "outside q (ks_xack (q_key q) g ids ks) = outside q ks"
  "outside q (snd (ks_xreadgroup g c (q_key q) n ks)) = outside q ks"
  by (simp_all add: outside_def ks_xadd_def ks_xack_def ks_xreadgroup_def put_group_def put_stream_def stream_at_def Let_def
      split: option.split)

lemma waiting_ready: "waiting ks q = [] \<longleftrightarrow> ready_ids ks q = []"
  by (simp add: waiting_def ready_ids_def split: option.split)

lemma waits_xadd:
  assumes wf: "queue_wf ks q" and "ready_ids ks q = []" and i: "st_last (stream_at ks (q_key q)) < i"
  shows "queue_wf (ks_xadd i (q_key q) f ks) q \<and> waiting (ks_xadd i (q_key q) f ks) q = [f_data f] \<and>
    pending_ids (ks_xadd i (q_key q) f ks) q = pending_ids ks q"
  using queue_wf_xadd [OF wf i] waiting_xadd [OF wf i] assms(2) waiting_ready [of ks q] by simp

lemma ready_one:
  assumes "queue_wf ks q" and "waiting ks q = [x]"
  shows "\<exists>i f. ready_ids ks q = [i] \<and> i \<notin> set (pending_ids ks q) \<and>
    (i, f) \<in> set (st_entries (stream_at ks (q_key q))) \<and> f_data f = x"
proof -
  obtain gr where gr: "queue_group ks q = Some gr" and w: "group_wf (stream_at ks (q_key q)) gr"
    using assms(1) by (rule queue_wf_Some)
  from assms(2) obtain i f where u: "undelivered (stream_at ks (q_key q)) gr = [(i, f)]" "f_data f = x"
    by (auto simp: waiting_def gr)
  then have "(i, f) \<in> set (undelivered (stream_at ks (q_key q)) gr)" by simp
  then have "g_last gr < i" "(i, f) \<in> set (st_entries (stream_at ks (q_key q)))" by (simp_all add: undelivered_def)
  moreover from this w have "i \<notin> set (pending_ids ks q)" by (force simp: pending_ids_def gr group_wf_def)
  ultimately show ?thesis using u by (auto simp: ready_ids_def gr)
qed

text \<open>The entry of a message in the stream.\<close>

definition carried :: "'v codec \<Rightarrow> string \<Rightarrow> leased \<Rightarrow> 'v keyspace \<Rightarrow> bool" where
  "carried C q m ks \<longleftrightarrow> (\<exists>f. (broker_msg_id m, f) \<in> set (st_entries (stream_at ks (q_key q))) \<and>
     f_data f = model_dump_json C (envelope m))"

context redis_queue
begin

lemma ensure_queue_busy:
  assumes "queue_wf (V s) q"
  shows "\<exists>s'. ensure_queue R q s = (Inr (), s') \<and> V s' = V s"
  using xgroup_create_busy [OF key_types(5) group_of_wf [OF assms]]
  by (cases "r_xgroup_create R (q_key q) q s") (auto simp: ensure_queue_def)

lemma lease_ids:
  assumes "queue_wf (V s) q" and "fst (lease R C q q c n s) = Inr ls"
  shows "map broker_msg_id ls = take n (ready_ids (V s) q)"
proof -
  have "fst (r_xreadgroup R q c (q_key q) n s) = Inr (fst (ks_xreadgroup q c (q_key q) n (V s)))"
    using xreadgroup_ok [OF key_types(5) group_of_wf [OF assms(1)]] by blast
  then have "parse_messages C 0 (fst (ks_xreadgroup q c (q_key q) n (V s))) = Inr ls"
    using assms(2) by (auto simp: lease_def split: prod.splits sum.splits if_splits)
  from parse_messages_ids [OF this] queue_wf_xreadgroup(4) [OF assms(1)] show ?thesis by simp
qed

text \<open>A message that is published on a queue with nothing to deliver is the one that waits.\<close>

lemma publish_waits:
  assumes wf: "queue_wf (V s) q" and none: "ready_ids (V s) q = []"
  shows "queue_wf (V (publish R C q e s)) q \<and> waiting (V (publish R C q e s)) q = [model_dump_json C e] \<and>
    pending_ids (V (publish R C q e s)) q = pending_ids (V s) q \<and> outside q (V (publish R C q e s)) = outside q (V s)"
proof -
  obtain i where i: "st_last (stream_at (V s) (q_key q)) < i"
      and v: "V (publish R C q e s) = ks_xadd i (q_key q) \<lparr>f_data = model_dump_json C e, f_reason = None\<rparr> (V s)"
    using publish_state [of s e] by blast
  show ?thesis unfolding v using waits_xadd [OF wf none i] by simp
qed

lemma lease_one:
  assumes wf: "queue_wf (V s) q" and one: "waiting (V s) q = [model_dump_json C e]" and "0 < n"
  shows "\<exists>m s'. lease R C q q c n s = (Inr [m], s') \<and> envelope m = e \<and> queue_wf (V s') q \<and>
    ready_ids (V s') q = [] \<and> pending_ids (V s') q = pending_ids (V s) q @ [broker_msg_id m] \<and>
    broker_msg_id m \<notin> set (pending_ids (V s) q) \<and> outside q (V s') = outside q (V s) \<and> strs (V s') = strs (V s) \<and>
    carried C q m (V s')"
proof -
  obtain ls where ls: "fst (lease R C q q c n s) = Inr ls" "map envelope ls = [e]"
    using lease_returns [OF wf, of "[e]" c n] one assms(3) by auto
  obtain i f where i: "ready_ids (V s) q = [i]" "i \<notin> set (pending_ids (V s) q)"
      "(i, f) \<in> set (st_entries (stream_at (V s) (q_key q)))" "f_data f = model_dump_json C e"
    using ready_one [OF wf one] by blast
  have "map broker_msg_id ls = [i]" using lease_ids [OF wf ls(1)] i(1) assms(3) by simp
  with ls(2) obtain m where m: "ls = [m]" "envelope m = e" "broker_msg_id m = i" by (cases ls) auto
  obtain s' where s': "lease R C q q c n s = (Inr [m], s')" using ls(1) m(1) by (metis prod.collapse)
  have v': "V s' = snd (ks_xreadgroup q c (q_key q) n (V s))" using lease_state [OF wf, of c n] by (simp add: s')
  have "strs (V s') = strs (V s)" using strs_lease [of C q q c n s] by (simp add: s')
  moreover have "carried C q m (V s')"
    using i(3,4) m(2,3) by (auto simp: carried_def v' ks_xreadgroup_def Let_def split: option.split)
  ultimately show ?thesis
    using s' m(2,3) queue_wf_xreadgroup(1-3) [OF wf, of c n] i(1,2) assms(3) by (auto simp: v')
qed

end

section \<open>From the request to the effect\<close>

lemma completed_rows:
  assumes "tasks b (env_task_id e) = Some t" and "tr_id t = env_task_id e"
  shows "tasks (spec_commit now e f res (spec_record now' ex e f b)) (env_task_id e) = Some (t\<lparr>tr_state := SUCCEEDED, tr_attempt := attempt_no e, tr_updated_at := now\<rparr>)"
    and "attempts (spec_commit now e f res (spec_record now' ex e f b)) (env_task_id e, attempt_no e) = Some ((open_attempt now' ex e f)\<lparr>ar_finished_at := Some now,
      ar_outcome := Some ''succeeded'', ar_error_type := None, ar_error_repr := None\<rparr>)"
    and "effects (spec_commit now e f res (spec_record now' ex e f b)) (effect_key e) = Some \<lparr>er_dedup_key = effect_key e,
      er_task_id = env_task_id e, er_fence = f, er_result = res, er_committed_at = now\<rparr>"
  using assms by (simp_all add: spec_commit_def spec_record_def spec_close_def spec_state_def upd_map_def
      open_attempt_def)

text \<open>The control plane accepts a request: its row is on record and its message waits in the queue.\<close>

lemma request_accepted:
  assumes "redis_service R V before" and "postgres_up P D" and "codec_ok C"
    and wf: "queue_wf (V (w_redis (pl_world p))) (rq_queue req)" "ready_ids (V (w_redis (pl_world p))) (rq_queue req) = []"
    and ok: "task_ok (D (w_db (pl_world p))) (request_row now tid req)" and now_due: "rq_run_at req = None"
  shows "\<exists>p1 s d. api_create_task R P C now tid req p = (Inr (tid, False), p1) \<and> pl_world p1 = \<lparr>w_redis = s, w_db = d\<rparr> \<and>
    queue_wf (V s) (rq_queue req) \<and> waiting (V s) (rq_queue req) = [model_dump_json C (request_envelope now tid req)] \<and>
    pending_ids (V s) (rq_queue req) = pending_ids (V (w_redis (pl_world p))) (rq_queue req) \<and>
    outside (rq_queue req) (V s) = outside (rq_queue req) (V (w_redis (pl_world p))) \<and>
    strs (V s) = strs (V (w_redis (pl_world p))) \<and>
    D d = (D (w_db (pl_world p)))\<lparr>tasks := (tasks (D (w_db (pl_world p))))(tid \<mapsto> request_row now tid req)\<rparr>"
proof -
  let ?q = "rq_queue req" and ?d = "w_db (pl_world p)" and ?s = "w_redis (pl_world p)" and ?row = "request_row now tid req"
  let ?e = "request_envelope now tid req"
  have rq: "redis_queue R V before C" using assms(1,3) by (simp add: redis_queue_def redis_queue_axioms_def)
  obtain d1 where d1: "run_tx P (create_task P now tid ?q (rq_task_name req) (rq_payload req) (rq_dedup_key req)
      (rq_priority req) (rq_max_attempts req) (rq_run_at req) None None) ?d = (Inr (?row, False), d1)"
      and D1: "D d1 = (D ?d)\<lparr>tasks := (tasks (D ?d))(tid \<mapsto> ?row)\<rparr>"
    using postgres_up.create_task_new [OF assms(2) ok] by blast
  obtain s1 where s1: "ensure_queue R ?q ?s = (Inr (), s1)" "V s1 = V ?s"
    using redis_queue.ensure_queue_busy [OF rq wf(1)] by blast
  let ?s2 = "publish R C ?q ?e s1"
  obtain p1 where p1: "api_create_task R P C now tid req p = (Inr (tid, False), p1)" "pl_world p1 = \<lparr>w_redis = ?s2, w_db = d1\<rparr>"
    using d1 s1(1) now_due by (simp add: api_create_task_def Let_def pl_defs request_row_def)
  with redis_queue.publish_waits [OF rq, of s1 ?q ?e] wf D1 show ?thesis
    by (auto simp: s1(2) redis_service.strs_commands [OF assms(1)])
qed

text \<open>The next poll of its queue returns the message that waits.\<close>

lemma waiting_polled:
  assumes "redis_service R V before" and "codec_ok C" and "0 < sem"
    and "queue_wf (V (w_redis w)) q" and "waiting (V (w_redis w)) q = [model_dump_json C e]"
  shows "\<exists>m s. poll_queue R C cfg sem q w = ([m], w\<lparr>w_redis := s\<rparr>) \<and> envelope m = e \<and> queue_wf (V s) q \<and>
    ready_ids (V s) q = [] \<and> pending_ids (V s) q = pending_ids (V (w_redis w)) q @ [broker_msg_id m] \<and>
    broker_msg_id m \<notin> set (pending_ids (V (w_redis w)) q) \<and> outside q (V s) = outside q (V (w_redis w)) \<and>
    strs (V s) = strs (V (w_redis w)) \<and> carried C q m (V s)"
proof -
  have rq: "redis_queue R V before C" using assms(1,2) by (simp add: redis_queue_def redis_queue_axioms_def)
  have n: "0 < nat (min sem 5)" using assms(3) by simp
  obtain m s where s: "lease R C q q (cfg_worker_id cfg) (nat (min sem 5)) (w_redis w) = (Inr [m], s)" "envelope m = e"
      "queue_wf (V s) q" "ready_ids (V s) q = []" "pending_ids (V s) q = pending_ids (V (w_redis w)) q @ [broker_msg_id m]"
      "broker_msg_id m \<notin> set (pending_ids (V (w_redis w)) q)" "outside q (V s) = outside q (V (w_redis w))"
      "strs (V s) = strs (V (w_redis w))" "carried C q m (V s)"
    using redis_queue.lease_one [OF rq assms(4,5) n, of "cfg_worker_id cfg"] by blast
  then show ?thesis using assms(3) by (auto simp: poll_queue_def)
qed

text \<open>Processing the message of a task whose lease is free completes the task and removes the message.\<close>

lemma message_completes:
  assumes R: "redis_service R V before" and P: "postgres_up P D"
    and lock: "lock_rel (V (w_redis w)) l" "lk_held l (env_task_id (envelope m)) = None" "lk_seq l + 1 < 10 ^ 14"
    and ms: "0 < ex_lease_ms ex" "\<forall>d \<in> set ds. int d < ex_lease_ms ex"
    and task: "tasks (D (w_db w)) (env_task_id (envelope m)) \<noteq> None"
      "attempts (D (w_db w)) (env_task_id (envelope m), attempt_no (envelope m)) = None" "int4 (attempt_no (envelope m))"
      "\<forall>t \<in> ran (tasks (D (w_db w))). task_cols_ok t"
    and older: "\<And>row. effects (D (w_db w)) (effect_key (envelope m)) = Some row \<Longrightarrow> er_fence row \<le> lk_seq l + 1"
    and handler: "get_handler reg (env_task_name (envelope m)) = Some h" "h (env_payload (envelope m)) = HReturn (JObj kvs)"
    and wf: "queue_wf (V (w_redis w)) q" "pending_ids (V (w_redis w)) q = ids @ [broker_msg_id m]" "broker_msg_id m \<notin> set ids"
  shows "\<exists>w'. process_message R P C ex py reg clk (\<lambda>_ w. w) (map (time_passes R) ds) u q m w = w' \<and>
    D (w_db w') = spec_finish (clk AtCommit) (envelope m) (lk_seq l + 1) (Some (JObj kvs))
      (spec_record (clk AtRecord) ex (envelope m) (lk_seq l + 1) (D (w_db w))) \<and>
    strs (V (w_redis w')) (lease_key (env_task_id (envelope m))) = None \<and>
    pending_ids (V (w_redis w')) q = ids \<and> ready_ids (V (w_redis w')) q = ready_ids (V (w_redis w)) q"
proof -
  obtain w1 l1 where ex: "execute R P ex py reg clk (\<lambda>_ w. w) (map (time_passes R) ds) (envelope m) w = (Inr (True, None), w1)"
      and D1: "D (w_db w1) = spec_finish (clk AtCommit) (envelope m) (lk_seq l + 1) (Some (JObj kvs))
        (spec_record (clk AtRecord) ex (envelope m) (lk_seq l + 1) (D (w_db w)))"
      and l1: "lock_rel (V (w_redis w1)) l1" "lk_held l1 (env_task_id (envelope m)) = None"
      and ids1: "same_ids q (V (w_redis w)) (V (w_redis w1))"
    using execute_succeeds [OF R P lock ms task older handler wf(1)] by blast
  let ?w2 = "w1\<lparr>w_redis := ack R q q [broker_msg_id m] (w_redis w1)\<rparr>"
  have run: "process_message R P C ex py reg clk (\<lambda>_ w. w) (map (time_passes R) ds) u q m w = ?w2"
    by (simp add: process_message_def ex)
  have v2: "V (w_redis ?w2) = ks_xack (q_key q) q [broker_msg_id m] (V (w_redis w1))"
    by (simp add: ack_def redis_service.xack [OF R])
  have "queue_wf (V (w_redis w1)) q" using ids1 by (simp add: same_ids_def)
  note acked = queue_wf_xack [OF this, of "[broker_msg_id m]", folded v2]
  have "pending_ids (V (w_redis ?w2)) q = ids"
    using acked(3) ids1 wf(2,3) by (auto simp: same_ids_def filter_id_conv)
  moreover have "ready_ids (V (w_redis ?w2)) q = ready_ids (V (w_redis w)) q" using acked(2) ids1 by (simp add: same_ids_def)
  moreover have "strs (V (w_redis ?w2)) (lease_key (env_task_id (envelope m))) = None"
    using lock_rel_lease [OF l1(1), of "env_task_id (envelope m)"] l1(2) unfolding v2 by simp
  moreover have "D (w_db ?w2) = D (w_db w1)" by simp
  ultimately show ?thesis using run D1 by metis
qed

text \<open>
  C1: A task completes. Let the services answer, no other process interfere, and the queue of a request have
  nothing to deliver. Then \<open>POST /v1/tasks\<close> accepts the request, the next poll of any worker with a free
  slot returns exactly its message, and processing it (with any number of heartbeats, each before
  the lease runs out) leaves the task \<open>succeeded\<close> in its first attempt, the handler's result on record
  as its effect under the worker's fence, the attempt closed, the message acknowledged, the queue as
  it was and the lease free.
\<close>

theorem task_completes_end_to_end:
  assumes "redis_service R V before" and "postgres_up P D" and "codec_ok C"
    and "queue_wf (V (w_redis (pl_world p))) (rq_queue req)" and "ready_ids (V (w_redis (pl_world p))) (rq_queue req) = []"
    and "lock_rel (V (w_redis (pl_world p))) l" and "lk_held l tid = None" and "lk_seq l + 1 < 10 ^ 14"
    and "task_ok (D (w_db (pl_world p))) (request_row now tid req)" and "rq_run_at req = None"
    and "db_wf (D (w_db (pl_world p)))" and "\<forall>t \<in> ran (tasks (D (w_db (pl_world p)))). task_cols_ok t"
    and "effects (D (w_db (pl_world p))) (effect_key (request_envelope now tid req)) = None"
    and "get_handler reg (rq_task_name req) = Some h" and "h (rq_payload req) = HReturn (JObj kvs)"
    and "0 < cfg_lease_ms cfg" and "\<forall>d \<in> set ds. int d < cfg_lease_ms cfg" and "0 < sem"
  shows "\<exists>p1 m w1 w2. api_create_task R P C now tid req p = (Inr (tid, False), p1) \<and>
    poll_queue R C cfg sem (rq_queue req) (pl_world p1) = ([m], w1) \<and> envelope m = request_envelope now tid req \<and>
    process_message R P C (executor_of cfg) py reg clk (\<lambda>_ w. w) (map (time_passes R) ds) u (rq_queue req) m w1 = w2 \<and>
    tasks (D (w_db w2)) tid = Some ((request_row now tid req)\<lparr>tr_state := SUCCEEDED, tr_attempt := 1,
      tr_updated_at := clk AtCommit\<rparr>) \<and>
    effects (D (w_db w2)) (effect_key (envelope m)) = Some \<lparr>er_dedup_key = effect_key (envelope m), er_task_id = tid,
      er_fence = lk_seq l + 1, er_result = Some (JObj kvs), er_committed_at = clk AtCommit\<rparr> \<and>
    (\<exists>a. attempts (D (w_db w2)) (tid, 1) = Some a \<and> ar_outcome a = Some ''succeeded'') \<and>
    pending_ids (V (w_redis w2)) (rq_queue req) = pending_ids (V (w_redis (pl_world p))) (rq_queue req) \<and>
    ready_ids (V (w_redis w2)) (rq_queue req) = [] \<and>
    strs (V (w_redis w2)) (lease_key tid) = None"
proof -
  let ?q = "rq_queue req" and ?s = "w_redis (pl_world p)" and ?d = "w_db (pl_world p)" and ?row = "request_row now tid req"
  let ?e = "request_envelope now tid req" and ?ex = "executor_of cfg" and ?f = "lk_seq l + 1"
  obtain p1 s0 d where acc: "api_create_task R P C now tid req p = (Inr (tid, False), p1)" "pl_world p1 = \<lparr>w_redis = s0, w_db = d\<rparr>"
      and s0: "queue_wf (V s0) ?q" "waiting (V s0) ?q = [model_dump_json C ?e]" "pending_ids (V s0) ?q = pending_ids (V ?s) ?q"
        "strs (V s0) = strs (V ?s)"
      and D1: "D d = (D ?d)\<lparr>tasks := (tasks (D ?d))(tid \<mapsto> ?row)\<rparr>"
    using request_accepted [OF assms(1-5,9,10)] by blast
  obtain m s where poll: "poll_queue R C cfg sem ?q (pl_world p1) = ([m], \<lparr>w_redis = s, w_db = d\<rparr>)" "envelope m = ?e"
      and wf: "queue_wf (V s) ?q" "ready_ids (V s) ?q = []" "pending_ids (V s) ?q = pending_ids (V ?s) ?q @ [broker_msg_id m]"
        "broker_msg_id m \<notin> set (pending_ids (V ?s) ?q)" "strs (V s) = strs (V ?s)"
    using waiting_polled [OF assms(1,3,18), of "pl_world p1" ?q ?e cfg] s0 by (auto simp: acc(2))
  have e: "env_task_id ?e = tid" "attempt_no ?e = 1" "env_task_name ?e = rq_task_name req" "env_payload ?e = rq_payload req"
    by (simp_all add: request_envelope_def new_envelope_def attempt_no_def)
  have new: "tasks (D ?d) tid = None" "task_cols_ok ?row" using assms(9) by (simp_all add: task_ok_def request_row_def)
  then have no_att: "attempts (D d) (tid, 1) = None" using assms(11) unfolding db_wf_def D1 by (simp, metis not_None_eq)
  have cols: "\<forall>t \<in> ran (tasks (D d)). task_cols_ok t" using new(2) assms(12) by (auto simp: D1 ran_def)
  have lock: "lock_rel (V s) l" using assms(6) wf(5) by (simp add: lock_rel_def)
  obtain w2 where w2: "process_message R P C ?ex py reg clk (\<lambda>_ w. w) (map (time_passes R) ds) u ?q m \<lparr>w_redis = s, w_db = d\<rparr> = w2"
      "D (w_db w2) = spec_commit (clk AtCommit) ?e ?f (Some (JObj kvs)) (spec_record (clk AtRecord) ?ex ?e ?f (D d))"
      "strs (V (w_redis w2)) (lease_key tid) = None" "pending_ids (V (w_redis w2)) ?q = pending_ids (V ?s) ?q"
      "ready_ids (V (w_redis w2)) ?q = []"
    using message_completes [OF assms(1,2), of "\<lparr>w_redis = s, w_db = d\<rparr>" l m ?ex ds reg h kvs ?q "pending_ids (V ?s) ?q" C py clk u]
      assms(7,8,13-17) lock wf(1-4) cols no_att by (auto simp: e poll(2) D1 executor_of_def int4_def spec_finish_def)
  have "tasks (D (w_db w2)) tid = Some (?row\<lparr>tr_state := SUCCEEDED, tr_attempt := 1, tr_updated_at := clk AtCommit\<rparr>)"
      "effects (D (w_db w2)) (effect_key ?e) = Some \<lparr>er_dedup_key = effect_key ?e, er_task_id = tid,
        er_fence = ?f, er_result = Some (JObj kvs), er_committed_at = clk AtCommit\<rparr>"
      "\<exists>a. attempts (D (w_db w2)) (tid, 1) = Some a \<and> ar_outcome a = Some ''succeeded''"
    using completed_rows [of "D d" ?e ?row] by (simp_all add: w2(2) e D1 open_attempt_def request_row_def)
  then show ?thesis using acc(1) poll w2(1,3-5) by metis
qed

definition busy_plane :: "(task_envelope keyspace, ref_db) plane" where
  "busy_plane = demo_plane\<lparr>pl_world := \<lparr>w_redis = demo_queue, w_db = empty_ref_db\<rparr>\<rparr>"

definition mail_handlers :: registry where
  "mail_handlers = fst (task (Some ''mail'') None None None ''send_mail'' (\<lambda>_. HReturn (JObj [(''sent'', JBool True)])) Map.empty)"

definition demo_cfg :: settings where
  "demo_cfg = default_settings\<lparr>cfg_worker_id := ''w1''\<rparr>"

lemma demo_queue_locks: "lock_rel demo_queue free_lock"
  by (simp add: lock_rel_def free_lock_def demo_queue_strs)

lemma demo_database:
  "task_ok (ref_view empty_ref_db) (request_row 0 ''t1'' demo_request)" "db_wf (ref_view empty_ref_db)"
  "tasks (ref_view empty_ref_db) = Map.empty" "effects (ref_view empty_ref_db) = Map.empty"
  by (auto simp: task_ok_def task_cols_ok_def request_row_def demo_request_def ref_view_def empty_ref_db_def
    dedup_clash_def db_wf_def int4_def int2_def)

theorem task_completes_end_to_end_witness:
  "\<exists>p1 m w1 w2. api_create_task ref_redis ref_postgres ref_codec 0 ''t1'' demo_request busy_plane = (Inr (''t1'', False), p1) \<and>
    poll_queue ref_redis ref_codec demo_cfg 10 ''default'' (pl_world p1) = ([m], w1) \<and>
    process_message ref_redis ref_postgres ref_codec (executor_of demo_cfg) demo_py mail_handlers (\<lambda>_. 7) (\<lambda>_ w. w)
      (map (time_passes ref_redis) [10000, 10000, 10000]) (1 / 2) ''default'' m w1 = w2 \<and>
    map_option tr_state (tasks (ref_view (w_db w2)) ''t1'') = Some SUCCEEDED"
proof -
  have "get_handler mail_handlers ''mail'' = Some (\<lambda>_. HReturn (JObj [(''sent'', JBool True)]))"
    by (simp add: mail_handlers_def task_def get_handler_def Let_def)
  then show ?thesis
    using task_completes_end_to_end [OF ref_redis_service ref_postgres_up codec_ok_ref, of busy_plane demo_request free_lock "''t1''" 0
        mail_handlers _ "[(''sent'', JBool True)]" demo_cfg "[10000, 10000, 10000]" 10 demo_py "\<lambda>_. 7" "1 / 2"]
      demo_queue_wf demo_queue_ready demo_queue_locks demo_database
    by (auto simp: busy_plane_def demo_request_def free_lock_def demo_cfg_def default_settings_def)
qed

end
