(* ===== verification/Failure_Lifecycle.thy ===== *)
theory Failure_Lifecycle
  imports Task_Lifecycle
begin

text \<open>
  The life of a task that keeps failing, through all components: every delivery records an attempt,
  closes it as failed and schedules the task again; the scheduler moves it back to its queue; the last
  delivery buries it in the dead-letter stream and marks it dead.
\<close>

section \<open>An execution that fails\<close>

definition failed_outcome :: "handler_run \<Rightarrow> string" where
  "failed_outcome hr = (if hr_error_type hr \<noteq> Some ''FenceRejectedError'' then ''failed'' else ''lease_lost'')"

definition spec_fail :: "timestamp \<Rightarrow> task_envelope \<Rightarrow> handler_run \<Rightarrow> db \<Rightarrow> db" where
  "spec_fail now e hr b = spec_close now (env_task_id e) (attempt_no e) (failed_outcome hr) (hr_error_type hr) (hr_error_repr hr) b"

lemma run_handler_attempt [simp]: "run_handler ex py reg (e\<lparr>env_attempt := n\<rparr>) = run_handler ex py reg e"
  by (cases "get_handler reg (env_task_name e)") (simp_all add: run_handler_def)

context postgres_up
begin

lemma exec_commit_fails:
  assumes "\<not> hr_success hr"
  shows "fst (exec_commit P now e f hr w) = (False, hr_error_repr hr)"
    and "D (w_db (snd (exec_commit P now e f hr w))) = spec_fail now e hr (D (w_db w))"
proof -
  obtain d where d: "close_attempt P now (env_task_id e) (attempt_no e) (failed_outcome hr) (hr_error_type hr) (hr_error_repr hr) (w_db w)
      = Inr ((), d)" "D d = spec_fail now e hr (D (w_db w))"
    unfolding spec_fail_def using close_attempt_run by blast
  have "commit_tx P now e f hr (w_db w) = Inr ((), d)"
    using assms d(1) by (simp add: commit_tx_def failed_outcome_def)
  from exec_commit_up [OF this] assms d(2)
  show "fst (exec_commit P now e f hr w) = (False, hr_error_repr hr)"
    and "D (w_db (snd (exec_commit P now e f hr w))) = spec_fail now e hr (D (w_db w))" by simp_all
qed

end

text \<open>The rows of a task after \<open>n\<close> failed attempts.\<close>

definition retrying :: "uuid \<Rightarrow> string \<Rightarrow> int \<Rightarrow> db \<Rightarrow> bool" where
  "retrying tid oc n b \<longleftrightarrow>
     (\<exists>t. tasks b tid = Some t \<and> tr_id t = tid \<and> tr_attempt t = n) \<and>
     (\<forall>k. 1 \<le> k \<and> k \<le> n \<longrightarrow> (\<exists>a. attempts b (tid, k) = Some a \<and> ar_task_id a = tid \<and> ar_attempt_no a = k \<and>
        ar_finished_at a \<noteq> None \<and> ar_outcome a = Some oc)) \<and>
     (\<forall>k. k < 1 \<or> n < k \<longrightarrow> attempts b (tid, k) = None) \<and> (\<forall>t \<in> ran (tasks b). task_cols_ok t)"

lemma retrying_fail:
  assumes "retrying tid (failed_outcome hr) n b" and e: "env_task_id e = tid" "attempt_no e = n + 1" and "int4 (n + 1)" "0 \<le> n"
  shows "retrying tid (failed_outcome hr) (n + 1) (spec_fail now e hr (spec_record now' ex e f b))"
proof -
  let ?b = "spec_record now' ex e f b" and ?c = "spec_fail now e hr (spec_record now' ex e f b)"
  obtain t where t: "tasks b tid = Some t" "tr_id t = tid" using assms(1) by (auto simp: retrying_def)
  have "\<forall>t \<in> ran (tasks ?b). task_cols_ok t"
    unfolding spec_record_def by (rule spec_state_rows_ok) (use assms in \<open>auto simp: retrying_def\<close>)
  moreover have "\<exists>t. tasks ?c tid = Some t \<and> tr_id t = tid \<and> tr_attempt t = n + 1"
    using t by (simp add: spec_fail_def spec_record_def spec_state_def upd_map_def e)
  moreover have "\<exists>a. attempts ?c (tid, k) = Some a \<and> ar_task_id a = tid \<and> ar_attempt_no a = k \<and> ar_finished_at a \<noteq> None \<and>
      ar_outcome a = Some (failed_outcome hr)" if "1 \<le> k" "k \<le> n + 1" for k
  proof (cases "k = n + 1")
    case True
    then show ?thesis
      by (simp add: spec_fail_def spec_record_def spec_close_def upd_map_def open_attempt_def e)
  next
    case False
    with that assms(1) obtain a where "attempts b (tid, k) = Some a" "ar_task_id a = tid" "ar_attempt_no a = k"
        "ar_finished_at a \<noteq> None" "ar_outcome a = Some (failed_outcome hr)"
      by (auto simp: retrying_def)
    with False show ?thesis by (auto simp: spec_fail_def spec_record_def spec_close_def upd_map_def e)
  qed
  moreover have "attempts ?c (tid, k) = None" if "k < 1 \<or> n + 1 < k" for k
    using assms(1,5) that by (auto simp: retrying_def spec_fail_def spec_record_def spec_close_def upd_map_def e)
  ultimately show ?thesis by (simp add: retrying_def spec_fail_def)
qed

lemma retrying_dead:
  assumes "retrying tid oc n b"
  shows "retrying tid oc n (spec_state now tid DEAD None b)"
    and "map_option tr_state (tasks (spec_state now tid DEAD None b) tid) = Some DEAD"
proof -
  have "\<forall>t \<in> ran (tasks (spec_state now tid DEAD None b)). task_cols_ok t"
    by (rule spec_state_rows_ok) (use assms in \<open>auto simp: retrying_def\<close>)
  then show "retrying tid oc n (spec_state now tid DEAD None b)"
    using assms by (auto simp: retrying_def) (auto simp: spec_state_def upd_map_def)
  show "map_option tr_state (tasks (spec_state now tid DEAD None b) tid) = Some DEAD"
    using assms by (auto simp: retrying_def spec_state_def upd_map_def)
qed

section \<open>A message that fails\<close>

lemma lock_rel_strs: "strs ks' = strs ks \<Longrightarrow> lock_rel ks' l = lock_rel ks l"
  by (simp add: lock_rel_def)

text \<open>What waits for the task next: its retry in the schedule, or its last message among the dead letters.\<close>

definition settled :: "'v codec \<Rightarrow> string option \<Rightarrow> task_envelope \<Rightarrow> real \<Rightarrow> ('v \<times> real) list \<times> 'v fields list \<Rightarrow>
    ('v \<times> real) list \<times> 'v fields list" where
  "settled C er e sc out =
     (if attempt_no e < policy_max_attempts (env_retry_policy e)
      then ([(model_dump_json C (e\<lparr>env_attempt := attempt_no e\<rparr>), sc)], snd out)
      else (fst out, snd out @ [\<lparr>f_data = model_dump_json C e, f_reason = Some (case er of
        None \<Rightarrow> ''max_attempts_exhausted'' | Some m \<Rightarrow> if m \<noteq> [] then m else ''max_attempts_exhausted'')\<rparr>]))"

lemma settle_failure_up:
  assumes R: "redis_service R V before" and P: "postgres_up P D"
    and policy: "retryable_errors (env_retry_policy e) = []" "terminal_errors (env_retry_policy e) = []"
    and n: "0 \<le> env_attempt e" "attempt_no e \<le> 1024"
    and cols: "\<forall>t \<in> ran (tasks (D (w_db w))). task_cols_ok t"
    and wf: "queue_wf (V (w_redis w)) q" and none: "zsets (V (w_redis w)) (sched_key q) = []"
  shows "\<exists>w'. settle_failure R P C clk (\<lambda>_ w. w) u q e er w = (Inr (), w') \<and>
    D (w_db w') = (if attempt_no e < policy_max_attempts (env_retry_policy e) then D (w_db w)
      else spec_state (clk AtDead) (env_task_id e) DEAD None (D (w_db w))) \<and>
    outside q (V (w_redis w')) = settled C er e (clk AtSettle + backoff_cap (env_retry_policy e) (attempt_no e) * u)
      (outside q (V (w_redis w))) \<and>
    queue_wf (V (w_redis w')) q \<and> ready_ids (V (w_redis w')) q = ready_ids (V (w_redis w)) q \<and>
    pending_ids (V (w_redis w')) q = pending_ids (V (w_redis w)) q \<and> strs (V (w_redis w')) = strs (V (w_redis w))"
proof (cases "attempt_no e < policy_max_attempts (env_retry_policy e)")
  case True
  let ?at = "clk AtSettle + backoff_cap (env_retry_policy e) (attempt_no e) * u"
  let ?s = "schedule R C q (e\<lparr>env_attempt := attempt_no e\<rparr>) ?at (w_redis w)"
  have v: "V ?s = ks_zadd before (sched_key q) (model_dump_json C (e\<lparr>env_attempt := attempt_no e\<rparr>)) ?at (V (w_redis w))"
    by (simp add: schedule_def redis_service.zadd [OF R])
  have "settle_failure R P C clk (\<lambda>_ w. w) u q e er w = (Inr (), w\<lparr>w_redis := ?s\<rparr>)"
    using True n compute_delay_Inr [of "attempt_no e" "env_retry_policy e" u]
    by (simp add: settle_failure_def is_retryable_default_lists [OF policy] attempt_no_def Let_def)
  moreover have same: "streams (V ?s) = streams (V (w_redis w))" "strs (V ?s) = strs (V (w_redis w))"
    by (simp_all add: v ks_zadd_def)
  moreover have "outside q (V ?s) = settled C er e ?at (outside q (V (w_redis w)))"
    using True none by (simp add: v ks_zadd_def settled_def outside_def stream_at_def)
  ultimately show ?thesis using True wf by (simp add: queue_same_streams [OF same(1)])
next
  case False
  let ?m = "case er of None \<Rightarrow> ''max_attempts_exhausted'' | Some m \<Rightarrow> if m \<noteq> [] then m else ''max_attempts_exhausted''"
  let ?s = "dead_letter R C q e ?m (w_redis w)"
  obtain i where v: "V ?s = ks_xadd i (dlq_key q) \<lparr>f_data = model_dump_json C e, f_reason = Some ?m\<rparr> (V (w_redis w))"
    by (simp add: dead_letter_def redis_service.xadd [OF R])
  obtain d where d: "update_task_state P (clk AtDead) (env_task_id e) DEAD None (w_db w) = Inr ((), d)"
      "D d = spec_state (clk AtDead) (env_task_id e) DEAD None (D (w_db w))"
    using postgres_up.update_task_state_run [OF P, of "w_db w" None] cols by (metis option.distinct(1))
  obtain d' where d': "run_tx P (update_task_state P (clk AtDead) (env_task_id e) DEAD None) (w_db w) = (Inr (), d')" "D d' = D d"
    using postgres_up.run_tx_up [OF P, of "update_task_state P (clk AtDead) (env_task_id e) DEAD None", OF d(1)] by (metis prod.collapse)
  have "settle_failure R P C clk (\<lambda>_ w. w) u q e er w = (Inr (), w\<lparr>w_redis := ?s, w_db := d'\<rparr>)"
    using False by (simp add: settle_failure_def is_retryable_default_lists [OF policy] attempt_no_def Let_def d'(1))
  moreover have "outside q (V ?s) = settled C er e sc (outside q (V (w_redis w)))" for sc
    using False by (simp add: v settled_def outside_def ks_xadd_def Let_def) (simp add: put_stream_def)
  ultimately show ?thesis using False wf d(2) d'(2) by (simp add: v queue_other_stream)
qed

lemma message_fails:
  assumes R: "redis_service R V before" and P: "postgres_up P D"
    and e: "envelope m = e" and hr: "run_handler ex py reg e = hr"
    and lock: "lock_rel (V (w_redis w)) l" "lk_held l (env_task_id e) = None" "lk_seq l + 1 < 10 ^ 14"
    and ms: "0 < ex_lease_ms ex" "\<forall>d \<in> set ds. int d < ex_lease_ms ex"
    and task: "retrying (env_task_id e) (failed_outcome hr) (env_attempt e) (D (w_db w))" and fails: "\<not> hr_success hr"
    and policy: "retryable_errors (env_retry_policy e) = []" "terminal_errors (env_retry_policy e) = []"
    and n: "0 \<le> env_attempt e" "attempt_no e \<le> 1024"
    and wf: "queue_wf (V (w_redis w)) q" "pending_ids (V (w_redis w)) q = ids @ [broker_msg_id m]" "broker_msg_id m \<notin> set ids"
    and none: "fst (outside q (V (w_redis w))) = []"
  shows "\<exists>w' l'. process_message R P C ex py reg clk (\<lambda>_ w. w) (map (time_passes R) ds) u q m w = w' \<and>
    retrying (env_task_id e) (failed_outcome hr) (attempt_no e) (D (w_db w')) \<and> effects (D (w_db w')) = effects (D (w_db w)) \<and>
    (policy_max_attempts (env_retry_policy e) \<le> attempt_no e \<longrightarrow>
       map_option tr_state (tasks (D (w_db w')) (env_task_id e)) = Some DEAD) \<and>
    outside q (V (w_redis w')) = settled C (hr_error_repr hr) e (clk AtSettle + backoff_cap (env_retry_policy e) (attempt_no e) * u)
      (outside q (V (w_redis w))) \<and>
    lock_rel (V (w_redis w')) l' \<and> lk_held l' (env_task_id e) = None \<and> lk_seq l' = lk_seq l + 1 \<and>
    queue_wf (V (w_redis w')) q \<and> pending_ids (V (w_redis w')) q = ids \<and> ready_ids (V (w_redis w')) q = ready_ids (V (w_redis w)) q"
proof -
  let ?i = "env_task_id e" and ?n = "attempt_no e" and ?f = "lk_seq l + 1" and ?mx = "policy_max_attempts (env_retry_policy e)"
  have int4: "int4 ?n" using n by (simp add: int4_def attempt_no_def)
  have rows: "tasks (D (w_db w)) ?i \<noteq> None" "attempts (D (w_db w)) (?i, ?n) = None" "\<forall>t \<in> ran (tasks (D (w_db w))). task_cols_ok t"
    using task by (auto simp: retrying_def attempt_no_def)
  let ?c = "\<lambda>w3. exec_commit P (clk AtCommit) e ?f hr w3"
  obtain w3 s5 l5 where run: "execute R P ex py reg clk (\<lambda>_ w. w) (map (time_passes R) ds) e w = (Inr (fst (?c w3)), (snd (?c w3))\<lparr>w_redis := s5\<rparr>)"
      and w3: "D (w_db w3) = spec_record (clk AtRecord) ex e ?f (D (w_db w))"
      and l5: "lock_rel (V s5) l5" "lk_held l5 ?i = None" "lk_seq l5 = ?f" and ids: "same_ids q (V (w_redis w)) (V s5)"
    using execute_run [OF R P lock ms rows(1,2) int4 rows(3) wf(1), of py reg clk] by (auto simp: hr)
  let ?w4 = "(snd (?c w3))\<lparr>w_redis := s5\<rparr>"
  have D4: "D (w_db ?w4) = spec_fail (clk AtCommit) e hr (spec_record (clk AtRecord) ex e ?f (D (w_db w)))"
    by (simp add: postgres_up.exec_commit_fails(2) [OF P fails] w3)
  have r4: "retrying ?i (failed_outcome hr) ?n (D (w_db ?w4))"
    unfolding D4 using retrying_fail [OF task refl] int4 n(1) by (simp add: attempt_no_def)
  obtain w5 where settle: "settle_failure R P C clk (\<lambda>_ w. w) u q e (hr_error_repr hr) ?w4 = (Inr (), w5)"
      and D5: "D (w_db w5) = (if ?n < ?mx then D (w_db ?w4) else spec_state (clk AtDead) ?i DEAD None (D (w_db ?w4)))"
      and out5: "outside q (V (w_redis w5)) = settled C (hr_error_repr hr) e (clk AtSettle + backoff_cap (env_retry_policy e) ?n * u)
        (outside q (V s5))"
      and q5: "queue_wf (V (w_redis w5)) q" "ready_ids (V (w_redis w5)) q = ready_ids (V s5) q"
        "pending_ids (V (w_redis w5)) q = pending_ids (V s5) q" "strs (V (w_redis w5)) = strs (V s5)"
    using settle_failure_up [OF R P policy n, of ?w4 q C clk u "hr_error_repr hr"] r4 ids none
    by (auto simp: same_ids_def outside_def retrying_def)
  let ?w6 = "w5\<lparr>w_redis := ack R q q [broker_msg_id m] (w_redis w5)\<rparr>"
  have "process_message R P C ex py reg clk (\<lambda>_ w. w) (map (time_passes R) ds) u q m w = ?w6"
    using run settle by (simp add: process_message_def e Let_def postgres_up.exec_commit_fails(1) [OF P fails])
  moreover have v6: "V (w_redis ?w6) = ks_xack (q_key q) q [broker_msg_id m] (V (w_redis w5))"
    by (simp add: ack_def redis_service.xack [OF R])
  moreover note acked = queue_wf_xack [OF q5(1), of "[broker_msg_id m]", folded v6]
  moreover have "pending_ids (V (w_redis ?w6)) q = ids"
    using acked(3) ids q5(3) wf(2,3) by (auto simp: same_ids_def filter_id_conv)
  moreover have "ready_ids (V (w_redis ?w6)) q = ready_ids (V (w_redis w)) q" using acked(2) ids q5(2) by (simp add: same_ids_def)
  moreover have "lock_rel (V (w_redis ?w6)) l5"
    using l5(1) q5(4) lock_rel_strs [of "V (w_redis ?w6)" "V s5"] unfolding v6 by simp
  moreover have "retrying ?i (failed_outcome hr) ?n (D (w_db w5))" "effects (D (w_db w5)) = effects (D (w_db w))"
      "?mx \<le> ?n \<longrightarrow> map_option tr_state (tasks (D (w_db w5)) ?i) = Some DEAD"
    using r4 retrying_dead [OF r4, of "clk AtDead"] unfolding D5 D4 by (auto simp: spec_fail_def)
  ultimately show ?thesis using l5(2,3) out5 ids
    by (intro exI [of _ ?w6] exI [of _ l5]) (simp add: same_ids_def)
qed

section \<open>Deliveries\<close>

text \<open>A round of the scheduler moves the one scheduled task, when it is due, to the queue.\<close>

lemma promote_one:
  assumes R: "redis_service R V before" and wf: "queue_wf (V s) q" "ready_ids (V s) q = []"
    and due: "outside q (V s) = ([(x, sc)], dl)" "sc \<le> clk 0"
  shows "queue_wf (V (scheduler_tick R clk [q] s)) q \<and> waiting (V (scheduler_tick R clk [q] s)) q = [x] \<and>
    pending_ids (V (scheduler_tick R clk [q] s)) q = pending_ids (V s) q \<and>
    outside q (V (scheduler_tick R clk [q] s)) = ([], dl)"
proof -
  let ?f = "\<lparr>f_data = x, f_reason = None\<rparr>"
  let ?s1 = "snd (r_xadd R (q_key q) ?f s)"
  obtain i where i: "st_last (stream_at (V s) (q_key q)) < i" "V ?s1 = ks_xadd i (q_key q) ?f (V s)"
    using redis_service.xadd_id [OF R, of "q_key q" s ?f] redis_service.xadd [OF R, of "q_key q" ?f s] by auto
  have "r_zrangebyscore R (sched_key q) (clk 0) 100 s = [x]"
    using due by (simp add: redis_service.zrangebyscore [OF R] ks_zrangebyscore_def outside_def)
  then have tick: "scheduler_tick R clk [q] s = r_zrem R (sched_key q) x ?s1"
    by (simp add: promote_scheduled_def promote_scheduled_lua_def Let_def)
  have v: "V (scheduler_tick R clk [q] s) = ks_zrem (sched_key q) x (ks_xadd i (q_key q) ?f (V s))"
    unfolding tick by (simp add: redis_service.zrem [OF R] i(2))
  have same: "streams (ks_zrem (sched_key q) x ks) = streams ks" for ks :: "'b keyspace" by (simp add: ks_zrem_def)
  have "outside q (ks_zrem (sched_key q) x (ks_xadd i (q_key q) ?f (V s))) = ([], dl)"
    using due(1) outside_commands(1) [of q i ?f "V s"] by (simp add: outside_def zset_zrem)
  with waits_xadd [OF wf i(1), of ?f] show ?thesis
    unfolding v by (simp add: queue_same_streams [OF same] waiting_same_streams [OF same])
qed

lemma promote_none:
  assumes R: "redis_service R V before" and "fst (outside q (V s)) = []"
  shows "scheduler_tick R clk [q] s = s"
  using assms by (simp add: promote_scheduled_def promote_scheduled_lua_def redis_service.zrangebyscore [OF R]
      ks_zrangebyscore_def outside_def)

text \<open>
  A delivery: a poll, the processing of what it returned, a pause and a round of the scheduler, with
  the clocks, the sleeps of the heartbeat and the draw of the delay that belong to it.
\<close>

record delivery =
  dv_clk :: "await_point \<Rightarrow> timestamp"
  dv_sleeps :: "nat list"
  dv_draw :: real
  dv_pause :: nat
  dv_tick :: timestamp

definition deliver_once :: "('s, 'v) redis \<Rightarrow> 'd postgres \<Rightarrow> 'v codec \<Rightarrow> settings \<Rightarrow> py_text \<Rightarrow> registry \<Rightarrow> int \<Rightarrow> string \<Rightarrow>
    delivery \<Rightarrow> ('s, 'd) world \<Rightarrow> ('s, 'd) world" where
  "deliver_once R P C cfg py reg sem q dv w =
     (let (msgs, w1) = poll_queue R C cfg sem q w;
          w2 = fold (process_message R P C (executor_of cfg) py reg (dv_clk dv) (\<lambda>_ w. w)
                 (map (time_passes R) (dv_sleeps dv)) (dv_draw dv) q) msgs w1;
          w3 = time_passes R (dv_pause dv) w2
      in w3\<lparr>w_redis := scheduler_tick R (\<lambda>_. dv_tick dv) [q] (w_redis w3)\<rparr>)"

text \<open>Heartbeats come in time, the draw is one of \<open>random.random()\<close>, and the scheduler runs after the longest delay.\<close>

definition delivery_ok :: "settings \<Rightarrow> retry_policy \<Rightarrow> delivery \<Rightarrow> bool" where
  "delivery_ok cfg policy dv \<longleftrightarrow> list_all (\<lambda>d. int d < cfg_lease_ms cfg) (dv_sleeps dv) \<and>
     0 \<le> dv_draw dv \<and> dv_draw dv < 1 \<and> dv_clk dv AtSettle + cap_s policy \<le> dv_tick dv"

lemma delivery_due:
  assumes "delivery_ok cfg policy dv" and "0 \<le> base_delay_s policy" and "0 \<le> cap_s policy"
  shows "dv_clk dv AtSettle + backoff_cap policy n * dv_draw dv \<le> dv_tick dv"
proof -
  have "0 \<le> backoff_cap policy n" "backoff_cap policy n \<le> cap_s policy" using assms(2,3) by (simp_all add: backoff_cap_def)
  moreover have "backoff_cap policy n * dv_draw dv \<le> backoff_cap policy n * 1"
    using assms(1) calculation(1) by (intro mult_left_mono) (auto simp: delivery_ok_def)
  ultimately show ?thesis using assms(1) by (simp add: delivery_ok_def)
qed

text \<open>What holds between two deliveries of a task after \<open>n\<close> of them, and what its last one leaves.\<close>

definition between :: "('s \<Rightarrow> 'v keyspace) \<Rightarrow> ('d \<Rightarrow> db) \<Rightarrow> string \<Rightarrow> string \<Rightarrow> uuid \<Rightarrow> nat list \<Rightarrow> (string \<Rightarrow> effect_row option) \<Rightarrow> int \<Rightarrow>
    int \<Rightarrow> ('s, 'd) world \<Rightarrow> bool" where
  "between V D q oc tid ids fx sq n w \<longleftrightarrow> queue_wf (V (w_redis w)) q \<and> pending_ids (V (w_redis w)) q = ids \<and>
     retrying tid oc n (D (w_db w)) \<and> effects (D (w_db w)) = fx \<and>
     (\<exists>l. lock_rel (V (w_redis w)) l \<and> lk_held l tid = None \<and> lk_seq l = sq + n)"

definition buried :: "'v codec \<Rightarrow> handler_run \<Rightarrow> task_envelope \<Rightarrow> 'v fields" where
  "buried C hr e = \<lparr>f_data = model_dump_json C (e\<lparr>env_attempt := policy_max_attempts (env_retry_policy e) - 1\<rparr>),
     f_reason = Some (case hr_error_repr hr of
       None \<Rightarrow> ''max_attempts_exhausted'' | Some m \<Rightarrow> if m \<noteq> [] then m else ''max_attempts_exhausted'')\<rparr>"

lemma delivery_fails:
  assumes R: "redis_service R V before" and P: "postgres_up P D" and C: "codec_ok C"
    and hr: "run_handler (executor_of cfg) py reg e = hr" "\<not> hr_success hr"
    and policy: "retryable_errors (env_retry_policy e) = []" "terminal_errors (env_retry_policy e) = []"
      "0 \<le> base_delay_s (env_retry_policy e)" "0 \<le> cap_s (env_retry_policy e)"
    and bounds: "0 < cfg_lease_ms cfg" "0 < sem" "0 \<le> n" "n < policy_max_attempts (env_retry_policy e)"
      "policy_max_attempts (env_retry_policy e) \<le> 1024" "sq + n + 1 < 10 ^ 14"
    and dv: "delivery_ok cfg (env_retry_policy e) dv"
    and st: "between V D q (failed_outcome hr) (env_task_id e) ids fx sq n w"
    and here: "waiting (V (w_redis w)) q = [model_dump_json C (e\<lparr>env_attempt := n\<rparr>)]" "outside q (V (w_redis w)) = ([], dl)"
  shows "between V D q (failed_outcome hr) (env_task_id e) ids fx sq (n + 1) (deliver_once R P C cfg py reg sem q dv w) \<and>
    (if n + 1 < policy_max_attempts (env_retry_policy e)
     then waiting (V (w_redis (deliver_once R P C cfg py reg sem q dv w))) q = [model_dump_json C (e\<lparr>env_attempt := n + 1\<rparr>)] \<and>
       outside q (V (w_redis (deliver_once R P C cfg py reg sem q dv w))) = ([], dl)
     else ready_ids (V (w_redis (deliver_once R P C cfg py reg sem q dv w))) q = [] \<and>
       outside q (V (w_redis (deliver_once R P C cfg py reg sem q dv w))) = ([], dl @ [buried C hr e]) \<and>
       map_option tr_state (tasks (D (w_db (deliver_once R P C cfg py reg sem q dv w))) (env_task_id e)) = Some DEAD)"
proof -
  let ?e = "e\<lparr>env_attempt := n\<rparr>" and ?i = "env_task_id e" and ?mx = "policy_max_attempts (env_retry_policy e)"
  let ?oc = "failed_outcome hr" and ?u = "dv_draw dv" and ?ex = "executor_of cfg"
  let ?sc = "dv_clk dv AtSettle + backoff_cap (env_retry_policy e) (n + 1) * dv_draw dv"
  obtain l where l: "lock_rel (V (w_redis w)) l" "lk_held l ?i = None" "lk_seq l = sq + n" using st by (auto simp: between_def)
  obtain m s where poll: "poll_queue R C cfg sem q w = ([m], w\<lparr>w_redis := s\<rparr>)" "envelope m = ?e"
      and s: "queue_wf (V s) q" "ready_ids (V s) q = []" "pending_ids (V s) q = ids @ [broker_msg_id m]"
        "broker_msg_id m \<notin> set ids" "outside q (V s) = ([], dl)" "strs (V s) = strs (V (w_redis w))"
    using waiting_polled [OF R C bounds(2) _ here(1), of cfg] here(2) st by (auto simp: between_def)
  obtain w2 l2 where proc: "process_message R P C ?ex py reg (dv_clk dv) (\<lambda>_ w. w) (map (time_passes R) (dv_sleeps dv)) ?u q m (w\<lparr>w_redis := s\<rparr>) = w2"
      and db2: "retrying ?i ?oc (n + 1) (D (w_db w2))" "effects (D (w_db w2)) = fx"
        "?mx \<le> n + 1 \<longrightarrow> map_option tr_state (tasks (D (w_db w2)) ?i) = Some DEAD"
      and out2: "outside q (V (w_redis w2)) = settled C (hr_error_repr hr) ?e ?sc ([], dl)"
      and l2: "lock_rel (V (w_redis w2)) l2" "lk_held l2 ?i = None" "lk_seq l2 = sq + n + 1"
      and q2: "queue_wf (V (w_redis w2)) q" "pending_ids (V (w_redis w2)) q = ids" "ready_ids (V (w_redis w2)) q = []"
    using message_fails [OF R P poll(2), of ?ex py reg hr "w\<lparr>w_redis := s\<rparr>" l "dv_sleeps dv" q ids C "dv_clk dv" ?u]
      hr policy bounds dv st l s lock_rel_strs [OF s(6), of l]
    by (auto simp: between_def attempt_no_def delivery_ok_def list_all_iff executor_of_def)
  let ?s3 = "r_elapse R (dv_pause dv) (w_redis w2)" and ?l3 = "lock_elapse (dv_pause dv) l2"
  let ?s4 = "scheduler_tick R (\<lambda>_. dv_tick dv) [q] ?s3"
  have run: "deliver_once R P C cfg py reg sem q dv w = w2\<lparr>w_redis := ?s4\<rparr>"
    by (simp add: deliver_once_def poll(1) proc Let_def)
  have v3: "V ?s3 = ks_elapse (dv_pause dv) (V (w_redis w2))" by (simp add: redis_service.elapse [OF R])
  have q3: "queue_wf (V ?s3) q" "pending_ids (V ?s3) q = ids" "ready_ids (V ?s3) q = []"
      "outside q (V ?s3) = settled C (hr_error_repr hr) ?e ?sc ([], dl)"
    using q2 out2 by (simp_all add: v3 queue_wf_elapse [OF q2(1)])
  have l3: "lock_rel (V ?s3) ?l3" "lk_held ?l3 ?i = None" "lk_seq ?l3 = sq + (n + 1)"
    unfolding v3 using lock_rel_elapse [OF l2(1)] l2(2,3) by (simp_all add: lock_elapse_def)
  have l4: "lock_rel (V ?s4) ?l3" using l3(1) lock_rel_strs [OF redis_service.strs_scheduler_tick [OF R]] by metis
  show ?thesis
  proof (cases "n + 1 < ?mx")
    case True
    have sc: "outside q (V ?s3) = ([(model_dump_json C (e\<lparr>env_attempt := n + 1\<rparr>), ?sc)], dl)"
      using q3(4) True by (simp add: settled_def attempt_no_def)
    from promote_one [OF R q3(1,3) sc, of "\<lambda>_. dv_tick dv"] delivery_due [OF dv policy(3,4)]
    show ?thesis using True q3(2) l4 l3(2,3) db2(1,2) by (auto simp: run between_def simp del: scheduler_tick.simps)
  next
    case False
    with bounds(4) have "?mx = n + 1" by simp
    then have "outside q (V ?s3) = ([], dl @ [buried C hr e])"
      using q3(4) by (simp add: settled_def attempt_no_def buried_def)
    with promote_none [OF R, of q ?s3 "\<lambda>_. dv_tick dv"] have "?s4 = ?s3" "outside q (V ?s3) = ([], dl @ [buried C hr e])" by simp_all
    then show ?thesis using False q3(1-3) l3 db2 by (auto simp: run between_def simp del: scheduler_tick.simps)
  qed
qed

lemma deliveries_fail:
  assumes R: "redis_service R V before" and P: "postgres_up P D" and C: "codec_ok C"
    and hr: "run_handler (executor_of cfg) py reg e = hr" "\<not> hr_success hr"
    and policy: "retryable_errors (env_retry_policy e) = []" "terminal_errors (env_retry_policy e) = []"
      "0 \<le> base_delay_s (env_retry_policy e)" "0 \<le> cap_s (env_retry_policy e)"
    and bounds: "0 < cfg_lease_ms cfg" "0 < sem" "policy_max_attempts (env_retry_policy e) \<le> 1024"
      "sq + policy_max_attempts (env_retry_policy e) < 10 ^ 14"
  shows "0 \<le> n \<Longrightarrow> n < policy_max_attempts (env_retry_policy e) \<Longrightarrow> list_all (delivery_ok cfg (env_retry_policy e)) dvs \<Longrightarrow>
    int (length dvs) = policy_max_attempts (env_retry_policy e) - n \<Longrightarrow>
    between V D q (failed_outcome hr) (env_task_id e) ids fx sq n w \<Longrightarrow>
    waiting (V (w_redis w)) q = [model_dump_json C (e\<lparr>env_attempt := n\<rparr>)] \<Longrightarrow> outside q (V (w_redis w)) = ([], dl) \<Longrightarrow>
    fold (deliver_once R P C cfg py reg sem q) dvs w = w' \<Longrightarrow>
    between V D q (failed_outcome hr) (env_task_id e) ids fx sq (policy_max_attempts (env_retry_policy e)) w' \<and>
    ready_ids (V (w_redis w')) q = [] \<and> outside q (V (w_redis w')) = ([], dl @ [buried C hr e]) \<and>
    map_option tr_state (tasks (D (w_db w')) (env_task_id e)) = Some DEAD"
proof (induction dvs arbitrary: n w)
  case (Cons dv dvs)
  let ?mx = "policy_max_attempts (env_retry_policy e)"
  have "sq + n + 1 < 10 ^ 14" "delivery_ok cfg (env_retry_policy e) dv" using Cons.prems(2,3) bounds(4) by simp_all
  note step = delivery_fails [OF R P C hr policy bounds(1,2) Cons.prems(1,2) bounds(3) this Cons.prems(5-7)]
  show ?case
  proof (cases "n + 1 < ?mx")
    case True
    with step Cons.prems show ?thesis
      by (intro Cons.IH [of "n + 1" "deliver_once R P C cfg py reg sem q dv w"]) simp_all
  next
    case False
    with Cons.prems(2,4) have "?mx = n + 1" by simp
    moreover from this Cons.prems(4) have "dvs = []" by simp
    ultimately show ?thesis using step Cons.prems(8) by simp
  qed
qed simp

section \<open>The theorem\<close>

text \<open>
  C5: A task that keeps failing is tried as often as it asks for, and then buried. Let the services answer
  and nothing else be queued or scheduled on the queue of a request. If the handler never succeeds
  (it raises, times out, is rejected or does not exist), then after \<open>max_attempts\<close> deliveries, between which
  the scheduler runs after the longest delay, every attempt from the first to the last is on
  record and closed, with the outcome \<open>failed\<close>, or \<open>lease_lost\<close> where the handler raised a
  \<open>FenceRejectedError\<close>; the task is \<open>dead\<close>, exactly one message of it is among the dead
  letters, nothing of it is queued, pending or scheduled, its lease is free and no effect was committed.
  This holds for every exception of the handler, also for a \<open>ValueError\<close>, a \<open>TaskTerminalError\<close> or another class whose
  attribute \<open>retryable\<close> is false: the attribute is not read, and such a task is tried \<open>max_attempts\<close> times
  like any other, where \<open>exceptions.py\<close> and the specification call for a single attempt.
\<close>

theorem failing_task_dead_lettered:
  assumes "redis_service R V before" and "postgres_up P D" and "codec_ok C"
    and "queue_wf (V (w_redis (pl_world p))) (rq_queue req)" and "ready_ids (V (w_redis (pl_world p))) (rq_queue req) = []"
    and "zsets (V (w_redis (pl_world p))) (sched_key (rq_queue req)) = []"
    and "lock_rel (V (w_redis (pl_world p))) l" and "lk_held l tid = None" and "lk_seq l + rq_max_attempts req < 10 ^ 14"
    and "task_ok (D (w_db (pl_world p))) (request_row now tid req)" and "rq_run_at req = None"
    and "db_wf (D (w_db (pl_world p)))" and "\<forall>t \<in> ran (tasks (D (w_db (pl_world p)))). task_cols_ok t"
    and "run_handler (executor_of cfg) py reg (request_envelope now tid req) = hr" and "\<not> hr_success hr"
    and "0 < cfg_lease_ms cfg" and "0 < sem" and "1 \<le> rq_max_attempts req" and "rq_max_attempts req \<le> 1024"
    and "int (length dvs) = rq_max_attempts req" and "list_all (delivery_ok cfg default_retry_policy) dvs"
  shows "\<exists>p1 w2. api_create_task R P C now tid req p = (Inr (tid, False), p1) \<and>
    fold (deliver_once R P C cfg py reg sem (rq_queue req)) dvs (pl_world p1) = w2 \<and>
    (\<exists>t. tasks (D (w_db w2)) tid = Some t \<and> tr_state t = DEAD \<and> tr_attempt t = rq_max_attempts req) \<and>
    (\<forall>n. if 1 \<le> n \<and> n \<le> rq_max_attempts req
      then \<exists>a. attempts (D (w_db w2)) (tid, n) = Some a \<and> ar_finished_at a \<noteq> None \<and> ar_outcome a = Some (failed_outcome hr)
      else attempts (D (w_db w2)) (tid, n) = None) \<and>
    effects (D (w_db w2)) = effects (D (w_db (pl_world p))) \<and>
    map snd (st_entries (stream_at (V (w_redis w2)) (dlq_key (rq_queue req)))) =
      map snd (st_entries (stream_at (V (w_redis (pl_world p))) (dlq_key (rq_queue req)))) @ [buried C hr (request_envelope now tid req)] \<and>
    zsets (V (w_redis w2)) (sched_key (rq_queue req)) = [] \<and> ready_ids (V (w_redis w2)) (rq_queue req) = [] \<and>
    pending_ids (V (w_redis w2)) (rq_queue req) = pending_ids (V (w_redis (pl_world p))) (rq_queue req) \<and>
    strs (V (w_redis w2)) (lease_key tid) = None"
proof -
  let ?q = "rq_queue req" and ?s = "w_redis (pl_world p)" and ?d = "w_db (pl_world p)" and ?row = "request_row now tid req"
  let ?e = "request_envelope now tid req" and ?ids = "pending_ids (V (w_redis (pl_world p))) (rq_queue req)"
  let ?policy = "default_retry_policy\<lparr>policy_max_attempts := rq_max_attempts req\<rparr>" and ?fx = "effects (D (w_db (pl_world p)))"
  let ?dl = "map snd (st_entries (stream_at (V (w_redis (pl_world p))) (dlq_key (rq_queue req))))"
  obtain p1 s d where acc: "api_create_task R P C now tid req p = (Inr (tid, False), p1)" "pl_world p1 = \<lparr>w_redis = s, w_db = d\<rparr>"
      and s: "queue_wf (V s) ?q" "waiting (V s) ?q = [model_dump_json C ?e]" "pending_ids (V s) ?q = ?ids"
        "outside ?q (V s) = outside ?q (V ?s)" "strs (V s) = strs (V ?s)"
      and D1: "D d = (D ?d)\<lparr>tasks := (tasks (D ?d))(tid \<mapsto> ?row)\<rparr>"
    using request_accepted [OF assms(1-5,10,11)] by blast
  have e: "env_task_id ?e = tid" "?e\<lparr>env_attempt := 0\<rparr> = ?e" "env_retry_policy ?e = ?policy"
    by (simp_all add: request_envelope_def new_envelope_def)
  have new: "tasks (D ?d) tid = None" "task_cols_ok ?row" using assms(10) by (simp_all add: task_ok_def request_row_def)
  then have "attempts (D ?d) (tid, k) = None" for k using assms(12) unfolding db_wf_def by (metis not_None_eq)
  moreover have "\<forall>t \<in> ran (tasks (D d)). task_cols_ok t" using new(2) assms(13) by (auto simp: D1 ran_def)
  ultimately have "retrying tid (failed_outcome hr) 0 (D d)" by (simp add: retrying_def D1 request_row_def)
  then have st: "between V D ?q (failed_outcome hr) (env_task_id ?e) ?ids ?fx (lk_seq l) 0 (pl_world p1)"
    using s(1,3) assms(7,8) lock_rel_strs [OF s(5), of l] by (auto simp: between_def acc(2) e(1) D1)
  have policy: "retryable_errors default_retry_policy = []" "terminal_errors default_retry_policy = []"
      "0 \<le> base_delay_s default_retry_policy" "0 \<le> cap_s default_retry_policy" "delivery_ok cfg ?policy = delivery_ok cfg default_retry_policy"
    by (simp_all add: default_retry_policy_def delivery_ok_def fun_eq_iff)
  let ?w2 = "fold (deliver_once R P C cfg py reg sem ?q) dvs (pl_world p1)"
  have fin: "between V D ?q (failed_outcome hr) tid ?ids ?fx (lk_seq l) (rq_max_attempts req) ?w2 \<and> ready_ids (V (w_redis ?w2)) ?q = [] \<and>
      outside ?q (V (w_redis ?w2)) = ([], ?dl @ [buried C hr ?e]) \<and> map_option tr_state (tasks (D (w_db ?w2)) tid) = Some DEAD"
    using deliveries_fail [OF assms(1-3,14,15), of sem "lk_seq l" 0 dvs ?q ?ids ?fx "pl_world p1" ?dl ?w2]
      assms(6,9,16-21) s(2,4) st by (simp add: e policy acc(2) outside_def)
  then obtain l' where "lock_rel (V (w_redis ?w2)) l'" "lk_held l' tid = None" by (auto simp: between_def)
  then have "strs (V (w_redis ?w2)) (lease_key tid) = None" using lock_rel_lease [of "V (w_redis ?w2)" l' tid] by simp
  with fin acc(1) show ?thesis
    by (intro exI [of _ p1] exI [of _ ?w2]) (auto simp: between_def retrying_def outside_def)
qed

definition bad_handlers :: registry where
  "bad_handlers = fst (task (Some ''mail'') None None None ''send_mail'' (\<lambda>_. HRaise ''ValueError'' ''no address'' []) Map.empty)"

definition demo_delivery :: delivery where
  "demo_delivery = \<lparr>dv_clk = (\<lambda>_. 7), dv_sleeps = [10000, 10000], dv_draw = 1 / 2, dv_pause = 300000, dv_tick = 307\<rparr>"

theorem failing_task_dead_lettered_witness:
  "\<exists>p1 w2 t. api_create_task ref_redis ref_postgres ref_codec 0 ''t1'' demo_request busy_plane = (Inr (''t1'', False), p1) \<and>
    fold (deliver_once ref_redis ref_postgres ref_codec demo_cfg demo_py bad_handlers 10 ''default'') (replicate 5 demo_delivery)
      (pl_world p1) = w2 \<and>
    tasks (ref_view (w_db w2)) ''t1'' = Some t \<and> tr_state t = DEAD \<and> tr_attempt t = 5 \<and> ready_ids (w_redis w2) ''default'' = []"
proof -
  let ?hr = "run_handler (executor_of demo_cfg) demo_py bad_handlers (request_envelope 0 ''t1'' demo_request)"
  have "\<not> hr_success ?hr"
    by (simp add: run_handler_def bad_handlers_def task_def get_handler_def Let_def request_envelope_def new_envelope_def
        demo_request_def hr_failed_def)
  moreover have "list_all (delivery_ok demo_cfg default_retry_policy) (replicate 5 demo_delivery)"
    by (simp add: list_all_iff delivery_ok_def demo_delivery_def demo_cfg_def default_settings_def default_retry_policy_def)
  ultimately show ?thesis
    using failing_task_dead_lettered [OF ref_redis_service ref_postgres_up codec_ok_ref, of busy_plane demo_request free_lock "''t1''" 0
        demo_cfg demo_py bad_handlers ?hr 10 "replicate 5 demo_delivery"]
      demo_queue_wf demo_queue_ready demo_queue_locks demo_database
    by (auto simp: busy_plane_def demo_request_def free_lock_def demo_cfg_def default_settings_def demo_queue_schedule)
qed

end
