(* ===== verification/Crash_Recovery.thy ===== *)
theory Crash_Recovery
  imports Task_Lifecycle
begin

text \<open>
  The life of a task whose worker dies, at any point from the poll to the acknowledgement: the lease runs
  out, the reclaimer of another worker adopts the message, and the task is executed again. The
  effect is there exactly once in the end.
\<close>

section \<open>Where a worker can die\<close>

text \<open>
  The worker stops for good after one of the steps of \<open>execute\<close>; the numbers are the sleeps of the
  heartbeat loop up to that point.
\<close>

datatype crash_point =
    AfterPoll | AfterAcquire | DuringHandler "nat list" | AfterCommit "nat list" | AfterRelease "nat list"

fun beats :: "crash_point \<Rightarrow> nat list" where
  "beats (DuringHandler ds) = ds"
| "beats (AfterCommit ds) = ds"
| "beats (AfterRelease ds) = ds"
| "beats _ = []"

definition recorded :: "crash_point \<Rightarrow> bool" where
  "recorded cp \<longleftrightarrow> cp \<noteq> AfterPoll \<and> cp \<noteq> AfterAcquire"

fun committed :: "crash_point \<Rightarrow> bool" where
  "committed (AfterCommit ds) = True"
| "committed (AfterRelease ds) = True"
| "committed _ = False"

definition until_commit :: "('s, 'v) redis \<Rightarrow> 'd postgres \<Rightarrow> executor \<Rightarrow> (await_point \<Rightarrow> timestamp) \<Rightarrow> nat list \<Rightarrow> task_envelope \<Rightarrow>
    ('s, 'd) world \<Rightarrow> int \<times> ('s, 'd) world" where
  "until_commit R P ex clk ds e w =
     (case exec_acquire R ex e w of
        (Inl x, w1) \<Rightarrow> (0, w1)
      | (Inr f, w1) \<Rightarrow> (f, heartbeat_loop R ex e f (map (time_passes R) ds) (snd (exec_record P (clk AtRecord) ex e f w1))))"

fun die_at :: "('s, 'v) redis \<Rightarrow> 'd postgres \<Rightarrow> executor \<Rightarrow> py_text \<Rightarrow> registry \<Rightarrow> (await_point \<Rightarrow> timestamp) \<Rightarrow> crash_point \<Rightarrow>
    task_envelope \<Rightarrow> ('s, 'd) world \<Rightarrow> ('s, 'd) world" where
  "die_at R P ex py reg clk AfterPoll e w = w"
| "die_at R P ex py reg clk AfterAcquire e w = snd (exec_acquire R ex e w)"
| "die_at R P ex py reg clk (DuringHandler ds) e w = snd (until_commit R P ex clk ds e w)"
| "die_at R P ex py reg clk (AfterCommit ds) e w =
     (case until_commit R P ex clk ds e w of (f, w3) \<Rightarrow> snd (exec_commit P (clk AtCommit) e f (run_handler ex py reg e) w3))"
| "die_at R P ex py reg clk (AfterRelease ds) e w =
     snd (execute R P ex py reg clk (\<lambda>_ w. w) (map (time_passes R) ds) e w)"

text \<open>What a dead worker leaves: rows up to its last step, and a lease that nobody renews.\<close>

definition left_rows :: "executor \<Rightarrow> (await_point \<Rightarrow> timestamp) \<Rightarrow> crash_point \<Rightarrow> task_envelope \<Rightarrow> int \<Rightarrow> json \<Rightarrow> db \<Rightarrow> db" where
  "left_rows ex clk cp e f res b =
     (if committed cp then spec_commit (clk AtCommit) e f (Some res) (spec_record (clk AtRecord) ex e f b)
      else if recorded cp then spec_record (clk AtRecord) ex e f b else b)"

lemma die_at_leaves:
  assumes R: "redis_service R V before" and P: "postgres_up P D"
    and lock: "lock_rel (V (w_redis w)) l" "lk_held l (env_task_id e) = None" "lk_seq l + 1 < 10 ^ 14"
    and ms: "0 < ex_lease_ms ex" "\<forall>d \<in> set (beats cp). int d < ex_lease_ms ex"
    and task: "tasks (D (w_db w)) (env_task_id e) \<noteq> None"
      "attempts (D (w_db w)) (env_task_id e, attempt_no e) = None" "int4 (attempt_no e)"
      "\<forall>t \<in> ran (tasks (D (w_db w))). task_cols_ok t"
    and fresh: "effects (D (w_db w)) (effect_key e) = None"
    and handler: "get_handler reg (env_task_name e) = Some h" "h (env_payload e) = HReturn (JObj kvs)"
    and wf: "queue_wf (V (w_redis w)) q"
  shows "\<exists>l'. lock_rel (V (w_redis (die_at R P ex py reg clk cp e w))) l' \<and>
    (\<forall>wk f t. lk_held l' (env_task_id e) = Some (wk, f, t) \<longrightarrow> t = nat (ex_lease_ms ex)) \<and>
    lk_seq l' = (if cp = AfterPoll then lk_seq l else lk_seq l + 1) \<and>
    same_ids q (V (w_redis w)) (V (w_redis (die_at R P ex py reg clk cp e w))) \<and>
    D (w_db (die_at R P ex py reg clk cp e w)) = left_rows ex clk cp e (lk_seq l + 1) (JObj kvs) (D (w_db w))"
proof (rule execute_begins [OF R P lock ms task wf, of "clk AtRecord"])
  let ?i = "env_task_id e" and ?f = "lk_seq l + 1" and ?hr = "run_handler ex py reg e"
  fix s1 l1 d2 s3 l3
  assume acq: "exec_acquire R ex e w = (Inr ?f, w\<lparr>w_redis := s1\<rparr>)" and f: "int8 ?f"
    and l1: "lock_rel (V s1) l1" "lk_held l1 ?i = Some (ex_worker_id ex, ?f, nat (ex_lease_ms ex))" "lk_seq l1 = ?f" "same_ids q (V (w_redis w)) (V s1)"
    and rec: "exec_record P (clk AtRecord) ex e ?f (w\<lparr>w_redis := s1\<rparr>) = (None, w\<lparr>w_redis := s1, w_db := d2\<rparr>)"
    and D2: "D d2 = spec_record (clk AtRecord) ex e ?f (D (w_db w))" "\<forall>t \<in> ran (tasks (D d2)). task_cols_ok t"
    and hb: "heartbeat_loop R ex e ?f (map (time_passes R) (beats cp)) (w\<lparr>w_redis := s1, w_db := d2\<rparr>) = w\<lparr>w_redis := s3, w_db := d2\<rparr>"
    and l3: "lock_rel (V s3) l3" "lk_held l3 ?i = Some (ex_worker_id ex, ?f, nat (ex_lease_ms ex))" "lk_seq l3 = ?f" "same_ids q (V (w_redis w)) (V s3)"
  have until: "until_commit R P ex clk (beats cp) e w = (?f, w\<lparr>w_redis := s3, w_db := d2\<rparr>)"
    by (simp add: until_commit_def acq rec hb)
  show ?thesis
  proof (cases cp)
    case AfterPoll
    with lock wf show ?thesis by (auto simp: left_rows_def recorded_def intro: same_ids_refl)
  next
    case AfterAcquire
    with acq l1 show ?thesis by (auto simp: left_rows_def recorded_def)
  next
    case (DuringHandler ds)
    with until l3 D2(1) show ?thesis by (auto simp: left_rows_def recorded_def)
  next
    case (AfterCommit ds)
    have hr: "hr_success ?hr" "hr_result ?hr = Some (JObj kvs)" using handler by (simp_all add: run_handler_def)
    have "D (w_db (snd (exec_commit P (clk AtCommit) e ?f ?hr (w\<lparr>w_redis := s3, w_db := d2\<rparr>)))) =
        spec_commit (clk AtCommit) e ?f (Some (JObj kvs)) (D d2)"
      using postgres_up.exec_commit_exact [OF P hr(1) f, where w = "w\<lparr>w_redis := s3, w_db := d2\<rparr>" and e = e and now = "clk AtCommit"]
        D2 fresh hr(2) by (auto simp: spec_commit_def)
    with AfterCommit until l3 D2(1) show ?thesis by (auto simp: left_rows_def)
  next
    case (AfterRelease ds)
    obtain w' l' where "execute R P ex py reg clk (\<lambda>_ w. w) (map (time_passes R) ds) e w = (Inr (True, None), w')"
        "D (w_db w') = spec_finish (clk AtCommit) e ?f (Some (JObj kvs)) (spec_record (clk AtRecord) ex e ?f (D (w_db w)))"
        "lock_rel (V (w_redis w')) l'" "lk_held l' ?i = None" "lk_seq l' = ?f" "same_ids q (V (w_redis w)) (V (w_redis w'))"
      using execute_succeeds [OF R P lock ms task _ handler wf, of py clk] fresh AfterRelease by auto
    with AfterRelease fresh show ?thesis by (auto simp: left_rows_def spec_finish_def)
  qed
qed

section \<open>The reclaimer\<close>

lemma entry_unique:
  assumes "queue_wf ks q" and "(i, f) \<in> set (st_entries (stream_at ks (q_key q)))" and "(i, f') \<in> set (st_entries (stream_at ks (q_key q)))"
  shows "f' = f"
proof -
  obtain gr where "group_wf (stream_at ks (q_key q)) gr" using assms(1) by (auto simp: queue_wf_def)
  then have "distinct (map fst (st_entries (stream_at ks (q_key q))))"
    by (simp add: group_wf_def sorted_ids_def strict_sorted_iff)
  from map_of_is_SomeI [OF this assms(2)] map_of_is_SomeI [OF this assms(3)] show ?thesis by simp
qed

lemma reclaim_one:
  assumes R: "redis_service R V before" and C: "codec_ok C" and wf: "queue_wf (V s) q"
    and one: "pending_ids (V s) q = [broker_msg_id m]" "carried C q m (V s)" and "min_idle < d" and "0 < n"
  shows "\<exists>m' s'. reclaim R C q q c min_idle n (r_elapse R d s) = (Inr [m'], s') \<and> broker_msg_id m' = broker_msg_id m \<and>
    envelope m' = envelope m \<and> queue_wf (V s') q \<and> pending_ids (V s') q = [broker_msg_id m] \<and>
    ready_ids (V s') q = ready_ids (V s) q \<and> strs (V s') = strs (V (r_elapse R d s))"
proof -
  have rq: "redis_queue R V before C" using R C by (simp add: redis_queue_def redis_queue_axioms_def)
  let ?s = "r_elapse R d s"
  let ?r = "ks_xautoclaim (q_key q) q c min_idle n (ks_elapse d (V s))"
  have v: "V ?s = ks_elapse d (V s)" by (rule redis_service.elapse [OF R])
  have wf1: "queue_wf (V ?s) q" using queue_wf_elapse(1) [OF wf] by (simp add: v)
  obtain f where f: "fst ?r = [(broker_msg_id m, f)]" "(broker_msg_id m, f) \<in> set (st_entries (stream_at (V s) (q_key q)))"
    using xautoclaim_after_elapse [OF wf assms(6), of c n] one(1) assms(7) by (cases "fst ?r") auto
  obtain f' where "(broker_msg_id m, f') \<in> set (st_entries (stream_at (V s) (q_key q)))" "f_data f' = model_dump_json C (envelope m)"
    using one(2) by (auto simp: carried_def)
  with entry_unique [OF wf f(2)] have data: "f_data f = model_dump_json C (envelope m)" by blast
  have x: "fst (r_xautoclaim R (q_key q) q c min_idle n ?s) = Inr (fst ?r)" "V (snd (r_xautoclaim R (q_key q) q c min_idle n ?s)) = snd ?r"
    using redis_service.xautoclaim_ok [OF R key_types(5) redis_queue.group_of_wf [OF rq wf1], of c min_idle n] by (simp_all add: v)
  obtain s' where s': "reclaim R C q q c min_idle n ?s = (Inr [\<lparr>envelope = envelope m, broker_msg_id = broker_msg_id m, idle_ms = int min_idle\<rparr>], s')"
      "V s' = snd ?r"
    using x f(1) data C by (cases "r_xautoclaim R (q_key q) q c min_idle n ?s") (auto simp: reclaim_def codec_ok_def)
  have "strs (V s') = strs (V ?s)" using redis_service.strs_reclaim [OF R, of C q q c min_idle n ?s] by (simp add: s'(1))
  with s' queue_wf_xautoclaim [OF wf1, of c min_idle n] queue_wf_elapse [OF wf, of d] one(1) show ?thesis
    by (auto simp: v)
qed

lemma reclaim_round_one:
  assumes R: "redis_service R V before" and P: "postgres_up P D" and C: "codec_ok C" and wf: "queue_wf (V (w_redis w)) q"
    and one: "pending_ids (V (w_redis w)) q = [broker_msg_id m]" "carried C q m (V (w_redis w))"
    and idle: "nat (cfg_reclaim_min_idle_ms cfg) < d"
  shows "\<exists>m' s' d'. reclaim_round R P C clk (\<lambda>_ w. w) cfg q (time_passes R d w) = ([m'], w\<lparr>w_redis := s', w_db := d'\<rparr>) \<and>
    broker_msg_id m' = broker_msg_id m \<and> envelope m' = (envelope m)\<lparr>env_attempt := env_attempt (envelope m) + 1\<rparr> \<and>
    D d' = spec_close (clk 0) (env_task_id (envelope m)) (env_attempt (envelope m)) ''lease_lost'' None None (D (w_db w)) \<and>
    queue_wf (V s') q \<and> pending_ids (V s') q = [broker_msg_id m] \<and> ready_ids (V s') q = ready_ids (V (w_redis w)) q \<and>
    strs (V s') = strs (V (r_elapse R d (w_redis w)))"
proof -
  let ?e = "envelope m"
  obtain m' s' where r: "reclaim R C q q (cfg_worker_id cfg) (nat (cfg_reclaim_min_idle_ms cfg)) 5 (r_elapse R d (w_redis w)) = (Inr [m'], s')"
      and m': "broker_msg_id m' = broker_msg_id m" "envelope m' = ?e"
      and s': "queue_wf (V s') q" "pending_ids (V s') q = [broker_msg_id m]" "ready_ids (V s') q = ready_ids (V (w_redis w)) q"
        "strs (V s') = strs (V (r_elapse R d (w_redis w)))"
    using reclaim_one [OF R C wf one idle, of 5 "cfg_worker_id cfg"] by auto
  obtain d1 where d1: "close_attempt P (clk 0) (env_task_id ?e) (env_attempt ?e) ''lease_lost'' None None (w_db w) = Inr ((), d1)"
      "D d1 = spec_close (clk 0) (env_task_id ?e) (env_attempt ?e) ''lease_lost'' None None (D (w_db w))"
    using postgres_up.close_attempt_run [OF P] by blast
  have "D (close_lost P (clk 0) m' (w_db w)) = D d1"
    using postgres_up.run_tx_up [OF P, of "close_attempt P (clk 0) (env_task_id ?e) (env_attempt ?e) ''lease_lost'' None None", OF d1(1)]
    by (auto simp: close_lost_def m'(2))
  moreover have "reclaim_round R P C clk (\<lambda>_ w. w) cfg q (time_passes R d w) =
      ([adopt m'], w\<lparr>w_redis := s', w_db := close_lost P (clk 0) m' (w_db w)\<rparr>)"
    by (simp add: reclaim_round_def reclaim_queue_def r Let_def)
  ultimately show ?thesis using m' s' d1(2) by (auto simp: adopt_def)
qed

section \<open>The rows in the end\<close>

lemma effect_key_attempt [simp]: "effect_key (e\<lparr>env_attempt := n\<rparr>) = effect_key e"
  by (simp add: effect_key_def split: option.split)

lemma left_rows_simps:
  assumes "tasks b (env_task_id e) = Some t" "tr_id t = env_task_id e" "\<And>k. attempts b (env_task_id e, k) = None"
    and "effects b (effect_key e) = None" "\<forall>t \<in> ran (tasks b). task_cols_ok t" "int4 (attempt_no e)"
  shows "\<exists>t'. tasks (left_rows ex clk cp e f res b) (env_task_id e) = Some t' \<and> tr_id t' = env_task_id e"
    and "\<forall>t \<in> ran (tasks (left_rows ex clk cp e f res b)). task_cols_ok t"
    and "effects (left_rows ex clk cp e f res b) (effect_key e) = (if committed cp then Some \<lparr>er_dedup_key = effect_key e,
      er_task_id = env_task_id e, er_fence = f, er_result = Some res, er_committed_at = clk AtCommit\<rparr> else None)"
    and "attempts (left_rows ex clk cp e f res b) (env_task_id e, k) = (if k = attempt_no e \<and> recorded cp then
      Some (if committed cp then (open_attempt (clk AtRecord) ex e f)\<lparr>ar_finished_at := Some (clk AtCommit), ar_outcome := Some ''succeeded''\<rparr>
        else open_attempt (clk AtRecord) ex e f) else None)"
proof -
  have "\<forall>t \<in> ran (tasks (spec_record (clk AtRecord) ex e f b)). task_cols_ok t"
    unfolding spec_record_def by (rule spec_state_rows_ok) (use assms in auto)
  then show "\<forall>t \<in> ran (tasks (left_rows ex clk cp e f res b)). task_cols_ok t"
    using assms(5) spec_state_rows_ok [of "(spec_record (clk AtRecord) ex e f b)\<lparr>effects := fx\<rparr>" None "clk AtCommit" "env_task_id e" SUCCEEDED for fx]
    by (auto simp: left_rows_def spec_commit_def)
  have "committed cp \<Longrightarrow> recorded cp" by (cases cp) (auto simp: recorded_def)
  with assms show "\<exists>t'. tasks (left_rows ex clk cp e f res b) (env_task_id e) = Some t' \<and> tr_id t' = env_task_id e"
    "effects (left_rows ex clk cp e f res b) (effect_key e) = (if committed cp then Some \<lparr>er_dedup_key = effect_key e,
      er_task_id = env_task_id e, er_fence = f, er_result = Some res, er_committed_at = clk AtCommit\<rparr> else None)"
    "attempts (left_rows ex clk cp e f res b) (env_task_id e, k) = (if k = attempt_no e \<and> recorded cp then
      Some (if committed cp then (open_attempt (clk AtRecord) ex e f)\<lparr>ar_finished_at := Some (clk AtCommit), ar_outcome := Some ''succeeded''\<rparr>
        else open_attempt (clk AtRecord) ex e f) else None)"
    by (auto simp: left_rows_def spec_commit_def spec_record_def spec_close_def spec_state_def upd_map_def open_attempt_def)
qed

text \<open>The second execution commits the effect, unless the first one did.\<close>

lemma recovered_rows:
  fixes e ex f res b
  assumes b: "tasks b (env_task_id e) = Some t" "tr_id t = env_task_id e" "\<And>k. attempts b (env_task_id e, k) = None"
      "effects b (effect_key e) = None" "\<forall>t \<in> ran (tasks b). task_cols_ok t" and e: "env_attempt e = 0" "e' = e\<lparr>env_attempt := 1\<rparr>"
    and b2: "b2 = spec_close now (env_task_id e) 0 ''lease_lost'' None None (left_rows ex clk cp e f res b)"
    and b4: "b4 = spec_finish now4 e' f' (Some res) (spec_record now3 ex' e' f' b2)"
  shows "effects b4 (effect_key e) = Some (if committed cp
      then \<lparr>er_dedup_key = effect_key e, er_task_id = env_task_id e, er_fence = f, er_result = Some res, er_committed_at = clk AtCommit\<rparr>
      else \<lparr>er_dedup_key = effect_key e, er_task_id = env_task_id e, er_fence = f', er_result = Some res, er_committed_at = now4\<rparr>)"
    and "\<exists>t. tasks b4 (env_task_id e) = Some t \<and> tr_attempt t = 2 \<and> tr_state t = (if committed cp then LEASED else SUCCEEDED)"
    and "\<exists>a. attempts b4 (env_task_id e, 2) = Some a \<and> ar_outcome a = Some ''succeeded''"
    and "map_option ar_outcome (attempts b4 (env_task_id e, 1)) =
      (if recorded cp then Some (if committed cp then Some ''succeeded'' else None) else None)"
proof -
  let ?b1 = "left_rows ex clk cp e f res b" and ?i = "env_task_id e"
  have n: "attempt_no e = 1" "attempt_no e' = 2" "env_task_id e' = ?i" "effect_key e' = effect_key e"
    using e by (simp_all add: attempt_no_def)
  have "int4 (attempt_no e)" by (simp add: n int4_def)
  note left = left_rows_simps [OF b this, of ex clk cp f res]
  obtain t1 where t1: "tasks ?b1 ?i = Some t1" "tr_id t1 = ?i" using left(1) by blast
  have a2: "attempts b2 (?i, 2) = None" "map_option ar_outcome (attempts b2 (?i, 1)) =
      (if recorded cp then Some (if committed cp then Some ''succeeded'' else None) else None)"
      "\<And>a. attempts b2 (?i, 1) = Some a \<Longrightarrow> ar_attempt_no a = 1"
    using left(4) [of 2] left(4) [of 1] by (auto simp: b2 spec_close_def upd_map_def n open_attempt_def split: if_splits)
  have fx: "effects b2 (effect_key e) = (if committed cp then Some \<lparr>er_dedup_key = effect_key e,
      er_task_id = ?i, er_fence = f, er_result = Some res, er_committed_at = clk AtCommit\<rparr> else None)"
    using left(3) by (simp add: b2)
  show "effects b4 (effect_key e) = Some (if committed cp
      then \<lparr>er_dedup_key = effect_key e, er_task_id = ?i, er_fence = f, er_result = Some res, er_committed_at = clk AtCommit\<rparr>
      else \<lparr>er_dedup_key = effect_key e, er_task_id = ?i, er_fence = f', er_result = Some res, er_committed_at = now4\<rparr>)"
    using fx by (auto simp: b4 spec_finish_def spec_commit_def n)
  show "\<exists>t. tasks b4 ?i = Some t \<and> tr_attempt t = 2 \<and> tr_state t = (if committed cp then LEASED else SUCCEEDED)"
    using t1 fx by (simp add: b4 b2 spec_finish_def spec_commit_def spec_record_def n) (simp add: spec_state_def upd_map_def)
  show "\<exists>a. attempts b4 (?i, 2) = Some a \<and> ar_outcome a = Some ''succeeded''"
    by (simp add: b4 spec_finish_def spec_commit_def spec_record_def spec_close_def upd_map_def open_attempt_def n)
  have "attempts b4 (?i, 1) = attempts b2 (?i, 1)"
    using a2(3) by (cases "attempts b2 (?i, 1)")
      (simp_all add: b4 spec_finish_def spec_commit_def spec_record_def spec_close_def upd_map_def n)
  with a2(2) show "map_option ar_outcome (attempts b4 (?i, 1)) =
      (if recorded cp then Some (if committed cp then Some ''succeeded'' else None) else None)" by simp
qed

text \<open>The message of a dead worker is adopted and completed by another one.\<close>

lemma orphan_recovered:
  assumes R: "redis_service R V before" and P: "postgres_up P D" and C: "codec_ok C"
    and q: "queue_wf (V (w_redis w)) q" "ready_ids (V (w_redis w)) q = []" "pending_ids (V (w_redis w)) q = [broker_msg_id m]"
      "carried C q m (V (w_redis w))" and e: "envelope m = e" "env_attempt e = 0"
    and lock: "lock_rel (V (w_redis w)) l" "\<forall>wk f t. lk_held l (env_task_id e) = Some (wk, f, t) \<longrightarrow> t \<le> d" "lk_seq l + 1 < 10 ^ 14"
    and rows: "tasks b (env_task_id e) = Some t" "tr_id t = env_task_id e" "\<And>k. attempts b (env_task_id e, k) = None"
      "effects b (effect_key e) = None" "\<forall>t \<in> ran (tasks b). task_cols_ok t"
    and left: "D (w_db w) = left_rows ex clk cp e f (JObj kvs) b" "f \<le> lk_seq l + 1"
    and handler: "get_handler reg (env_task_name e) = Some h" "h (env_payload e) = HReturn (JObj kvs)"
    and cfg: "nat (cfg_reclaim_min_idle_ms cfg) < d" "0 < cfg_lease_ms cfg" "\<forall>x \<in> set ds. int x < cfg_lease_ms cfg"
  shows "\<exists>m' w2 w3. reclaim_round R P C rclk (\<lambda>_ w. w) cfg q (time_passes R d w) = ([m'], w2) \<and> broker_msg_id m' = broker_msg_id m \<and>
    process_message R P C (executor_of cfg) py reg clk' (\<lambda>_ w. w) (map (time_passes R) ds) u q m' w2 = w3 \<and>
    D (w_db w3) = spec_finish (clk' AtCommit) (e\<lparr>env_attempt := 1\<rparr>) (lk_seq l + 1) (Some (JObj kvs))
      (spec_record (clk' AtRecord) (executor_of cfg) (e\<lparr>env_attempt := 1\<rparr>) (lk_seq l + 1)
        (spec_close (rclk 0) (env_task_id e) 0 ''lease_lost'' None None (left_rows ex clk cp e f (JObj kvs) b))) \<and>
    pending_ids (V (w_redis w3)) q = [] \<and> ready_ids (V (w_redis w3)) q = [] \<and>
    strs (V (w_redis w3)) (lease_key (env_task_id e)) = None"
proof -
  let ?i = "env_task_id e" and ?e = "e\<lparr>env_attempt := 1\<rparr>" and ?ex = "executor_of cfg"
  let ?b2 = "spec_close (rclk 0) ?i 0 ''lease_lost'' None None (left_rows ex clk cp e f (JObj kvs) b)"
  obtain m' s2 d2 where rec: "reclaim_round R P C rclk (\<lambda>_ w. w) cfg q (time_passes R d w) = ([m'], w\<lparr>w_redis := s2, w_db := d2\<rparr>)"
      and m': "broker_msg_id m' = broker_msg_id m" "envelope m' = ?e" and D2: "D d2 = ?b2"
      and s2: "queue_wf (V s2) q" "pending_ids (V s2) q = [broker_msg_id m]" "ready_ids (V s2) q = []"
        "strs (V s2) = strs (V (r_elapse R d (w_redis w)))"
    using reclaim_round_one [OF R P C q(1,3,4) cfg(1), of rclk] by (auto simp: e q(2) left(1))
  let ?l2 = "lock_elapse d l"
  have l2: "lock_rel (V s2) ?l2" "lk_held ?l2 ?i = None" "lk_seq ?l2 = lk_seq l"
    using lock_rel_elapse [OF lock(1), of d] lock(2) s2(4)
    by (auto simp: redis_service.elapse [OF R] lock_rel_def lock_elapse_def split: option.split)
  have n: "attempt_no e = 1" "attempt_no ?e = 2" "int4 (attempt_no e)" using e(2) by (simp_all add: attempt_no_def int4_def)
  note rows1 = left_rows_simps [OF rows n(3), of ex clk cp f "JObj kvs"]
  have "tasks ?b2 ?i \<noteq> None" "\<forall>t \<in> ran (tasks ?b2). task_cols_ok t" using rows1(1,2) by auto
  moreover have "attempts ?b2 (?i, 2) = None" using rows1(4) [of 2] by (simp add: spec_close_def upd_map_def n)
  moreover have "er_fence r \<le> lk_seq l + 1" if "effects ?b2 (effect_key e) = Some r" for r
    using that left(2) rows1(3) by (auto split: if_splits)
  ultimately obtain w3 where "process_message R P C ?ex py reg clk' (\<lambda>_ w. w) (map (time_passes R) ds) u q m' (w\<lparr>w_redis := s2, w_db := d2\<rparr>) = w3"
      "D (w_db w3) = spec_finish (clk' AtCommit) ?e (lk_seq l + 1) (Some (JObj kvs)) (spec_record (clk' AtRecord) ?ex ?e (lk_seq l + 1) ?b2)"
      "strs (V (w_redis w3)) (lease_key ?i) = None" "pending_ids (V (w_redis w3)) q = []" "ready_ids (V (w_redis w3)) q = []"
    using message_completes [OF R P, of "w\<lparr>w_redis := s2, w_db := d2\<rparr>" ?l2 m' ?ex ds reg h kvs q "[]" C py clk' u] lock(3) handler cfg(2,3) l2 s2 m'
    by (auto simp: D2 n executor_of_def int4_def)
  with rec m'(1) show ?thesis by blast
qed

section \<open>The theorem\<close>

text \<open>
  C2: A task survives its worker. Let the services answer, and let a worker that has polled a request's message
  die at any point: before the lease, after it, during the handler, after the commit or after the release.
  Once the lease and the idle time have run out, the reclaimer of any worker adopts exactly
  this message, and processing it leaves the message acknowledged, the lease free, the second attempt
  succeeded and the handler's result on record once: as the dead worker committed it, if it did,
  and otherwise under the fence of the second worker. (The rows show what happened less faithfully: the lost
  attempt stays open, and the task of a worker that died after the commit ends as \<open>leased\<close>.)
\<close>

theorem crashed_task_recovered:
  assumes "redis_service R V before" and "postgres_up P D" and "codec_ok C"
    and "queue_wf (V (w_redis (pl_world p))) (rq_queue req)" and "ready_ids (V (w_redis (pl_world p))) (rq_queue req) = []"
    and "pending_ids (V (w_redis (pl_world p))) (rq_queue req) = []"
    and "lock_rel (V (w_redis (pl_world p))) l" and "lk_held l tid = None" and "lk_seq l + 2 < 10 ^ 14"
    and "task_ok (D (w_db (pl_world p))) (request_row now tid req)" and "rq_run_at req = None"
    and "db_wf (D (w_db (pl_world p)))" and "\<forall>t \<in> ran (tasks (D (w_db (pl_world p)))). task_cols_ok t"
    and "effects (D (w_db (pl_world p))) (effect_key (request_envelope now tid req)) = None"
    and "get_handler reg (rq_task_name req) = Some h" and "h (rq_payload req) = HReturn (JObj kvs)"
    and "0 < cfg_lease_ms a" and "\<forall>x \<in> set (beats cp). int x < cfg_lease_ms a" and "0 < sem"
    and "cfg_lease_ms a \<le> int d" and "nat (cfg_reclaim_min_idle_ms b) < d"
    and "0 < cfg_lease_ms b" and "\<forall>x \<in> set ds. int x < cfg_lease_ms b"
  shows "\<exists>p1 m w1 m' w2 w3. api_create_task R P C now tid req p = (Inr (tid, False), p1) \<and>
    poll_queue R C a sem (rq_queue req) (pl_world p1) = ([m], w1) \<and>
    reclaim_round R P C rclk (\<lambda>_ w. w) b (rq_queue req)
      (time_passes R d (die_at R P (executor_of a) py reg clk cp (envelope m) w1)) = ([m'], w2) \<and>
    broker_msg_id m' = broker_msg_id m \<and>
    process_message R P C (executor_of b) py reg clk' (\<lambda>_ w. w) (map (time_passes R) ds) u (rq_queue req) m' w2 = w3 \<and>
    effects (D (w_db w3)) (effect_key (envelope m)) = Some (if committed cp
      then \<lparr>er_dedup_key = effect_key (envelope m), er_task_id = tid, er_fence = lk_seq l + 1, er_result = Some (JObj kvs),
        er_committed_at = clk AtCommit\<rparr>
      else \<lparr>er_dedup_key = effect_key (envelope m), er_task_id = tid, er_fence = (if cp = AfterPoll then lk_seq l + 1 else lk_seq l + 2),
        er_result = Some (JObj kvs), er_committed_at = clk' AtCommit\<rparr>) \<and>
    (\<exists>t. tasks (D (w_db w3)) tid = Some t \<and> tr_attempt t = 2 \<and> tr_state t = (if committed cp then LEASED else SUCCEEDED)) \<and>
    (\<exists>r. attempts (D (w_db w3)) (tid, 2) = Some r \<and> ar_outcome r = Some ''succeeded'') \<and>
    map_option ar_outcome (attempts (D (w_db w3)) (tid, 1)) =
      (if recorded cp then Some (if committed cp then Some ''succeeded'' else None) else None) \<and>
    pending_ids (V (w_redis w3)) (rq_queue req) = [] \<and> ready_ids (V (w_redis w3)) (rq_queue req) = [] \<and>
    strs (V (w_redis w3)) (lease_key tid) = None"
proof -
  let ?q = "rq_queue req" and ?d = "w_db (pl_world p)" and ?row = "request_row now tid req" and ?s = "w_redis (pl_world p)"
  let ?e = "request_envelope now tid req" and ?f = "lk_seq l + 1"
  obtain p1 s0 d0 where acc: "api_create_task R P C now tid req p = (Inr (tid, False), p1)" "pl_world p1 = \<lparr>w_redis = s0, w_db = d0\<rparr>"
      and s0: "queue_wf (V s0) ?q" "waiting (V s0) ?q = [model_dump_json C ?e]" "pending_ids (V s0) ?q = []" "strs (V s0) = strs (V ?s)"
      and D0: "D d0 = (D ?d)\<lparr>tasks := (tasks (D ?d))(tid \<mapsto> ?row)\<rparr>"
    using request_accepted [OF assms(1-5,10,11)] assms(6) by metis
  obtain m s where poll: "poll_queue R C a sem ?q (pl_world p1) = ([m], \<lparr>w_redis = s, w_db = d0\<rparr>)" "envelope m = ?e"
      and s: "queue_wf (V s) ?q" "ready_ids (V s) ?q = []" "pending_ids (V s) ?q = [broker_msg_id m]" "strs (V s) = strs (V ?s)" "carried C ?q m (V s)"
    using waiting_polled [OF assms(1,3,19), of "pl_world p1" ?q ?e a] s0 by (auto simp: acc(2))
  have e: "env_task_id ?e = tid" "env_attempt ?e = 0" "attempt_no ?e = 1" "env_task_name ?e = rq_task_name req" "env_payload ?e = rq_payload req"
    by (simp_all add: request_envelope_def new_envelope_def attempt_no_def)
  have new: "tasks (D ?d) tid = None" "task_cols_ok ?row" using assms(10) by (simp_all add: task_ok_def request_row_def)
  have rows: "tasks (D d0) tid = Some ?row" "tr_id ?row = tid" "attempts (D d0) (tid, k) = None" "effects (D d0) (effect_key ?e) = None"
      "\<forall>t \<in> ran (tasks (D d0)). task_cols_ok t" for k
    using new assms(12-14) by (auto simp: D0 request_row_def db_wf_def ran_def) (metis not_None_eq)
  let ?w1 = "die_at R P (executor_of a) py reg clk cp ?e \<lparr>w_redis = s, w_db = d0\<rparr>"
  have lock: "lock_rel (V s) l" using assms(7) s(4) by (simp add: lock_rel_def)
  obtain l1 where l1: "lock_rel (V (w_redis ?w1)) l1" "\<forall>wk f t. lk_held l1 tid = Some (wk, f, t) \<longrightarrow> t = nat (cfg_lease_ms a)"
        "lk_seq l1 = (if cp = AfterPoll then lk_seq l else ?f)"
      and ids1: "same_ids ?q (V s) (V (w_redis ?w1))"
      and D1: "D (w_db ?w1) = left_rows (executor_of a) clk cp ?e ?f (JObj kvs) (D d0)"
    using die_at_leaves [OF assms(1,2), of "\<lparr>w_redis = s, w_db = d0\<rparr>" l ?e "executor_of a" cp reg h kvs ?q py clk] lock assms(8,9,15-18) rows s(1)
    by (auto simp: e executor_of_def int4_def)
  have l1': "\<forall>wk f t. lk_held l1 tid = Some (wk, f, t) \<longrightarrow> t \<le> d" "lk_seq l1 + 1 < 10 ^ 14" "?f \<le> lk_seq l1 + 1"
    using l1(2,3) assms(9,20) by auto
  obtain m' w2 w3 where "reclaim_round R P C rclk (\<lambda>_ w. w) b ?q (time_passes R d ?w1) = ([m'], w2)" "broker_msg_id m' = broker_msg_id m"
      "process_message R P C (executor_of b) py reg clk' (\<lambda>_ w. w) (map (time_passes R) ds) u ?q m' w2 = w3"
      and fin: "D (w_db w3) = spec_finish (clk' AtCommit) (?e\<lparr>env_attempt := 1\<rparr>) (lk_seq l1 + 1) (Some (JObj kvs))
        (spec_record (clk' AtRecord) (executor_of b) (?e\<lparr>env_attempt := 1\<rparr>) (lk_seq l1 + 1)
          (spec_close (rclk 0) (env_task_id ?e) 0 ''lease_lost'' None None (left_rows (executor_of a) clk cp ?e ?f (JObj kvs) (D d0))))"
      and "pending_ids (V (w_redis w3)) ?q = []" "ready_ids (V (w_redis w3)) ?q = []" "strs (V (w_redis w3)) (lease_key tid) = None"
    using orphan_recovered [OF assms(1-3), of ?w1 ?q m ?e l1 d "D d0" ?row "executor_of a" clk cp ?f kvs reg h b ds rclk py clk' u]
      ids1 s(1-3,5) poll(2) l1(1) l1' D1 rows assms(15,16,21-23) by (auto simp: e same_ids_def carried_def)
  moreover have "lk_seq l1 + 1 = (if cp = AfterPoll then ?f else lk_seq l + 2)" using l1(3) by simp
  moreover note recovered_rows [OF _ _ _ rows(4,5) e(2) refl refl fin] rows(1-3)
  ultimately show ?thesis using acc(1) poll by (auto simp: e)
qed

definition new_queue :: "task_envelope keyspace" where
  "new_queue = snd (ensure_queue ref_redis ''default'' empty_keyspace)"

lemma new_queue_state:
  "queue_wf new_queue ''default''" "ready_ids new_queue ''default'' = []" "pending_ids new_queue ''default'' = []"
  "lock_rel new_queue free_lock"
  by (simp_all add: new_queue_def ensure_queue_def ref_redis_def group_at_def empty_keyspace_def ks_xgroup_create_def stream_at_def
      empty_stream_def put_stream_def undelivered_def queue_wf_def queue_group_def group_wf_def sorted_ids_def
      pending_ids_def ready_ids_def Let_def lock_rel_def free_lock_def)

definition other_cfg :: settings where
  "other_cfg = default_settings\<lparr>cfg_worker_id := ''w2''\<rparr>"

theorem crashed_task_recovered_witness:
  "\<exists>p1 m w1 m' w2 w3. api_create_task ref_redis ref_postgres ref_codec 0 ''t1'' demo_request
      (demo_plane\<lparr>pl_world := \<lparr>w_redis = new_queue, w_db = empty_ref_db\<rparr>\<rparr>) = (Inr (''t1'', False), p1) \<and>
    poll_queue ref_redis ref_codec demo_cfg 10 ''default'' (pl_world p1) = ([m], w1) \<and>
    reclaim_round ref_redis ref_postgres ref_codec (\<lambda>_. 90) (\<lambda>_ w. w) other_cfg ''default'' (time_passes ref_redis 60000
      (die_at ref_redis ref_postgres (executor_of demo_cfg) demo_py mail_handlers (\<lambda>_. 7) (DuringHandler [10000]) (envelope m) w1))
      = ([m'], w2) \<and>
    process_message ref_redis ref_postgres ref_codec (executor_of other_cfg) demo_py mail_handlers (\<lambda>_. 99) (\<lambda>_ w. w)
      (map (time_passes ref_redis) []) (1 / 2) ''default'' m' w2 = w3 \<and>
    map_option er_fence (effects (ref_view (w_db w3)) (effect_key (envelope m))) = Some 2 \<and>
    map_option tr_state (tasks (ref_view (w_db w3)) ''t1'') = Some SUCCEEDED \<and>
    map_option ar_outcome (attempts (ref_view (w_db w3)) (''t1'', 1)) = Some None"
proof -
  have "get_handler mail_handlers ''mail'' = Some (\<lambda>_. HReturn (JObj [(''sent'', JBool True)]))"
    by (simp add: mail_handlers_def task_def get_handler_def Let_def)
  then show ?thesis
    using crashed_task_recovered [OF ref_redis_service ref_postgres_up codec_ok_ref, of "demo_plane\<lparr>pl_world := \<lparr>w_redis = new_queue, w_db = empty_ref_db\<rparr>\<rparr>"
        demo_request free_lock "''t1''" 0 mail_handlers _ "[(''sent'', JBool True)]" demo_cfg "DuringHandler [10000]" 10 60000 other_cfg "[]"
        "\<lambda>_. 90" demo_py "\<lambda>_. 7" "\<lambda>_. 99" "1 / 2"]
      new_queue_state demo_database
    by (auto simp: demo_request_def free_lock_def demo_cfg_def other_cfg_def default_settings_def recorded_def)
qed

end
