(* ===== verification/Workflow_Progress.thy ===== *)
theory Workflow_Progress
  imports Task_Lifecycle
begin

text \<open>
  What the workflow engine does when its services answer: which tasks a call of \<open>advance\<close> creates and
  publishes, exactly, for workflows whose steps are single tasks, and that a valid workflow whose
  tasks succeed is completed after at most one call per step and one more.
\<close>

section \<open>Launching steps\<close>

text \<open>
  A step that the engine launches as one task: no fan-out, a dictionary as payload, a name and an
  explicit (or absent, but not null) retry configuration.
\<close>

definition plain_step :: "wf_step \<Rightarrow> bool" where
  "plain_step step \<longleftrightarrow> \<not> opt_truthy (ws_fan_out step) \<and> is_dict (step_payload step) \<and> ws_name step \<noteq> [] \<and>
     (case retry_max_attempts (ws_retry step) of Inl _ \<Rightarrow> False | Inr n \<Rightarrow> int4 n)"

definition step_max :: "wf_step \<Rightarrow> int" where
  "step_max step = (case retry_max_attempts (ws_retry step) of Inl _ \<Rightarrow> 0 | Inr n \<Rightarrow> n)"

definition step_row :: "timestamp \<Rightarrow> uuid \<Rightarrow> uuid \<Rightarrow> wf_step \<Rightarrow> task_row" where
  "step_row now wid tid step = \<lparr>tr_id = tid, tr_queue = ''default'', tr_task_name = ws_task step,
     tr_payload = step_payload step, tr_state = PENDING, tr_priority = 0, tr_attempt = 0,
     tr_max_attempts = step_max step, tr_dedup_key = None, tr_run_at = None, tr_workflow_id = Some wid,
     tr_step_name = Some (ws_name step), tr_created_at = now, tr_updated_at = now\<rparr>"

definition step_envelope :: "timestamp \<Rightarrow> uuid \<Rightarrow> uuid \<Rightarrow> wf_step \<Rightarrow> task_envelope" where
  "step_envelope now wid tid step = (new_envelope now tid ''default'' (ws_task step) (step_payload step))
     \<lparr>env_workflow_id := Some wid, env_step_name := Some (ws_name step), env_max_attempts := step_max step,
      env_retry_policy := default_retry_policy\<lparr>policy_max_attempts := step_max step\<rparr>\<rparr>"

text \<open>The rows and the messages of a list of steps, with the identifiers from the \<open>k\<close>-th on.\<close>

fun add_rows :: "timestamp \<Rightarrow> (nat \<Rightarrow> uuid) \<Rightarrow> uuid \<Rightarrow> wf_step list \<Rightarrow> nat \<Rightarrow> (uuid \<Rightarrow> task_row option) \<Rightarrow> uuid \<Rightarrow> task_row option" where
  "add_rows now fresh wid [] k m = m"
| "add_rows now fresh wid (step # steps) k m =
     add_rows now fresh wid steps (k + 1) (m(fresh k \<mapsto> step_row now wid (fresh k) step))"

fun sent :: "'v codec \<Rightarrow> timestamp \<Rightarrow> (nat \<Rightarrow> uuid) \<Rightarrow> uuid \<Rightarrow> wf_step list \<Rightarrow> nat \<Rightarrow> 'v list" where
  "sent C now fresh wid [] k = []"
| "sent C now fresh wid (step # steps) k =
     model_dump_json C (step_envelope now wid (fresh k) step) # sent C now fresh wid steps (k + 1)"

context redis_queue
begin

lemma ensure_publish:
  assumes "queue_wf (V s) q"
  shows "\<exists>s1 s2. ensure_queue R q s = (Inr (), s1) \<and> publish R C q e s1 = s2 \<and> queue_wf (V s2) q \<and>
    waiting (V s2) q = waiting (V s) q @ [model_dump_json C e]"
proof -
  obtain s1 where s1: "ensure_queue R q s = (Inr (), s1)" "V s1 = V s" using ensure_queue_busy [OF assms] by blast
  obtain i where i: "st_last (stream_at (V s1) (q_key q)) < i"
      "V (publish R C q e s1) = ks_xadd i (q_key q) \<lparr>f_data = model_dump_json C e, f_reason = None\<rparr> (V s1)"
    using publish_state by blast
  show ?thesis
    using s1 queue_wf_xadd(1) [of "V s1" q i] waiting_xadd [of "V s1" q i] assms i by auto
qed

end

lemma launch_task_up:
  assumes P: "postgres_up P D" and R: "redis_queue R V before C" and "queue_wf (V s) ''default''"
    and step: "plain_step step" and "tasks (D d) tid = None" and "workflows (D d) wid \<noteq> None"
  shows "\<exists>s' d'. launch_task R P C now wid tid step (ws_name step) (step_payload step) s d = (Inr ((), d'), s') \<and>
    D d' = (D d)\<lparr>tasks := (tasks (D d))(tid \<mapsto> step_row now wid tid step)\<rparr> \<and> queue_wf (V s') ''default'' \<and>
    waiting (V s') ''default'' = waiting (V s) ''default'' @ [model_dump_json C (step_envelope now wid tid step)]"
proof -
  let ?row = "step_row now wid tid step" and ?e = "step_envelope now wid tid step"
  have mx: "retry_max_attempts (ws_retry step) = Inr (step_max step)" "int4 (step_max step)"
    using step by (auto simp: plain_step_def step_max_def split: sum.splits)
  have "task_ok (D d) ?row"
    using assms(5,6) mx(2) by (simp add: task_ok_def task_cols_ok_def step_row_def dedup_clash_def int2_def int4_def)
  then obtain d' where ins: "ins_task P ?row d = Inr d'" using postgres_up.ins_task_up [OF P] by blast
  have D': "D d' = (D d)\<lparr>tasks := (tasks (D d))(tid \<mapsto> ?row)\<rparr>"
    using postgres_service.ins_task [OF postgres_up.axioms(1) [OF P] ins] by (simp add: step_row_def)
  obtain s1 s2 where q: "ensure_queue R ''default'' s = (Inr (), s1)" "publish R C ''default'' ?e s1 = s2"
      "queue_wf (V s2) ''default''" "waiting (V s2) ''default'' = waiting (V s) ''default'' @ [model_dump_json C ?e]"
    using redis_queue.ensure_publish [OF R assms(3), of ?e] by blast
  have env: "engine_envelope now tid wid step (ws_name step) (step_payload step) (step_max step) (step_max step) = Inr ?e"
    using step by (simp add: engine_envelope_def plain_step_def step_envelope_def)
  have row: "create_task P now tid ''default'' (ws_task step) (step_payload step) None 0 (step_max step) None
      (Some wid) (Some (ws_name step)) d = Inr ((?row, False), d')"
    using ins by (simp add: create_task_def step_row_def Let_def tx_defs)
  have "tr_max_attempts ?row = step_max step" by (simp add: step_row_def)
  then have "launch_task R P C now wid tid step (ws_name step) (step_payload step) s d = (Inr ((), d'), s2)"
    using q(1,2) by (simp add: launch_task_def eng_bind_def eng_lift_def eng_return_def eng_tx_def eng_redis_def mx(1) row env)
  then show ?thesis using D' q(3,4) by blast
qed

definition unlaunched :: "step_info \<Rightarrow> wf_step list \<Rightarrow> wf_step list" where
  "unlaunched i = filter (\<lambda>step. map_of (step_states i) (ws_name step) = None)"

lemma launch_steps_up:
  assumes P: "postgres_up P D" and R: "redis_queue R V before C" and "queue_wf (V s) ''default''"
    and "\<forall>step \<in> set steps. plain_step step" and "inj fresh" and "\<forall>j \<ge> k. tasks (D d) (fresh j) = None"
    and "workflows (D d) wid \<noteq> None"
  shows "\<exists>s' d'. launch_steps R P C now fresh wid i steps k s d = (Inr (k + length (unlaunched i steps), d'), s') \<and>
    D d' = (D d)\<lparr>tasks := add_rows now fresh wid (unlaunched i steps) k (tasks (D d))\<rparr> \<and> queue_wf (V s') ''default'' \<and>
    waiting (V s') ''default'' = waiting (V s) ''default'' @ sent C now fresh wid (unlaunched i steps) k"
  using assms(3-)
proof (induction steps arbitrary: k s d)
  case Nil
  then show ?case by (simp add: unlaunched_def eng_return_def)
next
  case (Cons step steps)
  show ?case
  proof (cases "map_of (step_states i) (ws_name step) = None")
    case False
    then have "launch_steps R P C now fresh wid i (step # steps) k = launch_steps R P C now fresh wid i steps k"
      "unlaunched i (step # steps) = unlaunched i steps" by (auto simp: unlaunched_def)
    with Cons show ?thesis by simp
  next
    case True
    have plain: "plain_step step" "\<not> opt_truthy (ws_fan_out step)" using Cons.prems(2) by (simp_all add: plain_step_def)
    have none: "tasks (D d) (fresh k) = None" using Cons.prems(4) by simp
    obtain s1 d1 where l: "launch_task R P C now wid (fresh k) step (ws_name step) (step_payload step) s d = (Inr ((), d1), s1)"
        and D1: "D d1 = (D d)\<lparr>tasks := (tasks (D d))(fresh k \<mapsto> step_row now wid (fresh k) step)\<rparr>"
        and q1: "queue_wf (V s1) ''default''" "waiting (V s1) ''default'' =
          waiting (V s) ''default'' @ [model_dump_json C (step_envelope now wid (fresh k) step)]"
      using launch_task_up [OF P R Cons.prems(1) plain(1), of d "fresh k" wid now] none Cons.prems(5) by blast
    have free: "\<forall>j \<ge> k + 1. tasks (D d1) (fresh j) = None"
      using Cons.prems(3,4) by (auto simp: D1 dest: injD)
    have run: "launch_steps R P C now fresh wid i (step # steps) k s d = launch_steps R P C now fresh wid i steps (k + 1) s1 d1"
      using True plain(2) l by (simp add: eng_bind_def eng_return_def)
    have wf: "workflows (D d1) wid \<noteq> None" using Cons.prems(5) by (simp add: D1)
    have u: "unlaunched i (step # steps) = step # unlaunched i steps" using True by (simp add: unlaunched_def)
    obtain s' d' where "launch_steps R P C now fresh wid i steps (k + 1) s1 d1 = (Inr (k + 1 + length (unlaunched i steps), d'), s')"
        "D d' = (D d1)\<lparr>tasks := add_rows now fresh wid (unlaunched i steps) (k + 1) (tasks (D d1))\<rparr>"
        "queue_wf (V s') ''default''"
        "waiting (V s') ''default'' = waiting (V s1) ''default'' @ sent C now fresh wid (unlaunched i steps) (k + 1)"
      using Cons.IH [OF q1(1) _ Cons.prems(3) free wf] Cons.prems(2) by auto
    then show ?thesis unfolding run u by (simp add: D1 q1(2))
  qed
qed

section \<open>The state of a workflow\<close>

definition wf_tasks :: "db \<Rightarrow> uuid \<Rightarrow> task_row set" where
  "wf_tasks b wid = {t \<in> ran (tasks b). tr_workflow_id t = Some wid}"

text \<open>No step of the workflow has two tasks.\<close>

definition wf_unique :: "db \<Rightarrow> uuid \<Rightarrow> bool" where
  "wf_unique b wid \<longleftrightarrow> inj_on tr_step_name (wf_tasks b wid)"

definition names_in :: "task_state \<Rightarrow> db \<Rightarrow> uuid \<Rightarrow> string set" where
  "names_in st b wid = {n. n \<noteq> [] \<and> (\<exists>t \<in> named_tasks b wid n. tr_state t = st)}"

text \<open>The steps that are due: not launched yet, and everything they depend on has succeeded.\<close>

definition due_steps :: "db \<Rightarrow> uuid \<Rightarrow> wf_step list \<Rightarrow> wf_step list" where
  "due_steps b wid = filter (\<lambda>step. named_tasks b wid (ws_name step) = {} \<and> set (deps_of step) \<subseteq> names_in SUCCEEDED b wid)"

context postgres_up
begin

lemma get_effect_up: "get_effect P k d = Inr (effects (D d) k, d)"
  by (simp add: get_effect_def tx_defs effect_rows_up split: option.split)

lemma scan_tasks_up: "\<exists>i'. scan_tasks P ts i d = Inr (i', d)"
  by (induction ts arbitrary: i) (auto simp: Let_def tx_bind_def tx_return_def get_effect_up)

lemma scan_up:
  assumes "wf_unique (D d) wid"
  shows "\<exists>ts i. get_tasks_for_workflow P wid d = Inr (ts, d) \<and>
    scan_tasks P ts \<lparr>step_states = [], step_results = []\<rparr> d = Inr (i, d) \<and>
    completed_steps i = names_in SUCCEEDED (D d) wid \<and> dead_steps i = names_in DEAD (D d) wid \<and>
    (\<forall>n. n \<noteq> [] \<longrightarrow> (map_of (step_states i) n = None \<longleftrightarrow> named_tasks (D d) wid n = {}))"
proof -
  obtain ts where sel: "sel_tasks P (\<lambda>r. tr_workflow_id r = Some wid) d = Inr ts" using sel_up(1) by blast
  then have g: "get_tasks_for_workflow P wid d = Inr (ts, d)"
    by (simp add: get_tasks_for_workflow_def tx_query_def)
  have ts: "set ts = wf_tasks (D d) wid" using sel_tasks [OF sel] by (auto simp: wf_tasks_def)
  obtain i where sc: "scan_tasks P ts \<lparr>step_states = [], step_results = []\<rparr> d = Inr (i, d)" using scan_tasks_up by blast
  note scan = scan_workflow [OF g sc]
  have keys: "fst ` set (step_states i) = {n. n \<noteq> [] \<and> named_tasks (D d) wid n \<noteq> {}}"
    using scan_tasks_names [OF sc] by (auto simp: ts wf_tasks_def named_tasks_def)
  have one: "tr_state t = st" if "(n, st) \<in> set (step_states i)" "t \<in> named_tasks (D d) wid n" for n st t
    using scan(2) [OF that(1)] that(2) assms by (auto simp: wf_unique_def inj_on_def wf_tasks_def named_tasks_def)
  have names: "fst ` set (filter (\<lambda>(name, state). state = st) (step_states i)) = names_in st (D d) wid" for st
  proof
    show "fst ` set (filter (\<lambda>(name, state). state = st) (step_states i)) \<subseteq> names_in st (D d) wid"
      using scan(2) keys by (force simp: names_in_def)
    show "names_in st (D d) wid \<subseteq> fst ` set (filter (\<lambda>(name, state). state = st) (step_states i))"
    proof
      fix n assume "n \<in> names_in st (D d) wid"
      then obtain t where t: "n \<noteq> []" "t \<in> named_tasks (D d) wid n" "tr_state t = st" by (auto simp: names_in_def)
      with keys have "n \<in> fst ` set (step_states i)" by auto
      then obtain st' where "(n, st') \<in> set (step_states i)" by auto
      with one t show "n \<in> fst ` set (filter (\<lambda>(name, state). state = st) (step_states i))" by force
    qed
  qed
  have "map_of (step_states i) n = None \<longleftrightarrow> named_tasks (D d) wid n = {}" if "n \<noteq> []" for n
    using keys that by (auto simp: map_of_eq_None_iff)
  then show ?thesis using g sc names by (auto simp: completed_steps_def dead_steps_def)
qed

lemma get_workflow_up: "get_workflow P wid d = Inr (workflows (D d) wid, d)"
proof -
  obtain ws where ws: "sel_workflows P (\<lambda>r. wr_id r = wid) d = Inr ws" using sel_up(4) by blast
  show ?thesis using ws workflow_rows [OF ws] by (simp add: get_workflow_def tx_defs split: option.split)
qed

lemma set_state_up: "\<exists>d'. update_workflow_state P wid st d = Inr ((), d') \<and> D d' = wf_set_state wid st (D d)"
proof -
  obtain n d' where u: "upd_workflows P (\<lambda>r. wr_id r = wid) (\<lambda>r. r\<lparr>wr_state := st\<rparr>) d = Inr (n, d')"
    using upd_workflows_up by blast
  from upd_workflows [OF this] u show ?thesis
    by (simp add: update_workflow_state_def tx_defs wf_set_state_def)
qed

lemma run_eng_up:
  assumes "m (w_redis w) (w_db w) = (Inr (True, d'), s')"
  shows "\<exists>d''. run_eng P m w = (Inr (), w\<lparr>w_redis := s', w_db := d''\<rparr>) \<and> D d'' = D d'"
proof -
  obtain d'' where c: "pg_commit P (w_db w) d' = (Inr (), d'')" using commit_up by (metis prod.collapse)
  with commit_ok [OF c] assms show ?thesis by (auto simp: run_eng_def)
qed

end

section \<open>One call of \<open>advance\<close>\<close>

text \<open>
  The engine as a function on the database and the messages that wait in the queue: fail, complete, or
  launch the steps that are due, in the order of the workflow.
\<close>

definition spec_advance ::
  "'v codec \<Rightarrow> timestamp \<Rightarrow> (nat \<Rightarrow> uuid) \<Rightarrow> uuid \<Rightarrow> wf_step list \<Rightarrow> db \<times> 'v list \<Rightarrow> db \<times> 'v list" where
  "spec_advance C now fresh wid steps = (\<lambda>(b, ws).
     if names_in DEAD b wid \<noteq> {} then (wf_set_state wid ''failed'' b, ws)
     else if ws_name ` set steps \<subseteq> names_in SUCCEEDED b wid then (wf_set_state wid ''completed'' b, ws)
     else (b\<lparr>tasks := add_rows now fresh wid (due_steps b wid steps) 0 (tasks b)\<rparr>,
           ws @ sent C now fresh wid (due_steps b wid steps) 0))"

lemma due_steps_ready:
  assumes "completed_steps i = names_in SUCCEEDED b wid"
    and "\<forall>n. n \<noteq> [] \<longrightarrow> (map_of (step_states i) n = None \<longleftrightarrow> named_tasks b wid n = {})"
    and "\<forall>step \<in> set steps. plain_step step"
  shows "unlaunched i (get_ready_steps steps (completed_steps i)) = due_steps b wid steps"
  unfolding unlaunched_def get_ready_steps_def due_steps_def filter_filter
  using assms by (intro filter_cong) (auto simp: plain_step_def names_in_def list_all_iff)

lemma advance_up:
  assumes P: "postgres_up P D" and R: "redis_queue R V before C" and wf: "queue_wf (V (w_redis w)) ''default''"
    and row: "workflows (D (w_db w)) wid = Some row" "wr_state row = ''running''" "snd (wr_spec row) = steps"
    and steps: "\<forall>step \<in> set steps. plain_step step" and unique: "wf_unique (D (w_db w)) wid"
    and fresh: "inj fresh" "\<forall>j. tasks (D (w_db w)) (fresh j) = None"
  shows "\<exists>s' d'. advance R P C now fresh wid w = (Inr (), w\<lparr>w_redis := s', w_db := d'\<rparr>) \<and> queue_wf (V s') ''default'' \<and>
    (D d', waiting (V s') ''default'') = spec_advance C now fresh wid steps (D (w_db w), waiting (V (w_redis w)) ''default'')"
proof -
  let ?d = "w_db w" and ?s = "w_redis w" and ?steps = "due_steps (D (w_db w)) wid steps"
  let ?spec = "spec_advance C now fresh wid steps (D ?d, waiting (V ?s) ''default'')"
  obtain ts i where g: "get_tasks_for_workflow P wid ?d = Inr (ts, ?d)"
      "scan_tasks P ts \<lparr>step_states = [], step_results = []\<rparr> ?d = Inr (i, ?d)"
      and i: "completed_steps i = names_in SUCCEEDED (D ?d) wid" "dead_steps i = names_in DEAD (D ?d) wid"
        "\<forall>n. n \<noteq> [] \<longrightarrow> (map_of (step_states i) n = None \<longleftrightarrow> named_tasks (D ?d) wid n = {})"
    using postgres_up.scan_up [OF P unique] by blast
  have gw: "get_workflow P wid ?d = Inr (Some row, ?d)" using postgres_up.get_workflow_up [OF P, of wid ?d] row(1) by simp
  let ?rest = "if dead_steps i \<noteq> {} then eng_bind (eng_tx (update_workflow_state P wid ''failed'')) (\<lambda>_. eng_return True)
     else if ws_name ` set steps \<subseteq> completed_steps i
     then eng_bind (eng_tx (update_workflow_state P wid ''completed'')) (\<lambda>_. eng_return True)
     else eng_bind (launch_steps R P C now fresh wid i (get_ready_steps steps (completed_steps i)) 0) (\<lambda>_. eng_return True)"
  have body: "advance_body R P C now fresh wid ?s ?d = ?rest ?s ?d"
    using row g by (simp add: advance_body_def eng_bind_def eng_tx_def gw Let_def)
  have set: "\<exists>d'. eng_bind (eng_tx (update_workflow_state P wid st)) (\<lambda>_. eng_return True) ?s ?d = (Inr (True, d'), ?s) \<and>
      D d' = wf_set_state wid st (D ?d)" for st
    using postgres_up.set_state_up [OF P, of wid st ?d] by (auto simp: eng_bind_def eng_tx_def eng_return_def)
  have sub: "\<forall>step \<in> set (get_ready_steps steps (completed_steps i)). plain_step step"
    using steps by (simp add: get_ready_steps_def)
  obtain s1 d1 where l: "launch_steps R P C now fresh wid i (get_ready_steps steps (completed_steps i)) 0 ?s ?d =
        (Inr (length ?steps, d1), s1)"
      "D d1 = (D ?d)\<lparr>tasks := add_rows now fresh wid ?steps 0 (tasks (D ?d))\<rparr>" "queue_wf (V s1) ''default''"
      "waiting (V s1) ''default'' = waiting (V ?s) ''default'' @ sent C now fresh wid ?steps 0"
    using launch_steps_up [OF P R wf sub fresh(1), of 0 ?d wid now i] fresh(2) row(1) due_steps_ready [OF i(1,3) steps] by auto
  have "\<exists>s' d'. ?rest ?s ?d = (Inr (True, d'), s') \<and> queue_wf (V s') ''default'' \<and> (D d', waiting (V s') ''default'') = ?spec"
  proof -
    obtain df where f: "eng_bind (eng_tx (update_workflow_state P wid ''failed'')) (\<lambda>_. eng_return True) ?s ?d = (Inr (True, df), ?s)"
        "D df = wf_set_state wid ''failed'' (D ?d)" using set by blast
    obtain dc where c: "eng_bind (eng_tx (update_workflow_state P wid ''completed'')) (\<lambda>_. eng_return True) ?s ?d = (Inr (True, dc), ?s)"
        "D dc = wf_set_state wid ''completed'' (D ?d)" using set by blast
    have "eng_bind (launch_steps R P C now fresh wid i (get_ready_steps steps (completed_steps i)) 0) (\<lambda>_. eng_return True) ?s ?d =
        (Inr (True, d1), s1)" using l(1) by (simp add: eng_bind_def eng_return_def)
    then show ?thesis
      using f c wf l(2-4) by (cases "names_in DEAD (D ?d) wid = {}"; cases "ws_name ` set steps \<subseteq> names_in SUCCEEDED (D ?d) wid")
        (simp_all add: spec_advance_def i(1,2))
  qed
  then obtain s' d' where r: "?rest ?s ?d = (Inr (True, d'), s')" "queue_wf (V s') ''default''"
      "(D d', waiting (V s') ''default'') = ?spec" by blast
  obtain d'' where "advance R P C now fresh wid w = (Inr (), w\<lparr>w_redis := s', w_db := d''\<rparr>)" "D d'' = D d'"
    using postgres_up.run_eng_up [OF P, of "advance_body R P C now fresh wid" w d' s'] body r(1) unfolding advance_def by auto
  with r(2,3) show ?thesis by metis
qed

section \<open>Rounds\<close>

text \<open>What stands between two calls of \<open>advance\<close>: all tasks of the workflow succeed. Anything else may change.\<close>

definition tasks_succeed :: "uuid \<Rightarrow> db \<Rightarrow> db \<Rightarrow> bool" where
  "tasks_succeed wid b b' \<longleftrightarrow> workflows b' wid = workflows b wid \<and>
     (\<forall>j t. tasks b j = Some t \<and> tr_workflow_id t = Some wid \<longrightarrow>
        (\<exists>t'. tasks b' j = Some t' \<and> tr_workflow_id t' = Some wid \<and> tr_step_name t' = tr_step_name t)) \<and>
     (\<forall>j t'. tasks b' j = Some t' \<and> tr_workflow_id t' = Some wid \<longrightarrow> tr_state t' = SUCCEEDED \<and>
        (\<exists>t. tasks b j = Some t \<and> tr_workflow_id t = Some wid \<and> tr_step_name t = tr_step_name t'))"

inductive wf_rounds ::
  "('s, 'v) redis \<Rightarrow> 'd postgres \<Rightarrow> 'v codec \<Rightarrow> ('s \<Rightarrow> 'v keyspace) \<Rightarrow> ('d \<Rightarrow> db) \<Rightarrow> uuid \<Rightarrow>
   nat \<Rightarrow> ('s, 'd) world \<Rightarrow> ('s, 'd) world \<Rightarrow> bool" for R P C V D wid where
  start: "wf_rounds R P C V D wid 0 w w"
| round: "wf_rounds R P C V D wid n w w1 \<Longrightarrow> tasks_succeed wid (D (w_db w1)) (D (w_db w2)) \<Longrightarrow>
    queue_wf (V (w_redis w2)) ''default'' \<Longrightarrow> inj fresh \<Longrightarrow> \<forall>j. tasks (D (w_db w2)) (fresh j) = None \<Longrightarrow>
    advance R P C now fresh wid w2 = (r, w3) \<Longrightarrow> wf_rounds R P C V D wid (Suc n) w w3"

definition launched :: "db \<Rightarrow> uuid \<Rightarrow> string set" where
  "launched b wid = {n. named_tasks b wid n \<noteq> {}}"

text \<open>Uniqueness by identifiers.\<close>

definition one_each :: "db \<Rightarrow> uuid \<Rightarrow> bool" where
  "one_each b wid \<longleftrightarrow> (\<forall>j j' t t'. tasks b j = Some t \<longrightarrow> tasks b j' = Some t' \<longrightarrow> tr_workflow_id t = Some wid \<longrightarrow>
    tr_workflow_id t' = Some wid \<longrightarrow> tr_step_name t = tr_step_name t' \<longrightarrow> j = j')"

lemma one_each_unique: "one_each b wid \<Longrightarrow> wf_unique b wid"
  unfolding one_each_def wf_unique_def inj_on_def wf_tasks_def ran_def by auto (metis option.inject)

text \<open>The workflow after \<open>k\<close> rounds: completed, or running with at least \<open>k\<close> steps launched, each once.\<close>

definition wf_inv :: "uuid \<Rightarrow> wf_step list \<Rightarrow> nat \<Rightarrow> db \<Rightarrow> bool" where
  "wf_inv wid steps k b \<longleftrightarrow> (\<exists>row. workflows b wid = Some row \<and> snd (wr_spec row) = steps \<and>
     (wr_state row = ''completed'' \<or> wr_state row = ''running'' \<and> one_each b wid \<and>
        launched b wid \<subseteq> ws_name ` set steps \<and> k \<le> card (launched b wid)))"

lemma launched_iff:
  "n \<in> launched b wid \<longleftrightarrow> (\<exists>j t. tasks b j = Some t \<and> tr_workflow_id t = Some wid \<and> tr_step_name t = Some n)"
  by (auto simp: launched_def named_tasks_def ran_def)

lemma tasks_succeed_launched:
  assumes "tasks_succeed wid b b'"
  shows "launched b' wid = launched b wid"
  unfolding set_eq_iff launched_iff
proof (intro allI iffI; elim exE conjE)
  fix n j t assume "tasks b j = Some t" "tr_workflow_id t = Some wid" "tr_step_name t = Some n"
  with assms show "\<exists>j t. tasks b' j = Some t \<and> tr_workflow_id t = Some wid \<and> tr_step_name t = Some n"
    unfolding tasks_succeed_def by metis
next
  fix n j t assume "tasks b' j = Some t" "tr_workflow_id t = Some wid" "tr_step_name t = Some n"
  with assms show "\<exists>j t. tasks b j = Some t \<and> tr_workflow_id t = Some wid \<and> tr_step_name t = Some n"
    unfolding tasks_succeed_def by metis
qed

lemma tasks_succeed_names:
  assumes "tasks_succeed wid b b'"
  shows "names_in DEAD b' wid = {}" and "names_in SUCCEEDED b' wid = launched b' wid - {[]}"
proof -
  have "tr_state t = SUCCEEDED" if "t \<in> named_tasks b' wid n" for t n
    using assms that by (auto simp: tasks_succeed_def named_tasks_def ran_def)
  then show "names_in DEAD b' wid = {}" "names_in SUCCEEDED b' wid = launched b' wid - {[]}"
    by (fastforce simp: names_in_def launched_def)+
qed

lemma tasks_succeed_one_each:
  assumes "tasks_succeed wid b b'" and "one_each b wid"
  shows "one_each b' wid"
  unfolding one_each_def
proof (intro allI impI)
  fix j j' t t'
  assume t: "tasks b' j = Some t" "tasks b' j' = Some t'" "tr_workflow_id t = Some wid" "tr_workflow_id t' = Some wid"
    "tr_step_name t = tr_step_name t'"
  obtain u where "tasks b j = Some u" "tr_workflow_id u = Some wid" "tr_step_name u = tr_step_name t"
    using assms(1) t(1,3) unfolding tasks_succeed_def by metis
  moreover obtain u' where "tasks b j' = Some u'" "tr_workflow_id u' = Some wid" "tr_step_name u' = tr_step_name t'"
    using assms(1) t(2,4) unfolding tasks_succeed_def by metis
  ultimately show "j = j'" using assms(2) t(5) unfolding one_each_def by metis
qed

section \<open>The rows that a launch adds\<close>

lemma add_rows_iff:
  assumes "inj fresh" and "\<forall>j \<ge> k. m (fresh j) = None"
  shows "add_rows now fresh wid steps k m i = Some t \<longleftrightarrow>
    m i = Some t \<or> (\<exists>j < length steps. i = fresh (k + j) \<and> t = step_row now wid i (steps ! j))"
  using assms(2)
proof (induction steps arbitrary: k m)
  case (Cons step steps)
  let ?m = "m(fresh k \<mapsto> step_row now wid (fresh k) step)"
  have free: "\<forall>j \<ge> k + 1. ?m (fresh j) = None" using Cons.prems assms(1) by (auto dest: injD)
  have none: "m (fresh k) = None" using Cons.prems by simp
  have "(\<exists>j < length (step # steps). i = fresh (k + j) \<and> t = step_row now wid i ((step # steps) ! j)) \<longleftrightarrow>
      i = fresh k \<and> t = step_row now wid i step \<or> (\<exists>j < length steps. i = fresh (k + 1 + j) \<and> t = step_row now wid i (steps ! j))"
    by (auto simp: less_Suc_eq_0_disj)
  moreover have "?m i = Some t \<longleftrightarrow> m i = Some t \<or> i = fresh k \<and> t = step_row now wid i step" using none by auto
  ultimately show ?case unfolding add_rows.simps Cons.IH [OF free] by blast
qed simp

lemma step_row_sel [simp]:
  "tr_workflow_id (step_row now wid i step) = Some wid" "tr_step_name (step_row now wid i step) = Some (ws_name step)"
  by (simp_all add: step_row_def)

lemma add_rows_launched:
  assumes "inj fresh" and "\<forall>j. tasks b (fresh j) = None"
  shows "launched (b\<lparr>tasks := add_rows now fresh wid steps 0 (tasks b)\<rparr>) wid = launched b wid \<union> ws_name ` set steps"
proof -
  have "n \<in> launched (b\<lparr>tasks := add_rows now fresh wid steps 0 (tasks b)\<rparr>) wid \<longleftrightarrow>
      n \<in> launched b wid \<or> (\<exists>j < length steps. n = ws_name (steps ! j))" for n
    unfolding launched_iff using add_rows_iff [OF assms(1), of 0 "tasks b"] assms(2) by auto (metis step_row_sel)+
  then show ?thesis by (auto simp: set_conv_nth)
qed

lemma add_rows_one_each:
  assumes "inj fresh" and "\<forall>j. tasks b (fresh j) = None" and "one_each b wid"
    and "distinct (map ws_name steps)" and "ws_name ` set steps \<inter> launched b wid = {}"
  shows "one_each (b\<lparr>tasks := add_rows now fresh wid steps 0 (tasks b)\<rparr>) wid"
  unfolding one_each_def
proof (intro allI impI)
  fix i i' t t'
  let ?b = "b\<lparr>tasks := add_rows now fresh wid steps 0 (tasks b)\<rparr>"
  assume t: "tasks ?b i = Some t" "tasks ?b i' = Some t'" "tr_workflow_id t = Some wid" "tr_workflow_id t' = Some wid"
    "tr_step_name t = tr_step_name t'"
  have new: "\<exists>n. tr_step_name u = Some n \<and> n \<notin> launched b wid \<and> (\<exists>j < length steps. x = fresh j \<and> n = ws_name (steps ! j))"
    if row: "tasks ?b x = Some u" "tasks b x \<noteq> Some u" for x u
  proof -
    obtain j where j: "j < length steps" "x = fresh j" "u = step_row now wid x (steps ! j)"
      using row add_rows_iff [OF assms(1), of 0 "tasks b" now wid steps x u] assms(2) by auto
    moreover have "ws_name (steps ! j) \<notin> launched b wid" using j(1) assms(5) nth_mem by blast
    ultimately show ?thesis by auto
  qed
  have old: "n \<in> launched b wid" if "tasks b x = Some u" "tr_workflow_id u = Some wid" "tr_step_name u = Some n" for x u n
    using that by (auto simp: launched_iff)
  consider "tasks b i = Some t" "tasks b i' = Some t'" | "tasks b i \<noteq> Some t" "tasks b i' \<noteq> Some t'"
    | "tasks b i \<noteq> Some t" "tasks b i' = Some t'" | "tasks b i = Some t" "tasks b i' \<noteq> Some t'" by blast
  then show "i = i'"
  proof cases
    case 1
    with t assms(3) show ?thesis unfolding one_each_def by metis
  next
    case 2
    with new t obtain j j' where "j < length steps" "j' < length steps" "i = fresh j" "i' = fresh j'"
        "ws_name (steps ! j) = ws_name (steps ! j')" by (metis option.inject)
    with assms(4) show ?thesis by (auto simp: distinct_conv_nth)
  next
    case 3
    with new [OF t(1)] old [of i' t'] t(4,5) show ?thesis by auto
  next
    case 4
    with new [OF t(2)] old [of i t] t(3,5) show ?thesis by auto
  qed
qed

section \<open>Completion\<close>

lemma wf_set_state_inv:
  assumes "workflows b wid = Some row" and "wr_id row = wid" and "snd (wr_spec row) = steps"
  shows "wf_inv wid steps k (wf_set_state wid ''completed'' b)"
  using assms by (simp add: wf_inv_def wf_set_state_def upd_map_def)

text \<open>A launch of the due steps, when every step launched before has succeeded, launches one more at least.\<close>

lemma launch_grows:
  assumes fresh: "inj fresh" "\<forall>j. tasks b (fresh j) = None" and one: "one_each b wid"
    and sub: "launched b wid \<subseteq> ws_name ` set steps" "\<not> ws_name ` set steps \<subseteq> launched b wid"
    and names: "names_in SUCCEEDED b wid = launched b wid" and dist: "distinct (map ws_name steps)"
    and valid: "iter_ok iter" "validate_dag iter sh steps = Some (Inr order)"
    and b': "b' = b\<lparr>tasks := add_rows now fresh wid (due_steps b wid steps) 0 (tasks b)\<rparr>"
  shows "one_each b' wid" and "launched b' wid \<subseteq> ws_name ` set steps" and "card (launched b wid) < card (launched b' wid)"
proof -
  let ?due = "due_steps b wid steps"
  have due: "ws_name ` set ?due \<inter> launched b wid = {}" "set ?due \<subseteq> set steps" "distinct (map ws_name ?due)"
    using dist by (auto simp: due_steps_def launched_def distinct_map_filter)
  obtain s where "s \<in> set steps" "ws_name s \<notin> launched b wid" "set (deps_of s) \<subseteq> launched b wid"
    using ready_exists [OF valid sub(2)] by (auto simp: get_ready_steps_def list_all_iff filter_empty_conv)
  then have s: "s \<in> set ?due" by (simp add: due_steps_def names launched_def)
  have L: "launched b' wid = launched b wid \<union> ws_name ` set ?due"
    unfolding b' by (rule add_rows_launched [OF fresh])
  have fin: "finite (launched b wid)" using sub(1) finite_subset by blast
  have "card (launched b' wid) = card (launched b wid) + card (ws_name ` set ?due)"
    unfolding L using due(1) fin by (intro card_Un_disjoint) auto
  moreover have "card (ws_name ` set ?due) > 0" using s by (auto simp: card_gt_0_iff)
  ultimately show "card (launched b wid) < card (launched b' wid)" by simp
  show "one_each b' wid" unfolding b' by (rule add_rows_one_each [OF fresh one due(3,1)])
  show "launched b' wid \<subseteq> ws_name ` set steps" using sub(1) due(2) by (auto simp: L)
qed

text \<open>One round after all tasks have succeeded: completed, or one step more.\<close>

lemma advance_round:
  assumes P: "postgres_up P D" and R: "redis_queue R V before C" and wf: "queue_wf (V (w_redis w)) ''default''"
    and steps: "\<forall>step \<in> set steps. plain_step step" "distinct (map ws_name steps)"
    and valid: "iter_ok iter" "validate_dag iter sh steps = Some (Inr order)"
    and inv: "wf_inv wid steps k b" and succ: "tasks_succeed wid b (D (w_db w))"
    and fresh: "inj fresh" "\<forall>j. tasks (D (w_db w)) (fresh j) = None"
  shows "\<exists>w'. advance R P C now fresh wid w = (Inr (), w') \<and> wf_inv wid steps (Suc k) (D (w_db w'))"
proof -
  let ?b = "D (w_db w)"
  obtain row where row: "workflows ?b wid = Some row" "snd (wr_spec row) = steps"
      and state: "wr_state row = ''completed'' \<or> wr_state row = ''running'' \<and> one_each b wid \<and>
        launched b wid \<subseteq> ws_name ` set steps \<and> k \<le> card (launched b wid)"
    using inv succ by (auto simp: wf_inv_def tasks_succeed_def)
  have id: "wr_id row = wid" using postgres_service.keyed(4) [OF postgres_up.axioms(1) [OF P] row(1)] .
  show ?thesis
  proof (cases "wr_state row = ''running''")
    case False
    then have "wr_state row = ''completed''" using state by blast
    moreover obtain w' where w': "advance R P C now fresh wid w = (Inr (), w')" "w_db w' = w_db w"
      using postgres_up.get_workflow_up [OF P, of wid "w_db w"] row(1) False
      by (simp add: advance_def run_eng_def advance_body_def eng_bind_def eng_tx_def eng_return_def)
    ultimately show ?thesis using row by (auto simp: wf_inv_def)
  next
    case True
    with state have st: "one_each ?b wid" "launched ?b wid \<subseteq> ws_name ` set steps" "k \<le> card (launched ?b wid)"
      using tasks_succeed_one_each [OF succ] by (simp_all add: tasks_succeed_launched [OF succ])
    have "[] \<notin> ws_name ` set steps" using steps(1) by (auto simp: plain_step_def)
    then have names: "names_in DEAD ?b wid = {}" "names_in SUCCEEDED ?b wid = launched ?b wid"
      using tasks_succeed_names [OF succ] st(2) by auto
    obtain s' d' where a: "advance R P C now fresh wid w = (Inr (), w\<lparr>w_redis := s', w_db := d'\<rparr>)"
        "(D d', waiting (V s') ''default'') = spec_advance C now fresh wid steps (?b, waiting (V (w_redis w)) ''default'')"
      using advance_up [OF P R wf row(1) True row(2) steps(1) one_each_unique [OF st(1)] fresh] by blast
    show ?thesis
    proof (cases "ws_name ` set steps \<subseteq> launched ?b wid")
      case True
      then have "D d' = wf_set_state wid ''completed'' ?b" using a(2) by (simp add: spec_advance_def names)
      then show ?thesis using a(1) wf_set_state_inv [OF row(1) id row(2), of "Suc k"] by auto
    next
      case False
      then have d': "D d' = ?b\<lparr>tasks := add_rows now fresh wid (due_steps ?b wid steps) 0 (tasks ?b)\<rparr>"
        using a(2) by (simp add: spec_advance_def names)
      from launch_grows [OF fresh st(1,2) False names(2) steps(2) valid d'] st(3) row True
      have "wf_inv wid steps (Suc k) (D d')" by (simp add: wf_inv_def d')
      then show ?thesis using a(1) by auto
    qed
  qed
qed

lemma rounds_inv:
  assumes "wf_rounds R P C V D wid n w w'" and "postgres_up P D" and "redis_queue R V before C"
    and "\<forall>step \<in> set steps. plain_step step" "distinct (map ws_name steps)"
    and "iter_ok iter" "validate_dag iter sh steps = Some (Inr order)" and "wf_inv wid steps k (D (w_db w))"
  shows "wf_inv wid steps (k + n) (D (w_db w'))"
  using assms(1,8)
proof (induction rule: wf_rounds.induct)
  case (round n w w1 w2 fresh now r w3)
  from advance_round [OF assms(2,3) round.hyps(3) assms(4-7) round.IH [OF round.prems] round.hyps(2,4,5), of now] round.hyps(6)
  show ?case by auto
qed simp

lemma wf_inv_complete:
  assumes "wf_inv wid steps k b" and "length steps < k"
  shows "\<exists>row. workflows b wid = Some row \<and> wr_state row = ''completed''"
proof -
  have "card (launched b wid) \<le> length steps" if "launched b wid \<subseteq> ws_name ` set steps"
    using that card_mono [of "ws_name ` set steps"] card_image_le [of "set steps" ws_name] card_length [of steps]
    by (meson List.finite_set finite_imageI order_trans)
  with assms show ?thesis by (fastforce simp: wf_inv_def)
qed

text \<open>
  C6: A valid workflow is carried to its end. For a workflow that \<open>validate_dag\<close> accepts, whose steps are plain
  and have distinct names, \<open>submit\<close> succeeds. If from then on, round by round, the tasks that exist
  succeed and \<open>advance\<close> is called, then after as many rounds as there are steps the workflow is
  \<open>completed\<close>, whatever else happens to the database and to Redis in between.
\<close>

theorem workflow_completes:
  assumes "redis_service R V before" and "postgres_up P D" and "codec_ok C" and "queue_wf (V (w_redis w)) ''default''"
    and "\<forall>step \<in> set steps. plain_step step" "distinct (map ws_name steps)"
    and "iter_ok iter" "validate_dag iter sh steps = Some (Inr order)"
    and "db_wf (D (w_db w))" and "workflows (D (w_db w)) wid = None"
    and "inj fresh" "\<forall>j. tasks (D (w_db w)) (fresh j) = None"
  shows "\<exists>w1. submit R P C iter sh now fresh wid name steps w = (Inr wid, w1) \<and>
    (\<forall>n w2. wf_rounds R P C V D wid n w1 w2 \<and> length steps \<le> n \<longrightarrow>
       (\<exists>row. workflows (D (w_db w2)) wid = Some row \<and> wr_state row = ''completed''))"
proof -
  have R: "redis_queue R V before C" using assms(1,3) by (simp add: redis_queue_def redis_queue_axioms_def)
  obtain d1 row where d1: "run_tx P (create_workflow P now wid name (name, steps)) (w_db w) = (Inr row, d1)"
      and row: "row = \<lparr>wr_id = wid, wr_name = name, wr_spec = (name, steps), wr_state = ''running'', wr_created_at = now\<rparr>"
      and D1: "D d1 = (D (w_db w))\<lparr>workflows := (workflows (D (w_db w)))(wid \<mapsto> row)\<rparr>"
    using postgres_up.create_workflow_up [OF assms(2,10)] by blast
  let ?w = "w\<lparr>w_db := d1\<rparr>"
  have none: "tr_workflow_id t \<noteq> Some wid" if "tasks (D d1) j = Some t" for j t
    using assms(9,10) that unfolding db_wf_def D1 by (simp, metis)
  then have "tasks_succeed wid (D d1) (D (w_db ?w))" "one_each (D d1) wid" "launched (D d1) wid = {}"
    by (auto simp: tasks_succeed_def one_each_def launched_iff)
  moreover from this have "wf_inv wid steps 0 (D d1)" by (simp add: wf_inv_def D1 row)
  ultimately obtain w1 where w1: "advance R P C now fresh wid ?w = (Inr (), w1)" "wf_inv wid steps (Suc 0) (D (w_db w1))"
    using advance_round [OF assms(2) R _ assms(5-8), of ?w wid 0 "D d1" fresh now] assms(4,11,12) by (auto simp: D1)
  have "submit R P C iter sh now fresh wid name steps w = (Inr wid, w1)"
    using w1(1) by (simp add: submit_def assms(8) d1)
  moreover have "\<exists>row. workflows (D (w_db w2)) wid = Some row \<and> wr_state row = ''completed''"
    if "wf_rounds R P C V D wid n w1 w2" "length steps \<le> n" for n w2
    using wf_inv_complete [OF rounds_inv [OF that(1) assms(2) R assms(5-8) w1(2)]] that(2) by simp
  ultimately show ?thesis by blast
qed

text \<open>On the reference database the tasks can always succeed, so there are runs of any number of rounds.\<close>

definition succeed_all :: "ref_db \<Rightarrow> ref_db" where
  "succeed_all d = d\<lparr>rd_tasks := map (\<lambda>t. t\<lparr>tr_state := SUCCEEDED\<rparr>) (rd_tasks d)\<rparr>"

lemma succeed_all_ok: "tasks_succeed wid (ref_view d) (ref_view (succeed_all d))"
proof -
  have "tasks (ref_view (succeed_all d)) = (\<lambda>j. map_option (\<lambda>t. t\<lparr>tr_state := SUCCEEDED\<rparr>) (tasks (ref_view d) j))"
    by (simp add: ref_view_def succeed_all_def indexed_map)
  then show ?thesis by (auto simp: tasks_succeed_def) (simp add: ref_view_def succeed_all_def)
qed

lemma fresh_exists: "\<exists>fresh :: nat \<Rightarrow> uuid. inj fresh \<and> (\<forall>j. tasks (ref_view d) (fresh j) = None)"
proof -
  have "infinite (UNIV - dom (tasks (ref_view d)))"
    using refpg.finite_tasks infinite_UNIV_listI Diff_infinite_finite by blast
  then obtain f :: "nat \<Rightarrow> uuid" where "inj f" "range f \<subseteq> UNIV - dom (tasks (ref_view d))"
    using infinite_countable_subset by blast
  then show ?thesis by (auto intro!: exI [of _ f])
qed

lemma rounds_exist: "\<exists>w'. wf_rounds ref_redis ref_postgres ref_codec id ref_view wid n w w'"
proof (induction n)
  case 0
  show ?case by (blast intro: wf_rounds.start)
next
  case (Suc n)
  then obtain w1 where w1: "wf_rounds ref_redis ref_postgres ref_codec id ref_view wid n w w1" by blast
  let ?w2 = "\<lparr>w_redis = demo_queue, w_db = succeed_all (w_db w1)\<rparr>"
  obtain fresh :: "nat \<Rightarrow> uuid" where "inj fresh" "\<forall>j. tasks (ref_view (w_db ?w2)) (fresh j) = None"
    using fresh_exists by blast
  with wf_rounds.round [OF w1, of ?w2 fresh 0] show ?case
    using succeed_all_ok demo_queue_wf by (metis prod.collapse id_apply select_convs(1) world.select_convs)
qed

theorem workflow_completes_witness:
  "\<exists>w1 w2 row fresh. submit ref_redis ref_postgres ref_codec (\<lambda>xs. xs) concat 0 fresh ''wf'' ''demo'' demo_steps
       \<lparr>w_redis = demo_queue, w_db = empty_ref_db\<rparr> = (Inr ''wf'', w1) \<and>
     wf_rounds ref_redis ref_postgres ref_codec id ref_view ''wf'' 3 w1 w2 \<and>
     workflows (ref_view (w_db w2)) ''wf'' = Some row \<and> wr_state row = ''completed''"
proof -
  obtain fresh :: "nat \<Rightarrow> uuid" where fresh: "inj fresh" "\<forall>j. tasks (ref_view empty_ref_db) (fresh j) = None"
    using fresh_exists by blast
  have "\<forall>step \<in> set demo_steps. plain_step step" "distinct (map ws_name demo_steps)" "length demo_steps = 3"
    by (simp_all add: demo_steps_def demo_step_def plain_step_def opt_truthy_def step_payload_def int4_def get_or_def)
  moreover have "db_wf (ref_view empty_ref_db)" "workflows (ref_view empty_ref_db) ''wf'' = None"
    by (simp_all add: db_wf_def ref_view_def empty_ref_db_def)
  ultimately show ?thesis
    using workflow_completes [OF ref_redis_service ref_postgres_up codec_ok_ref, of "\<lparr>w_redis = demo_queue, w_db = empty_ref_db\<rparr>"
        demo_steps "\<lambda>xs. xs" concat "[''a'', ''b'', ''c'']" "''wf''" fresh 0 "''demo''"]
      demo_queue_wf demo_validate fresh rounds_exist [of "''wf''" 3] by fastforce
qed

text \<open>
  C18: The engine implements its specification. On a running workflow of plain steps of which none has
  two tasks, \<open>advance\<close> returns, and what it does to the database and to the waiting messages of the
  queue is \<open>spec_advance\<close>: it fails the workflow if a task is dead, completes it if every step has
  succeeded, and otherwise creates and publishes one task, in the order of the workflow, for exactly the steps that have
  none and whose dependencies have succeeded.
\<close>

theorem advance_refines_spec:
  assumes "redis_service R V before" and "postgres_up P D" and "codec_ok C" and "queue_wf (V (w_redis w)) ''default''"
    and "workflows (D (w_db w)) wid = Some row" "wr_state row = ''running''"
    and "\<forall>step \<in> set (snd (wr_spec row)). plain_step step" and "wf_unique (D (w_db w)) wid"
    and "inj fresh" "\<forall>j. tasks (D (w_db w)) (fresh j) = None"
  shows "\<exists>s' d'. advance R P C now fresh wid w = (Inr (), w\<lparr>w_redis := s', w_db := d'\<rparr>) \<and>
    (D d', waiting (V s') ''default'') =
      spec_advance C now fresh wid (snd (wr_spec row)) (D (w_db w), waiting (V (w_redis w)) ''default'')"
proof -
  have "redis_queue R V before C" using assms(1,3) by (simp add: redis_queue_def redis_queue_axioms_def)
  from advance_up [OF assms(2) this assms(4-6) refl assms(7-10)] show ?thesis by blast
qed

definition running_demo :: workflow_row where
  "running_demo = \<lparr>wr_id = ''wf'', wr_name = ''demo'', wr_spec = (''demo'', demo_steps), wr_state = ''running'', wr_created_at = 0\<rparr>"

definition demo_uuid :: "nat \<Rightarrow> uuid" where
  "demo_uuid j = ''t'' @ replicate j CHR ''x''"

theorem advance_refines_spec_witness:
  "\<exists>s' d'. advance ref_redis ref_postgres ref_codec 0 demo_uuid ''wf''
       \<lparr>w_redis = demo_queue, w_db = empty_ref_db\<lparr>rd_workflows := [running_demo]\<rparr>\<rparr> = (Inr (), \<lparr>w_redis = s', w_db = d'\<rparr>) \<and>
     tasks (ref_view d') = [''t'' \<mapsto> step_row 0 ''wf'' ''t'' (demo_step ''a'' [])] \<and>
     waiting s' ''default'' = [step_envelope 0 ''wf'' ''t'' (demo_step ''a'' [])]"
proof -
  let ?d = "empty_ref_db\<lparr>rd_workflows := [running_demo]\<rparr>"
  have view: "tasks (ref_view ?d) = Map.empty" "workflows (ref_view ?d) ''wf'' = Some running_demo"
    by (simp_all add: ref_view_def empty_ref_db_def running_demo_def indexed_Cons)
  have row: "wr_state running_demo = ''running''" "snd (wr_spec running_demo) = demo_steps" by (simp_all add: running_demo_def)
  have steps: "\<forall>step \<in> set demo_steps. plain_step step"
    by (simp add: demo_steps_def demo_step_def plain_step_def opt_truthy_def step_payload_def int4_def get_or_def)
  have "inj demo_uuid" by (rule injI) (simp add: demo_uuid_def replicate_eq_replicate)
  then obtain s' d' where a: "advance ref_redis ref_postgres ref_codec 0 demo_uuid ''wf'' \<lparr>w_redis = demo_queue, w_db = ?d\<rparr> =
        (Inr (), \<lparr>w_redis = s', w_db = d'\<rparr>)"
      and spec: "(ref_view d', waiting (id s') ''default'') =
        spec_advance ref_codec 0 demo_uuid ''wf'' demo_steps (ref_view ?d, waiting (id demo_queue) ''default'')"
    using advance_refines_spec [OF ref_redis_service ref_postgres_up codec_ok_ref, of "\<lparr>w_redis = demo_queue, w_db = ?d\<rparr>" "''wf''"
        running_demo demo_uuid 0] demo_queue_wf view row steps by (auto simp: wf_unique_def wf_tasks_def)
  have "names_in st (ref_view ?d) wid = {}" "named_tasks (ref_view ?d) wid n = {}" for st wid n
    by (auto simp: names_in_def named_tasks_def view)
  then have "due_steps (ref_view ?d) ''wf'' demo_steps = [demo_step ''a'' []]"
    by (auto simp: due_steps_def demo_steps_def demo_step_def deps_of_def)
  moreover have "waiting demo_queue ''default'' = []"
    using demo_queue_ready by (auto simp: waiting_def ready_ids_def split: option.splits)
  moreover have "names_in DEAD (ref_view ?d) ''wf'' = {}" "\<not> ws_name ` set demo_steps \<subseteq> names_in SUCCEEDED (ref_view ?d) ''wf''"
    by (auto simp: names_in_def named_tasks_def view demo_steps_def demo_step_def)
  ultimately have "tasks (ref_view d') = [''t'' \<mapsto> step_row 0 ''wf'' ''t'' (demo_step ''a'' [])]"
      "waiting s' ''default'' = [step_envelope 0 ''wf'' ''t'' (demo_step ''a'' [])]"
    using spec by (simp_all add: spec_advance_def view demo_uuid_def ref_codec_def)
  with a show ?thesis by blast
qed

end
