(* ===== verification/Metrics.thy ===== *)
theory Metrics
  imports Core_Models
begin

text \<open>
  The Prometheus metrics of \<open>observability/metrics.py\<close>: the fifteen instruments that the module
  declares when it is imported, and its functions that update them. The client library is a
  parameter, with what it documents of its registry and of labels as the locale
  \<open>prometheus_client\<close>.
\<close>

section \<open>The client library\<close>

datatype metric_kind = Counter | Gauge | Histogram "real list" | Info

record metric =
  mt_kind :: metric_kind
  mt_name :: string
  mt_documentation :: string
  mt_labelnames :: "string list"

type_synonym labels = "(string \<times> string) list"

text \<open>
  The collector registry and the instruments. An update takes the keyword arguments of \<open>labels\<close>;
  every operation may raise.
\<close>

record 's prometheus =
  pc_register :: "metric \<Rightarrow> 's \<Rightarrow> exn + 's"
  pc_inc :: "metric \<Rightarrow> labels \<Rightarrow> 's \<Rightarrow> exn + 's"
  pc_set :: "metric \<Rightarrow> labels \<Rightarrow> real \<Rightarrow> 's \<Rightarrow> exn + 's"
  pc_observe :: "metric \<Rightarrow> labels \<Rightarrow> real \<Rightarrow> 's \<Rightarrow> exn + 's"

text \<open>
  What a registry shows: its instruments, the value of each child of a counter or gauge, and of each child of a histogram
  the sum of the observed values and, for a bound \<open>le\<close>, how many were not above it; no bound is \<open>+Inf\<close>. Values are real numbers.
\<close>

record prom_view =
  pv_metrics :: "metric list"
  pv_value :: "string \<Rightarrow> string list \<Rightarrow> real"
  pv_bucket :: "string \<Rightarrow> string list \<Rightarrow> real option \<Rightarrow> nat"
  pv_sum :: "string \<Rightarrow> string list \<Rightarrow> real"

definition empty_view :: prom_view where
  "empty_view = \<lparr>pv_metrics = [], pv_value = (\<lambda>_ _. 0), pv_bucket = (\<lambda>_ _ _. 0), pv_sum = (\<lambda>_ _. 0)\<rparr>"

text \<open>The names of the time series that an instrument occupies in the registry.\<close>

definition strip_total :: "string \<Rightarrow> string" where
  "strip_total n = (if suffix ''_total'' n then take (length n - 6) n else n)"

definition timeseries :: "metric \<Rightarrow> string list" where
  "timeseries m = (case mt_kind m of
       Counter \<Rightarrow> let n = strip_total (mt_name m) in [n, n @ ''_total'', n @ ''_created'']
     | Gauge \<Rightarrow> [mt_name m]
     | Histogram _ \<Rightarrow> mt_name m # map ((@) (mt_name m)) [''_bucket'', ''_sum'', ''_count'', ''_created'']
     | Info \<Rightarrow> [mt_name m, mt_name m @ ''_info''])"

definition name_char :: "char \<Rightarrow> bool" where
  "name_char c \<longleftrightarrow> c = CHR ''_'' \<or> (let n = (of_char c :: nat) in 97 \<le> n \<and> n \<le> 122 \<or> 65 \<le> n \<and> n \<le> 90 \<or> 48 \<le> n \<and> n \<le> 57)"

definition name_ok :: "string \<Rightarrow> bool" where
  "name_ok n \<longleftrightarrow> n \<noteq> [] \<and> list_all name_char n \<and> \<not> is_digit (hd n) \<and> \<not> prefix ''__'' n"

text \<open>A declaration the library accepts: valid names, and buckets in increasing order.\<close>

definition metric_ok :: "metric \<Rightarrow> bool" where
  "metric_ok m \<longleftrightarrow> name_ok (mt_name m) \<and> list_all name_ok (mt_labelnames m) \<and> distinct (mt_labelnames m) \<and>
     (case mt_kind m of Histogram bs \<Rightarrow> bs \<noteq> [] \<and> sorted_wrt (<) bs \<and> ''le'' \<notin> set (mt_labelnames m) | _ \<Rightarrow> True)"

definition labels_ok :: "metric \<Rightarrow> labels \<Rightarrow> bool" where
  "labels_ok m kws \<longleftrightarrow> distinct (map fst kws) \<and> set (map fst kws) = set (mt_labelnames m)"

definition label_values :: "metric \<Rightarrow> labels \<Rightarrow> string list" where
  "label_values m kws = map (\<lambda>l. the (map_of kws l)) (mt_labelnames m)"

definition put_value :: "metric \<Rightarrow> labels \<Rightarrow> real \<Rightarrow> prom_view \<Rightarrow> prom_view" where
  "put_value m kws x v = v\<lparr>pv_value := (pv_value v)(mt_name m := (pv_value v (mt_name m))(label_values m kws := x))\<rparr>"

definition add_value :: "metric \<Rightarrow> labels \<Rightarrow> prom_view \<Rightarrow> prom_view" where
  "add_value m kws v = put_value m kws (pv_value v (mt_name m) (label_values m kws) + 1) v"

text \<open>An observation counts in every declared bucket whose bound it does not exceed, and in that of \<open>+Inf\<close>.\<close>

definition bucket_bounds :: "metric \<Rightarrow> real list" where
  "bucket_bounds m = (case mt_kind m of Histogram bs \<Rightarrow> bs | _ \<Rightarrow> [])"

definition in_bucket :: "metric \<Rightarrow> real option \<Rightarrow> real \<Rightarrow> bool" where
  "in_bucket m le x \<longleftrightarrow> (case le of None \<Rightarrow> True | Some b \<Rightarrow> b \<in> set (bucket_bounds m) \<and> x \<le> b)"

definition observe_in :: "metric \<Rightarrow> string list \<Rightarrow> real \<Rightarrow> prom_view \<Rightarrow> prom_view" where
  "observe_in m vs x v = v\<lparr>
     pv_bucket := (pv_bucket v)(mt_name m := (pv_bucket v (mt_name m))(vs := \<lambda>le.
       pv_bucket v (mt_name m) vs le + of_bool (in_bucket m le x))),
     pv_sum := (pv_sum v)(mt_name m := (pv_sum v (mt_name m))(vs := pv_sum v (mt_name m) vs + x))\<rparr>"

definition add_observation :: "metric \<Rightarrow> labels \<Rightarrow> real \<Rightarrow> prom_view \<Rightarrow> prom_view" where
  "add_observation m kws x v = observe_in m (label_values m kws) x v"

definition is_histogram :: "metric \<Rightarrow> bool" where
  "is_histogram m \<longleftrightarrow> (case mt_kind m of Histogram _ \<Rightarrow> True | _ \<Rightarrow> False)"

locale prometheus_client =
  fixes pc :: "'s prometheus" and M :: "'s \<Rightarrow> prom_view"
  assumes register_ok: "metric_ok m \<Longrightarrow> \<forall>m' \<in> set (pv_metrics (M s)). set (timeseries m) \<inter> set (timeseries m') = {} \<Longrightarrow>
      \<exists>s'. pc_register pc m s = Inr s' \<and> M s' = (M s)\<lparr>pv_metrics := pv_metrics (M s) @ [m]\<rparr>"
    and register_duplicate: "m' \<in> set (pv_metrics (M s)) \<Longrightarrow> set (timeseries m) \<inter> set (timeseries m') \<noteq> {} \<Longrightarrow>
      \<exists>msg. pc_register pc m s = Inl (PyValueError msg)"
    and inc_ok: "m \<in> set (pv_metrics (M s)) \<Longrightarrow> mt_kind m = Counter \<Longrightarrow> labels_ok m kws \<Longrightarrow>
      \<exists>s'. pc_inc pc m kws s = Inr s' \<and> M s' = add_value m kws (M s)"
    and set_ok: "m \<in> set (pv_metrics (M s)) \<Longrightarrow> mt_kind m = Gauge \<Longrightarrow> labels_ok m kws \<Longrightarrow>
      \<exists>s'. pc_set pc m kws x s = Inr s' \<and> M s' = put_value m kws x (M s)"
    and observe_ok: "m \<in> set (pv_metrics (M s)) \<Longrightarrow> is_histogram m \<Longrightarrow> labels_ok m kws \<Longrightarrow>
      \<exists>s'. pc_observe pc m kws x s = Inr s' \<and> M s' = add_observation m kws x (M s)"
    and labels_wrong: "m \<in> set (pv_metrics (M s)) \<Longrightarrow> \<not> labels_ok m kws \<Longrightarrow>
      (\<exists>msg. pc_inc pc m kws s = Inl (PyValueError msg)) \<and> (\<exists>msg. pc_set pc m kws x s = Inl (PyValueError msg)) \<and>
      (\<exists>msg. pc_observe pc m kws x s = Inl (PyValueError msg))"

section \<open>The instruments\<close>

definition TASKS_ENQUEUED :: metric where
  "TASKS_ENQUEUED = \<lparr>mt_kind = Counter, mt_name = ''dtq_tasks_enqueued_total'',
     mt_documentation = ''Total tasks enqueued'', mt_labelnames = [''queue'', ''task_name'']\<rparr>"

definition TASKS_COMPLETED :: metric where
  "TASKS_COMPLETED = \<lparr>mt_kind = Counter, mt_name = ''dtq_tasks_completed_total'',
     mt_documentation = ''Total tasks completed'', mt_labelnames = [''queue'', ''task_name'', ''outcome'']\<rparr>"

definition TASKS_RETRIED :: metric where
  "TASKS_RETRIED = \<lparr>mt_kind = Counter, mt_name = ''dtq_tasks_retried_total'',
     mt_documentation = ''Total retry attempts'', mt_labelnames = [''queue'', ''task_name'', ''attempt'']\<rparr>"

definition TASKS_DEAD_LETTERED :: metric where
  "TASKS_DEAD_LETTERED = \<lparr>mt_kind = Counter, mt_name = ''dtq_tasks_dead_lettered_total'',
     mt_documentation = ''Total tasks sent to DLQ'', mt_labelnames = [''queue'', ''task_name'']\<rparr>"

definition TASKS_RECLAIMED :: metric where
  "TASKS_RECLAIMED = \<lparr>mt_kind = Counter, mt_name = ''dtq_tasks_reclaimed_total'',
     mt_documentation = ''Total tasks reclaimed from dead workers'', mt_labelnames = [''queue'']\<rparr>"

definition LEASES_ACQUIRED :: metric where
  "LEASES_ACQUIRED = \<lparr>mt_kind = Counter, mt_name = ''dtq_leases_acquired_total'',
     mt_documentation = ''Total lease acquisitions'', mt_labelnames = [''worker_id'']\<rparr>"

definition LEASES_REJECTED :: metric where
  "LEASES_REJECTED = \<lparr>mt_kind = Counter, mt_name = ''dtq_leases_rejected_total'',
     mt_documentation = ''Total lease acquisition failures (zombie rejections)'',
     mt_labelnames = [''worker_id'', ''reason'']\<rparr>"

definition QUEUE_DEPTH :: metric where
  "QUEUE_DEPTH = \<lparr>mt_kind = Gauge, mt_name = ''dtq_queue_depth'',
     mt_documentation = ''Current queue depth'', mt_labelnames = [''queue'']\<rparr>"

definition TASKS_IN_FLIGHT :: metric where
  "TASKS_IN_FLIGHT = \<lparr>mt_kind = Gauge, mt_name = ''dtq_tasks_in_flight'',
     mt_documentation = ''Tasks currently being processed'', mt_labelnames = [''worker_id'']\<rparr>"

definition WORKER_HEARTBEAT_AGE :: metric where
  "WORKER_HEARTBEAT_AGE = \<lparr>mt_kind = Gauge, mt_name = ''dtq_worker_heartbeat_age_seconds'',
     mt_documentation = ''Seconds since last heartbeat'', mt_labelnames = [''worker_id'']\<rparr>"

definition SCHEDULED_TASKS :: metric where
  "SCHEDULED_TASKS = \<lparr>mt_kind = Gauge, mt_name = ''dtq_scheduled_tasks'',
     mt_documentation = ''Tasks waiting in the schedule ZSET'', mt_labelnames = [''queue'']\<rparr>"

definition TASK_DURATION :: metric where
  "TASK_DURATION = \<lparr>mt_kind = Histogram [0.01, 0.05, 0.1, 0.25, 0.5, 1, 2.5, 5, 10, 30, 60, 120],
     mt_name = ''dtq_task_duration_seconds'', mt_documentation = ''Task execution duration'',
     mt_labelnames = [''queue'', ''task_name'']\<rparr>"

definition LEASE_AGE :: metric where
  "LEASE_AGE = \<lparr>mt_kind = Histogram [1, 5, 10, 30, 60, 120, 300],
     mt_name = ''dtq_lease_age_seconds'', mt_documentation = ''Age of leases at release time'',
     mt_labelnames = [''queue'']\<rparr>"

definition TASK_LATENCY :: metric where
  "TASK_LATENCY = \<lparr>mt_kind = Histogram [0.1, 0.5, 1, 2, 5, 10, 30, 60, 120, 300],
     mt_name = ''dtq_task_end_to_end_latency_seconds'',
     mt_documentation = ''End-to-end latency from enqueue to completion'',
     mt_labelnames = [''queue'', ''task_name'']\<rparr>"

definition WORKER_INFO :: metric where
  "WORKER_INFO = \<lparr>mt_kind = Info, mt_name = ''dtq_worker'', mt_documentation = ''Worker metadata'', mt_labelnames = []\<rparr>"

lemmas metric_defs = TASKS_ENQUEUED_def TASKS_COMPLETED_def TASKS_RETRIED_def TASKS_DEAD_LETTERED_def
  TASKS_RECLAIMED_def LEASES_ACQUIRED_def LEASES_REJECTED_def QUEUE_DEPTH_def TASKS_IN_FLIGHT_def
  WORKER_HEARTBEAT_AGE_def SCHEDULED_TASKS_def TASK_DURATION_def LEASE_AGE_def TASK_LATENCY_def WORKER_INFO_def

text \<open>Importing the module: its declarations, in the order of the file.\<close>

definition all_metrics :: "metric list" where
  "all_metrics = [TASKS_ENQUEUED, TASKS_COMPLETED, TASKS_RETRIED, TASKS_DEAD_LETTERED, TASKS_RECLAIMED,
     LEASES_ACQUIRED, LEASES_REJECTED, QUEUE_DEPTH, TASKS_IN_FLIGHT, WORKER_HEARTBEAT_AGE, SCHEDULED_TASKS,
     TASK_DURATION, LEASE_AGE, TASK_LATENCY, WORKER_INFO]"

fun register_all :: "'s prometheus \<Rightarrow> metric list \<Rightarrow> 's \<Rightarrow> exn + 's" where
  "register_all pc [] s = Inr s"
| "register_all pc (m # ms) s = (case pc_register pc m s of Inl e \<Rightarrow> Inl e | Inr s1 \<Rightarrow> register_all pc ms s1)"

definition import_metrics :: "'s prometheus \<Rightarrow> 's \<Rightarrow> exn + 's" where
  "import_metrics pc s = register_all pc all_metrics s"

definition init_metrics :: "'s \<Rightarrow> 's" where
  "init_metrics s = s"

section \<open>The recording functions\<close>

definition record_task_enqueued :: "'s prometheus \<Rightarrow> string \<Rightarrow> string \<Rightarrow> 's \<Rightarrow> exn + 's" where
  "record_task_enqueued pc queue task_name s =
     pc_inc pc TASKS_ENQUEUED [(''queue'', queue), (''task_name'', task_name)] s"

definition record_task_completed :: "'s prometheus \<Rightarrow> string \<Rightarrow> string \<Rightarrow> string \<Rightarrow> real \<Rightarrow> 's \<Rightarrow> exn + 's" where
  "record_task_completed pc queue task_name outcome duration_s s =
     (case pc_inc pc TASKS_COMPLETED [(''queue'', queue), (''task_name'', task_name), (''outcome'', outcome)] s of
        Inl e \<Rightarrow> Inl e
      | Inr s1 \<Rightarrow> pc_observe pc TASK_DURATION [(''queue'', queue), (''task_name'', task_name)] duration_s s1)"

definition record_task_retried :: "'s prometheus \<Rightarrow> string \<Rightarrow> string \<Rightarrow> int \<Rightarrow> 's \<Rightarrow> exn + 's" where
  "record_task_retried pc queue task_name attempt s =
     pc_inc pc TASKS_RETRIED [(''queue'', queue), (''task_name'', task_name), (''attempt'', str_int attempt)] s"

definition record_task_dead_lettered :: "'s prometheus \<Rightarrow> string \<Rightarrow> string \<Rightarrow> 's \<Rightarrow> exn + 's" where
  "record_task_dead_lettered pc queue task_name s =
     pc_inc pc TASKS_DEAD_LETTERED [(''queue'', queue), (''task_name'', task_name)] s"

definition record_task_reclaimed :: "'s prometheus \<Rightarrow> string \<Rightarrow> 's \<Rightarrow> exn + 's" where
  "record_task_reclaimed pc queue s = pc_inc pc TASKS_RECLAIMED [(''queue'', queue)] s"

definition record_lease_acquired :: "'s prometheus \<Rightarrow> string \<Rightarrow> 's \<Rightarrow> exn + 's" where
  "record_lease_acquired pc worker_id s = pc_inc pc LEASES_ACQUIRED [(''worker_id'', worker_id)] s"

definition record_lease_rejected :: "'s prometheus \<Rightarrow> string \<Rightarrow> string \<Rightarrow> 's \<Rightarrow> exn + 's" where
  "record_lease_rejected pc worker_id reason s =
     pc_inc pc LEASES_REJECTED [(''worker_id'', worker_id), (''reason'', reason)] s"

definition set_queue_depth :: "'s prometheus \<Rightarrow> string \<Rightarrow> int \<Rightarrow> 's \<Rightarrow> exn + 's" where
  "set_queue_depth pc queue depth s = pc_set pc QUEUE_DEPTH [(''queue'', queue)] (of_int depth) s"

definition set_in_flight :: "'s prometheus \<Rightarrow> string \<Rightarrow> int \<Rightarrow> 's \<Rightarrow> exn + 's" where
  "set_in_flight pc worker_id count s = pc_set pc TASKS_IN_FLIGHT [(''worker_id'', worker_id)] (of_int count) s"

lemmas record_defs = record_task_enqueued_def record_task_completed_def record_task_retried_def
  record_task_dead_lettered_def record_task_reclaimed_def record_lease_acquired_def record_lease_rejected_def
  set_queue_depth_def set_in_flight_def

section \<open>Sequences of calls\<close>

datatype metric_call =
    Enqueued string string
  | Completed string string string real
  | Retried string string int
  | DeadLettered string string
  | Reclaimed string
  | LeaseAcquired string
  | LeaseRejected string string
  | QueueDepth string int
  | InFlight string int

fun metric_do :: "'s prometheus \<Rightarrow> metric_call \<Rightarrow> 's \<Rightarrow> exn + 's" where
  "metric_do pc (Enqueued q t) s = record_task_enqueued pc q t s"
| "metric_do pc (Completed q t out d) s = record_task_completed pc q t out d s"
| "metric_do pc (Retried q t a) s = record_task_retried pc q t a s"
| "metric_do pc (DeadLettered q t) s = record_task_dead_lettered pc q t s"
| "metric_do pc (Reclaimed q) s = record_task_reclaimed pc q s"
| "metric_do pc (LeaseAcquired w) s = record_lease_acquired pc w s"
| "metric_do pc (LeaseRejected w r) s = record_lease_rejected pc w r s"
| "metric_do pc (QueueDepth q n) s = set_queue_depth pc q n s"
| "metric_do pc (InFlight w n) s = set_in_flight pc w n s"

fun metric_run :: "'s prometheus \<Rightarrow> metric_call list \<Rightarrow> 's \<Rightarrow> exn + 's" where
  "metric_run pc [] s = Inr s"
| "metric_run pc (c # cs) s = (case metric_do pc c s of Inl e \<Rightarrow> Inl e | Inr s1 \<Rightarrow> metric_run pc cs s1)"

text \<open>
  What the calls should show: the counter that a call increments, the gauge that it sets and the
  duration that it adds, each with the label values in the order of the declaration.
\<close>

fun call_counter :: "metric_call \<Rightarrow> (metric \<times> string list) option" where
  "call_counter (Enqueued q t) = Some (TASKS_ENQUEUED, [q, t])"
| "call_counter (Completed q t out d) = Some (TASKS_COMPLETED, [q, t, out])"
| "call_counter (Retried q t a) = Some (TASKS_RETRIED, [q, t, str_int a])"
| "call_counter (DeadLettered q t) = Some (TASKS_DEAD_LETTERED, [q, t])"
| "call_counter (Reclaimed q) = Some (TASKS_RECLAIMED, [q])"
| "call_counter (LeaseAcquired w) = Some (LEASES_ACQUIRED, [w])"
| "call_counter (LeaseRejected w r) = Some (LEASES_REJECTED, [w, r])"
| "call_counter _ = None"

fun call_gauge :: "metric_call \<Rightarrow> ((metric \<times> string list) \<times> real) option" where
  "call_gauge (QueueDepth q n) = Some ((QUEUE_DEPTH, [q]), of_int n)"
| "call_gauge (InFlight w n) = Some ((TASKS_IN_FLIGHT, [w]), of_int n)"
| "call_gauge _ = None"

fun call_duration :: "metric_call \<Rightarrow> ((metric \<times> string list) \<times> real) option" where
  "call_duration (Completed q t out d) = Some ((TASK_DURATION, [q, t]), d)"
| "call_duration _ = None"

definition counted :: "metric_call list \<Rightarrow> metric \<Rightarrow> string list \<Rightarrow> nat" where
  "counted cs m vs = length (filter (\<lambda>c. call_counter c = Some (m, vs)) cs)"

definition last_set :: "metric_call list \<Rightarrow> metric \<Rightarrow> string list \<Rightarrow> real option" where
  "last_set cs m vs = map_of (rev (List.map_filter call_gauge cs)) (m, vs)"

definition durations :: "metric_call list \<Rightarrow> metric \<Rightarrow> string list \<Rightarrow> real list" where
  "durations cs m vs = map snd (filter (\<lambda>x. fst x = (m, vs)) (List.map_filter call_duration cs))"

section \<open>The declarations are accepted\<close>

lemma all_metrics_ok: "list_all metric_ok all_metrics"
  by (simp add: all_metrics_def metric_defs metric_ok_def name_ok_def name_char_def is_digit_def)

lemma all_metrics_disjoint: "distinct (concat (map timeseries all_metrics))"
  by (simp add: all_metrics_def metric_defs timeseries_def strip_total_def suffix_def Let_def)

section \<open>The effect of a call\<close>

definition bump :: "(metric \<times> string list) option \<Rightarrow> prom_view \<Rightarrow> prom_view" where
  "bump x v = (case x of None \<Rightarrow> v | Some (m, vs) \<Rightarrow> v\<lparr>pv_value := (pv_value v)(mt_name m :=
     (pv_value v (mt_name m))(vs := pv_value v (mt_name m) vs + 1))\<rparr>)"

definition assign :: "((metric \<times> string list) \<times> real) option \<Rightarrow> prom_view \<Rightarrow> prom_view" where
  "assign x v = (case x of None \<Rightarrow> v | Some ((m, vs), y) \<Rightarrow>
     v\<lparr>pv_value := (pv_value v)(mt_name m := (pv_value v (mt_name m))(vs := y))\<rparr>)"

definition log_duration :: "((metric \<times> string list) \<times> real) option \<Rightarrow> prom_view \<Rightarrow> prom_view" where
  "log_duration x v = (case x of None \<Rightarrow> v | Some ((m, vs), y) \<Rightarrow> observe_in m vs y v)"

definition call_view :: "metric_call \<Rightarrow> prom_view \<Rightarrow> prom_view" where
  "call_view c v = log_duration (call_duration c) (assign (call_gauge c) (bump (call_counter c) v))"

lemmas view_defs = call_view_def bump_def assign_def log_duration_def observe_in_def

lemma view_None [simp]: "bump None v = v" "assign None v = v" "log_duration None v = v"
  by (simp_all add: bump_def assign_def log_duration_def)

lemma call_view_metrics [simp]: "pv_metrics (call_view c v) = pv_metrics v"
  by (simp add: view_defs split: option.split prod.split)

text \<open>A call updates only instruments of the right kind.\<close>

lemma call_kinds:
  "call_counter c = Some (m, vs) \<Longrightarrow> m \<in> set all_metrics \<and> mt_kind m = Counter"
  "call_gauge c = Some ((m, vs), x) \<Longrightarrow> m \<in> set all_metrics \<and> mt_kind m = Gauge"
  "call_duration c = Some ((m, vs), x) \<Longrightarrow> m \<in> set all_metrics \<and> is_histogram m"
  by (cases c; auto simp: all_metrics_def metric_defs is_histogram_def)+

lemma metric_names: "m \<in> set all_metrics \<Longrightarrow> m' \<in> set all_metrics \<Longrightarrow> mt_name m = mt_name m' \<longleftrightarrow> m = m'"
proof -
  have "distinct (map mt_name all_metrics)" by (simp add: all_metrics_def metric_defs)
  then show "m \<in> set all_metrics \<Longrightarrow> m' \<in> set all_metrics \<Longrightarrow> mt_name m = mt_name m' \<longleftrightarrow> m = m'"
    by (auto simp: distinct_map dest: inj_onD)
qed

lemma bump_value:
  assumes "m \<in> set all_metrics" and "\<And>a us. x = Some (a, us) \<Longrightarrow> a \<in> set all_metrics"
  shows "pv_value (bump x v) (mt_name m) vs = pv_value v (mt_name m) vs + (if x = Some (m, vs) then 1 else 0)"
proof (cases x)
  case (Some k)
  obtain a us where k: "k = (a, us)" by (cases k)
  then have "mt_name m = mt_name a \<longleftrightarrow> m = a" using assms Some metric_names by blast
  with Some k show ?thesis by (auto simp: bump_def)
qed simp

lemma assign_value:
  assumes "m \<in> set all_metrics" and "\<And>a us y. x = Some ((a, us), y) \<Longrightarrow> a \<in> set all_metrics"
  shows "pv_value (assign x v) (mt_name m) vs =
    (case x of Some (k, y) \<Rightarrow> if k = (m, vs) then y else pv_value v (mt_name m) vs | None \<Rightarrow> pv_value v (mt_name m) vs)"
proof (cases x)
  case (Some k)
  obtain a us y where k: "k = ((a, us), y)" by (metis surj_pair)
  then have "mt_name m = mt_name a \<longleftrightarrow> m = a" using assms Some metric_names by blast
  with Some k show ?thesis by (auto simp: assign_def)
qed simp

lemma log_duration_value [simp]: "pv_value (log_duration x v) = pv_value v"
  by (simp add: log_duration_def observe_in_def split: option.split prod.split)

lemma call_view_value:
  assumes "m \<in> set all_metrics"
  shows "pv_value (call_view c v) (mt_name m) vs =
    (case call_gauge c of Some (k, y) \<Rightarrow> if k = (m, vs) then y else pv_value v (mt_name m) vs + (if call_counter c = Some (m, vs) then 1 else 0)
     | None \<Rightarrow> pv_value v (mt_name m) vs + (if call_counter c = Some (m, vs) then 1 else 0))"
proof -
  have a: "pv_value (assign (call_gauge c) w) (mt_name m) vs =
      (case call_gauge c of Some (k, y) \<Rightarrow> if k = (m, vs) then y else pv_value w (mt_name m) vs | None \<Rightarrow> pv_value w (mt_name m) vs)" for w
    by (rule assign_value [OF assms]) (use call_kinds(2) in blast)
  have b: "pv_value (bump (call_counter c) v) (mt_name m) vs =
      pv_value v (mt_name m) vs + (if call_counter c = Some (m, vs) then 1 else 0)"
    by (rule bump_value [OF assms]) (use call_kinds(1) in blast)
  show ?thesis unfolding call_view_def log_duration_value a b ..
qed

lemma call_view_counter:
  assumes "m \<in> set all_metrics" and "mt_kind m = Counter"
  shows "pv_value (call_view c v) (mt_name m) vs =
    pv_value v (mt_name m) vs + (if call_counter c = Some (m, vs) then 1 else 0)"
proof (cases "call_gauge c")
  case (Some k)
  then have "fst k \<noteq> (m, vs)" using call_kinds(2) [of c m vs "snd k"] assms by (cases k) auto
  with Some show ?thesis by (cases k) (simp add: call_view_value [OF assms(1)])
qed (simp add: call_view_value [OF assms(1)])

lemma call_view_gauge:
  assumes "m \<in> set all_metrics" and "mt_kind m = Gauge"
  shows "pv_value (call_view c v) (mt_name m) vs =
    (case call_gauge c of Some (k, y) \<Rightarrow> if k = (m, vs) then y else pv_value v (mt_name m) vs | None \<Rightarrow> pv_value v (mt_name m) vs)"
proof -
  have "call_counter c \<noteq> Some (m, vs)" using call_kinds(1) [of c m vs] assms by auto
  then show ?thesis by (simp add: call_view_value [OF assms(1)] cong: option.case_cong if_cong split: option.split prod.split)
qed

lemma call_view_histogram:
  assumes "m \<in> set all_metrics"
  shows "pv_bucket (call_view c v) (mt_name m) vs le = pv_bucket v (mt_name m) vs le +
      (case call_duration c of Some (k, y) \<Rightarrow> of_bool (k = (m, vs) \<and> in_bucket m le y) | None \<Rightarrow> 0)"
    and "pv_sum (call_view c v) (mt_name m) vs = pv_sum v (mt_name m) vs +
      (case call_duration c of Some (k, y) \<Rightarrow> if k = (m, vs) then y else 0 | None \<Rightarrow> 0)"
proof -
  let ?w = "assign (call_gauge c) (bump (call_counter c) v)"
  have same: "pv_bucket ?w = pv_bucket v" "pv_sum ?w = pv_sum v"
    by (simp_all add: assign_def bump_def split: option.split prod.split)
  have name: "mt_name m = mt_name a \<longleftrightarrow> m = a" if "call_duration c = Some ((a, us), y)" for a us y
    using assms that call_kinds(3) metric_names by blast
  show "pv_bucket (call_view c v) (mt_name m) vs le = pv_bucket v (mt_name m) vs le +
      (case call_duration c of Some (k, y) \<Rightarrow> of_bool (k = (m, vs) \<and> in_bucket m le y) | None \<Rightarrow> 0)"
    using name by (auto simp: call_view_def log_duration_def observe_in_def same split: option.split)
  show "pv_sum (call_view c v) (mt_name m) vs = pv_sum v (mt_name m) vs +
      (case call_duration c of Some (k, y) \<Rightarrow> if k = (m, vs) then y else 0 | None \<Rightarrow> 0)"
    using name by (auto simp: call_view_def log_duration_def observe_in_def same split: option.split)
qed

lemma run_view_counter:
  assumes "m \<in> set all_metrics" and "mt_kind m = Counter"
  shows "pv_value (fold call_view cs v) (mt_name m) vs = pv_value v (mt_name m) vs + counted cs m vs"
  by (induction cs arbitrary: v) (simp_all add: counted_def call_view_counter [OF assms])

lemma run_view_gauge:
  assumes "m \<in> set all_metrics" and "mt_kind m = Gauge"
  shows "pv_value (fold call_view cs v) (mt_name m) vs =
    (case last_set cs m vs of None \<Rightarrow> pv_value v (mt_name m) vs | Some y \<Rightarrow> y)"
  by (induction cs arbitrary: v)
    (auto simp: last_set_def List.map_filter_simps call_view_gauge [OF assms] map_of_append map_add_def split: option.splits)

lemma run_view_histogram:
  assumes "m \<in> set all_metrics"
  shows "pv_bucket (fold call_view cs v) (mt_name m) vs le =
      pv_bucket v (mt_name m) vs le + length (filter (in_bucket m le) (durations cs m vs))"
    and "pv_sum (fold call_view cs v) (mt_name m) vs = pv_sum v (mt_name m) vs + sum_list (durations cs m vs)"
  by (induction cs arbitrary: v)
    (auto simp: durations_def List.map_filter_simps call_view_histogram [OF assms] split: option.splits)

context prometheus_client
begin

lemma register_all_ok:
  assumes "list_all metric_ok ms" and "distinct (concat (map timeseries (pv_metrics (M s) @ ms)))"
  shows "\<exists>s'. register_all pc ms s = Inr s' \<and> M s' = (M s)\<lparr>pv_metrics := pv_metrics (M s) @ ms\<rparr>"
  using assms
proof (induction ms arbitrary: s)
  case (Cons m ms)
  have "\<forall>m' \<in> set (pv_metrics (M s)). set (timeseries m) \<inter> set (timeseries m') = {}"
    using Cons.prems(2) by auto
  then obtain s1 where s1: "pc_register pc m s = Inr s1" "M s1 = (M s)\<lparr>pv_metrics := pv_metrics (M s) @ [m]\<rparr>"
    using register_ok [of m s] Cons.prems(1) by auto
  with Cons.IH [of s1] Cons.prems show ?case by simp
qed simp

lemma metric_do_ok:
  assumes "pv_metrics (M s) = all_metrics"
  shows "\<exists>s'. metric_do pc c s = Inr s' \<and> M s' = call_view c (M s)"
proof -
  have inc: "\<exists>s'. pc_inc pc m kws s = Inr s' \<and> M s' = bump (Some (m, vs)) (M s)"
    if "m \<in> set all_metrics" "mt_kind m = Counter" "labels_ok m kws" "label_values m kws = vs" for m kws vs
    using inc_ok [of m s kws] that assms by (auto simp: add_value_def put_value_def bump_def)
  have set: "\<exists>s'. pc_set pc m kws x s = Inr s' \<and> M s' = assign (Some ((m, vs), x)) (M s)"
    if "m \<in> set all_metrics" "mt_kind m = Gauge" "labels_ok m kws" "label_values m kws = vs" for m kws vs x
    using set_ok [of m s kws x] that assms by (auto simp: put_value_def assign_def)
  have obs: "\<exists>s'. pc_observe pc m kws x s1 = Inr s' \<and> M s' = log_duration (Some ((m, vs), x)) (M s1)"
    if "m \<in> set all_metrics" "is_histogram m" "labels_ok m kws" "label_values m kws = vs" "pv_metrics (M s1) = all_metrics" for m kws vs x s1
    using observe_ok [of m s1 kws x] that by (simp add: add_observation_def log_duration_def)
  note facts = metric_defs labels_ok_def label_values_def is_histogram_def all_metrics_def
  show ?thesis
  proof (cases c)
    case (Completed q t out d)
    obtain s1 where s1: "pc_inc pc TASKS_COMPLETED [(''queue'', q), (''task_name'', t), (''outcome'', out)] s = Inr s1"
        "M s1 = bump (Some (TASKS_COMPLETED, [q, t, out])) (M s)"
      using inc [of TASKS_COMPLETED "[(''queue'', q), (''task_name'', t), (''outcome'', out)]" "[q, t, out]"]
      by (auto simp: facts)
    moreover have "pv_metrics (M s1) = all_metrics" by (simp add: s1(2) bump_def assms)
    ultimately show ?thesis
      using obs [of TASK_DURATION "[(''queue'', q), (''task_name'', t)]" "[q, t]" s1 d] Completed
      by (auto simp: record_task_completed_def call_view_def facts)
  qed (simp add: record_defs call_view_def, (rule inc set; simp add: facts))+
qed

lemma metric_run_ok:
  assumes "pv_metrics (M s) = all_metrics"
  shows "\<exists>s'. metric_run pc cs s = Inr s' \<and> M s' = fold call_view cs (M s)"
  using assms
proof (induction cs arbitrary: s)
  case (Cons c cs)
  obtain s1 where s1: "metric_do pc c s = Inr s1" "M s1 = call_view c (M s)"
    using metric_do_ok [OF Cons.prems] by blast
  with Cons.IH [of s1] Cons.prems show ?case by simp
qed simp

lemma import_metrics_ok:
  assumes "pv_metrics (M s) = []"
  shows "\<exists>s'. import_metrics pc s = Inr s' \<and> M s' = (M s)\<lparr>pv_metrics := all_metrics\<rparr>"
  using register_all_ok [OF all_metrics_ok, of s] all_metrics_disjoint assms by (simp add: import_metrics_def)

end

section \<open>A reference client\<close>

definition ref_update :: "(metric_kind \<Rightarrow> bool) \<Rightarrow> metric \<Rightarrow> labels \<Rightarrow> (prom_view \<Rightarrow> prom_view) \<Rightarrow> prom_view \<Rightarrow> exn + prom_view" where
  "ref_update k m kws f v =
     (if m \<in> set (pv_metrics v) \<and> labels_ok m kws then if k (mt_kind m) then Inr (f v) else Inl (PyAttributeError (mt_name m))
      else Inl (PyValueError ''Incorrect label names''))"

definition ref_prometheus :: "prom_view prometheus" where
  "ref_prometheus = \<lparr>
     pc_register = (\<lambda>m v. if metric_ok m \<and> list_all (\<lambda>m'. set (timeseries m) \<inter> set (timeseries m') = {}) (pv_metrics v)
       then Inr (v\<lparr>pv_metrics := pv_metrics v @ [m]\<rparr>) else Inl (PyValueError ''Duplicated timeseries'')),
     pc_inc = (\<lambda>m kws. ref_update (\<lambda>k. k = Counter) m kws (add_value m kws)),
     pc_set = (\<lambda>m kws x. ref_update (\<lambda>k. k = Gauge) m kws (put_value m kws x)),
     pc_observe = (\<lambda>m kws x. ref_update (\<lambda>k. case k of Histogram _ \<Rightarrow> True | _ \<Rightarrow> False) m kws (add_observation m kws x))\<rparr>"

interpretation refprom: prometheus_client ref_prometheus id
  by unfold_locales (auto simp: ref_prometheus_def ref_update_def is_histogram_def list_all_iff)

lemma ref_prometheus_client [simp]: "prometheus_client ref_prometheus id" ..

section \<open>The metrics are well typed and exact\<close>

text \<open>
  C38: The instruments and the calls that update them fit together. On any client library that behaves as
  documented, importing the module in a process with an empty registry succeeds (no two
  instruments share a time series), and then no sequence of calls of the recording functions raises:
  every call passes exactly the labels of its declaration and an operation of its kind. The values are
  exact: a counter shows the number of calls with its labels, a gauge the last value set, and a
  histogram, in each bucket it declares and in that of \<open>+Inf\<close>, how many of the recorded durations do not exceed
  the bound, and their sum; only completions are observed, in the duration histogram.
\<close>

theorem metrics_well_typed:
  assumes "prometheus_client pc M" and "M s = empty_view"
  shows "\<exists>s1 s2. import_metrics pc s = Inr s1 \<and> metric_run pc cs (init_metrics s1) = Inr s2 \<and>
    pv_metrics (M s2) = all_metrics \<and>
    (\<forall>m \<in> set all_metrics. \<forall>vs. mt_kind m = Counter \<longrightarrow> pv_value (M s2) (mt_name m) vs = real (counted cs m vs)) \<and>
    (\<forall>m \<in> set all_metrics. \<forall>vs. mt_kind m = Gauge \<longrightarrow>
       pv_value (M s2) (mt_name m) vs = (case last_set cs m vs of None \<Rightarrow> 0 | Some y \<Rightarrow> y)) \<and>
    (\<forall>m \<in> set all_metrics. \<forall>vs le. pv_bucket (M s2) (mt_name m) vs le = length (filter (in_bucket m le) (durations cs m vs))) \<and>
    (\<forall>m \<in> set all_metrics. \<forall>vs. pv_sum (M s2) (mt_name m) vs = sum_list (durations cs m vs))"
proof -
  obtain s1 where s1: "import_metrics pc s = Inr s1" "M s1 = empty_view\<lparr>pv_metrics := all_metrics\<rparr>"
    using prometheus_client.import_metrics_ok [OF assms(1), of s] assms(2) by (auto simp: empty_view_def)
  then obtain s2 where s2: "metric_run pc cs s1 = Inr s2" "M s2 = fold call_view cs (M s1)"
    using prometheus_client.metric_run_ok [OF assms(1), of s1 cs] by auto
  have "pv_metrics (fold call_view cs v) = pv_metrics v" for v by (induction cs arbitrary: v) simp_all
  moreover have "pv_value (M s1) n vs = 0" "pv_bucket (M s1) n vs le = 0" "pv_sum (M s1) n vs = 0" for n vs le by (simp_all add: s1(2) empty_view_def)
  ultimately show ?thesis
    using s1 s2 by (simp add: init_metrics_def run_view_counter run_view_gauge run_view_histogram empty_view_def cong: option.case_cong)
qed

theorem metrics_well_typed_witness:
  "\<exists>s1 s2. import_metrics ref_prometheus empty_view = Inr s1 \<and>
     metric_run ref_prometheus [Enqueued ''default'' ''mail'', InFlight ''w1'' 1, Completed ''default'' ''mail'' ''succeeded'' 0.2,
       Completed ''default'' ''mail'' ''failed'' 3, InFlight ''w1'' 0] s1 = Inr s2 \<and>
     pv_value s2 ''dtq_tasks_completed_total'' [''default'', ''mail'', ''failed''] = 1 \<and>
     pv_value s2 ''dtq_tasks_in_flight'' [''w1''] = 0 \<and>
     pv_bucket s2 ''dtq_task_duration_seconds'' [''default'', ''mail''] (Some 0.25) = 1 \<and>
     pv_bucket s2 ''dtq_task_duration_seconds'' [''default'', ''mail''] (Some 5) = 2 \<and>
     pv_sum s2 ''dtq_task_duration_seconds'' [''default'', ''mail''] = 3.2"
proof -
  let ?cs = "[Enqueued ''default'' ''mail'', InFlight ''w1'' 1, Completed ''default'' ''mail'' ''succeeded'' 0.2,
       Completed ''default'' ''mail'' ''failed'' 3, InFlight ''w1'' 0]"
  obtain s1 s2 where run: "import_metrics ref_prometheus empty_view = Inr s1" "metric_run ref_prometheus ?cs (init_metrics s1) = Inr s2"
      and v: "\<forall>m \<in> set all_metrics. \<forall>vs. mt_kind m = Counter \<longrightarrow> pv_value (id s2) (mt_name m) vs = real (counted ?cs m vs)"
        "\<forall>m \<in> set all_metrics. \<forall>vs. mt_kind m = Gauge \<longrightarrow>
           pv_value (id s2) (mt_name m) vs = (case last_set ?cs m vs of None \<Rightarrow> 0 | Some y \<Rightarrow> y)"
        "\<forall>m \<in> set all_metrics. \<forall>vs le. pv_bucket (id s2) (mt_name m) vs le = length (filter (in_bucket m le) (durations ?cs m vs))"
        "\<forall>m \<in> set all_metrics. \<forall>vs. pv_sum (id s2) (mt_name m) vs = sum_list (durations ?cs m vs)"
    using metrics_well_typed [of ref_prometheus id empty_view ?cs] by (metis id_apply ref_prometheus_client)
  have in_all: "TASKS_COMPLETED \<in> set all_metrics" "TASKS_IN_FLIGHT \<in> set all_metrics" "TASK_DURATION \<in> set all_metrics"
    and kinds: "mt_kind TASKS_COMPLETED = Counter" "mt_kind TASKS_IN_FLIGHT = Gauge"
    by (simp_all add: all_metrics_def metric_defs)
  have "pv_value s2 (mt_name TASKS_COMPLETED) [''default'', ''mail'', ''failed''] = real (counted ?cs TASKS_COMPLETED [''default'', ''mail'', ''failed''])"
      "pv_value s2 (mt_name TASKS_IN_FLIGHT) [''w1''] = (case last_set ?cs TASKS_IN_FLIGHT [''w1''] of None \<Rightarrow> 0 | Some y \<Rightarrow> y)"
      "pv_bucket s2 (mt_name TASK_DURATION) [''default'', ''mail''] le =
        length (filter (in_bucket TASK_DURATION le) (durations ?cs TASK_DURATION [''default'', ''mail'']))"
      "pv_sum s2 (mt_name TASK_DURATION) [''default'', ''mail''] = sum_list (durations ?cs TASK_DURATION [''default'', ''mail''])" for le
    using v in_all kinds by (simp_all only: id_apply)
  moreover have "counted ?cs TASKS_COMPLETED [''default'', ''mail'', ''failed''] = 1" "last_set ?cs TASKS_IN_FLIGHT [''w1''] = Some 0"
      "durations ?cs TASK_DURATION [''default'', ''mail''] = [0.2, 3]"
    by (simp_all add: metric_defs counted_def last_set_def durations_def List.map_filter_simps)
  ultimately have "pv_value s2 (mt_name TASKS_COMPLETED) [''default'', ''mail'', ''failed''] = 1"
      "pv_value s2 (mt_name TASKS_IN_FLIGHT) [''w1''] = 0"
      "pv_bucket s2 (mt_name TASK_DURATION) [''default'', ''mail''] (Some 0.25) = 1"
      "pv_bucket s2 (mt_name TASK_DURATION) [''default'', ''mail''] (Some 5) = 2"
      "pv_sum s2 (mt_name TASK_DURATION) [''default'', ''mail''] = 3.2"
    by (simp_all add: in_bucket_def bucket_bounds_def TASK_DURATION_def)
  then show ?thesis using run by (auto simp: init_metrics_def metric_defs)
qed

end
