(* ===== verification/Tracing.thy ===== *)
theory Tracing
  imports Core_Models "HOL-Library.AList"
begin

text \<open>
  The tracing module \<open>observability/tracing.py\<close>: its tracer, the propagation of the trace context
  through the fields of an envelope, span links and the six kinds of spans. OpenTelemetry is a
  parameter; the locale \<open>otel_sdk\<close> states what its SDK, with spans that are recorded, and the W3C propagator document.
\<close>

section \<open>The SDK\<close>

record span_context =
  sc_trace_id :: nat
  sc_span_id :: nat
  sc_trace_flags :: nat
  sc_trace_state :: string

definition is_valid :: "span_context \<Rightarrow> bool" where
  "is_valid c \<longleftrightarrow> sc_trace_id c \<noteq> 0 \<and> sc_span_id c \<noteq> 0"

datatype span_kind = PRODUCER | CONSUMER | CLIENT

datatype attribute = AStr string | AInt int | AFloat real

type_synonym carrier = "(string \<times> string) list"

record otlp_exporter =
  oe_endpoint :: string
  oe_insecure :: bool

record tracer_provider =
  tp_resource :: "(string \<times> string) list"
  tp_processors :: "otlp_exporter list"

record ('s, 'c, 't, 'p) otel =
  ot_get_tracer :: "string \<Rightarrow> string \<Rightarrow> 's \<Rightarrow> 't"
  ot_set_tracer_provider :: "tracer_provider \<Rightarrow> 's \<Rightarrow> 's"
  ot_get_current :: "'s \<Rightarrow> 'c"
  ot_is_empty :: "'c \<Rightarrow> bool"
  ot_span_context :: "'c \<Rightarrow> span_context"
  ot_inject :: "'c \<Rightarrow> carrier \<Rightarrow> carrier"
  ot_extract :: "carrier \<Rightarrow> 'c"
  ot_start_span :: "'t \<Rightarrow> string \<Rightarrow> 'c option \<Rightarrow> span_kind \<Rightarrow> span_context list \<Rightarrow> (string \<times> attribute) list \<Rightarrow> 's \<Rightarrow> 'p \<times> 's"

text \<open>What is recorded of a span: its parent is the span of the context it was started in, if there is one.\<close>

record span_view =
  sv_name :: string
  sv_kind :: span_kind
  sv_parent :: "span_context option"
  sv_links :: "span_context list"
  sv_attributes :: "(string \<times> attribute) list"

definition parent_in :: "span_context \<Rightarrow> span_context option" where
  "parent_in c = (if is_valid c then Some c else None)"

text \<open>
  The W3C propagator writes the header \<open>traceparent\<close> of a valid span context, and \<open>tracestate\<close> only
  when there is one; what it reads back is the same context. The parent alone carries everything
  but the trace state.
\<close>

locale otel_sdk =
  fixes ot :: "('s, 'c, 't, 'p) otel" and S :: "'p \<Rightarrow> span_view"
  assumes inject_valid: "is_valid (ot_span_context ot c) \<Longrightarrow> \<exists>tp ts. tp \<noteq> [] \<and> ts \<noteq> [] \<and> ot_inject ot c [] =
      (''traceparent'', tp) # (if sc_trace_state (ot_span_context ot c) = [] then [] else [(''tracestate'', ts)])"
    and inject_invalid: "\<not> is_valid (ot_span_context ot c) \<Longrightarrow> ot_inject ot c k = k"
    and extract_injected: "is_valid (ot_span_context ot c) \<Longrightarrow> ot_span_context ot (ot_extract ot (ot_inject ot c [])) = ot_span_context ot c"
    and extract_parent: "is_valid (ot_span_context ot c) \<Longrightarrow> map_of (ot_inject ot c []) ''traceparent'' = Some tp \<Longrightarrow>
      ot_span_context ot (ot_extract ot [(''traceparent'', tp)]) = (ot_span_context ot c)\<lparr>sc_trace_state := []\<rparr>"
    and extract_nothing: "ot_is_empty ot (ot_extract ot [])"
    and empty_context: "ot_is_empty ot c \<Longrightarrow> \<not> is_valid (ot_span_context ot c)"
    and start_span: "ot_start_span ot t n cx kd ls as s = (p, s') \<Longrightarrow> S p = \<lparr>sv_name = n, sv_kind = kd,
      sv_parent = parent_in (ot_span_context ot (case cx of None \<Rightarrow> ot_get_current ot s | Some x \<Rightarrow> x)),
      sv_links = ls, sv_attributes = as\<rparr>"

section \<open>The tracer\<close>

text \<open>The process: the module's \<open>_tracer\<close> and the SDK's own state.\<close>

record ('s, 't) tracing =
  tr_tracer :: "'t option"
  tr_otel :: 's

definition init_tracing :: "('s, 'c, 't, 'p) otel \<Rightarrow> settings \<Rightarrow> ('s, 't) tracing \<Rightarrow> ('s, 't) tracing" where
  "init_tracing ot cfg p =
     (if \<not> cfg_otel_enabled cfg then p\<lparr>tr_tracer := Some (ot_get_tracer ot ''dtq'' ''0.1.0'' (tr_otel p))\<rparr>
      else let resource = [(''service.name'', ''dtq''), (''service.version'', ''0.1.0''),
                           (''service.instance.id'', cfg_worker_id cfg)];
               exporter = \<lparr>oe_endpoint = cfg_otel_endpoint cfg, oe_insecure = True\<rparr>;
               provider = \<lparr>tp_resource = resource, tp_processors = [exporter]\<rparr>;
               s = ot_set_tracer_provider ot provider (tr_otel p)
           in p\<lparr>tr_otel := s, tr_tracer := Some (ot_get_tracer ot ''dtq'' ''0.1.0'' s)\<rparr>)"

definition get_tracer :: "('s, 'c, 't, 'p) otel \<Rightarrow> ('s, 't) tracing \<Rightarrow> 't \<times> ('s, 't) tracing" where
  "get_tracer ot p = (case tr_tracer p of
       Some t \<Rightarrow> (t, p)
     | None \<Rightarrow> let t = ot_get_tracer ot ''dtq'' ''0.1.0'' (tr_otel p) in (t, p\<lparr>tr_tracer := Some t\<rparr>))"

section \<open>Propagation\<close>

definition inject_trace_context :: "('s, 'c, 't, 'p) otel \<Rightarrow> ('s, 't) tracing \<Rightarrow> carrier" where
  "inject_trace_context ot p = ot_inject ot (ot_get_current ot (tr_otel p)) []"

text \<open>A field counts as present when it is neither \<open>None\<close> nor the empty string.\<close>

fun header :: "string \<Rightarrow> string option \<Rightarrow> carrier" where
  "header k (Some (c # cs)) = [(k, c # cs)]"
| "header k _ = []"

definition extract_trace_context :: "('s, 'c, 't, 'p) otel \<Rightarrow> string option \<Rightarrow> string option \<Rightarrow> 'c" where
  "extract_trace_context ot traceparent tracestate =
     ot_extract ot (header ''traceparent'' traceparent @ header ''tracestate'' tracestate)"

definition create_span_link :: "('s, 'c, 't, 'p) otel \<Rightarrow> string option \<Rightarrow> span_context option" where
  "create_span_link ot traceparent =
     (if traceparent = None \<or> traceparent = Some [] then None
      else let span_ctx = ot_span_context ot (ot_extract ot [(''traceparent'', the traceparent)])
           in if is_valid span_ctx then Some span_ctx else None)"

section \<open>Spans\<close>

definition start_in :: "('s, 'c, 't, 'p) otel \<Rightarrow> string \<Rightarrow> 'c option \<Rightarrow> span_kind \<Rightarrow> span_context list \<Rightarrow>
    (string \<times> attribute) list \<Rightarrow> ('s, 't) tracing \<Rightarrow> 'p \<times> ('s, 't) tracing" where
  "start_in ot name ctx kind links attributes p =
     (let (tracer, p1) = get_tracer ot p;
          (span, s) = ot_start_span ot tracer name ctx kind links attributes (tr_otel p1)
      in (span, p1\<lparr>tr_otel := s\<rparr>))"

definition start_enqueue_span ::
  "('s, 'c, 't, 'p) otel \<Rightarrow> string \<Rightarrow> string \<Rightarrow> string \<Rightarrow> ('s, 't) tracing \<Rightarrow> 'p \<times> ('s, 't) tracing" where
  "start_enqueue_span ot queue task_name task_id =
     start_in ot ''enqueue'' None PRODUCER []
       [(''dtq.queue'', AStr queue), (''dtq.task_name'', AStr task_name), (''dtq.task_id'', AStr task_id)]"

text \<open>An empty context is false in Python, so the current context replaces it.\<close>

definition start_execute_span ::
  "('s, 'c, 't, 'p) otel \<Rightarrow> string \<Rightarrow> string \<Rightarrow> int \<Rightarrow> int \<Rightarrow> string \<Rightarrow> 'c option \<Rightarrow> span_context list option \<Rightarrow>
   ('s, 't) tracing \<Rightarrow> 'p \<times> ('s, 't) tracing" where
  "start_execute_span ot task_id task_name attempt fence worker_id parent_context links p =
     (let (tracer, p1) = get_tracer ot p;
          ctx = (case parent_context of
                   Some c \<Rightarrow> if ot_is_empty ot c then ot_get_current ot (tr_otel p1) else c
                 | None \<Rightarrow> ot_get_current ot (tr_otel p1));
          (span, s) = ot_start_span ot tracer ''execute'' (Some ctx) CONSUMER (case links of Some ls \<Rightarrow> ls | None \<Rightarrow> [])
            [(''dtq.task_id'', AStr task_id), (''dtq.task_name'', AStr task_name), (''dtq.attempt'', AInt attempt),
             (''dtq.fence'', AInt fence), (''dtq.worker_id'', AStr worker_id)] (tr_otel p1)
      in (span, p1\<lparr>tr_otel := s\<rparr>))"

definition start_lease_span ::
  "('s, 'c, 't, 'p) otel \<Rightarrow> string \<Rightarrow> string \<Rightarrow> ('s, 't) tracing \<Rightarrow> 'p \<times> ('s, 't) tracing" where
  "start_lease_span ot task_id worker_id =
     start_in ot ''lease'' None CLIENT [] [(''dtq.task_id'', AStr task_id), (''dtq.worker_id'', AStr worker_id)]"

definition start_commit_span ::
  "('s, 'c, 't, 'p) otel \<Rightarrow> string \<Rightarrow> string \<Rightarrow> int \<Rightarrow> ('s, 't) tracing \<Rightarrow> 'p \<times> ('s, 't) tracing" where
  "start_commit_span ot task_id dedup_key fence =
     start_in ot ''commit'' None CLIENT []
       [(''dtq.task_id'', AStr task_id), (''dtq.dedup_key'', AStr dedup_key), (''dtq.fence'', AInt fence)]"

definition start_reclaim_span ::
  "('s, 'c, 't, 'p) otel \<Rightarrow> string \<Rightarrow> string \<Rightarrow> int \<Rightarrow> ('s, 't) tracing \<Rightarrow> 'p \<times> ('s, 't) tracing" where
  "start_reclaim_span ot task_id worker_id idle_ms =
     start_in ot ''reclaim'' None CONSUMER []
       [(''dtq.task_id'', AStr task_id), (''dtq.worker_id'', AStr worker_id), (''dtq.idle_ms'', AInt idle_ms)]"

definition start_schedule_span ::
  "('s, 'c, 't, 'p) otel \<Rightarrow> string \<Rightarrow> string \<Rightarrow> real \<Rightarrow> ('s, 't) tracing \<Rightarrow> 'p \<times> ('s, 't) tracing" where
  "start_schedule_span ot task_id queue delay_s =
     start_in ot ''schedule'' None PRODUCER []
       [(''dtq.task_id'', AStr task_id), (''dtq.queue'', AStr queue), (''dtq.delay_s'', AFloat delay_s)]"

section \<open>Lemmas\<close>

text \<open>Once there is a tracer, later calls return it and change nothing.\<close>

lemma get_tracer_stable: "get_tracer ot p = (t, p') \<Longrightarrow> get_tracer ot p' = (t, p')"
  by (auto simp: get_tracer_def Let_def split: option.splits)

lemma get_tracer_after_init:
  "\<exists>t. get_tracer ot (init_tracing ot cfg p) = (t, init_tracing ot cfg p)"
  by (simp add: get_tracer_def init_tracing_def Let_def)

lemma get_tracer_otel [simp]: "tr_otel (snd (get_tracer ot p)) = tr_otel p"
  by (simp add: get_tracer_def Let_def split: option.split)

lemma header_present: "tp \<noteq> [] \<Longrightarrow> header k (Some tp) = [(k, tp)]"
  by (cases tp) simp_all

context otel_sdk
begin

text \<open>The fields of the envelope hold all that was injected.\<close>

lemma extract_fields:
  "ot_extract ot (header ''traceparent'' (map_of (ot_inject ot c []) ''traceparent'') @
     header ''tracestate'' (map_of (ot_inject ot c []) ''tracestate'')) = ot_extract ot (ot_inject ot c [])"
proof (cases "is_valid (ot_span_context ot c)")
  case True
  then show ?thesis using inject_valid [of c] by (auto simp: header_present)
qed (simp add: inject_invalid)

lemma start_in_view:
  "S (fst (start_in ot n c k ls as p)) = \<lparr>sv_name = n, sv_kind = k,
      sv_parent = parent_in (ot_span_context ot (case c of None \<Rightarrow> ot_get_current ot (tr_otel p) | Some x \<Rightarrow> x)),
      sv_links = ls, sv_attributes = as\<rparr>"
proof -
  obtain t p1 where t: "get_tracer ot p = (t, p1)" by force
  then have "tr_otel p1 = tr_otel p" by (metis get_tracer_otel snd_conv)
  then show ?thesis using start_span by (auto simp: start_in_def t split: prod.split)
qed

lemma execute_span_parent:
  "sv_parent (S (fst (start_execute_span ot i n a f w (Some c) ls p))) =
     parent_in (ot_span_context ot (if ot_is_empty ot c then ot_get_current ot (tr_otel p) else c))"
proof -
  obtain t p1 where t: "get_tracer ot p = (t, p1)" by force
  then have "tr_otel p1 = tr_otel p" by (metis get_tracer_otel snd_conv)
  then show ?thesis using start_span by (auto simp: start_execute_span_def t split: prod.split)
qed

end

section \<open>A reference SDK\<close>

text \<open>
  Contexts are optional span contexts, a header spells out the numbers it carries, and the current
  context is part of the state.
\<close>

definition unary :: "nat \<Rightarrow> string" where
  "unary n = replicate n CHR ''1''"

definition ref_traceparent :: "span_context \<Rightarrow> string" where
  "ref_traceparent c = unary (sc_trace_id c) @ ''-'' @ unary (sc_span_id c) @ ''-'' @ unary (sc_trace_flags c)"

definition read_unary :: "string \<Rightarrow> nat \<times> string" where
  "read_unary s = (length (takeWhile (\<lambda>c. c \<noteq> CHR ''-'') s), drop 1 (dropWhile (\<lambda>c. c \<noteq> CHR ''-'') s))"

definition no_span :: span_context where
  "no_span = \<lparr>sc_trace_id = 0, sc_span_id = 0, sc_trace_flags = 0, sc_trace_state = []\<rparr>"

definition ref_extract :: "carrier \<Rightarrow> span_context option" where
  "ref_extract k = (case map_of k ''traceparent'' of
       None \<Rightarrow> None
     | Some tp \<Rightarrow> let (i, r) = read_unary tp; (j, r') = read_unary r; (f, _) = read_unary r'
         in Some \<lparr>sc_trace_id = i, sc_span_id = j, sc_trace_flags = f,
              sc_trace_state = (case map_of k ''tracestate'' of None \<Rightarrow> [] | Some ts \<Rightarrow> ts)\<rparr>)"

definition ref_inject :: "span_context option \<Rightarrow> carrier \<Rightarrow> carrier" where
  "ref_inject x k = (case x of
       None \<Rightarrow> k
     | Some c \<Rightarrow> if is_valid c then AList.update ''traceparent'' (ref_traceparent c) k @
           (if sc_trace_state c = [] then [] else [(''tracestate'', sc_trace_state c)])
         else k)"

definition ref_context :: "span_context option \<Rightarrow> span_context" where
  "ref_context x = (case x of None \<Rightarrow> no_span | Some c \<Rightarrow> c)"

definition ref_otel :: "(span_context option, span_context option, unit, span_view) otel" where
  "ref_otel = \<lparr>ot_get_tracer = (\<lambda>_ _ _. ()), ot_set_tracer_provider = (\<lambda>_ s. s), ot_get_current = (\<lambda>s. s),
     ot_is_empty = (\<lambda>c. c = None), ot_span_context = ref_context, ot_inject = ref_inject, ot_extract = ref_extract,
     ot_start_span = (\<lambda>_ n cx k ls as s. (\<lparr>sv_name = n, sv_kind = k,
       sv_parent = parent_in (ref_context (case cx of None \<Rightarrow> s | Some x \<Rightarrow> x)), sv_links = ls, sv_attributes = as\<rparr>, s))\<rparr>"

lemma read_unary_unary: "read_unary (unary n @ CHR ''-'' # s) = (n, s)" "read_unary (unary n) = (n, [])"
  by (induction n) (auto simp: read_unary_def unary_def)

lemma ref_extract_parent:
  assumes "map_of k ''traceparent'' = Some (ref_traceparent c)"
  shows "ref_extract k = Some (c\<lparr>sc_trace_state := (case map_of k ''tracestate'' of None \<Rightarrow> [] | Some ts \<Rightarrow> ts)\<rparr>)"
  using assms by (simp add: ref_extract_def ref_traceparent_def read_unary_unary)

interpretation refotel: otel_sdk ref_otel id
proof
  fix c :: "span_context option"
  assume "is_valid (ot_span_context ref_otel c)"
  then obtain d where d: "c = Some d" "is_valid d" by (cases c) (auto simp: ref_otel_def ref_context_def no_span_def is_valid_def)
  have inj: "ot_inject ref_otel c [] = (''traceparent'', ref_traceparent d) #
      (if sc_trace_state d = [] then [] else [(''tracestate'', sc_trace_state d)])"
    using d by (simp add: ref_otel_def ref_inject_def)
  have "ref_traceparent d \<noteq> []" by (simp add: ref_traceparent_def)
  then show "\<exists>tp ts. tp \<noteq> [] \<and> ts \<noteq> [] \<and> ot_inject ref_otel c [] =
      (''traceparent'', tp) # (if sc_trace_state (ot_span_context ref_otel c) = [] then [] else [(''tracestate'', ts)])"
    using d unfolding inj by (cases "sc_trace_state d") (auto simp: ref_otel_def ref_context_def)
  show "ot_span_context ref_otel (ot_extract ref_otel (ot_inject ref_otel c [])) = ot_span_context ref_otel c"
    unfolding inj using d by (simp add: ref_otel_def ref_context_def ref_extract_parent)
  show "ot_span_context ref_otel (ot_extract ref_otel [(''traceparent'', tp)]) = (ot_span_context ref_otel c)\<lparr>sc_trace_state := []\<rparr>"
    if "map_of (ot_inject ref_otel c []) ''traceparent'' = Some tp" for tp
    using that d unfolding inj by (auto simp: ref_otel_def ref_context_def ref_extract_parent)
qed (auto simp: ref_otel_def ref_context_def ref_inject_def ref_extract_def no_span_def is_valid_def split: option.splits)

lemma ref_otel_sdk [simp]: "otel_sdk ref_otel id" ..

section \<open>A round trip\<close>

text \<open>The span that is current in a process.\<close>

definition current_span :: "('s, 'c, 't, 'p) otel \<Rightarrow> ('s, 't) tracing \<Rightarrow> span_context" where
  "current_span ot p = ot_span_context ot (ot_get_current ot (tr_otel p))"

context otel_sdk
begin

lemma extracted_span:
  assumes "is_valid (current_span ot p)"
  shows "ot_span_context ot (extract_trace_context ot (map_of (inject_trace_context ot p) ''traceparent'')
    (map_of (inject_trace_context ot p) ''tracestate'')) = current_span ot p"
  using extract_injected extract_fields assms by (simp add: extract_trace_context_def inject_trace_context_def current_span_def)

lemma injected_link:
  assumes "is_valid (current_span ot p)"
  shows "create_span_link ot (map_of (inject_trace_context ot p) ''traceparent'') = Some ((current_span ot p)\<lparr>sc_trace_state := []\<rparr>)"
proof -
  obtain x where x: "map_of (inject_trace_context ot p) ''traceparent'' = Some x" "x \<noteq> []"
    using inject_valid assms by (force simp: current_span_def inject_trace_context_def)
  with extract_parent assms have "ot_span_context ot (ot_extract ot [(''traceparent'', x)]) = (current_span ot p)\<lparr>sc_trace_state := []\<rparr>"
    by (simp add: current_span_def inject_trace_context_def)
  with x assms show ?thesis by (simp add: create_span_link_def is_valid_def)
qed

lemma nothing_injected:
  assumes "\<not> is_valid (current_span ot p)"
  shows "inject_trace_context ot p = [] \<and> ot_is_empty ot (extract_trace_context ot None None) \<and> create_span_link ot None = None"
  using inject_invalid assms extract_nothing
  by (simp add: current_span_def inject_trace_context_def extract_trace_context_def create_span_link_def)

end

text \<open>
  C39: The propagation functions of the tracing module are inverse to each other. If a span is current, \<open>inject_trace_context\<close>
  gives a carrier whose fields \<open>traceparent\<close> and \<open>tracestate\<close>, given to \<open>extract_trace_context\<close>, yield exactly that span, and
  whose \<open>traceparent\<close> alone, given to \<open>create_span_link\<close>, yields a link to it, without the trace state; if none is
  current, the carrier is empty, and from absent fields one gets an empty context and no link. \<open>start_execute_span\<close> makes the
  span of the context it is given the parent, and with an empty context, which is false in Python, the current span.
  This is about the module alone: no other module of the program calls these functions.
\<close>

theorem trace_context_roundtrip:
  assumes "otel_sdk ot S"
  shows "(is_valid (current_span ot p) \<longrightarrow>
      ot_span_context ot (extract_trace_context ot (map_of (inject_trace_context ot p) ''traceparent'')
        (map_of (inject_trace_context ot p) ''tracestate'')) = current_span ot p \<and>
      create_span_link ot (map_of (inject_trace_context ot p) ''traceparent'') = Some ((current_span ot p)\<lparr>sc_trace_state := []\<rparr>)) \<and>
    (\<not> is_valid (current_span ot p) \<longrightarrow>
      inject_trace_context ot p = [] \<and> ot_is_empty ot (extract_trace_context ot None None) \<and> create_span_link ot None = None) \<and>
    sv_parent (S (fst (start_execute_span ot i n a f w (Some c) ls p'))) =
      parent_in (if ot_is_empty ot c then current_span ot p' else ot_span_context ot c)"
  using otel_sdk.extracted_span [OF assms] otel_sdk.injected_link [OF assms] otel_sdk.nothing_injected [OF assms]
    otel_sdk.execute_span_parent [OF assms] by (simp add: current_span_def)

theorem trace_context_roundtrip_witness:
  "let c = \<lparr>sc_trace_id = 7, sc_span_id = 3, sc_trace_flags = 1, sc_trace_state = ''k=v''\<rparr>;
       k = inject_trace_context ref_otel \<lparr>tr_tracer = None, tr_otel = Some c\<rparr>
   in is_valid c \<and> ot_span_context ref_otel (extract_trace_context ref_otel (map_of k ''traceparent'') (map_of k ''tracestate'')) = c"
  using trace_context_roundtrip [OF ref_otel_sdk, of "\<lparr>tr_tracer = None, tr_otel = Some \<lparr>sc_trace_id = 7, sc_span_id = 3,
      sc_trace_flags = 1, sc_trace_state = ''k=v''\<rparr>\<rparr>"]
  by (simp add: Let_def current_span_def is_valid_def) (simp add: ref_otel_def ref_context_def)

end
