(* ===== verification/Broker_Connection.thy ===== *)
theory Broker_Connection
  imports Broker_Factory
begin

text \<open>
  How the processes reach their broker: \<open>connect\<close> and \<open>close\<close> of the three adapters, what each
  method of \<open>RedisBroker\<close> needs of the connection, and the control plane's start and shutdown
  (\<open>lifespan\<close>, \<open>get_broker\<close>). The client libraries are parameters that may raise at every call. The
  locale \<open>broker_connection\<close> is the part of the \<open>Broker\<close> protocol that the control plane relies on;
  all three adapters interpret it.
\<close>

section \<open>RedisBroker\<close>

text \<open>
  The Redis library and the files of the package: creating a client does no I/O, a ping does, and a
  registered script is a callable that is bound to its client. (The dash in the message of
  \<open>RuntimeError\<close> is not ASCII in the source.)
\<close>

record ('s, 'h, 'c) redis_library =
  rl_from_url :: "string \<Rightarrow> bool \<Rightarrow> nat \<Rightarrow> 's \<Rightarrow> 'h \<times> 's"
  rl_ping :: "'h \<Rightarrow> 's \<Rightarrow> (exn + unit) \<times> 's"
  rl_register_script :: "'h \<Rightarrow> string \<Rightarrow> 'c"
  rl_aclose :: "'h \<Rightarrow> 's \<Rightarrow> (exn + unit) \<times> 's"
  rl_read_text :: "string \<Rightarrow> exn + string"

record ('h, 'c) redis_broker =
  br_url :: string
  br_client :: "'h option"
  br_scripts :: "string \<rightharpoonup> 'c"

definition new_redis_broker :: "string \<Rightarrow> ('h, 'c) redis_broker" where
  "new_redis_broker url = \<lparr>br_url = url, br_client = None, br_scripts = Map.empty\<rparr>"

definition br_get_client :: "('h, 'c) redis_broker \<Rightarrow> exn + 'h" where
  "br_get_client b = (case br_client b of
       None \<Rightarrow> Inl (PyRuntimeError ''RedisBroker not connected - call connect() first'')
     | Some h \<Rightarrow> Inr h)"

definition load_lua :: "('s, 'h, 'c) redis_library \<Rightarrow> string \<Rightarrow> exn + string" where
  "load_lua L name = rl_read_text L name"

definition script_names :: "string list" where
  "script_names = [''acquire_lease'', ''release_lease'', ''extend_lease'', ''promote_scheduled'']"

fun register_scripts :: "('s, 'h, 'c) redis_library \<Rightarrow> 'h \<Rightarrow> string list \<Rightarrow> ('h, 'c) redis_broker \<Rightarrow> (exn + unit) \<times> ('h, 'c) redis_broker" where
  "register_scripts L h [] b = (Inr (), b)"
| "register_scripts L h (script_name # names) b =
     (case load_lua L (script_name @ ''.lua'') of
        Inl e \<Rightarrow> (Inl e, b)
      | Inr lua_src \<Rightarrow> register_scripts L h names
          (b\<lparr>br_scripts := (br_scripts b)(script_name \<mapsto> rl_register_script L h lua_src)\<rparr>))"

definition br_connect :: "('s, 'h, 'c) redis_library \<Rightarrow> ('h, 'c) redis_broker \<Rightarrow> 's \<Rightarrow> (exn + unit) \<times> ('h, 'c) redis_broker \<times> 's" where
  "br_connect L b s =
     (let (h, s1) = rl_from_url L (br_url b) True 50 s; b1 = b\<lparr>br_client := Some h\<rparr>
      in case rl_ping L h s1 of
           (Inl e, s2) \<Rightarrow> (Inl e, b1, s2)
         | (Inr _, s2) \<Rightarrow> (case register_scripts L h script_names b1 of (r, b2) \<Rightarrow> (r, b2, s2)))"

text \<open>\<open>if self._x: await self._x.stop(); self._x = None\<close>: when the call raises, the attribute stays.\<close>

fun stop_with :: "('h \<Rightarrow> 's \<Rightarrow> (exn + unit) \<times> 's) \<Rightarrow> 'h option \<Rightarrow> 's \<Rightarrow> (exn + unit) \<times> 'h option \<times> 's" where
  "stop_with stop None s = (Inr (), None, s)"
| "stop_with stop (Some h) s = (case stop h s of (Inl e, s1) \<Rightarrow> (Inl e, Some h, s1) | (Inr _, s1) \<Rightarrow> (Inr (), None, s1))"

definition br_close :: "('s, 'h, 'c) redis_library \<Rightarrow> ('h, 'c) redis_broker \<Rightarrow> 's \<Rightarrow> (exn + unit) \<times> ('h, 'c) redis_broker \<times> 's" where
  "br_close L b s = (case stop_with (rl_aclose L) (br_client b) s of (r, h, s1) \<Rightarrow> (r, b\<lparr>br_client := h\<rparr>, s1))"

text \<open>
  The methods of \<open>RedisBroker\<close> and the first thing each does with the connection: most ask for the
  client, the four scripts are looked up in the dictionary, and \<open>nack\<close> (like \<open>ack\<close> of no message)
  does nothing.
\<close>

datatype redis_method =
    MEnsureQueue | MPublish | MLease | MAck bool | MNack | MReclaim | MSchedule | MPromote | MDeadLetter
  | MGetDlq | MDepth | MInFlight | MAcquire | MRelease | MExtend | MSetHeartbeat | MGetHeartbeat

fun script_of :: "redis_method \<Rightarrow> string option" where
  "script_of MPromote = Some ''promote_scheduled''"
| "script_of MAcquire = Some ''acquire_lease''"
| "script_of MRelease = Some ''release_lease''"
| "script_of MExtend = Some ''extend_lease''"
| "script_of _ = None"

definition method_raises :: "redis_method \<Rightarrow> ('h, 'c) redis_broker \<Rightarrow> exn option" where
  "method_raises m b = (case script_of m of
       Some n \<Rightarrow> (case br_scripts b n of None \<Rightarrow> Some (PyKeyError n) | Some _ \<Rightarrow> None)
     | None \<Rightarrow> if m = MNack \<or> m = MAck False then None
         else case br_get_client b of Inl e \<Rightarrow> Some e | Inr _ \<Rightarrow> None)"

section \<open>KafkaBroker and RabbitMQBroker\<close>

text \<open>Clients that are created, started and stopped: the producer and the admin client of Kafka.\<close>

record ('s, 'h) kafka_clients =
  kc_producer :: "string \<Rightarrow> 's \<Rightarrow> 'h \<times> 's"
  kc_admin :: "string \<Rightarrow> 's \<Rightarrow> 'h \<times> 's"
  kc_start :: "'h \<Rightarrow> 's \<Rightarrow> (exn + unit) \<times> 's"
  kc_stop :: "'h \<Rightarrow> 's \<Rightarrow> (exn + unit) \<times> 's"
  kc_close :: "'h \<Rightarrow> 's \<Rightarrow> (exn + unit) \<times> 's"

record 'h kafka_object =
  ko_bootstrap_servers :: string
  ko_producer :: "'h option"
  ko_admin :: "'h option"
  ko_state :: kbroker

definition new_kafka_object :: "string \<Rightarrow> 'h kafka_object" where
  "new_kafka_object bootstrap_servers =
     \<lparr>ko_bootstrap_servers = bootstrap_servers, ko_producer = None, ko_admin = None, ko_state = new_kbroker\<rparr>"

definition kafka_connect :: "('k, 'h) kafka_clients \<Rightarrow> 'h kafka_object \<Rightarrow> 'k \<Rightarrow> (exn + unit) \<times> 'h kafka_object \<times> 'k" where
  "kafka_connect L b s =
     (let (p, s1) = kc_producer L (ko_bootstrap_servers b) s; b1 = b\<lparr>ko_producer := Some p\<rparr>
      in case kc_start L p s1 of
           (Inl e, s2) \<Rightarrow> (Inl e, b1, s2)
         | (Inr _, s2) \<Rightarrow>
             let (a, s3) = kc_admin L (ko_bootstrap_servers b) s2; b2 = b1\<lparr>ko_admin := Some a\<rparr>
             in case kc_start L a s3 of (r, s4) \<Rightarrow> (r, b2, s4))"

text \<open>\<open>queues\<close> are the keys of the dictionary of delay consumers, in its order.\<close>

definition kafka_close ::
  "('k, 'h) kafka_clients \<Rightarrow> ('k, 'b) kafka \<Rightarrow> string list \<Rightarrow> 'h kafka_object \<Rightarrow> 'k \<Rightarrow> (exn + unit) \<times> 'h kafka_object \<times> 'k" where
  "kafka_close L K queues b s =
     (case stop_with (kc_stop L) (ko_producer b) s of
        (Inl e, p, s1) \<Rightarrow> (Inl e, b\<lparr>ko_producer := p\<rparr>, s1)
      | (Inr _, p, s1) \<Rightarrow>
          let kb = ko_state b;
              s2 = (case kb_consumer kb of None \<Rightarrow> s1 | Some c \<Rightarrow> k_stop K c s1);
              b2 = b\<lparr>ko_producer := p, ko_state := kb\<lparr>kb_consumer := None\<rparr>\<rparr>
          in case stop_with (kc_close L) (ko_admin b) s2 of
               (Inl e, a, s3) \<Rightarrow> (Inl e, b2\<lparr>ko_admin := a\<rparr>, s3)
             | (Inr _, a, s3) \<Rightarrow>
                 (Inr (), b2\<lparr>ko_admin := a, ko_state := kb\<lparr>kb_consumer := None, kb_delay_consumers := (\<lambda>_. None)\<rparr>\<rparr>,
                  fold (\<lambda>q s. case kb_delay_consumers kb q of None \<Rightarrow> s | Some c \<Rightarrow> k_stop K c s) queues s3))"

record ('s, 'h) amqp_clients =
  ac_connect_robust :: "string \<Rightarrow> 's \<Rightarrow> (exn + 'h) \<times> 's"
  ac_channel :: "'h \<Rightarrow> 's \<Rightarrow> (exn + 'h) \<times> 's"
  ac_set_qos :: "'h \<Rightarrow> nat \<Rightarrow> 's \<Rightarrow> (exn + unit) \<times> 's"
  ac_close :: "'h \<Rightarrow> 's \<Rightarrow> (exn + unit) \<times> 's"

record 'h rabbit_object =
  ro_url :: string
  ro_connection :: "'h option"
  ro_channel :: "'h option"
  ro_state :: rbroker

definition new_rabbit_object :: "string \<Rightarrow> 'h rabbit_object" where
  "new_rabbit_object url = \<lparr>ro_url = url, ro_connection = None, ro_channel = None, ro_state = new_rbroker\<rparr>"

definition rabbit_connect :: "('k, 'h) amqp_clients \<Rightarrow> 'h rabbit_object \<Rightarrow> 'k \<Rightarrow> (exn + unit) \<times> 'h rabbit_object \<times> 'k" where
  "rabbit_connect L b s =
     (case ac_connect_robust L (ro_url b) s of
        (Inl e, s1) \<Rightarrow> (Inl e, b, s1)
      | (Inr c, s1) \<Rightarrow>
          (case ac_channel L c s1 of
             (Inl e, s2) \<Rightarrow> (Inl e, b\<lparr>ro_connection := Some c\<rparr>, s2)
           | (Inr ch, s2) \<Rightarrow>
               (case ac_set_qos L ch 10 s2 of (r, s3) \<Rightarrow> (r, b\<lparr>ro_connection := Some c, ro_channel := Some ch\<rparr>, s3))))"

definition rabbit_close :: "('k, 'h) amqp_clients \<Rightarrow> 'h rabbit_object \<Rightarrow> 'k \<Rightarrow> (exn + unit) \<times> 'h rabbit_object \<times> 'k" where
  "rabbit_close L b s =
     (case stop_with (ac_close L) (ro_channel b) s of
        (Inl e, ch, s1) \<Rightarrow> (Inl e, b\<lparr>ro_channel := ch\<rparr>, s1)
      | (Inr _, ch, s1) \<Rightarrow>
          (case stop_with (ac_close L) (ro_connection b) s1 of
             (Inl e, c, s2) \<Rightarrow> (Inl e, b\<lparr>ro_channel := ch, ro_connection := c\<rparr>, s2)
           | (Inr _, c, s2) \<Rightarrow> (Inr (), b\<lparr>ro_channel := ch, ro_connection := c, ro_state := rb_close (ro_state b)\<rparr>, s2)))"

section \<open>The control plane's broker\<close>

text \<open>
  The module's \<open>_broker\<close> and the two halves of \<open>lifespan\<close>, over the adapter's constructor,
  \<open>connect\<close> and \<open>close\<close>; \<open>dispose\<close> is the engine's.
\<close>

definition get_broker :: "'b option \<Rightarrow> exn + 'b" where
  "get_broker broker = (case broker of None \<Rightarrow> Inl (PyRuntimeError ''Broker not initialized'') | Some b \<Rightarrow> Inr b)"

definition lifespan_start ::
  "(exn + 'b) \<Rightarrow> ('b \<Rightarrow> 's \<Rightarrow> (exn + unit) \<times> 'b \<times> 's) \<Rightarrow> 'b option \<Rightarrow> 's \<Rightarrow> (exn + unit) \<times> 'b option \<times> 's" where
  "lifespan_start created connect broker s =
     (case created of
        Inl e \<Rightarrow> (Inl e, broker, s)
      | Inr b \<Rightarrow> (case connect b s of (r, b1, s1) \<Rightarrow> (r, Some b1, s1)))"

definition lifespan_stop ::
  "('b \<Rightarrow> 's \<Rightarrow> (exn + unit) \<times> 'b \<times> 's) \<Rightarrow> ('s \<Rightarrow> 's) \<Rightarrow> 'b option \<Rightarrow> 's \<Rightarrow> (exn + unit) \<times> 'b option \<times> 's" where
  "lifespan_stop close dispose broker s =
     (case broker of
        None \<Rightarrow> (Inl (PyAttributeError ''close''), broker, s)
      | Some b \<Rightarrow> (case close b s of
            (Inl e, b1, s1) \<Rightarrow> (Inl e, Some b1, s1)
          | (Inr _, b1, s1) \<Rightarrow> (Inr (), Some b1, dispose s1)))"

text \<open>A worker does not ask the factory: its broker is Redis, whatever the settings say.\<close>

definition worker_broker :: "settings \<Rightarrow> backend" where
  "worker_broker cfg = RedisBroker (cfg_redis_url cfg)"

section \<open>The protocol of a connection\<close>

locale broker_connection =
  fixes created :: "'b" and connect :: "'b \<Rightarrow> 's \<Rightarrow> (exn + unit) \<times> 'b \<times> 's"
    and close :: "'b \<Rightarrow> 's \<Rightarrow> (exn + unit) \<times> 'b \<times> 's" and connected :: "'b \<Rightarrow> bool"
  assumes created: "\<not> connected created"
    and connect_ok: "connect b s = (Inr (), b', s') \<Longrightarrow> connected b'"
    and close_ok: "close b s = (Inr (), b', s') \<Longrightarrow> \<not> connected b'"
begin

lemma serving:
  assumes "lifespan_start (Inr created) connect None s = (Inr (), broker, s1)"
  shows "\<exists>b. get_broker broker = Inr b \<and> connected b"
  using assms connect_ok by (auto simp: lifespan_start_def get_broker_def split: prod.splits)

lemma stopped:
  assumes "lifespan_start (Inr created) connect None s = (Inr (), broker, s1)"
    and "lifespan_stop close dispose broker s2 = (Inr (), broker', s3)"
  shows "\<exists>b. get_broker broker' = Inr b \<and> \<not> connected b"
  using assms close_ok
  by (auto simp: lifespan_start_def lifespan_stop_def get_broker_def split: prod.splits sum.splits)

end

lemma stop_with_ok: "stop_with stop h s = (Inr u, h', s') \<Longrightarrow> h' = None"
  by (cases h) (auto split: prod.splits sum.splits)

lemma register_scripts_client [simp]: "br_client (snd (register_scripts L h ns b)) = br_client b"
  by (induction ns arbitrary: b) (auto split: sum.split)

lemma register_scripts_ok:
  assumes "register_scripts L h ns b = (Inr u, b')"
  shows "dom (br_scripts b') = dom (br_scripts b) \<union> set ns"
  using assms by (induction ns arbitrary: b) (auto split: sum.splits)

definition br_connected :: "('h, 'c) redis_broker \<Rightarrow> bool" where
  "br_connected b \<longleftrightarrow> br_client b \<noteq> None \<and> list_all (\<lambda>n. br_scripts b n \<noteq> None) script_names"

lemma br_connect_cases:
  assumes "br_connect L b s = (r, b', s')"
  obtains (down) h e where "r = Inl e" "b' = b\<lparr>br_client := Some h\<rparr>"
  | (up) h where "register_scripts L h script_names (b\<lparr>br_client := Some h\<rparr>) = (r, b')"
  using assms by (auto simp: br_connect_def Let_def split: prod.splits sum.splits)

lemma br_connect_client: "br_connect L b s = (r, b', s') \<Longrightarrow> br_client b' \<noteq> None"
proof (erule br_connect_cases)
  fix h assume "register_scripts L h script_names (b\<lparr>br_client := Some h\<rparr>) = (r, b')"
  with register_scripts_client [of L h script_names "b\<lparr>br_client := Some h\<rparr>"] show "br_client b' \<noteq> None" by simp
qed simp

lemma br_connect_ok:
  assumes "br_connect L b s = (Inr (), b', s')"
  shows "br_connected b'"
  using assms
proof (cases rule: br_connect_cases)
  case (up h)
  from register_scripts_ok [OF this] br_connect_client [OF assms] show ?thesis
    by (auto simp: br_connected_def list_all_iff)
qed simp

lemma br_close_ok: "br_close L b s = (Inr (), b', s') \<Longrightarrow> br_client b' = None \<and> br_scripts b' = br_scripts b"
  using stop_with_ok by (fastforce simp: br_close_def split: prod.splits)

interpretation redis_conn: broker_connection "new_redis_broker url" "br_connect L" "br_close L" br_connected for url L
proof
  show "\<not> br_connected (new_redis_broker url)" by (simp add: new_redis_broker_def br_connected_def)
  show "\<not> br_connected b'" if "br_close L b s = (Inr (), b', s')" for b s b' s'
    using br_close_ok [OF that] by (simp add: br_connected_def)
qed (rule br_connect_ok)

interpretation kafka_conn: broker_connection "new_kafka_object url" "kafka_connect L" "kafka_close L K queues"
    "\<lambda>b. ko_producer b \<noteq> None \<and> ko_admin b \<noteq> None" for url L K queues
  by unfold_locales
    (auto simp: new_kafka_object_def kafka_connect_def kafka_close_def Let_def split: prod.splits sum.splits dest: stop_with_ok)

interpretation rabbit_conn: broker_connection "new_rabbit_object url" "rabbit_connect L" "rabbit_close L"
    "\<lambda>b. ro_connection b \<noteq> None \<and> ro_channel b \<noteq> None" for url L
  by unfold_locales
    (auto simp: new_rabbit_object_def rabbit_connect_def rabbit_close_def Let_def split: prod.splits sum.splits dest: stop_with_ok)

text \<open>Without producer and admin client, closing is what the model of the Kafka adapter does.\<close>

lemma kafka_close_state:
  assumes "ko_producer b = None" and "ko_admin b = None"
  shows "kafka_close L K queues b s = (case kb_close K queues (ko_state b) s of (kb, s1) \<Rightarrow> (Inr (), b\<lparr>ko_state := kb\<rparr>, s1))"
  using assms by (cases b) (simp add: kafka_close_def kb_close_def Let_def)

section \<open>Which methods need what\<close>

lemma script_of_names: "script_of m = Some n \<Longrightarrow> n \<in> set script_names"
  by (cases m rule: script_of.cases) (auto simp: script_names_def)

text \<open>
  C37: What a \<open>RedisBroker\<close> can do in each state of its connection. After \<open>connect\<close> returned, no method
  fails for want of a connection. When \<open>connect\<close> raised, the client is set all the same, so publishing and
  leasing go to Redis, while a broker that never connected has no script and every lease
  operation raises \<open>KeyError\<close>. After \<open>close\<close> returned, the methods that use the client raise
  \<open>RuntimeError\<close>, but the lease operations and the promotion of scheduled tasks still run through the
  scripts of the closed client.
\<close>

theorem redis_connection_contract:
  assumes "br_connect L b s = (r, b1, s1)" and "br_close L b1 s2 = (r', b2, s3)"
  shows "(r = Inr () \<longrightarrow> (\<forall>m. method_raises m b1 = None)) \<and>
    (\<forall>m. script_of m = None \<longrightarrow> method_raises m b1 = None) \<and>
    (\<forall>m n. script_of m = Some n \<longrightarrow> method_raises m (new_redis_broker url) = Some (PyKeyError n)) \<and>
    (r' = Inr () \<longrightarrow> (\<forall>m. method_raises m b2 = (if script_of m \<noteq> None then method_raises m b1
       else if m = MNack \<or> m = MAck False then None
       else Some (PyRuntimeError ''RedisBroker not connected - call connect() first''))))"
proof -
  obtain h where h: "br_client b1 = Some h" using br_connect_client [OF assms(1)] by blast
  have "\<forall>m. script_of m = None \<longrightarrow> method_raises m b1 = None"
    using h by (simp add: method_raises_def br_get_client_def)
  moreover have "method_raises m b1 = None" if "r = Inr ()" for m
    using br_connect_ok [of L b s b1 s1] assms(1) that h script_of_names [of m]
    by (auto simp: method_raises_def br_get_client_def br_connected_def list_all_iff split: option.splits) force
  moreover have "\<forall>m n. script_of m = Some n \<longrightarrow> method_raises m (new_redis_broker url) = Some (PyKeyError n)"
    by (simp add: method_raises_def new_redis_broker_def)
  moreover have "method_raises m b2 = (if script_of m \<noteq> None then method_raises m b1
       else if m = MNack \<or> m = MAck False then None
       else Some (PyRuntimeError ''RedisBroker not connected - call connect() first''))" if "r' = Inr ()" for m
    using br_close_ok [of L b1 s2 b2 s3] assms(2) that by (auto simp: method_raises_def br_get_client_def)
  ultimately show ?thesis by blast
qed

text \<open>A library whose server answers, and whose package has every file.\<close>

definition ref_library :: "(nat, nat, string) redis_library" where
  "ref_library = \<lparr>rl_from_url = (\<lambda>_ _ _ s. (s, Suc s)), rl_ping = (\<lambda>_ s. (Inr (), s)), rl_register_script = (\<lambda>_ src. src),
     rl_aclose = (\<lambda>_ s. (Inr (), s)), rl_read_text = Inr\<rparr>"

theorem redis_connection_contract_witness:
  "\<exists>b1 b2 s. br_connect ref_library (new_redis_broker ''redis://localhost'') 0 = (Inr (), b1, s) \<and>
     method_raises MAcquire b1 = None \<and> br_close ref_library b1 s = (Inr (), b2, s) \<and>
     method_raises MAcquire b2 = None \<and>
     method_raises MPublish b2 = Some (PyRuntimeError ''RedisBroker not connected - call connect() first'')"
proof -
  obtain b1 s where c: "br_connect ref_library (new_redis_broker ''redis://localhost'') 0 = (Inr (), b1, s)"
    by (simp add: br_connect_def ref_library_def new_redis_broker_def script_names_def load_lua_def)
  obtain b2 where d: "br_close ref_library b1 s = (Inr (), b2, s)"
    by (cases "br_client b1") (auto simp: br_close_def ref_library_def)
  from redis_connection_contract [OF c d] c d show ?thesis by fastforce
qed

end
