(* ===== verification/Broker_Protocol.thy ===== *)
theory Broker_Protocol
  imports Broker_Connection Worker_Loop
begin

text \<open>
  \<open>dtq/broker/base.py\<close>: the protocol that every broker adapter implements, as a record of its methods, and
  the three adapters as values of it: each method is that of the adapter's own theory on the adapter's
  object, with what it does when the connection is missing. The locale \<open>lease_contract\<close> is what the
  protocol promises of \<open>lease\<close> and \<open>get_dlq_messages\<close>; all three adapters interpret it.
\<close>

section \<open>The protocol\<close>

text \<open>
  A method of an adapter with the object \<open>'b\<close> on a service in state \<open>'s\<close>. \<open>Leased\<close> is \<open>kleased\<close>: an envelope and
  the identifier of the message, a string.
\<close>

type_synonym ('b, 's, 'a) broker_call = "'b \<Rightarrow> 's \<Rightarrow> (exn + 'a) \<times> 'b \<times> 's"

record ('b, 's) broker =
  bp_connect :: "('b, 's, unit) broker_call"
  bp_close :: "('b, 's, unit) broker_call"
  bp_ensure_queue :: "string \<Rightarrow> ('b, 's, unit) broker_call"
  bp_publish :: "string \<Rightarrow> task_envelope \<Rightarrow> ('b, 's, unit) broker_call"
  bp_lease :: "string \<Rightarrow> string \<Rightarrow> string \<Rightarrow> nat \<Rightarrow> ('b, 's, kleased list) broker_call"
  bp_ack :: "string \<Rightarrow> string \<Rightarrow> string list \<Rightarrow> ('b, 's, unit) broker_call"
  bp_nack :: "string \<Rightarrow> string \<Rightarrow> string list \<Rightarrow> ('b, 's, unit) broker_call"
  bp_reclaim :: "string \<Rightarrow> string \<Rightarrow> string \<Rightarrow> nat \<Rightarrow> nat \<Rightarrow> ('b, 's, kleased list) broker_call"
  bp_schedule :: "string \<Rightarrow> task_envelope \<Rightarrow> timestamp \<Rightarrow> ('b, 's, unit) broker_call"
  bp_promote_scheduled :: "string \<Rightarrow> ('b, 's, nat) broker_call"
  bp_dead_letter :: "string \<Rightarrow> task_envelope \<Rightarrow> string \<Rightarrow> ('b, 's, unit) broker_call"
  bp_get_dlq_messages :: "string \<Rightarrow> nat \<Rightarrow> ('b, 's, kleased list) broker_call"
  bp_queue_depth :: "string \<Rightarrow> ('b, 's, int) broker_call"
  bp_in_flight_count :: "string \<Rightarrow> string \<Rightarrow> ('b, 's, int) broker_call"

text \<open>Calls that leave the object as it is.\<close>

definition calls :: "('s \<Rightarrow> (exn + 'a) \<times> 's) \<Rightarrow> ('b, 's, 'a) broker_call" where
  "calls f b s = (case f s of (r, s1) \<Rightarrow> (r, b, s1))"

definition returns :: "('s \<Rightarrow> 'a \<times> 's) \<Rightarrow> 's \<Rightarrow> (exn + 'a) \<times> 's" where
  "returns f s = (case f s of (x, s1) \<Rightarrow> (Inr x, s1))"

section \<open>RedisBroker\<close>

text \<open>The identifier of a stream entry is a number here; the protocol passes it as a string.\<close>

definition as_leased :: "leased \<Rightarrow> kleased" where
  "as_leased m = \<lparr>kl_envelope = envelope m, kl_msg_id = str_int (int (broker_msg_id m))\<rparr>"

definition entry_ids :: "string list \<Rightarrow> nat list" where
  "entry_ids ids = List.map_filter (\<lambda>i. map_option nat (parse_int i)) ids"

definition guarded :: "redis_method \<Rightarrow> ('s \<Rightarrow> (exn + 'a) \<times> 's) \<Rightarrow> (('h, 'c) redis_broker, 's, 'a) broker_call" where
  "guarded m f b s = (case method_raises m b of Some e \<Rightarrow> (Inl e, b, s) | None \<Rightarrow> calls f b s)"

definition redis_adapter ::
  "('s, 'h, 'c) redis_library \<Rightarrow> ('s, 'v) redis \<Rightarrow> 'v codec \<Rightarrow> timestamp \<Rightarrow> (('h, 'c) redis_broker, 's) broker" where
  "redis_adapter L R C now = \<lparr>
     bp_connect = br_connect L,
     bp_close = br_close L,
     bp_ensure_queue = (\<lambda>queue. guarded MEnsureQueue (ensure_queue R queue)),
     bp_publish = (\<lambda>queue e. guarded MPublish (\<lambda>s. (Inr (), publish R C queue e s))),
     bp_lease = (\<lambda>queue grp consumer count. guarded MLease
        (\<lambda>s. case lease R C queue grp consumer count s of (r, s1) \<Rightarrow> (map_sum id (map as_leased) r, s1))),
     bp_ack = (\<lambda>queue grp ids. guarded (MAck (ids \<noteq> [])) (\<lambda>s. (Inr (), ack R queue grp (entry_ids ids) s))),
     bp_nack = (\<lambda>queue grp ids. guarded MNack (\<lambda>s. (Inr (), nack queue grp (entry_ids ids) s))),
     bp_reclaim = (\<lambda>queue grp consumer min_idle_ms count. guarded MReclaim
        (\<lambda>s. case reclaim R C queue grp consumer min_idle_ms count s of (r, s1) \<Rightarrow> (map_sum id (map as_leased) r, s1))),
     bp_schedule = (\<lambda>queue e run_at. guarded MSchedule (\<lambda>s. (Inr (), schedule R C queue e run_at s))),
     bp_promote_scheduled = (\<lambda>queue. guarded MPromote (returns (promote_scheduled R now queue))),
     bp_dead_letter = (\<lambda>queue e reason. guarded MDeadLetter (\<lambda>s. (Inr (), dead_letter R C queue e reason s))),
     bp_get_dlq_messages = (\<lambda>queue count. guarded MGetDlq
        (\<lambda>s. (map_sum id (map as_leased) (get_dlq_messages R C queue count s), s))),
     bp_queue_depth = (\<lambda>queue. guarded MDepth (\<lambda>s. (Inr (int (queue_depth R queue s)), s))),
     bp_in_flight_count = (\<lambda>queue grp. guarded MInFlight (\<lambda>s. (Inr (int (in_flight_count R queue grp s)), s)))\<rparr>"

section \<open>KafkaBroker\<close>

text \<open>
  A method call on an attribute that is \<open>None\<close> raises. Without a producer nothing can be sent, and creating
  topics without an admin client fails, which \<open>ensure_queue\<close> ignores like any other failure.
\<close>

definition none_error :: exn where
  "none_error = PyAttributeError ''NoneType object has no attribute''"

definition cluster_of :: "('k, 'b) kafka \<Rightarrow> 'h kafka_object \<Rightarrow> ('k, 'b) kafka" where
  "cluster_of K b =
     (let K1 = (if ko_producer b = None then K\<lparr>k_send := \<lambda>_ _ _ s. (Inl none_error, s)\<rparr> else K)
      in if ko_admin b = None then K1\<lparr>k_create_topic := \<lambda>_ _ s. (Inl none_error, s)\<rparr> else K1)"

definition on_state :: "('k \<Rightarrow> (exn + 'a) \<times> kbroker \<times> 'k) \<Rightarrow> ('h kafka_object, 'k, 'a) broker_call" where
  "on_state f b s = (case f s of (r, kb, s1) \<Rightarrow> (r, b\<lparr>ko_state := kb\<rparr>, s1))"

definition kafka_adapter ::
  "('k, 'h) kafka_clients \<Rightarrow> ('k, 'b) kafka \<Rightarrow> 'b bodies \<Rightarrow> string list \<Rightarrow> timestamp \<Rightarrow> ('h kafka_object, 'k) broker" where
  "kafka_adapter L K J queues now = \<lparr>
     bp_connect = kafka_connect L,
     bp_close = kafka_close L K queues,
     bp_ensure_queue = (\<lambda>queue b. calls (\<lambda>s. (Inr (), kb_ensure_queue (cluster_of K b) queue s)) b),
     bp_publish = (\<lambda>queue e b. calls (kb_publish (cluster_of K b) J queue e) b),
     bp_lease = (\<lambda>queue grp consumer count b. on_state (kb_lease K J queue grp count (ko_state b)) b),
     bp_ack = (\<lambda>queue grp ids b. calls (kb_ack K ids (ko_state b)) b),
     bp_nack = (\<lambda>queue grp ids. calls (\<lambda>s. (Inr (), kb_nack ids s))),
     bp_reclaim = (\<lambda>queue grp consumer min_idle_ms count. calls (returns (kb_reclaim queue grp))),
     bp_schedule = (\<lambda>queue e run_at b. calls (kb_schedule (cluster_of K b) J queue e run_at) b),
     bp_promote_scheduled = (\<lambda>queue b. on_state (kb_promote_scheduled (cluster_of K b) J now queue (ko_state b)) b),
     bp_dead_letter = (\<lambda>queue e reason b. calls (kb_dead_letter (cluster_of K b) J queue e reason) b),
     bp_get_dlq_messages = (\<lambda>queue count. calls (kb_get_dlq_messages K J queue count)),
     bp_queue_depth = (\<lambda>queue. calls (\<lambda>s. (Inr (kb_queue_depth queue), s))),
     bp_in_flight_count = (\<lambda>queue grp. calls (\<lambda>s. (Inr (kb_in_flight_count queue grp), s)))\<rparr>"

section \<open>RabbitMQBroker\<close>

definition no_channel :: "('k, 'b) rabbit" where
  "no_channel = \<lparr>q_declare_exchange = (\<lambda>_ s. (Inl none_error, s)), q_declare_queue = (\<lambda>_ _ s. (Inl none_error, s)),
     q_bind = (\<lambda>_ _ _ s. (Inl none_error, s)), q_publish = (\<lambda>_ _ _ _ s. (Inl none_error, s)),
     q_consume = (\<lambda>_ _ s. (Inl none_error, s)), q_ack = (\<lambda>_ s. (Inl none_error, s)), q_nack = (\<lambda>_ s. (Inl none_error, s)),
     q_get = (\<lambda>_ s. (Inl none_error, s)), q_declare_passive = (\<lambda>_ _. Inl none_error)\<rparr>"

definition channel_of :: "('k, 'b) rabbit \<Rightarrow> 'h rabbit_object \<Rightarrow> ('k, 'b) rabbit" where
  "channel_of M b = (if ro_channel b = None then no_channel else M)"

text \<open>\<open>rounds\<close> are the deliveries during a lease, \<open>parse\<close> reads a dead letter in either form.\<close>

definition rabbit_adapter ::
  "('k, 'h) amqp_clients \<Rightarrow> ('k, 'b) rabbit \<Rightarrow> 'b bodies \<Rightarrow> ('b \<Rightarrow> exn + task_envelope) \<Rightarrow> (nat \<times> 'b) list list \<Rightarrow>
   timestamp \<Rightarrow> ('h rabbit_object, 'k) broker" where
  "rabbit_adapter L M J parse rounds now = \<lparr>
     bp_connect = rabbit_connect L,
     bp_close = rabbit_close L,
     bp_ensure_queue = (\<lambda>queue b. calls (rb_ensure_queue (channel_of M b) queue) b),
     bp_publish = (\<lambda>queue e b. calls (rb_publish (channel_of M b) J queue e) b),
     bp_lease = (\<lambda>queue grp consumer count b s.
        case rb_lease (channel_of M b) J queue consumer count rounds (ro_state b) s of (r, rb, s1) \<Rightarrow> (r, b\<lparr>ro_state := rb\<rparr>, s1)),
     bp_ack = (\<lambda>queue grp ids b. calls (\<lambda>s. (Inr (), rb_ack (channel_of M b) ids s)) b),
     bp_nack = (\<lambda>queue grp ids b. calls (\<lambda>s. (Inr (), rb_nack (channel_of M b) ids s)) b),
     bp_reclaim = (\<lambda>queue grp consumer min_idle_ms count. calls (\<lambda>s. (Inr (rb_reclaim queue), s))),
     bp_schedule = (\<lambda>queue e run_at b. calls (rb_schedule (channel_of M b) J now queue e run_at) b),
     bp_promote_scheduled = (\<lambda>queue. calls (\<lambda>s. (Inr (rb_promote_scheduled queue), s))),
     bp_dead_letter = (\<lambda>queue e reason b. calls (rb_dead_letter (channel_of M b) J queue e reason) b),
     bp_get_dlq_messages = (\<lambda>queue count b. calls
        (if ro_channel b = None then (\<lambda>s. (Inl none_error, s)) else rb_get_dlq_messages M parse queue count) b),
     bp_queue_depth = (\<lambda>queue b. calls (\<lambda>s. (Inr (int (rb_queue_depth (channel_of M b) queue s)), s)) b),
     bp_in_flight_count = (\<lambda>queue grp b. calls (\<lambda>s. (Inr (int (rb_in_flight_count (channel_of M b) queue s)), s)) b)\<rparr>"

section \<open>How many messages a call returns\<close>

text \<open>
  The contract of the docstrings: a lease returns up to \<open>count\<close> messages, and so does a look at the dead
  letters. \<open>inv\<close> is what the adapter keeps between two leases of a consumer group.
\<close>

locale lease_contract =
  fixes B :: "('b, 's) broker" and inv :: "string \<Rightarrow> string \<Rightarrow> 'b \<Rightarrow> 's \<Rightarrow> bool"
  assumes lease_le: "inv q g b s \<Longrightarrow> bp_lease B q g c n b s = (Inr ms, b', s') \<Longrightarrow> length ms \<le> n \<and> inv q g b' s'"
    and dlq_le: "bp_get_dlq_messages B q n b s = (Inr ms, b', s') \<Longrightarrow> length ms \<le> n"
begin

text \<open>Whichever adapter is behind the protocol, a batch of \<open>min(semaphore, 5)\<close> fits into as many free slots.\<close>

lemma poll_fits:
  assumes "inv q g b s" and "0 \<le> sem" and "bp_lease B q g c (nat (min sem 5)) b s = (Inr ms, b', s')"
  shows "int (length ms) \<le> sem \<and> length ms \<le> 5 \<and> inv q g b' s'"
  using lease_le [OF assms(1,3)] assms(2) by auto

end

lemma parse_messages_length: "parse_messages C idle ms = Inr ls \<Longrightarrow> length ls = length ms"
  by (induction ms arbitrary: ls) (auto split: sum.splits)

lemma lease_at_most:
  assumes "redis_service R V before" and "lease R C q g c n s = (Inr ms, s')"
  shows "length ms \<le> n"
proof (cases "group_at (V s) (q_key q) g")
  case None
  with redis_service.xreadgroup_nogroup [OF assms(1) key_types(5), of s q g c n] assms(2) show ?thesis
    by (auto simp: lease_def split: prod.splits sum.splits)
next
  case (Some gr)
  with redis_service.xreadgroup_ok [OF assms(1) key_types(5), of s q g c n] assms(2) parse_messages_length [of C 0]
  show ?thesis
    by (fastforce simp: lease_def ks_xreadgroup_def Let_def split: prod.splits sum.splits if_splits)
qed


lemma get_dlq_at_most:
  assumes "redis_service R V before" and "get_dlq_messages R C q n s = Inr ms"
  shows "length ms \<le> n"
  using assms parse_messages_length [of C 0 "r_xrange R (dlq_key q) n s"] redis_service.xrange [OF assms(1), of "dlq_key q" n s]
  by (simp add: get_dlq_messages_def)

lemma redis_lease_contract:
  assumes "redis_service R V before"
  shows "lease_contract (redis_adapter L R C now) (\<lambda>_ _ _ _. True)"
proof
  fix q g c n b s ms b' s'
  assume "bp_lease (redis_adapter L R C now) q g c n b s = (Inr ms, b', s')"
  then obtain ls where "lease R C q g c n s = (Inr ls, s')" "ms = map as_leased ls"
    by (auto simp: redis_adapter_def guarded_def calls_def split: option.splits prod.splits)
      (metis map_sum.simps(1) map_sum.simps(2) old.sum.exhaust sum.inject(2) Inl_Inr_False)
  with lease_at_most [OF assms] show "length ms \<le> n \<and> True" by simp
next
  fix q n b s ms b' s'
  assume "bp_get_dlq_messages (redis_adapter L R C now) q n b s = (Inr ms, b', s')"
  then show "length ms \<le> n" using get_dlq_at_most [OF assms, of C q n s]
    by (cases "get_dlq_messages R C q n s") (auto simp: redis_adapter_def guarded_def calls_def split: option.splits)
qed

lemma lease_records_length: "length (lease_records parse ms) \<le> length ms"
  by (induction ms) (auto split: sum.split)

lemma getmany_at_most:
  assumes "kafka_service K W" and "k_getmany K c n s = (Inr res, s')" and "kv_sub (W s) c = Some (g, t)"
  shows "length (lease_records parse (concat (map snd res))) \<le> n" and "kv_sub (W s') = kv_sub (W s)"
  using kafka_service.getmany_ok [OF assms] lease_records_length [of parse "concat (map snd res)"]
  by (simp_all add: length_concat comp_def)

lemma kafka_lease_contract:
  assumes "kafka_service K W"
  shows "lease_contract (kafka_adapter L K J queues now) (\<lambda>q g b s. consumer_of (W s) q g (ko_state b))"
proof
  fix q g b s c n ms b' s'
  assume inv: "consumer_of (W s) q g (ko_state b)"
    and "bp_lease (kafka_adapter L K J queues now) q g c n b s = (Inr ms, b', s')"
  then obtain kc kb s1 res where e: "ensure_consumer K q g (ko_state b) s = (Inr kc, kb, s1)" "b' = b\<lparr>ko_state := kb\<rparr>"
      and g: "k_getmany K kc n s1 = (Inr res, s')" "ms = lease_records (parse_envelope J) (concat (map snd res))"
    by (auto simp: kafka_adapter_def on_state_def kb_lease_def split: prod.splits sum.splits)
  note sub = kafka_service.ensure_consumer_sub [OF assms e(1) inv]
  with getmany_at_most [OF assms g(1)] g(2) e(2) show "length ms \<le> n \<and> consumer_of (W s') q g (ko_state b')"
    by (simp add: consumer_of_def)
next
  fix q n b s ms b' s'
  assume "bp_get_dlq_messages (kafka_adapter L K J queues now) q n b s = (Inr ms, b', s')"
  then obtain c s1 s2 res s3 where c: "k_consumer K (dlq_topic q) (''dtq-dlq-reader-'' @ q) s = (c, s1)"
      and st: "k_start K c s1 = (Inr (), s2)" and g: "k_getmany K c n s2 = (Inr res, s3)"
      and ms: "ms = lease_records (parse_wrapped J) (concat (map snd res))"
    by (auto simp: kafka_adapter_def calls_def kb_get_dlq_messages_def Let_def split: prod.splits sum.splits)
  have sub: "kv_sub (W s1) c = Some (''dtq-dlq-reader-'' @ q, dlq_topic q)" using kafka_service.consumer_new [OF assms c] by simp
  with kafka_service.start_ok [OF assms st] have "kv_sub (W s2) c = Some (''dtq-dlq-reader-'' @ q, dlq_topic q)" by metis
  from getmany_at_most(1) [OF assms g this] show "length ms \<le> n" by (simp add: ms)
qed

lemma rb_dlq_loop_length:
  assumes "rb_dlq_loop M parse dlq n ms0 s = (Inr ms, s')"
  shows "length ms \<le> length ms0 + n"
  using assms
proof (induction n arbitrary: ms0 s)
  case (Suc n)
  then show ?case
    by (auto simp: Let_def split: prod.splits sum.splits option.splits if_splits dest!: Suc.IH)
qed simp

lemma rabbit_lease_contract: "lease_contract (rabbit_adapter L M J parse rounds now) (\<lambda>_ _ _ _. True)"
proof
  fix q g b s c n ms b' s'
  assume "bp_lease (rabbit_adapter L M J parse rounds now) q g c n b s = (Inr ms, b', s')"
  then show "length ms \<le> n \<and> True"
    using lease_loop_fifo [of "channel_of M b" J "rq_name q" n rounds "[]"]
    by (fastforce simp: rabbit_adapter_def rb_lease_def split: prod.splits sum.splits)
next
  fix q n b s ms b' s'
  assume "bp_get_dlq_messages (rabbit_adapter L M J parse rounds now) q n b s = (Inr ms, b', s')"
  then show "length ms \<le> n"
    using rb_dlq_loop_length [of M parse "rdlq_name q" n "[]" s]
    by (auto simp: rabbit_adapter_def calls_def rb_get_dlq_messages_def split: if_splits prod.splits)
qed

text \<open>A server that keeps its contract gives an adapter that keeps the protocol's.\<close>

sublocale redis_service \<subseteq> redis_lease: lease_contract "redis_adapter L R C now" "\<lambda>_ _ _ _. True" for L C now
  by (rule redis_lease_contract) (rule redis_service_axioms)

sublocale kafka_service \<subseteq> kafka_lease: lease_contract "kafka_adapter L K J queues now"
    "\<lambda>q g b s. consumer_of (W s) q g (ko_state b)" for L J queues now
  by (rule kafka_lease_contract) (rule kafka_service_axioms)

interpretation rabbit_lease: lease_contract "rabbit_adapter L M J parse rounds now" "\<lambda>_ _ _ _. True"
    for L M J parse rounds now
  by (rule rabbit_lease_contract)

interpretation ref_redis_lease: lease_contract "redis_adapter L (ref_redis :: (task_envelope keyspace, task_envelope) redis) ref_codec now"
    "\<lambda>_ _ _ _. True" for L now
  by (rule redis_lease_contract) (rule ref_redis_service)

interpretation ref_kafka_lease: lease_contract "kafka_adapter L ref_kafka J queues now"
    "\<lambda>q g b s. consumer_of (cluster_view s) q g (ko_state b)" for L J queues now
  by (rule kafka_lease_contract) (rule ref_kafka_service)

end
