(* ===== verification/Logging_Setup.thy ===== *)
theory Logging_Setup
  imports Broker_Factory
begin

text \<open>
  The two set-ups of structlog: \<open>configure_logging\<close> of \<open>observability/logging.py\<close> and the one of the
  worker's entry point. The configuration is the value that the library is given; what it prints is
  not modelled.
\<close>

datatype processor = MergeContextvars | AddLogLevel | TimeStamperIso | StackInfoRenderer | FormatExcInfo | UnicodeDecoder | JSONRenderer

record log_config =
  lc_processors :: "processor list"
  lc_level :: nat
  lc_cache :: bool

definition upper_char :: "char \<Rightarrow> char" where
  "upper_char c = (let n = of_char c :: nat in if 97 \<le> n \<and> n \<le> 122 then char_of (n - 32) else c)"

definition upper :: "string \<Rightarrow> string" where
  "upper s = map upper_char s"

definition log_levels :: "(string \<times> nat) list" where
  "log_levels = [(''DEBUG'', 10), (''INFO'', 20), (''WARNING'', 30), (''ERROR'', 40), (''CRITICAL'', 50)]"

definition configure_logging :: "string \<Rightarrow> log_config" where
  "configure_logging level =
     \<lparr>lc_processors = [MergeContextvars, AddLogLevel, TimeStamperIso, StackInfoRenderer, FormatExcInfo, UnicodeDecoder, JSONRenderer],
      lc_level = (case map_of log_levels (upper level) of None \<Rightarrow> 20 | Some n \<Rightarrow> n),
      lc_cache = True\<rparr>"

definition worker_logging :: log_config where
  "worker_logging =
     \<lparr>lc_processors = [MergeContextvars, AddLogLevel, TimeStamperIso, StackInfoRenderer, FormatExcInfo, JSONRenderer],
      lc_level = 20, lc_cache = False\<rparr>"

text \<open>
  Every level that can be asked for lets errors through except \<open>CRITICAL\<close>, an unknown name means
  \<open>INFO\<close>, and the worker logs at the level that the default of the other function has.
\<close>

lemma log_level_range: "lc_level (configure_logging level) \<in> {10, 20, 30, 40, 50}"
  by (auto simp: configure_logging_def log_levels_def split: option.split)

lemma log_level_unknown: "upper level \<notin> fst ` set log_levels \<Longrightarrow> lc_level (configure_logging level) = 20"
  by (simp add: configure_logging_def map_of_eq_None_iff [symmetric])

lemma upper_upper [simp]: "upper (upper s) = upper s"
proof -
  have "upper_char (upper_char c) = upper_char c" for c
    by (cases "97 \<le> (of_char c :: nat) \<and> (of_char c :: nat) \<le> 122") (auto simp: upper_char_def Let_def)
  then show ?thesis by (simp add: upper_def)
qed

lemma log_level_case: "configure_logging (upper level) = configure_logging level"
  by (simp add: configure_logging_def)

lemma worker_logging_level: "lc_level worker_logging = lc_level (configure_logging ''INFO'')"
  by (simp add: worker_logging_def configure_logging_def log_levels_def upper_def upper_char_def)

end
