(* ===== verification/Schema.thy ===== *)
theory Schema
  imports Core_Models
begin

text \<open>
  The schema of the database: the migration \<open>001_initial.py\<close> as the statements that \<open>upgrade\<close> and
  \<open>downgrade\<close> issue, the tables that \<open>dtq/store/tables.py\<close> declares, and \<open>init_db\<close> of \<open>database.py\<close>,
  which creates the latter. Data definition in Postgres, and \<open>create_all\<close> of SQLAlchemy, are a parameter
  with the laws \<open>ddl_service\<close> over a catalog of the types, tables and indexes in the order of their creation.
\<close>

section \<open>Catalogs\<close>

datatype col_type = UUID | Text | JSONB | SmallInteger | Integer | BigInteger | DateTime | Enum string

text \<open>A foreign key names a table and a column, and whether a deletion cascades.\<close>

record column =
  cl_name :: string
  cl_type :: col_type
  cl_nullable :: bool
  cl_primary_key :: bool
  cl_server_default :: "string option"
  cl_foreign_key :: "(string \<times> string \<times> bool) option"

record table_def =
  tb_name :: string
  tb_columns :: "column list"
  tb_unique :: "string list list"
  tb_comment :: "string option"

record index_def =
  ix_name :: string
  ix_table :: string
  ix_columns :: "string list"
  ix_unique :: bool
  ix_where :: "string option"

record catalog =
  ct_types :: "(string \<times> string list) list"
  ct_tables :: "table_def list"
  ct_indexes :: "index_def list"

definition table_at :: "catalog \<Rightarrow> string \<Rightarrow> table_def option" where
  "table_at k n = List.find (\<lambda>t. tb_name t = n) (ct_tables k)"

definition free_name :: "string \<Rightarrow> catalog \<Rightarrow> bool" where
  "free_name n k \<longleftrightarrow> n \<notin> set (map fst (ct_types k)) \<and> n \<notin> set (map tb_name (ct_tables k)) \<and> n \<notin> set (map ix_name (ct_indexes k))"

text \<open>The type of a column exists, and its foreign key points to a primary key.\<close>

definition column_ok :: "catalog \<Rightarrow> column \<Rightarrow> bool" where
  "column_ok k c \<longleftrightarrow> (case cl_type c of Enum n \<Rightarrow> n \<in> set (map fst (ct_types k)) | _ \<Rightarrow> True) \<and>
     (case cl_foreign_key c of
        None \<Rightarrow> True
      | Some (n, col, _) \<Rightarrow> (case table_at k n of
            None \<Rightarrow> False
          | Some t \<Rightarrow> list_ex (\<lambda>c'. cl_name c' = col \<and> cl_primary_key c') (tb_columns t)))"

definition table_ok :: "catalog \<Rightarrow> table_def \<Rightarrow> bool" where
  "table_ok k t \<longleftrightarrow> free_name (tb_name t) k \<and> list_all (column_ok k) (tb_columns t)"

definition index_ok :: "catalog \<Rightarrow> index_def \<Rightarrow> bool" where
  "index_ok k i \<longleftrightarrow> free_name (ix_name i) k \<and> (case table_at k (ix_table i) of
       None \<Rightarrow> False | Some t \<Rightarrow> list_all (\<lambda>n. n \<in> set (map cl_name (tb_columns t))) (ix_columns i))"

definition refers_to :: "string \<Rightarrow> table_def \<Rightarrow> bool" where
  "refers_to n t \<longleftrightarrow> list_ex (\<lambda>c. case cl_foreign_key c of None \<Rightarrow> False | Some (m, _) \<Rightarrow> m = n) (tb_columns t)"

definition droppable :: "catalog \<Rightarrow> string \<Rightarrow> bool" where
  "droppable k n \<longleftrightarrow> n \<in> set (map tb_name (ct_tables k)) \<and> list_all (\<lambda>t. tb_name t = n \<or> \<not> refers_to n t) (ct_tables k)"

definition uses_type :: "string \<Rightarrow> table_def \<Rightarrow> bool" where
  "uses_type n t \<longleftrightarrow> list_ex (\<lambda>c. cl_type c = Enum n) (tb_columns t)"

definition add_type :: "string \<Rightarrow> string list \<Rightarrow> catalog \<Rightarrow> catalog" where
  "add_type n vs k = k\<lparr>ct_types := ct_types k @ [(n, vs)]\<rparr>"

definition add_table :: "table_def \<Rightarrow> catalog \<Rightarrow> catalog" where
  "add_table t k = k\<lparr>ct_tables := ct_tables k @ [t]\<rparr>"

definition add_index :: "index_def \<Rightarrow> catalog \<Rightarrow> catalog" where
  "add_index i k = k\<lparr>ct_indexes := ct_indexes k @ [i]\<rparr>"

text \<open>A table is dropped with its indexes.\<close>

definition remove_table :: "string \<Rightarrow> catalog \<Rightarrow> catalog" where
  "remove_table n k = k\<lparr>ct_tables := filter (\<lambda>t. tb_name t \<noteq> n) (ct_tables k), ct_indexes := filter (\<lambda>i. ix_table i \<noteq> n) (ct_indexes k)\<rparr>"

definition remove_type :: "string \<Rightarrow> catalog \<Rightarrow> catalog" where
  "remove_type n k = k\<lparr>ct_types := filter (\<lambda>t. fst t \<noteq> n) (ct_types k)\<rparr>"

text \<open>The statements, when each succeeds and what it does.\<close>

datatype ddl_command =
    CreateType string "string list" | CreateTable table_def | CreateIndex index_def | DropTable string | DropType string

fun command_ok :: "ddl_command \<Rightarrow> catalog \<Rightarrow> bool" where
  "command_ok (CreateType n vs) k = free_name n k"
| "command_ok (CreateTable t) k = table_ok k t"
| "command_ok (CreateIndex i) k = index_ok k i"
| "command_ok (DropTable n) k = droppable k n"
| "command_ok (DropType n) k = list_all (\<lambda>t. \<not> uses_type n t) (ct_tables k)"

fun command_do :: "ddl_command \<Rightarrow> catalog \<Rightarrow> catalog" where
  "command_do (CreateType n vs) = add_type n vs"
| "command_do (CreateTable t) = add_table t"
| "command_do (CreateIndex i) = add_index i"
| "command_do (DropTable n) = remove_table n"
| "command_do (DropType n) = remove_type n"

fun commands_ok :: "ddl_command list \<Rightarrow> catalog \<Rightarrow> bool" where
  "commands_ok [] k \<longleftrightarrow> True"
| "commands_ok (x # xs) k \<longleftrightarrow> command_ok x k \<and> commands_ok xs (command_do x k)"

text \<open>A declared table comes with its indexes and its enumerations.\<close>

type_synonym declared = "table_def \<times> index_def list \<times> (string \<times> string list) list"

fun declare_commands :: "declared list \<Rightarrow> ddl_command list" where
  "declare_commands [] = []"
| "declare_commands ((t, is, es) # md) = map (\<lambda>(n, vs). CreateType n vs) es @ CreateTable t # map CreateIndex is @ declare_commands md"

section \<open>The service\<close>

text \<open>
  \<open>dd_create_type\<close> and \<open>dd_drop_type\<close> check first whether the type exists. \<open>dd_create_all\<close> takes the
  declared tables with their indexes and enumerations and creates those whose table is missing, in
  an order in which they can be created.
\<close>

record 'c ddl =
  dd_create_type :: "string \<Rightarrow> string list \<Rightarrow> 'c \<Rightarrow> exn + 'c"
  dd_create_table :: "table_def \<Rightarrow> 'c \<Rightarrow> exn + 'c"
  dd_create_index :: "index_def \<Rightarrow> 'c \<Rightarrow> exn + 'c"
  dd_drop_table :: "string \<Rightarrow> 'c \<Rightarrow> exn + 'c"
  dd_drop_type :: "string \<Rightarrow> 'c \<Rightarrow> exn + 'c"
  dd_create_all :: "declared list \<Rightarrow> 'c \<Rightarrow> exn + 'c"

locale ddl_service =
  fixes DD :: "'c ddl" and K :: "'c \<Rightarrow> catalog"
  assumes create_type: "free_name n (K c) \<Longrightarrow> \<exists>c'. dd_create_type DD n vs c = Inr c' \<and> K c' = add_type n vs (K c)"
    and create_type_present: "n \<in> set (map fst (ct_types (K c))) \<Longrightarrow> \<exists>c'. dd_create_type DD n vs c = Inr c' \<and> K c' = K c"
    and create_table: "table_ok (K c) t \<Longrightarrow> \<exists>c'. dd_create_table DD t c = Inr c' \<and> K c' = add_table t (K c)"
    and create_table_dup: "tb_name t \<in> set (map tb_name (ct_tables (K c))) \<Longrightarrow> \<exists>e. dd_create_table DD t c = Inl e"
    and create_index: "index_ok (K c) i \<Longrightarrow> \<exists>c'. dd_create_index DD i c = Inr c' \<and> K c' = add_index i (K c)"
    and drop_table: "droppable (K c) n \<Longrightarrow> \<exists>c'. dd_drop_table DD n c = Inr c' \<and> K c' = remove_table n (K c)"
    and drop_table_missing: "table_at (K c) n = None \<Longrightarrow> \<exists>e. dd_drop_table DD n c = Inl e"
    and drop_type: "list_all (\<lambda>t. \<not> uses_type n t) (ct_tables (K c)) \<Longrightarrow>
      \<exists>c'. dd_drop_type DD n c = Inr c' \<and> K c' = remove_type n (K c)"
    and create_all_present: "list_all (\<lambda>(t, is, es). tb_name t \<in> set (map tb_name (ct_tables (K c)))) md \<Longrightarrow>
      \<exists>c'. dd_create_all DD md c = Inr c' \<and> K c' = K c"
    and create_all_new: "commands_ok (declare_commands md) (K c) \<Longrightarrow>
      \<exists>c'. dd_create_all DD md c = Inr c' \<and> set (ct_tables (K c')) = set (ct_tables (K c)) \<union> set (map fst md) \<and>
        set (ct_indexes (K c')) = set (ct_indexes (K c)) \<union> set (concat (map (\<lambda>(t, is, es). is) md)) \<and>
        set (ct_types (K c')) = set (ct_types (K c)) \<union> set (concat (map (\<lambda>(t, is, es). es) md))"

section \<open>The migration\<close>

abbreviation plain :: "string \<Rightarrow> col_type \<Rightarrow> bool \<Rightarrow> column" where
  "plain n ty nullable \<equiv> \<lparr>cl_name = n, cl_type = ty, cl_nullable = nullable, cl_primary_key = False, cl_server_default = None,
     cl_foreign_key = None\<rparr>"

abbreviation primary :: "string \<Rightarrow> col_type \<Rightarrow> column" where
  "primary n ty \<equiv> \<lparr>cl_name = n, cl_type = ty, cl_nullable = False, cl_primary_key = True, cl_server_default = None, cl_foreign_key = None\<rparr>"

abbreviation defaulted :: "string \<Rightarrow> col_type \<Rightarrow> string \<Rightarrow> column" where
  "defaulted n ty v \<equiv> \<lparr>cl_name = n, cl_type = ty, cl_nullable = False, cl_primary_key = False, cl_server_default = Some v,
     cl_foreign_key = None\<rparr>"

definition task_state_values :: "string list" where
  "task_state_values = [''pending'', ''scheduled'', ''leased'', ''succeeded'', ''failed'', ''dead'', ''cancelled'']"

definition workflows_table :: table_def where
  "workflows_table = \<lparr>tb_name = ''workflows'', tb_columns =
     [primary ''id'' UUID, plain ''name'' Text False, plain ''spec'' JSONB False, defaulted ''state'' Text ''running'',
      defaulted ''created_at'' DateTime ''now()''], tb_unique = [], tb_comment = None\<rparr>"

definition tasks_table :: table_def where
  "tasks_table = \<lparr>tb_name = ''tasks'', tb_columns =
     [primary ''id'' UUID, plain ''queue'' Text False, plain ''task_name'' Text False, plain ''payload'' JSONB False,
      defaulted ''state'' (Enum ''task_state'') ''pending'', defaulted ''priority'' SmallInteger ''0'',
      defaulted ''attempt'' Integer ''0'', defaulted ''max_attempts'' Integer ''5'', plain ''dedup_key'' Text True,
      plain ''run_at'' DateTime True,
      (plain ''workflow_id'' UUID True)\<lparr>cl_foreign_key := Some (''workflows'', ''id'', False)\<rparr>,
      plain ''step_name'' Text True, defaulted ''created_at'' DateTime ''now()'', defaulted ''updated_at'' DateTime ''now()''],
     tb_unique = [], tb_comment = None\<rparr>"

definition tasks_dedup :: index_def where
  "tasks_dedup = \<lparr>ix_name = ''tasks_dedup'', ix_table = ''tasks'', ix_columns = [''queue'', ''dedup_key''], ix_unique = True,
     ix_where = Some ''dedup_key IS NOT NULL''\<rparr>"

definition tasks_state_queue :: index_def where
  "tasks_state_queue = \<lparr>ix_name = ''tasks_state_queue'', ix_table = ''tasks'', ix_columns = [''state'', ''queue'', ''priority'', ''created_at''],
     ix_unique = False, ix_where = None\<rparr>"

definition attempts_table :: table_def where
  "attempts_table = \<lparr>tb_name = ''attempts'', tb_columns =
     [primary ''id'' BigInteger, (plain ''task_id'' UUID False)\<lparr>cl_foreign_key := Some (''tasks'', ''id'', True)\<rparr>,
      plain ''attempt_no'' Integer False, plain ''worker_id'' Text False, plain ''fence'' BigInteger False,
      defaulted ''started_at'' DateTime ''now()'', plain ''finished_at'' DateTime True, plain ''outcome'' Text True,
      plain ''error_type'' Text True, plain ''error_repr'' Text True],
     tb_unique = [[''task_id'', ''attempt_no'']], tb_comment = None\<rparr>"

definition effects_table :: table_def where
  "effects_table = \<lparr>tb_name = ''effects'', tb_columns =
     [primary ''dedup_key'' Text, plain ''task_id'' UUID False, plain ''fence'' BigInteger False, plain ''result'' JSONB True,
      defaulted ''committed_at'' DateTime ''now()''], tb_unique = [], tb_comment = None\<rparr>"

fun issue :: "'c ddl \<Rightarrow> ddl_command \<Rightarrow> 'c \<Rightarrow> exn + 'c" where
  "issue DD (CreateType n vs) = dd_create_type DD n vs"
| "issue DD (CreateTable t) = dd_create_table DD t"
| "issue DD (CreateIndex i) = dd_create_index DD i"
| "issue DD (DropTable n) = dd_drop_table DD n"
| "issue DD (DropType n) = dd_drop_type DD n"

fun run_ddl :: "'c ddl \<Rightarrow> ddl_command list \<Rightarrow> 'c \<Rightarrow> exn + 'c" where
  "run_ddl DD [] c = Inr c"
| "run_ddl DD (x # xs) c = (case issue DD x c of Inl e \<Rightarrow> Inl e | Inr c' \<Rightarrow> run_ddl DD xs c')"

definition upgrade :: "'c ddl \<Rightarrow> 'c \<Rightarrow> exn + 'c" where
  "upgrade DD = run_ddl DD
     [CreateType ''task_state'' task_state_values, CreateTable workflows_table, CreateTable tasks_table, CreateIndex tasks_dedup,
      CreateIndex tasks_state_queue, CreateTable attempts_table, CreateTable effects_table]"

definition downgrade :: "'c ddl \<Rightarrow> 'c \<Rightarrow> exn + 'c" where
  "downgrade DD = run_ddl DD
     [DropTable ''effects'', DropTable ''attempts'', DropTable ''tasks'', DropTable ''workflows'', DropType ''task_state'']"

section \<open>The declared tables\<close>

text \<open>The defaults of these classes are Python's; only \<open>server_default\<close> reaches the database.\<close>

definition orm_tasks :: table_def where
  "orm_tasks = \<lparr>tb_name = ''tasks'', tb_columns =
     [primary ''id'' UUID, plain ''queue'' Text False, plain ''task_name'' Text False, plain ''payload'' JSONB False,
      plain ''state'' (Enum ''task_state'') False, plain ''priority'' SmallInteger False, plain ''attempt'' Integer False,
      plain ''max_attempts'' Integer False, plain ''dedup_key'' Text True, plain ''run_at'' DateTime True,
      plain ''workflow_id'' UUID True, plain ''step_name'' Text True, defaulted ''created_at'' DateTime ''now()'',
      defaulted ''updated_at'' DateTime ''now()''], tb_unique = [], tb_comment = None\<rparr>"

definition orm_attempts :: table_def where
  "orm_attempts = \<lparr>tb_name = ''attempts'', tb_columns =
     [primary ''id'' BigInteger, (plain ''task_id'' UUID False)\<lparr>cl_foreign_key := Some (''tasks'', ''id'', True)\<rparr>,
      plain ''attempt_no'' Integer False, plain ''worker_id'' Text False, plain ''fence'' BigInteger False,
      defaulted ''started_at'' DateTime ''now()'', plain ''finished_at'' DateTime True, plain ''outcome'' Text True,
      plain ''error_type'' Text True, plain ''error_repr'' Text True],
     tb_unique = [[''task_id'', ''attempt_no'']], tb_comment = Some ''Individual execution attempts of a task''\<rparr>"

definition orm_effects :: table_def where
  "orm_effects = \<lparr>tb_name = ''effects'', tb_columns =
     [primary ''dedup_key'' Text, plain ''task_id'' UUID False, plain ''fence'' BigInteger False, plain ''result'' JSONB True,
      defaulted ''committed_at'' DateTime ''now()''], tb_unique = [], tb_comment = None\<rparr>"

definition orm_workflows :: table_def where
  "orm_workflows = \<lparr>tb_name = ''workflows'', tb_columns =
     [primary ''id'' UUID, plain ''name'' Text False, plain ''spec'' JSONB False, plain ''state'' Text False,
      defaulted ''created_at'' DateTime ''now()''], tb_unique = [], tb_comment = None\<rparr>"

definition orm_metadata :: "declared list" where
  "orm_metadata =
     [(orm_tasks, [\<lparr>ix_name = ''tasks_dedup'', ix_table = ''tasks'', ix_columns = [''queue'', ''dedup_key''], ix_unique = True,
          ix_where = Some ''dedup_key IS NOT NULL''\<rparr>,
        \<lparr>ix_name = ''tasks_state_queue'', ix_table = ''tasks'', ix_columns = [''state'', ''queue'', ''priority'', ''created_at''],
          ix_unique = False, ix_where = None\<rparr>],
        [(''task_state'', [''pending'', ''scheduled'', ''leased'', ''succeeded'', ''failed'', ''dead'', ''cancelled''])]),
      (orm_attempts, [], []), (orm_effects, [], []), (orm_workflows, [], [])]"

definition init_db :: "'c ddl \<Rightarrow> 'c \<Rightarrow> exn + 'c" where
  "init_db DD = dd_create_all DD orm_metadata"

section \<open>The migration environment\<close>

text \<open>
  \<open>dtq/store/migrations/env.py\<close>: Alembic chooses the revision scripts that are to run (\<open>ab_pending\<close>), connects, and
  in offline mode renders the statements as text (\<open>ab_render\<close>). \<open>begin_transaction\<close> commits when its block ends and
  rolls back when it raises.
\<close>

record 'c alembic =
  ab_pending :: "'c \<Rightarrow> ('c ddl \<Rightarrow> 'c \<Rightarrow> exn + 'c) list"
  ab_connect :: "string \<Rightarrow> 'c \<Rightarrow> exn + unit"
  ab_render :: "string \<Rightarrow> string"

fun run_migrations :: "'c ddl \<Rightarrow> ('c ddl \<Rightarrow> 'c \<Rightarrow> exn + 'c) list \<Rightarrow> 'c \<Rightarrow> exn + 'c" where
  "run_migrations DD [] c = Inr c"
| "run_migrations DD (script # scripts) c =
     (case script DD c of Inl e \<Rightarrow> Inl e | Inr c' \<Rightarrow> run_migrations DD scripts c')"

definition begin_transaction :: "('c \<Rightarrow> exn + 'c) \<Rightarrow> 'c \<Rightarrow> (exn + unit) \<times> 'c" where
  "begin_transaction block c = (case block c of Inl e \<Rightarrow> (Inl e, c) | Inr c' \<Rightarrow> (Inr (), c'))"

definition do_run_migrations :: "'c alembic \<Rightarrow> 'c ddl \<Rightarrow> 'c \<Rightarrow> (exn + unit) \<times> 'c" where
  "do_run_migrations A DD c = begin_transaction (run_migrations DD (ab_pending A c)) c"

definition run_async_migrations :: "'c alembic \<Rightarrow> 'c ddl \<Rightarrow> string \<Rightarrow> 'c \<Rightarrow> (exn + unit) \<times> 'c" where
  "run_async_migrations A DD url c = (case ab_connect A url c of Inl e \<Rightarrow> (Inl e, c) | Inr _ \<Rightarrow> do_run_migrations A DD c)"

definition run_migrations_offline :: "'c alembic \<Rightarrow> string \<Rightarrow> string" where
  "run_migrations_offline A url = ab_render A url"

text \<open>The module: the mode decides; the URL is that of the settings. The result is the text of offline mode, if any.\<close>

definition migrate :: "'c alembic \<Rightarrow> 'c ddl \<Rightarrow> bool \<Rightarrow> settings \<Rightarrow> 'c \<Rightarrow> (exn + string option) \<times> 'c" where
  "migrate A DD offline cfg c =
     (if offline then (Inr (Some (run_migrations_offline A (cfg_database_url cfg))), c)
      else case run_async_migrations A DD (cfg_database_url cfg) c of
             (Inl e, c') \<Rightarrow> (Inl e, c')
           | (Inr _, c') \<Rightarrow> (Inr None, c'))"

text \<open>A migration that raises leaves the catalog as it was, however many statements had run.\<close>

lemma migrate_atomic: "migrate A DD offline cfg c = (Inl e, c') \<Longrightarrow> c' = c"
  by (auto simp: migrate_def run_async_migrations_def do_run_migrations_def begin_transaction_def split: if_splits sum.splits prod.splits)

section \<open>Running statements on a catalog\<close>

context ddl_service
begin

lemma issue_ok: "command_ok x (K c) \<Longrightarrow> \<exists>c'. issue DD x c = Inr c' \<and> K c' = command_do x (K c)"
  using create_type create_table create_index drop_table drop_type by (cases x) simp_all

lemma run_ok: "commands_ok xs (K c) \<Longrightarrow> \<exists>c'. run_ddl DD xs c = Inr c' \<and> K c' = fold command_do xs (K c)"
proof (induction xs arbitrary: c)
  case (Cons x xs)
  then obtain c1 where c1: "issue DD x c = Inr c1" "K c1 = command_do x (K c)" using issue_ok [of x c] by auto
  with Cons show ?case using Cons.IH [of c1] by auto
qed simp

end

section \<open>What the migration leaves\<close>

definition migration_names :: "string list" where
  "migration_names = [''task_state'', ''workflows'', ''tasks'', ''tasks_dedup'', ''tasks_state_queue'', ''attempts'', ''effects'']"

text \<open>A catalog in which every column and every index refers to what is there.\<close>

definition catalog_ok :: "catalog \<Rightarrow> bool" where
  "catalog_ok k \<longleftrightarrow> list_all (\<lambda>t. list_all (column_ok k) (tb_columns t)) (ct_tables k) \<and> list_all (\<lambda>i. table_at k (ix_table i) \<noteq> None) (ct_indexes k)"

definition upgraded :: "catalog \<Rightarrow> catalog" where
  "upgraded k = k\<lparr>ct_types := ct_types k @ [(''task_state'', task_state_values)],
     ct_tables := ct_tables k @ [workflows_table, tasks_table, attempts_table, effects_table],
     ct_indexes := ct_indexes k @ [tasks_dedup, tasks_state_queue]\<rparr>"

lemmas table_defs = workflows_table_def tasks_table_def attempts_table_def effects_table_def tasks_dedup_def tasks_state_queue_def
lemmas orm_defs = orm_tasks_def orm_attempts_def orm_effects_def orm_workflows_def
lemmas catalog_defs = add_type_def add_table_def add_index_def remove_table_def remove_type_def

lemma find_append: "List.find P (xs @ ys) = (case List.find P xs of None \<Rightarrow> List.find P ys | Some x \<Rightarrow> Some x)"
  by (induction xs) simp_all

lemma find_missing: "n \<notin> tb_name ` set ts \<Longrightarrow> List.find (\<lambda>t. tb_name t = n) ts = None"
  by (auto simp: find_None_iff)

lemma upgrade_commands_ok:
  assumes "list_all (\<lambda>n. free_name n k) migration_names"
  shows "commands_ok [CreateType ''task_state'' task_state_values, CreateTable workflows_table, CreateTable tasks_table,
    CreateIndex tasks_dedup, CreateIndex tasks_state_queue, CreateTable attempts_table, CreateTable effects_table] k"
  using assms by (simp add: migration_names_def free_name_def table_ok_def index_ok_def column_ok_def table_at_def catalog_defs
      table_defs find_append find_missing)

text \<open>Nothing in a consistent catalog refers to a name that is free.\<close>

lemma no_reference:
  assumes "catalog_ok k" and "free_name n k"
  shows "\<forall>t \<in> set (ct_tables k). tb_name t \<noteq> n \<and> \<not> refers_to n t \<and> \<not> uses_type n t" and "\<forall>i \<in> set (ct_indexes k). ix_table i \<noteq> n"
proof -
  have missing: "table_at k n = None" using assms(2) by (auto simp: free_name_def table_at_def find_None_iff)
  have "\<not> refers_to n t \<and> \<not> uses_type n t" if "t \<in> set (ct_tables k)" for t
  proof -
    have cols: "column_ok k c" if "c \<in> set (tb_columns t)" for c
      using assms(1) \<open>t \<in> set (ct_tables k)\<close> that by (simp add: catalog_ok_def list_all_iff)
    have "cl_foreign_key c \<noteq> Some (n, col, b)" "cl_type c \<noteq> Enum n" if "c \<in> set (tb_columns t)" for c col b
      using cols [OF that] missing assms(2) by (auto simp: column_ok_def free_name_def split: prod.splits)
    then show ?thesis by (auto simp: refers_to_def uses_type_def list_ex_iff split: option.splits prod.splits)
  qed
  with assms(2) show "\<forall>t \<in> set (ct_tables k). tb_name t \<noteq> n \<and> \<not> refers_to n t \<and> \<not> uses_type n t"
    by (auto simp: free_name_def)
  show "\<forall>i \<in> set (ct_indexes k). ix_table i \<noteq> n"
    using assms(1) missing by (auto simp: catalog_ok_def list_all_iff)
qed

lemma downgrade_commands:
  assumes ok: "catalog_ok k" and free: "list_all (\<lambda>n. free_name n k) migration_names"
  shows "commands_ok [DropTable ''effects'', DropTable ''attempts'', DropTable ''tasks'', DropTable ''workflows'', DropType ''task_state'']
      (upgraded k)"
    and "fold command_do [DropTable ''effects'', DropTable ''attempts'', DropTable ''tasks'', DropTable ''workflows'', DropType ''task_state'']
      (upgraded k) = k"
proof -
  have f: "free_name n k" if "n \<in> set migration_names" for n using free that by (simp add: list_all_iff)
  have t: "\<forall>t \<in> set (ct_tables k). tb_name t \<noteq> n \<and> \<not> refers_to n t \<and> \<not> uses_type n t" "\<forall>i \<in> set (ct_indexes k). ix_table i \<noteq> n"
      "\<forall>x \<in> set (ct_types k). fst x \<noteq> n" if "n \<in> set migration_names" for n
    using no_reference [OF ok f [OF that]] f [OF that] by (auto simp: free_name_def)
  note t' = t [of "''effects''"] t [of "''attempts''"] t [of "''tasks''"] t [of "''workflows''"] t [of "''task_state''"]
  show "fold command_do [DropTable ''effects'', DropTable ''attempts'', DropTable ''tasks'', DropTable ''workflows'', DropType ''task_state'']
      (upgraded k) = k"
    by (intro catalog.equality)
      (use t' in \<open>simp_all add: migration_names_def upgraded_def catalog_defs table_defs filter_id_conv\<close>)
  show "commands_ok [DropTable ''effects'', DropTable ''attempts'', DropTable ''tasks'', DropTable ''workflows'', DropType ''task_state'']
      (upgraded k)"
    using t' by (simp add: migration_names_def upgraded_def catalog_defs table_defs droppable_def list_all_iff refers_to_def uses_type_def)
qed

lemma column_ok_more:
  assumes "column_ok k c"
  shows "column_ok (k\<lparr>ct_types := ct_types k @ es, ct_tables := ct_tables k @ ts, ct_indexes := is\<rparr>) c"
  using assms by (auto simp: column_ok_def table_at_def find_append split: col_type.splits option.splits)

lemma upgraded_ok:
  assumes "catalog_ok k" and "list_all (\<lambda>n. free_name n k) migration_names"
  shows "catalog_ok (upgraded k)"
proof -
  have "list_all (\<lambda>t. list_all (column_ok (upgraded k)) (tb_columns t)) (ct_tables k)"
    using assms(1) column_ok_more [of k] by (simp add: catalog_ok_def list_all_iff upgraded_def)
  moreover have "list_all (\<lambda>t. list_all (column_ok (upgraded k)) (tb_columns t)) [workflows_table, tasks_table, attempts_table, effects_table]"
    using assms(2) by (simp add: migration_names_def free_name_def upgraded_def table_defs column_ok_def table_at_def find_append find_missing)
  moreover have "table_at (upgraded k) n \<noteq> None" if "table_at k n \<noteq> None \<or> n = ''tasks''" for n
    using that by (auto simp: upgraded_def table_at_def find_append table_defs split: option.split)
  moreover from this have "list_all (\<lambda>i. table_at (upgraded k) (ix_table i) \<noteq> None) (ct_indexes k)"
    using assms(1) by (simp add: catalog_ok_def list_all_iff del: not_None_eq)
  moreover have "ct_tables (upgraded k) = ct_tables k @ [workflows_table, tasks_table, attempts_table, effects_table]"
      "ct_indexes (upgraded k) = ct_indexes k @ [tasks_dedup, tasks_state_queue]" by (simp_all add: upgraded_def)
  moreover have "ix_table tasks_dedup = ''tasks''" "ix_table tasks_state_queue = ''tasks''" by (simp_all add: table_defs)
  ultimately show ?thesis by (simp add: catalog_ok_def del: not_None_eq)
qed

section \<open>The reference service\<close>

fun add_missing :: "string \<times> string list \<Rightarrow> catalog \<Rightarrow> catalog" where
  "add_missing (n, vs) k = (if n \<in> set (map fst (ct_types k)) then k else add_type n vs k)"

fun ref_create_all :: "declared list \<Rightarrow> catalog \<Rightarrow> catalog" where
  "ref_create_all [] k = k"
| "ref_create_all ((t, is, es) # md) k =
     ref_create_all md (if tb_name t \<in> set (map tb_name (ct_tables k)) then k
       else fold add_index is (add_table t (fold add_missing es k)))"

definition ref_ddl :: "catalog ddl" where
  "ref_ddl = \<lparr>dd_create_type = (\<lambda>n vs k. Inr (if n \<in> set (map fst (ct_types k)) then k else add_type n vs k)),
     dd_create_table = (\<lambda>t k. if table_ok k t then Inr (add_table t k) else Inl (OperationalError (tb_name t))),
     dd_create_index = (\<lambda>i k. if index_ok k i then Inr (add_index i k) else Inl (OperationalError (ix_name i))),
     dd_drop_table = (\<lambda>n k. if droppable k n then Inr (remove_table n k) else Inl (OperationalError n)),
     dd_drop_type = (\<lambda>n k. if list_all (\<lambda>t. \<not> uses_type n t) (ct_tables k) then Inr (remove_type n k) else Inl (OperationalError n)),
     dd_create_all = (\<lambda>md k. Inr (ref_create_all md k))\<rparr>"

lemma ref_create_all_present:
  "list_all (\<lambda>(t, is, es). tb_name t \<in> set (map tb_name (ct_tables k))) md \<Longrightarrow> ref_create_all md k = k"
  by (induction md k rule: ref_create_all.induct) auto

lemma fold_add [simp]:
  "ct_types (fold add_missing es k) = ct_types k @ es" "ct_tables (fold add_missing es k) = ct_tables k"
  "ct_indexes (fold add_missing es k) = ct_indexes k" "fold command_do (map (\<lambda>(n, vs). CreateType n vs) es) k = fold add_missing es k"
  if "commands_ok (map (\<lambda>(n, vs). CreateType n vs) es) k"
proof -
  from that have "ct_types (fold add_missing es k) = ct_types k @ es \<and> ct_tables (fold add_missing es k) = ct_tables k \<and>
      ct_indexes (fold add_missing es k) = ct_indexes k \<and>
      fold command_do (map (\<lambda>(n, vs). CreateType n vs) es) k = fold add_missing es k"
    by (induction es arbitrary: k) (auto simp: free_name_def catalog_defs)
  then show "ct_types (fold add_missing es k) = ct_types k @ es" "ct_tables (fold add_missing es k) = ct_tables k"
      "ct_indexes (fold add_missing es k) = ct_indexes k" "fold command_do (map (\<lambda>(n, vs). CreateType n vs) es) k = fold add_missing es k"
    by simp_all
qed

lemma commands_ok_append: "commands_ok (xs @ ys) k \<longleftrightarrow> commands_ok xs k \<and> commands_ok ys (fold command_do xs k)"
  by (induction xs arbitrary: k) auto

lemma fold_add_index: "fold command_do (map CreateIndex is) k = k\<lparr>ct_indexes := ct_indexes k @ is\<rparr>" "fold add_index is k = k\<lparr>ct_indexes := ct_indexes k @ is\<rparr>"
  by (induction "is" arbitrary: k) (simp_all add: catalog_defs)

lemma ref_create_all_new:
  assumes "commands_ok (declare_commands md) k"
  shows "ref_create_all md k = k\<lparr>ct_types := ct_types k @ concat (map (\<lambda>(t, is, es). es) md), ct_tables := ct_tables k @ map fst md,
    ct_indexes := ct_indexes k @ concat (map (\<lambda>(t, is, es). is) md)\<rparr>"
  using assms
proof (induction md arbitrary: k)
  case (Cons d md)
  obtain t "is" es where d: "d = (t, is, es)" by (cases d)
  let ?k = "(add_table t (fold add_missing es k))\<lparr>ct_indexes := ct_indexes k @ is\<rparr>"
  have es: "commands_ok (map (\<lambda>(n, vs). CreateType n vs) es) k" and t: "table_ok (fold add_missing es k) t"
      and md: "commands_ok (declare_commands md) ?k"
    using Cons.prems by (auto simp: d commands_ok_append fold_add_index add_table_def)
  have "tb_name t \<notin> set (map tb_name (ct_tables k))" using t es by (simp add: table_ok_def free_name_def)
  with Cons.IH [OF md] es show ?case by (simp add: d fold_add_index add_table_def)
qed simp

interpretation refddl: ddl_service ref_ddl id
proof
  show "\<exists>e. dd_drop_table ref_ddl n c = Inl e" if "table_at (id c) n = None" for n c
    using that by (auto simp: ref_ddl_def droppable_def table_at_def find_None_iff)
  show "\<exists>e. dd_create_table ref_ddl t c = Inl e" if "tb_name t \<in> set (map tb_name (ct_tables (id c)))" for t c
    using that by (auto simp: ref_ddl_def table_ok_def free_name_def)
qed (auto simp: ref_ddl_def free_name_def ref_create_all_present ref_create_all_new)

lemma ref_ddl_service [simp]: "ddl_service ref_ddl id" ..

section \<open>Properties\<close>

text \<open>
  All that the migration declares differently from the classes: five defaults that the classes leave to Python, the
  foreign key of \<open>tasks.workflow_id\<close>, and no comment on \<open>attempts\<close>.
\<close>

definition extra_defaults :: "((string \<times> string) \<times> string) list" where
  "extra_defaults = [((''tasks'', ''state''), ''pending''), ((''tasks'', ''priority''), ''0''), ((''tasks'', ''attempt''), ''0''),
     ((''tasks'', ''max_attempts''), ''5''), ((''workflows'', ''state''), ''running'')]"

definition as_migrated_column :: "string \<Rightarrow> column \<Rightarrow> column" where
  "as_migrated_column n c = c\<lparr>
     cl_server_default := (case map_of extra_defaults (n, cl_name c) of None \<Rightarrow> cl_server_default c | Some v \<Rightarrow> Some v),
     cl_foreign_key := (if n = ''tasks'' \<and> cl_name c = ''workflow_id'' then Some (''workflows'', ''id'', False) else cl_foreign_key c)\<rparr>"

definition as_migrated :: "table_def \<Rightarrow> table_def" where
  "as_migrated t = t\<lparr>tb_columns := map (as_migrated_column (tb_name t)) (tb_columns t), tb_comment := None\<rparr>"

definition declared_indexes :: "index_def list" where
  "declared_indexes = concat (map (\<lambda>(t, is, es). is) orm_metadata)"

definition declared_types :: "(string \<times> string list) list" where
  "declared_types = concat (map (\<lambda>(t, is, es). es) orm_metadata)"

lemmas migrated_defs = as_migrated_def as_migrated_column_def extra_defaults_def

lemma migrated_tables:
  "as_migrated orm_workflows = workflows_table" "as_migrated orm_tasks = tasks_table"
  "as_migrated orm_attempts = attempts_table" "as_migrated orm_effects = effects_table"
  by (simp_all add: migrated_defs orm_defs table_defs)

lemma declared_parts:
  "declared_indexes = [tasks_dedup, tasks_state_queue]" "declared_types = [(''task_state'', task_state_values)]"
  by (simp_all add: declared_indexes_def declared_types_def orm_metadata_def tasks_dedup_def tasks_state_queue_def task_state_values_def)

text \<open>The first migration of an empty database, through the environment.\<close>

lemma migrate_creates_schema:
  assumes "ddl_service DD K" and "list_all (\<lambda>n. free_name n (K c)) migration_names" and "ab_connect A (cfg_database_url cfg) c = Inr ()"
    and "ab_pending A c = [upgrade]"
  shows "\<exists>c1. migrate A DD False cfg c = (Inr None, c1) \<and> K c1 = upgraded (K c)"
proof -
  obtain c1 where "upgrade DD c = Inr c1" "K c1 = upgraded (K c)"
    using ddl_service.run_ok [OF assms(1) upgrade_commands_ok [OF assms(2)]]
    by (auto simp: upgrade_def upgraded_def catalog_defs)
  with assms(3,4) show ?thesis
    by (auto simp: migrate_def run_async_migrations_def do_run_migrations_def begin_transaction_def)
qed

text \<open>
  C36: The migration and the declared tables agree but for seven details. On a consistent catalog that has none of the names,
  \<open>upgrade\<close> succeeds, leaves a consistent catalog and adds exactly the declared enumeration, the declared indexes and the declared
  tables, each with exactly the declared columns, types, nullability, keys, constraints, defaults and comment, except
  that it gives defaults in the database to \<open>tasks.state\<close>, \<open>priority\<close>, \<open>attempt\<close> and \<open>max_attempts\<close> and to \<open>workflows.state\<close>, which the classes leave to Python,
  a foreign key to \<open>tasks.workflow_id\<close>, which the classes do not have, and no comment to \<open>attempts\<close>, which the classes
  have. \<open>init_db\<close> on such a catalog creates exactly what the classes declare, and so a database without these
  defaults and this key; after \<open>upgrade\<close> it changes nothing, since it only looks for missing tables. \<open>downgrade\<close>
  restores the catalog exactly, and a second \<open>upgrade\<close> raises.
\<close>

theorem migration_matches_models:
  assumes "ddl_service DD K" and "catalog_ok (K c)" and "list_all (\<lambda>n. free_name n (K c)) migration_names"
  shows "\<exists>c1. upgrade DD c = Inr c1 \<and> catalog_ok (K c1) \<and>
    set (ct_tables (K c1)) = set (ct_tables (K c)) \<union> set (map (as_migrated \<circ> fst) orm_metadata) \<and>
    set (ct_indexes (K c1)) = set (ct_indexes (K c)) \<union> set declared_indexes \<and>
    set (ct_types (K c1)) = set (ct_types (K c)) \<union> set declared_types \<and>
    (\<exists>c4. init_db DD c = Inr c4 \<and> set (ct_tables (K c4)) = set (ct_tables (K c)) \<union> set (map fst orm_metadata) \<and>
      set (ct_indexes (K c4)) = set (ct_indexes (K c1)) \<and> set (ct_types (K c4)) = set (ct_types (K c1))) \<and>
    (\<exists>c2. init_db DD c1 = Inr c2 \<and> K c2 = K c1) \<and>
    (\<exists>c3. downgrade DD c1 = Inr c3 \<and> K c3 = K c) \<and> (\<exists>e. upgrade DD c1 = Inl e)"
proof -
  let ?k = "upgraded (K c)"
  obtain c1 where c1: "upgrade DD c = Inr c1" "K c1 = ?k"
    using ddl_service.run_ok [OF assms(1) upgrade_commands_ok [OF assms(3)]]
    by (auto simp: upgrade_def upgraded_def catalog_defs)
  have names: "set (map tb_name (ct_tables ?k)) = set (map tb_name (ct_tables (K c))) \<union> {''workflows'', ''tasks'', ''attempts'', ''effects''}"
    by (auto simp: upgraded_def table_defs)
  have "catalog_ok (K c1)" using upgraded_ok [OF assms(2,3)] by (simp add: c1(2))
  moreover have tables: "set (ct_tables (K c1)) = set (ct_tables (K c)) \<union> set (map (as_migrated \<circ> fst) orm_metadata)"
    by (auto simp: c1(2) upgraded_def orm_metadata_def migrated_tables)
  moreover have rest: "set (ct_indexes (K c1)) = set (ct_indexes (K c)) \<union> set declared_indexes"
      "set (ct_types (K c1)) = set (ct_types (K c)) \<union> set declared_types"
    by (auto simp: c1(2) upgraded_def declared_parts)
  moreover have "\<exists>c2. init_db DD c1 = Inr c2 \<and> K c2 = K c1"
    unfolding init_db_def using names
    by (intro ddl_service.create_all_present [OF assms(1)])
      (simp add: c1(2) orm_metadata_def orm_defs)
  moreover have "\<exists>c3. downgrade DD c1 = Inr c3 \<and> K c3 = K c"
    unfolding downgrade_def
    using ddl_service.run_ok [OF assms(1) downgrade_commands(1) [OF assms(2,3), folded c1(2)]] downgrade_commands(2) [OF assms(2,3)]
    by (simp only: c1(2))
  moreover have "commands_ok (declare_commands orm_metadata) (K c)"
    using assms(3) by (simp add: migration_names_def free_name_def table_ok_def index_ok_def column_ok_def table_at_def catalog_defs
        orm_metadata_def orm_defs find_append find_missing)
  then have "\<exists>c4. init_db DD c = Inr c4 \<and> set (ct_tables (K c4)) = set (ct_tables (K c)) \<union> set (map fst orm_metadata) \<and>
      set (ct_indexes (K c4)) = set (ct_indexes (K c1)) \<and> set (ct_types (K c4)) = set (ct_types (K c1))"
    using ddl_service.create_all_new [OF assms(1), of orm_metadata c]
    by (auto simp only: init_db_def rest declared_indexes_def declared_types_def)
  moreover have "\<exists>e. upgrade DD c1 = Inl e"
  proof -
    obtain c4 where c4: "dd_create_type DD ''task_state'' task_state_values c1 = Inr c4" "K c4 = ?k"
      using ddl_service.create_type_present [OF assms(1), of "''task_state''" c1 task_state_values] by (auto simp: c1(2) upgraded_def)
    have "tb_name workflows_table \<in> set (map tb_name (ct_tables (K c4)))" using names by (simp add: c4(2) workflows_table_def)
    from ddl_service.create_table_dup [OF assms(1) this] c4(1) show ?thesis by (auto simp: upgrade_def)
  qed
  ultimately show ?thesis using c1(1) by blast
qed

theorem migration_matches_models_witness:
  "\<exists>c1. upgrade ref_ddl \<lparr>ct_types = [], ct_tables = [], ct_indexes = []\<rparr> = Inr c1 \<and> init_db ref_ddl c1 = Inr c1 \<and>
     downgrade ref_ddl c1 = Inr \<lparr>ct_types = [], ct_tables = [], ct_indexes = []\<rparr>"
  using migration_matches_models [OF ref_ddl_service, of "\<lparr>ct_types = [], ct_tables = [], ct_indexes = []\<rparr>"]
  by (auto simp: catalog_ok_def free_name_def migration_names_def)

end
