(* ===== verification/Worker_Process.thy ===== *)
theory Worker_Process
  imports Worker_Contract Broker_Protocol Fleet "HOL-Library.Multiset"
begin

text \<open>
  A worker process from its command line to its exit: \<open>main\<close> of \<open>dtq/worker/__main__.py\<close> and
  \<open>start\<close>, \<open>stop\<close>, \<open>drain\<close> and the control flow of the four loops of \<open>dtq/worker/loop.py\<close>. The loops are
  coroutines of one event loop: each has a position, and a step of the process is one loop going on
  to its next await, a task in flight returning, a callback, a signal, or the exit. The world is
  open: other processes may change it between two steps.
\<close>

section \<open>The process\<close>

text \<open>
  Where a loop is: asleep, at its \<open>while self._running\<close>, in a round with the queues that are left, or
  returned.
\<close>

datatype loop_pos = Sleeping | Head | Visit "string list" | Ended

datatype phase = Created | Serving | Exited "exn option"

text \<open>
  What a worker is built on: the Redis library and server, the database, the codec of envelopes, the
  rendering of Python values, the registered handlers and \<open>json.dumps\<close>.
\<close>

record ('s, 'v, 'd, 'h, 'c) deps =
  dp_library :: "('s, 'h, 'c) redis_library"
  dp_redis :: "('s, 'v) redis"
  dp_postgres :: "'d postgres"
  dp_codec :: "'v codec"
  dp_text :: py_text
  dp_registry :: registry
  dp_dumps :: "json \<Rightarrow> string"

text \<open>
  \<open>pr_hand\<close> are the messages the poll loop has leased and not dispatched; \<open>pr_reclaimed\<close> those the
  reclaimer has still to adopt, and \<open>pr_adopted\<close> the one for which it waits at the semaphore. The field
  \<open>wk_todo\<close> of the worker is not used here.
\<close>

record ('s, 'd, 'h, 'c) process =
  pr_worker :: worker
  pr_broker :: "('h, 'c) redis_broker"
  pr_world :: "('s, 'd) world"
  pr_pool :: bool
  pr_signals :: "string list"
  pr_started_at :: timestamp
  pr_poll :: loop_pos
  pr_hand :: "(string \<times> leased) list"
  pr_scheduler :: loop_pos
  pr_reclaim :: loop_pos
  pr_reclaimed :: "(string \<times> leased) list"
  pr_adopted :: "(string \<times> leased) list"
  pr_heartbeat :: loop_pos
  pr_phase :: phase

text \<open>\<open>WorkerLoop(settings)\<close> in the world \<open>w\<close>.\<close>

definition new_process :: "settings \<Rightarrow> ('s, 'd) world \<Rightarrow> ('s, 'd, 'h, 'c) process" where
  "new_process cfg w = \<lparr>pr_worker = new_worker cfg, pr_broker = new_redis_broker (cfg_redis_url cfg), pr_world = w,
     pr_pool = True, pr_signals = [], pr_started_at = 0, pr_poll = Ended, pr_hand = [], pr_scheduler = Ended,
     pr_reclaim = Ended, pr_reclaimed = [], pr_adopted = [], pr_heartbeat = Ended, pr_phase = Created\<rparr>"

section \<open>Start, stop and drain\<close>

definition pr_redis :: "'s \<Rightarrow> ('s, 'd, 'h, 'c) process \<Rightarrow> ('s, 'd, 'h, 'c) process" where
  "pr_redis s p = p\<lparr>pr_world := (pr_world p)\<lparr>w_redis := s\<rparr>\<rparr>"

text \<open>
  \<open>start\<close> up to the \<open>gather\<close> of the loops: it connects, creates the queues, sets \<open>_running\<close>, installs the
  signal handlers and starts the loops; the reclaimer sleeps first, for a random time.
\<close>

definition worker_start ::
  "('s, 'v, 'd, 'h, 'c) deps \<Rightarrow> settings \<Rightarrow> timestamp \<Rightarrow> ('s, 'd, 'h, 'c) process \<Rightarrow> (exn + unit) \<times> ('s, 'd, 'h, 'c) process" where
  "worker_start E cfg now p =
     (case br_connect (dp_library E) (pr_broker p) (w_redis (pr_world p)) of
        (Inl e, b, s) \<Rightarrow> (Inl e, pr_redis s (p\<lparr>pr_broker := b\<rparr>))
      | (Inr _, b, s) \<Rightarrow>
          (case ensure_queues (dp_redis E) (cfg_worker_queues cfg) s of
             (Inl e, s1) \<Rightarrow> (Inl e, pr_redis s1 (p\<lparr>pr_broker := b\<rparr>))
           | (Inr _, s1) \<Rightarrow> (Inr (), pr_redis s1 (p\<lparr>pr_broker := b, pr_worker := run_loops (pr_worker p),
                 pr_signals := [''SIGTERM'', ''SIGINT''], pr_started_at := now, pr_poll := Head, pr_scheduler := Head,
                 pr_reclaim := Sleeping, pr_heartbeat := Head, pr_phase := Serving\<rparr>))))"

text \<open>
  \<open>main\<close>: the settings from the command line, a \<open>WorkerLoop\<close>, and \<open>asyncio.run(worker.start())\<close>, out of
  which an exception of \<open>start\<close> propagates.
\<close>

definition worker_main ::
  "('s, 'v, 'd, 'h, 'c) deps \<Rightarrow> settings \<Rightarrow> timestamp \<Rightarrow> ('s, 'd) world \<Rightarrow> ('s, 'd, 'h, 'c) process" where
  "worker_main E cfg now w =
     (case worker_start E cfg now (new_process cfg w) of
        (Inl e, p) \<Rightarrow> p\<lparr>pr_phase := Exited (Some e)\<rparr>
      | (Inr _, p) \<Rightarrow> p)"

text \<open>The options of the command line and their defaults.\<close>

record cli_args =
  ca_queues :: string
  ca_concurrency :: int
  ca_metrics_port :: int
  ca_worker_id :: "string option"
  ca_broker :: string

definition cli_defaults :: cli_args where
  "cli_defaults = \<lparr>ca_queues = ''default'', ca_concurrency = 8, ca_metrics_port = 7206, ca_worker_id = None, ca_broker = ''redis''\<rparr>"

definition worker_cli ::
  "('s, 'v, 'd, 'h, 'c) deps \<Rightarrow> settings \<Rightarrow> string \<Rightarrow> cli_args \<Rightarrow> timestamp \<Rightarrow> ('s, 'd) world \<Rightarrow> ('s, 'd, 'h, 'c) process" where
  "worker_cli E env hex8 args now w =
     worker_main E (main_settings env hex8 (ca_queues args) (ca_concurrency args) (ca_metrics_port args) (ca_worker_id args)
       (ca_broker args)) now w"

text \<open>
  \<open>stop\<close> and \<open>drain\<close> clear \<open>_running\<close> (\<open>stop\<close> and \<open>drain\<close> of the worker) and then await the tasks that are in
  flight at that moment: \<open>gather_done\<close> tells that the awaited ones have returned. Tasks that are
  dispatched later are not awaited. After that \<open>stop\<close> closes the broker and the thread pool.
\<close>

definition awaited :: "worker \<Rightarrow> (string \<times> leased) list" where
  "awaited k = map (\<lambda>(q, m, finished). (q, m)) (wk_in_flight k)"

definition gather_done :: "(string \<times> leased) list \<Rightarrow> worker \<Rightarrow> bool" where
  "gather_done ms k \<longleftrightarrow> list_all (\<lambda>(q, m). (q, m, False) \<notin> set (wk_in_flight k)) ms"

definition stop_close ::
  "('s, 'v, 'd, 'h, 'c) deps \<Rightarrow> ('s, 'd, 'h, 'c) process \<Rightarrow> (exn + unit) \<times> ('s, 'd, 'h, 'c) process" where
  "stop_close E p =
     (case br_close (dp_library E) (pr_broker p) (w_redis (pr_world p)) of
        (Inl e, b, s) \<Rightarrow> (Inl e, pr_redis s (p\<lparr>pr_broker := b\<rparr>))
      | (Inr _, b, s) \<Rightarrow> (Inr (), pr_redis s (p\<lparr>pr_broker := b, pr_pool := False\<rparr>)))"

section \<open>The loops\<close>

definition while_running :: "loop_pos \<Rightarrow> ('s, 'd, 'h, 'c) process \<Rightarrow> loop_pos" where
  "while_running body p = (if wk_running (pr_worker p) then body else Ended)"

text \<open>
  A message at the semaphore: \<open>dispatch\<close> of the worker on the messages in hand, the first of which goes.
\<close>

definition dispatch_first :: "(string \<times> leased) list \<Rightarrow> worker \<Rightarrow> worker option" where
  "dispatch_first ms k = map_option (\<lambda>k'. k'\<lparr>wk_todo := []\<rparr>) (dispatch 0 (k\<lparr>wk_todo := ms\<rparr>))"

text \<open>
  When the loops have returned, so does \<open>start\<close>, and \<open>asyncio.run\<close> cancels the tasks in flight: their
  coroutines end where they are, through \<open>finally\<close>, which releases the semaphore.
\<close>

definition cancelled :: "worker \<Rightarrow> (string \<times> leased) list" where
  "cancelled k = map (\<lambda>(q, m, finished). (q, m)) (filter (\<lambda>(q, m, finished). \<not> finished) (wk_in_flight k))"

definition cancel_all :: "worker \<Rightarrow> worker" where
  "cancel_all k = k\<lparr>wk_semaphore := wk_semaphore k + int (length (cancelled k)), wk_in_flight := []\<rparr>"

text \<open>A message by its queue and its identifier; what a step does with messages.\<close>

type_synonym msg_ref = "string \<times> nat"

definition msg_ref :: "string \<times> leased \<Rightarrow> msg_ref" where
  "msg_ref qm = (fst qm, broker_msg_id (snd qm))"

datatype process_event = Took "msg_ref list" | Returned msg_ref | Exit "msg_ref list" | Tick | Signal | Other

fun own :: "process_event \<Rightarrow> bool" where
  "own Signal = False"
| "own Other = False"
| "own _ = True"

inductive process_step ::
  "('s, 'v, 'd, 'h, 'c) deps \<Rightarrow> settings \<Rightarrow> ('s, 'd, 'h, 'c) process \<Rightarrow> process_event \<Rightarrow> ('s, 'd, 'h, 'c) process \<Rightarrow> bool"
  for E cfg where
  poll_head: "pr_phase p = Serving \<Longrightarrow> pr_poll p = Head \<Longrightarrow>
    process_step E cfg p Tick (p\<lparr>pr_poll := while_running (Visit (cfg_worker_queues cfg)) p\<rparr>)"
| poll_visit: "pr_phase p = Serving \<Longrightarrow> pr_poll p = Visit (q # qs) \<Longrightarrow> pr_hand p = [] \<Longrightarrow>
    poll_queue (dp_redis E) (dp_codec E) cfg (wk_semaphore (pr_worker p)) q (pr_world p) = (ms, w) \<Longrightarrow>
    process_step E cfg p (Took (map (msg_ref \<circ> Pair q) ms)) (p\<lparr>pr_poll := Visit qs, pr_hand := map (Pair q) ms, pr_world := w\<rparr>)"
| poll_dispatch: "pr_phase p = Serving \<Longrightarrow> dispatch_first (pr_hand p) (pr_worker p) = Some k \<Longrightarrow>
    process_step E cfg p Tick (p\<lparr>pr_worker := k, pr_hand := tl (pr_hand p)\<rparr>)"
| poll_round: "pr_phase p = Serving \<Longrightarrow> pr_poll p = Visit [] \<Longrightarrow> pr_hand p = [] \<Longrightarrow>
    process_step E cfg p Tick (p\<lparr>pr_poll := while_running Sleeping p\<rparr>)"
| poll_wake: "pr_phase p = Serving \<Longrightarrow> pr_poll p = Sleeping \<Longrightarrow> process_step E cfg p Tick (p\<lparr>pr_poll := Head\<rparr>)"
| sched_head: "pr_phase p = Serving \<Longrightarrow> pr_scheduler p = Head \<Longrightarrow>
    process_step E cfg p Tick (p\<lparr>pr_scheduler := while_running (Visit (cfg_worker_queues cfg)) p\<rparr>)"
| sched_visit: "pr_phase p = Serving \<Longrightarrow> pr_scheduler p = Visit (q # qs) \<Longrightarrow>
    process_step E cfg p Tick (pr_redis (scheduler_tick (dp_redis E) clk [q] (w_redis (pr_world p))) (p\<lparr>pr_scheduler := Visit qs\<rparr>))"
| sched_round: "pr_phase p = Serving \<Longrightarrow> pr_scheduler p = Visit [] \<Longrightarrow>
    process_step E cfg p Tick (p\<lparr>pr_scheduler := Sleeping\<rparr>)"
| sched_wake: "pr_phase p = Serving \<Longrightarrow> pr_scheduler p = Sleeping \<Longrightarrow> process_step E cfg p Tick (p\<lparr>pr_scheduler := Head\<rparr>)"
| reclaim_head: "pr_phase p = Serving \<Longrightarrow> pr_reclaim p = Head \<Longrightarrow>
    process_step E cfg p Tick (p\<lparr>pr_reclaim := while_running (Visit (cfg_worker_queues cfg)) p\<rparr>)"
| reclaim_visit: "pr_phase p = Serving \<Longrightarrow> pr_reclaim p = Visit (q # qs) \<Longrightarrow> pr_reclaimed p = [] \<Longrightarrow> pr_adopted p = [] \<Longrightarrow>
    reclaim_queue (dp_redis E) (dp_codec E) cfg q (pr_world p) = (ms, w) \<Longrightarrow>
    process_step E cfg p (Took (map (msg_ref \<circ> Pair q) ms)) (p\<lparr>pr_reclaim := Visit qs, pr_reclaimed := map (Pair q) ms, pr_world := w\<rparr>)"
| reclaim_adopt: "pr_phase p = Serving \<Longrightarrow> pr_reclaimed p = (q, m) # ms \<Longrightarrow> pr_adopted p = [] \<Longrightarrow>
    process_step E cfg p Tick (p\<lparr>pr_reclaimed := ms, pr_adopted := [(q, adopt m)],
      pr_world := (pr_world p)\<lparr>w_db := close_lost (dp_postgres E) now m (w_db (pr_world p))\<rparr>\<rparr>)"
| reclaim_dispatch: "pr_phase p = Serving \<Longrightarrow> dispatch_first (pr_adopted p) (pr_worker p) = Some k \<Longrightarrow>
    process_step E cfg p Tick (p\<lparr>pr_worker := k, pr_adopted := tl (pr_adopted p)\<rparr>)"
| reclaim_round: "pr_phase p = Serving \<Longrightarrow> pr_reclaim p = Visit [] \<Longrightarrow> pr_reclaimed p = [] \<Longrightarrow> pr_adopted p = [] \<Longrightarrow>
    process_step E cfg p Tick (p\<lparr>pr_reclaim := Sleeping\<rparr>)"
| reclaim_wake: "pr_phase p = Serving \<Longrightarrow> pr_reclaim p = Sleeping \<Longrightarrow> process_step E cfg p Tick (p\<lparr>pr_reclaim := Head\<rparr>)"
| heartbeat_head: "pr_phase p = Serving \<Longrightarrow> pr_heartbeat p = Head \<Longrightarrow>
    process_step E cfg p Tick (p\<lparr>pr_heartbeat := while_running (Visit []) p\<rparr>)"
| heartbeat_beat: "pr_phase p = Serving \<Longrightarrow> pr_heartbeat p = Visit [] \<Longrightarrow>
    process_step E cfg p Tick (pr_redis (worker_heartbeat (dp_redis E) (dp_dumps E) cfg
      (length (wk_in_flight (pr_worker p))) (pr_started_at p) now (w_redis (pr_world p))) (p\<lparr>pr_heartbeat := Sleeping\<rparr>))"
| heartbeat_wake: "pr_phase p = Serving \<Longrightarrow> pr_heartbeat p = Sleeping \<Longrightarrow> process_step E cfg p Tick (p\<lparr>pr_heartbeat := Head\<rparr>)"
| task_returns: "pr_phase p = Serving \<Longrightarrow> finish i (pr_worker p) = Some k \<Longrightarrow> wk_in_flight (pr_worker p) ! i = (q, m, False) \<Longrightarrow>
    process_step E cfg p (Returned (msg_ref (q, m))) (p\<lparr>pr_worker := k,
      pr_world := process_message (dp_redis E) (dp_postgres E) (dp_codec E) (executor_of cfg) (dp_text E) (dp_registry E)
        aclk itf ticks u q m (pr_world p)\<rparr>)"
| callback: "pr_phase p = Serving \<Longrightarrow> discard i (pr_worker p) = Some k \<Longrightarrow>
    process_step E cfg p Tick (p\<lparr>pr_worker := k\<rparr>)"
| exit: "pr_phase p = Serving \<Longrightarrow> pr_poll p = Ended \<Longrightarrow> pr_scheduler p = Ended \<Longrightarrow> pr_reclaim p = Ended \<Longrightarrow> pr_heartbeat p = Ended \<Longrightarrow>
    process_step E cfg p (Exit (map msg_ref (cancelled (pr_worker p))))
      (p\<lparr>pr_worker := cancel_all (pr_worker p), pr_phase := Exited None\<rparr>)"
| signal: "pr_phase p = Serving \<Longrightarrow> sig \<in> set (pr_signals p) \<Longrightarrow>
    process_step E cfg p Signal (p\<lparr>pr_worker := signal_shutdown (pr_worker p)\<rparr>)"
| others: "process_step E cfg p Other (p\<lparr>pr_world := w\<rparr>)"

inductive process_run ::
  "('s, 'v, 'd, 'h, 'c) deps \<Rightarrow> settings \<Rightarrow> ('s, 'd, 'h, 'c) process \<Rightarrow> process_event list \<Rightarrow> ('s, 'd, 'h, 'c) process \<Rightarrow> bool"
  for E cfg p where
  run_refl: "process_run E cfg p [] p"
| run_step: "process_run E cfg p evs p1 \<Longrightarrow> process_step E cfg p1 ev p2 \<Longrightarrow> process_run E cfg p (evs @ [ev]) p2"

section \<open>Lemmas on the steps\<close>

lemma dispatch_firstE:
  assumes "dispatch_first ms k = Some k'"
  obtains q m rest where "ms = (q, m) # rest" and "0 < wk_semaphore k"
    and "k' = k\<lparr>wk_semaphore := wk_semaphore k - 1, wk_todo := [], wk_in_flight := wk_in_flight k @ [(q, m, False)]\<rparr>"
  using assms by (cases ms) (auto simp: dispatch_first_def dispatch_def split: if_splits prod.splits)

lemma finishE:
  assumes "finish i k = Some k'"
  obtains q m where "i < length (wk_in_flight k)" and "wk_in_flight k ! i = (q, m, False)"
    and "k' = k\<lparr>wk_semaphore := wk_semaphore k + 1, wk_in_flight := (wk_in_flight k)[i := (q, m, True)]\<rparr>"
  using assms by (auto simp: finish_def split: if_splits bool.splits prod.splits)

lemma discardE:
  assumes "discard i k = Some k'"
  obtains q m where "i < length (wk_in_flight k)" and "wk_in_flight k ! i = (q, m, True)"
    and "k' = k\<lparr>wk_in_flight := take i (wk_in_flight k) @ drop (Suc i) (wk_in_flight k)\<rparr>"
  using assms by (auto simp: discard_def split: if_splits bool.splits prod.splits)

lemma pr_redis_simps [simp]:
  "pr_worker (pr_redis s p) = pr_worker p" "pr_phase (pr_redis s p) = pr_phase p" "pr_poll (pr_redis s p) = pr_poll p"
  "pr_hand (pr_redis s p) = pr_hand p" "pr_scheduler (pr_redis s p) = pr_scheduler p" "pr_reclaim (pr_redis s p) = pr_reclaim p"
  "pr_reclaimed (pr_redis s p) = pr_reclaimed p" "pr_adopted (pr_redis s p) = pr_adopted p"
  "pr_heartbeat (pr_redis s p) = pr_heartbeat p" "pr_signals (pr_redis s p) = pr_signals p"
  by (simp_all add: pr_redis_def)

text \<open>Every element of a list and the list without it.\<close>

lemma mset_nth_split: "i < length xs \<Longrightarrow> mset xs = add_mset (xs ! i) (mset (take i xs @ drop (Suc i) xs))"
  by (metis id_take_nth_drop mset.simps(2) mset_append union_mset_add_mset_right)

section \<open>What is left to do after a signal\<close>

fun pos_rank :: "loop_pos \<Rightarrow> nat" where
  "pos_rank Ended = 0"
| "pos_rank Head = 1"
| "pos_rank Sleeping = 2"
| "pos_rank (Visit qs) = 3 + length qs"

definition loops_left :: "('s, 'd, 'h, 'c) process \<Rightarrow> nat" where
  "loops_left p = pos_rank (pr_poll p) + pos_rank (pr_scheduler p) + pos_rank (pr_reclaim p) + pos_rank (pr_heartbeat p) +
     (if pr_phase p = Serving then 1 else 0)"

definition task_rank :: "string \<times> leased \<times> bool \<Rightarrow> nat" where
  "task_rank t = (case t of (q, m, finished) \<Rightarrow> if finished then 1 else 2)"

definition work_left :: "('s, 'd, 'h, 'c) process \<Rightarrow> nat" where
  "work_left p = 4 * length (pr_reclaimed p) + 3 * (length (pr_hand p) + length (pr_adopted p)) +
     sum_mset (image_mset task_rank (mset (wk_in_flight (pr_worker p))))"

definition rank :: "('s, 'd, 'h, 'c) process \<Rightarrow> nat \<times> nat" where
  "rank p = (loops_left p, work_left p)"

abbreviation rank_less :: "((nat \<times> nat) \<times> nat \<times> nat) set" where
  "rank_less \<equiv> less_than <*lex*> less_than"

lemma finish_rank:
  assumes "finish i k = Some k'"
  shows "sum_mset (image_mset task_rank (mset (wk_in_flight k'))) < sum_mset (image_mset task_rank (mset (wk_in_flight k)))"
  using assms
proof (rule finishE)
  fix q m assume i: "i < length (wk_in_flight k)" "wk_in_flight k ! i = (q, m, False)"
    and k': "k' = k\<lparr>wk_semaphore := wk_semaphore k + 1, wk_in_flight := (wk_in_flight k)[i := (q, m, True)]\<rparr>"
  from i obtain M where M: "mset (wk_in_flight k) = add_mset (q, m, False) M" by (metis insert_DiffM nth_mem_mset)
  moreover have "mset (wk_in_flight k') = add_mset (q, m, True) M" using i by (simp add: k' mset_update M)
  ultimately show ?thesis by (simp add: task_rank_def)
qed

lemma discard_rank:
  assumes "discard i k = Some k'"
  shows "sum_mset (image_mset task_rank (mset (wk_in_flight k'))) < sum_mset (image_mset task_rank (mset (wk_in_flight k)))"
  using assms
proof (rule discardE)
  fix q m assume i: "i < length (wk_in_flight k)" "wk_in_flight k ! i = (q, m, True)"
    and k': "k' = k\<lparr>wk_in_flight := take i (wk_in_flight k) @ drop (Suc i) (wk_in_flight k)\<rparr>"
  have "mset (wk_in_flight k) = add_mset (q, m, True) (mset (wk_in_flight k'))"
    using mset_nth_split [OF i(1)] i(2) by (simp add: k')
  then show ?thesis by (simp add: task_rank_def)
qed

lemma own_step_rank:
  assumes "process_step E cfg p ev p'" and "own ev" and "\<not> wk_running (pr_worker p)"
  shows "(rank p', rank p) \<in> rank_less"
  using assms
proof (cases rule: process_step.cases)
  case (poll_dispatch k)
  from poll_dispatch(4) show ?thesis
    by (rule dispatch_firstE) (simp add: poll_dispatch rank_def loops_left_def work_left_def task_rank_def)
next
  case (reclaim_dispatch k)
  from reclaim_dispatch(4) show ?thesis
    by (rule dispatch_firstE) (simp add: reclaim_dispatch rank_def loops_left_def work_left_def task_rank_def)
next
  case (task_returns i k q m)
  with finish_rank [OF task_returns(4)] show ?thesis by (simp add: rank_def loops_left_def work_left_def)
next
  case (callback i k)
  with discard_rank [OF callback(4)] show ?thesis by (simp add: rank_def loops_left_def work_left_def)
qed (auto simp: rank_def loops_left_def work_left_def while_running_def)

lemma other_step_rank: "process_step E cfg p ev p' \<Longrightarrow> \<not> own ev \<Longrightarrow> rank p' = rank p"
  by (erule process_step.cases) (auto simp: rank_def loops_left_def work_left_def signal_shutdown_def)

lemma step_keeps_stopping: "process_step E cfg p ev p' \<Longrightarrow> \<not> wk_running (pr_worker p) \<Longrightarrow> \<not> wk_running (pr_worker p')"
  by (erule process_step.cases)
    (auto simp: signal_shutdown_def cancel_all_def elim!: dispatch_firstE finishE discardE)

lemma stopping_run_finite:
  assumes "\<not> wk_running (pr_worker (\<sigma> 0))" and "\<And>n. process_step E cfg (\<sigma> n) (ev n) (\<sigma> (Suc n))"
  shows "finite {n. own (ev n)}"
proof -
  have stopping: "\<not> wk_running (pr_worker (\<sigma> n))" for n
    by (induction n) (use assms step_keeps_stopping in blast)+
  show ?thesis
  proof (rule finite_descents [of rank_less _ "rank \<circ> \<sigma>"])
    show "((rank \<circ> \<sigma>) (Suc n), (rank \<circ> \<sigma>) n) \<in> rank_less" if "own (ev n)" for n
      using own_step_rank [OF assms(2) that stopping] by simp
    show "(rank \<circ> \<sigma>) (Suc n) = (rank \<circ> \<sigma>) n" if "\<not> own (ev n)" for n
      using other_step_rank [OF assms(2) that] by simp
  qed auto
qed

section \<open>The invariant of a process\<close>

fun visiting :: "loop_pos \<Rightarrow> bool" where
  "visiting (Visit qs) = True"
| "visiting _ = False"

definition held :: "('s, 'd, 'h, 'c) process \<Rightarrow> (string \<times> leased) list" where
  "held p = pr_hand p @ pr_adopted p @ pr_reclaimed p @ cancelled (pr_worker p)"

definition process_inv :: "('s, 'd, 'h, 'c) process \<Rightarrow> bool" where
  "process_inv p \<longleftrightarrow> worker_inv (pr_worker p) \<and> (pr_hand p = [] \<or> visiting (pr_poll p)) \<and>
     (pr_reclaimed p = [] \<and> pr_adopted p = [] \<or> visiting (pr_reclaim p)) \<and>
     (\<forall>q qs. pr_heartbeat p \<noteq> Visit (q # qs)) \<and> (pr_phase p = Serving \<or> held p = [])"

lemma while_running_visiting: "visiting (while_running (Visit qs) p) \<or> while_running (Visit qs) p = Ended"
  by (simp add: while_running_def)

lemma cancelled_running: "length (cancelled k) = running_tasks k"
  by (simp add: cancelled_def running_tasks_def)

lemma worker_inv_cancel_all: "worker_inv k \<Longrightarrow> worker_inv (cancel_all k)"
  by (simp add: worker_inv_def cancel_all_def cancelled_running running_tasks_def)

lemma worker_inv_signal: "worker_inv k \<Longrightarrow> worker_inv (signal_shutdown k)"
  by (simp add: worker_inv_def signal_shutdown_def running_tasks_def)

lemma worker_inv_dispatch: "dispatch_first ms k = Some k' \<Longrightarrow> worker_inv k \<Longrightarrow> worker_inv k'"
  by (erule dispatch_firstE) (simp add: worker_inv_def running_tasks_def)

lemma concurrency_dispatch: "dispatch_first ms k = Some k' \<Longrightarrow> wk_concurrency k' = wk_concurrency k"
  by (erule dispatch_firstE) simp

lemma concurrency_simps [simp]:
  "wk_concurrency (signal_shutdown k) = wk_concurrency k" "wk_concurrency (cancel_all k) = wk_concurrency k"
  by (simp_all add: signal_shutdown_def cancel_all_def)

text \<open>The messages whose task is running, after a task returned and after its callback.\<close>

lemma cancelled_finish:
  assumes "finish i k = Some k'" and "wk_in_flight k ! i = (q, m, False)"
  shows "mset (cancelled k) = add_mset (q, m) (mset (cancelled k'))"
  using assms(1)
proof (rule finishE)
  fix q' m' assume i: "i < length (wk_in_flight k)" "wk_in_flight k ! i = (q', m', False)"
    and k': "k' = k\<lparr>wk_semaphore := wk_semaphore k + 1, wk_in_flight := (wk_in_flight k)[i := (q', m', True)]\<rparr>"
  from i assms(2) have qm: "q' = q" "m' = m" by auto
  from i obtain M where M: "mset (wk_in_flight k) = add_mset (q', m', False) M" by (metis insert_DiffM nth_mem_mset)
  moreover have "mset (wk_in_flight k') = add_mset (q', m', True) M" using i by (simp add: k' mset_update M)
  ultimately show ?thesis by (simp add: cancelled_def mset_filter qm)
qed

lemma cancelled_discard:
  assumes "discard i k = Some k'"
  shows "mset (cancelled k') = mset (cancelled k)"
  using assms
proof (rule discardE)
  fix q m assume i: "i < length (wk_in_flight k)" "wk_in_flight k ! i = (q, m, True)"
    and k': "k' = k\<lparr>wk_in_flight := take i (wk_in_flight k) @ drop (Suc i) (wk_in_flight k)\<rparr>"
  have "mset (wk_in_flight k) = add_mset (q, m, True) (mset (wk_in_flight k'))"
    using mset_nth_split [OF i(1)] i(2) by (simp add: k')
  then show ?thesis by (simp add: cancelled_def mset_filter)
qed

lemma cancelled_simps [simp]:
  "cancelled (signal_shutdown k) = cancelled k" "cancelled (cancel_all k) = []" "cancelled (run_loops k) = cancelled k"
  "cancelled (new_worker cfg) = []"
  by (simp_all add: cancelled_def signal_shutdown_def cancel_all_def run_loops_def new_worker_def)

lemma process_step_inv:
  assumes "process_step E cfg p ev p'" and "process_inv p"
  shows "process_inv p' \<and> wk_concurrency (pr_worker p') = wk_concurrency (pr_worker p)"
  using assms
proof (cases rule: process_step.cases)
  case (poll_dispatch k)
  with assms(2) show ?thesis
    by (auto simp: process_inv_def worker_inv_dispatch concurrency_dispatch elim: dispatch_firstE)
next
  case (reclaim_dispatch k)
  with assms(2) show ?thesis
    by (auto simp: process_inv_def worker_inv_dispatch concurrency_dispatch elim: dispatch_firstE)
next
  case (task_returns i k q m)
  with assms(2) worker_step_inv [OF step_finish [OF task_returns(4)]] show ?thesis by (simp add: process_inv_def)
next
  case (callback i k)
  with assms(2) worker_step_inv [OF step_discard [OF callback(4)]] show ?thesis by (simp add: process_inv_def)
next
  case exit
  with assms(2) show ?thesis
    by (auto simp: process_inv_def held_def worker_inv_cancel_all)
next
  case (signal sig)
  with assms(2) show ?thesis by (auto simp: process_inv_def worker_inv_signal)
qed (use assms(2) while_running_visiting in \<open>auto simp: process_inv_def held_def while_running_def\<close>)

lemma worker_main_inv:
  assumes "0 \<le> cfg_worker_concurrency cfg"
  shows "process_inv (worker_main E cfg now w)"
    and "wk_concurrency (pr_worker (worker_main E cfg now w)) = cfg_worker_concurrency cfg"
    and "held (worker_main E cfg now w) = []"
  using assms
  by (auto simp: worker_main_def worker_start_def new_process_def process_inv_def held_def worker_inv_def running_tasks_def
      run_loops_def new_worker_def cancelled_def split: prod.split sum.split)

lemma process_run_inv:
  assumes "process_run E cfg p evs p'" and "process_inv p"
  shows "process_inv p' \<and> wk_concurrency (pr_worker p') = wk_concurrency (pr_worker p)"
  using assms by (induction rule: process_run.induct) (auto dest: process_step_inv)

section \<open>No message is dropped\<close>

fun took :: "process_event \<Rightarrow> msg_ref multiset" where
  "took (Took ms) = mset ms"
| "took _ = {#}"

fun let_go :: "process_event \<Rightarrow> msg_ref multiset" where
  "let_go (Returned m) = {#m#}"
| "let_go (Exit ms) = mset ms"
| "let_go _ = {#}"

lemma msg_ref_adopt [simp]: "msg_ref (q, adopt m) = msg_ref (q, m)"
  by (simp add: msg_ref_def adopt_def)

lemma process_step_conserves:
  assumes "process_step E cfg p ev p'" and "process_inv p"
  shows "mset (map msg_ref (held p)) + took ev = mset (map msg_ref (held p')) + let_go ev"
  using assms
proof (cases rule: process_step.cases)
  case (poll_dispatch k)
  from poll_dispatch(4) show ?thesis
    by (rule dispatch_firstE) (simp add: poll_dispatch held_def cancelled_def)
next
  case (reclaim_dispatch k)
  from reclaim_dispatch(4) show ?thesis
    by (rule dispatch_firstE) (simp add: reclaim_dispatch held_def cancelled_def)
next
  case (task_returns i k q m)
  with cancelled_finish [OF task_returns(4,5)] show ?thesis by (simp add: held_def)
next
  case (callback i k)
  with cancelled_discard [OF callback(4)] show ?thesis by (simp add: held_def)
next
  case exit
  with assms(2) show ?thesis by (auto simp: held_def process_inv_def)
qed (auto simp: held_def comp_def)

lemma process_run_conserves:
  assumes "process_run E cfg p evs p'" and "process_inv p"
  shows "mset (map msg_ref (held p)) + sum_list (map took evs) = mset (map msg_ref (held p')) + sum_list (map let_go evs)"
  using assms
proof (induction rule: process_run.induct)
  case (run_step evs p1 ev p2)
  with process_step_conserves [OF run_step(2)] process_run_inv [OF run_step(1)]
  have "mset (map msg_ref (held p1)) + took ev = mset (map msg_ref (held p2)) + let_go ev" by blast
  with run_step show ?case by (simp add: ac_simps)
qed simp

section \<open>A serving process is never stuck\<close>

lemma running_task_returns:
  assumes "running_tasks k \<noteq> 0"
  obtains i q m k' where "wk_in_flight k ! i = (q, m, False)" and "finish i k = Some k'"
proof -
  from assms obtain q m where "(q, m, False) \<in> set (wk_in_flight k)"
    by (auto simp: running_tasks_def filter_empty_conv)
  then obtain i where "i < length (wk_in_flight k)" "wk_in_flight k ! i = (q, m, False)" by (auto simp: in_set_conv_nth)
  with that show thesis by (simp add: finish_def)
qed

lemma dispatch_first_enabled:
  assumes "ms \<noteq> []" and "0 < wk_semaphore k"
  obtains k' where "dispatch_first ms k = Some k'"
  using assms by (cases ms) (auto simp: dispatch_first_def dispatch_def split: prod.splits)

lemma own_events [simp]: "own Tick" "own (Took ms)" "own (Returned m)" "own (Exit ms)"
  by simp_all

lemma poll_goes_on:
  assumes "pr_phase p = Serving" and "pr_hand p = []" and "pr_poll p \<noteq> Ended"
  shows "\<exists>ev p'. own ev \<and> process_step E cfg p ev p'"
proof (cases "pr_poll p")
  case (Visit qs)
  show ?thesis
  proof (cases qs)
    case Nil
    with Visit poll_round [OF assms(1) _ assms(2)] show ?thesis by (metis own_events(1))
  next
    case (Cons q qs')
    obtain ms w where "poll_queue (dp_redis E) (dp_codec E) cfg (wk_semaphore (pr_worker p)) q (pr_world p) = (ms, w)" by fastforce
    from poll_visit [OF assms(1) _ assms(2) this] Visit Cons show ?thesis by (metis own_events(2))
  qed
qed (use assms in \<open>blast intro: poll_head poll_wake own_events\<close>)+

lemma scheduler_goes_on:
  assumes "pr_phase p = Serving" and "pr_scheduler p \<noteq> Ended"
  shows "\<exists>ev p'. own ev \<and> process_step E cfg p ev p'"
proof (cases "pr_scheduler p")
  case (Visit qs)
  then show ?thesis by (cases qs) (use assms(1) in \<open>blast intro: sched_round sched_visit own_events\<close>)+
qed (use assms in \<open>blast intro: sched_head sched_wake own_events\<close>)+

lemma reclaimer_goes_on:
  assumes "pr_phase p = Serving" and "pr_reclaimed p = []" and "pr_adopted p = []" and "pr_reclaim p \<noteq> Ended"
  shows "\<exists>ev p'. own ev \<and> process_step E cfg p ev p'"
proof (cases "pr_reclaim p")
  case (Visit qs)
  show ?thesis
  proof (cases qs)
    case Nil
    with Visit process_step.reclaim_round [OF assms(1) _ assms(2,3)] show ?thesis by (metis own_events(1))
  next
    case (Cons q qs')
    obtain ms w where "reclaim_queue (dp_redis E) (dp_codec E) cfg q (pr_world p) = (ms, w)" by fastforce
    from reclaim_visit [OF assms(1) _ assms(2,3) this] Visit Cons show ?thesis by (metis own_events(2))
  qed
qed (use assms in \<open>blast intro: reclaim_head reclaim_wake own_events\<close>)+

lemma heartbeat_goes_on:
  assumes "pr_phase p = Serving" and "process_inv p" and "pr_heartbeat p \<noteq> Ended"
  shows "\<exists>ev p'. own ev \<and> process_step E cfg p ev p'"
proof (cases "pr_heartbeat p")
  case (Visit qs)
  with assms(2) have "pr_heartbeat p = Visit []" by (cases qs) (auto simp: process_inv_def)
  with heartbeat_beat [OF assms(1)] show ?thesis by (metis own_events(1))
qed (use assms in \<open>blast intro: heartbeat_head heartbeat_wake own_events\<close>)+

lemma serving_not_stuck:
  assumes "process_inv p" and "pr_phase p = Serving" and "0 < wk_concurrency (pr_worker p)"
  shows "\<exists>ev p'. own ev \<and> process_step E cfg p ev p'"
proof (cases "running_tasks (pr_worker p) = 0")
  case False
  then show ?thesis
    by (rule running_task_returns) (blast intro: process_step.task_returns [OF assms(2)] own_events)
next
  case True
  with assms have sem: "0 < wk_semaphore (pr_worker p)" by (simp add: process_inv_def worker_inv_def)
  consider (hand) "pr_hand p \<noteq> []" | (adopted) "pr_adopted p \<noteq> []" | (reclaimed) q m ms where "pr_adopted p = []" "pr_reclaimed p = (q, m) # ms"
    | (poll) "pr_hand p = []" "pr_poll p \<noteq> Ended" | (scheduler) "pr_scheduler p \<noteq> Ended"
    | (reclaimer) "pr_reclaimed p = []" "pr_adopted p = []" "pr_reclaim p \<noteq> Ended" | (heartbeat) "pr_heartbeat p \<noteq> Ended"
    | (ended) "pr_poll p = Ended" "pr_scheduler p = Ended" "pr_reclaim p = Ended" "pr_heartbeat p = Ended"
    by (metis list.exhaust surj_pair)
  then show ?thesis
  proof cases
    case hand
    then obtain k where "dispatch_first (pr_hand p) (pr_worker p) = Some k" using sem by (rule dispatch_first_enabled)
    from poll_dispatch [OF assms(2) this] show ?thesis by (blast intro: own_events)
  next
    case adopted
    then obtain k where "dispatch_first (pr_adopted p) (pr_worker p) = Some k" using sem by (rule dispatch_first_enabled)
    from reclaim_dispatch [OF assms(2) this] show ?thesis by (blast intro: own_events)
  next
    case reclaimed
    then show ?thesis by (blast intro: reclaim_adopt [OF assms(2)] own_events)
  next
    case ended
    then show ?thesis by (blast intro: process_step.exit [OF assms(2)] own_events)
  qed (use poll_goes_on scheduler_goes_on reclaimer_goes_on heartbeat_goes_on assms in blast)+
qed

section \<open>A signal while a task runs\<close>

text \<open>
  The worker polls a message and dispatches it, is told to stop, its loops return, and the process
  exits: the task is cancelled, and the world is as the poll left it, with the message neither
  acknowledged nor settled.
\<close>

lemma worker_start_serving:
  assumes "worker_start E cfg now (new_process cfg w) = (Inr (), p)"
  shows "pr_phase p = Serving" "pr_poll p = Head" "pr_scheduler p = Head" "pr_reclaim p = Sleeping" "pr_heartbeat p = Head"
    "pr_hand p = []" "pr_adopted p = []" "pr_reclaimed p = []" "pr_worker p = run_loops (new_worker cfg)"
    "set (pr_signals p) = {''SIGTERM'', ''SIGINT''}"
  using assms by (auto simp: worker_start_def new_process_def split: prod.splits sum.splits)

lemma sigterm_cancels_task:
  assumes started: "worker_start E cfg now (new_process cfg w) = (Inr (), p0)" and queues: "cfg_worker_queues cfg = [q]"
    and conc: "0 < cfg_worker_concurrency cfg"
    and poll: "poll_queue (dp_redis E) (dp_codec E) cfg (cfg_worker_concurrency cfg) q (pr_world p0) = ([m], w1)"
  shows "\<exists>p. process_run E cfg (worker_main E cfg now w) [Tick, Took [msg_ref (q, m)], Tick, Signal, Tick, Tick, Tick, Tick, Tick,
      Exit [msg_ref (q, m)]] p \<and> pr_phase p = Exited None \<and> pr_world p = w1 \<and> \<not> wk_running (pr_worker p)"
proof -
  note p0 = worker_start_serving [OF started]
  let ?k = "(run_loops (new_worker cfg))\<lparr>wk_semaphore := cfg_worker_concurrency cfg - 1, wk_in_flight := [(q, m, False)]\<rparr>"
  let ?k' = "signal_shutdown ?k"
  let ?p1 = "p0\<lparr>pr_poll := Visit [q]\<rparr>"
  let ?p2 = "?p1\<lparr>pr_poll := Visit [], pr_hand := [(q, m)], pr_world := w1\<rparr>"
  let ?p3 = "?p2\<lparr>pr_worker := ?k, pr_hand := []\<rparr>"
  let ?p4 = "?p3\<lparr>pr_worker := ?k'\<rparr>"
  let ?p5 = "?p4\<lparr>pr_poll := Ended\<rparr>"
  let ?p6 = "?p5\<lparr>pr_scheduler := Ended\<rparr>"
  let ?p7 = "?p6\<lparr>pr_heartbeat := Ended\<rparr>"
  let ?p8 = "?p7\<lparr>pr_reclaim := Head\<rparr>"
  let ?p9 = "?p8\<lparr>pr_reclaim := Ended\<rparr>"
  let ?p = "?p9\<lparr>pr_worker := cancel_all ?k', pr_phase := Exited None\<rparr>"
  have stopped: "\<not> wk_running ?k'" by (simp add: signal_shutdown_def run_loops_def new_worker_def)
  have k: "wk_running (run_loops (new_worker cfg))" "wk_semaphore (run_loops (new_worker cfg)) = cfg_worker_concurrency cfg"
    by (simp_all add: run_loops_def new_worker_def)
  have cancels: "cancelled ?k' = [(q, m)]" by (simp add: cancelled_def [of ?k])
  have main: "worker_main E cfg now w = p0" by (simp add: worker_main_def started)
  have "process_run E cfg p0 [] p0" by (rule run_refl)
  moreover have "process_step E cfg p0 Tick ?p1"
    using poll_head [of p0 E cfg] p0 k queues by (simp add: while_running_def)
  moreover have "process_step E cfg ?p1 (Took [msg_ref (q, m)]) ?p2"
    using poll_visit [of ?p1 q "[]" E cfg "[m]" w1] p0 k poll by simp
  moreover have "process_step E cfg ?p2 Tick ?p3"
    using poll_dispatch [of ?p2 ?k E cfg] p0 conc
    by (simp add: dispatch_first_def dispatch_def run_loops_def new_worker_def)
  moreover have "process_step E cfg ?p3 Signal ?p4" using signal [of ?p3 "''SIGTERM''" E cfg] p0 by simp
  moreover have "process_step E cfg ?p4 Tick ?p5" using poll_round [of ?p4 E cfg] p0 stopped by (simp add: while_running_def)
  moreover have "process_step E cfg ?p5 Tick ?p6" using sched_head [of ?p5 E cfg] p0 stopped by (simp add: while_running_def)
  moreover have "process_step E cfg ?p6 Tick ?p7" using heartbeat_head [of ?p6 E cfg] p0 stopped by (simp add: while_running_def)
  moreover have "process_step E cfg ?p7 Tick ?p8" using reclaim_wake [of ?p7 E cfg] p0 by simp
  moreover have "process_step E cfg ?p8 Tick ?p9" using reclaim_head [of ?p8 E cfg] p0 stopped by (simp add: while_running_def)
  moreover have "process_step E cfg ?p9 (Exit [msg_ref (q, m)]) ?p"
    using exit [of ?p9 E cfg] p0 cancels by simp
  ultimately have "process_run E cfg p0 ([] @ [Tick] @ [Took [msg_ref (q, m)]] @ [Tick] @ [Signal] @ [Tick] @ [Tick] @ [Tick] @
      [Tick] @ [Tick] @ [Exit [msg_ref (q, m)]]) ?p"
    unfolding append_assoc [symmetric] by (intro run_step)
  moreover have "\<not> wk_running (cancel_all ?k')" using stopped by (simp add: cancel_all_def)
  ultimately show ?thesis unfolding main by (intro exI [of _ ?p]) simp
qed

section \<open>The process is a worker\<close>

text \<open>
  The state machine of \<open>Worker_Loop\<close> forgets which loop holds a message and where the loops are; the
  process is simulated by it.
\<close>

definition simulated :: "('s, 'd, 'h, 'c) process \<Rightarrow> worker \<Rightarrow> bool" where
  "simulated p k \<longleftrightarrow> k\<lparr>wk_todo := []\<rparr> = (pr_worker p)\<lparr>wk_todo := []\<rparr> \<and>
     mset (wk_todo k) = mset (pr_hand p) + mset (pr_adopted p) + mset (map (\<lambda>(q, m). (q, adopt m)) (pr_reclaimed p))"

lemma worker_fields:
  assumes "k\<lparr>wk_todo := []\<rparr> = k'\<lparr>wk_todo := []\<rparr>"
  shows "wk_semaphore k = wk_semaphore k'" "wk_in_flight k = wk_in_flight k'" "wk_shutting_down k = wk_shutting_down k'"
    "k = k'\<lparr>wk_todo := wk_todo k\<rparr>"
  using assms by (cases k; cases k'; simp)+

lemma dispatch_simulated:
  assumes "dispatch_first ms k0 = Some k0'" and "k\<lparr>wk_todo := []\<rparr> = k0\<lparr>wk_todo := []\<rparr>" and "mset (wk_todo k) = mset ms + M"
  shows "\<exists>k'. worker_step k k' \<and> k'\<lparr>wk_todo := []\<rparr> = k0'\<lparr>wk_todo := []\<rparr> \<and> mset (wk_todo k') = mset (tl ms) + M"
  using assms(1)
proof (rule dispatch_firstE)
  fix q m rest assume ms: "ms = (q, m) # rest" and sem: "0 < wk_semaphore k0"
    and k0': "k0' = k0\<lparr>wk_semaphore := wk_semaphore k0 - 1, wk_todo := [], wk_in_flight := wk_in_flight k0 @ [(q, m, False)]\<rparr>"
  note k = worker_fields [OF assms(2)]
  have "(q, m) \<in> set (wk_todo k)" using assms(3) ms by (metis in_multiset_in_set list.set_intros(1) set_mset_mset union_iff)
  then obtain i where i: "i < length (wk_todo k)" "wk_todo k ! i = (q, m)" by (auto simp: in_set_conv_nth)
  let ?k' = "k\<lparr>wk_semaphore := wk_semaphore k - 1, wk_todo := take i (wk_todo k) @ drop (Suc i) (wk_todo k),
    wk_in_flight := wk_in_flight k @ [(q, m, False)]\<rparr>"
  have "dispatch i k = Some ?k'" using i sem k(1) by (simp add: dispatch_def)
  then have "worker_step k ?k'" by (rule step_dispatch)
  moreover have "?k'\<lparr>wk_todo := []\<rparr> = k0'\<lparr>wk_todo := []\<rparr>" using k by (cases k; cases k0) (simp add: k0')
  moreover have "mset (wk_todo ?k') = mset (tl ms) + M" using mset_nth_split [OF i(1)] assms(3) by (simp add: ms i(2))
  ultimately show ?thesis by blast
qed

lemma finish_todo: "finish i (k\<lparr>wk_todo := t\<rparr>) = map_option (\<lambda>k'. k'\<lparr>wk_todo := t\<rparr>) (finish i k)"
  and discard_todo: "discard i (k\<lparr>wk_todo := t\<rparr>) = map_option (\<lambda>k'. k'\<lparr>wk_todo := t\<rparr>) (discard i k)"
  by (simp_all add: finish_def discard_def split: prod.split bool.split)

text \<open>Cancelling is every task returning and being discarded.\<close>

lemma cancel_all_steps: "worker_step\<^sup>*\<^sup>* k (cancel_all k)"
proof (induction "wk_in_flight k" arbitrary: k)
  case Nil
  then have "cancel_all k = k" by (cases k) (simp add: cancel_all_def cancelled_def)
  then show ?case by simp
next
  case (Cons t ts)
  obtain q m f where t: "t = (q, m, f)" by (cases t)
  let ?k1 = "if f then k else k\<lparr>wk_semaphore := wk_semaphore k + 1, wk_in_flight := (q, m, True) # ts\<rparr>"
  let ?k2 = "?k1\<lparr>wk_in_flight := ts\<rparr>"
  have "worker_step\<^sup>*\<^sup>* k ?k1"
    using step_finish [of 0 k ?k1] Cons(2) [symmetric] t by (auto simp: finish_def)
  moreover have "discard 0 ?k1 = Some ?k2" using Cons(2) [symmetric] t by (simp add: discard_def)
  then have "worker_step ?k1 ?k2" by (rule step_discard)
  moreover have "cancel_all ?k2 = cancel_all k" using Cons(2) [symmetric] t by (simp add: cancel_all_def cancelled_def)
  moreover have "worker_step\<^sup>*\<^sup>* ?k2 (cancel_all ?k2)" by (rule Cons(1)) simp
  ultimately show ?case by (metis (no_types, lifting) rtranclp.rtrancl_into_rtrancl rtranclp_trans)
qed

lemma poll_queue_at_most:
  assumes "redis_service R V before" and "poll_queue R C cfg sem q w = (ms, w')"
  shows "ms = [] \<or> sem \<noteq> 0 \<and> length ms \<le> nat (min sem 5)"
  using assms lease_at_most [OF assms(1)] by (auto simp: poll_queue_def split: if_splits prod.splits sum.splits)

lemma cancel_all_todo: "cancel_all (k\<lparr>wk_todo := t\<rparr>) = (cancel_all k)\<lparr>wk_todo := t\<rparr>"
  by (simp add: cancel_all_def cancelled_def)

lemma signal_todo: "signal_shutdown (k\<lparr>wk_todo := t\<rparr>) = (signal_shutdown k)\<lparr>wk_todo := t\<rparr>"
  by (simp add: signal_shutdown_def)

lemma process_step_simulated:
  assumes R: "redis_service (dp_redis E) V before" and "process_step E cfg p ev p'" and sim: "simulated p k"
  shows "\<exists>k'. worker_step\<^sup>*\<^sup>* k k' \<and> simulated p' k'"
proof -
  from sim have eq: "k\<lparr>wk_todo := []\<rparr> = (pr_worker p)\<lparr>wk_todo := []\<rparr>" by (simp add: simulated_def)
  note k = worker_fields [OF this]
  have stutter: ?thesis if "simulated p' k" using that by blast
  have step: ?thesis if "worker_step k k'" "simulated p' k'" for k' using that by blast
  show ?thesis
    using assms(2)
  proof (cases rule: process_step.cases)
    case (poll_visit q qs ms w)
    consider "ms = []" | "wk_semaphore k \<noteq> 0" "length ms \<le> nat (min (wk_semaphore k) 5)"
      using poll_queue_at_most [OF R poll_visit(6)] k(1) by auto
    then show ?thesis
    proof cases
      case 1
      with sim poll_visit show ?thesis by (intro stutter) (simp add: simulated_def)
    next
      case 2
      from step_poll [OF this] sim poll_visit show ?thesis by (intro step) (auto simp: simulated_def)
    qed
  next
    case (poll_dispatch k0)
    from dispatch_simulated [OF poll_dispatch(4) eq] sim obtain k' where "worker_step k k'"
        "k'\<lparr>wk_todo := []\<rparr> = k0\<lparr>wk_todo := []\<rparr>" "mset (wk_todo k') = mset (tl (pr_hand p)) + (mset (pr_adopted p) +
          mset (map (\<lambda>(q, m). (q, adopt m)) (pr_reclaimed p)))"
      by (auto simp: simulated_def add.assoc)
    with poll_dispatch show ?thesis by (intro step [of k']) (auto simp: simulated_def)
  next
    case (reclaim_dispatch k0)
    from dispatch_simulated [OF reclaim_dispatch(4) eq, of "mset (pr_hand p) + mset (map (\<lambda>(q, m). (q, adopt m)) (pr_reclaimed p))"]
      sim obtain k' where "worker_step k k'" "k'\<lparr>wk_todo := []\<rparr> = k0\<lparr>wk_todo := []\<rparr>" "mset (wk_todo k') =
        mset (tl (pr_adopted p)) + (mset (pr_hand p) + mset (map (\<lambda>(q, m). (q, adopt m)) (pr_reclaimed p)))"
      by (auto simp: simulated_def ac_simps)
    with reclaim_dispatch show ?thesis by (intro step [of k']) (auto simp: simulated_def)
  next
    case (reclaim_visit q qs ms w)
    from sim reclaim_visit show ?thesis by (intro step [OF step_reclaim [of k q ms]]) (auto simp: simulated_def comp_def)
  next
    case (task_returns i k0 q m)
    have "finish i k = Some (k0\<lparr>wk_todo := wk_todo k\<rparr>)" using task_returns(4) k(4) finish_todo by (metis option.simps(9))
    from step_finish [OF this] sim task_returns show ?thesis by (intro step) (auto simp: simulated_def)
  next
    case (callback i k0)
    have "discard i k = Some (k0\<lparr>wk_todo := wk_todo k\<rparr>)" using callback(4) k(4) discard_todo by (metis option.simps(9))
    from step_discard [OF this] sim callback show ?thesis by (intro step) (auto simp: simulated_def)
  next
    case exit
    have "cancel_all k = (cancel_all (pr_worker p))\<lparr>wk_todo := wk_todo k\<rparr>" using k(4) cancel_all_todo by metis
    with cancel_all_steps [of k] sim exit show ?thesis by (auto simp: simulated_def)
  next
    case (signal sig)
    have "signal_shutdown k = (signal_shutdown (pr_worker p))\<lparr>wk_todo := wk_todo k\<rparr>" using k(4) signal_todo by metis
    with step_signal [of k] sim signal show ?thesis by (intro step) (auto simp: simulated_def)
  qed (use sim in \<open>auto simp: simulated_def intro!: stutter\<close>)
qed

text \<open>What a process does, from its start on, is what the event loop of a worker does.\<close>

lemma process_refines_worker:
  assumes "redis_service (dp_redis E) V before" and "process_run E cfg (worker_main E cfg now w) evs p"
  shows "\<exists>k. worker_step\<^sup>*\<^sup>* (new_worker cfg) k \<and> simulated p k"
  using assms(2)
proof (induction rule: process_run.induct)
  case run_refl
  have "worker_main E cfg now w = p \<Longrightarrow> pr_worker p = new_worker cfg \<or> pr_worker p = run_loops (new_worker cfg)"
    and "worker_main E cfg now w = p \<Longrightarrow> pr_hand p = [] \<and> pr_adopted p = [] \<and> pr_reclaimed p = []" for p
    by (auto simp: worker_main_def worker_start_def new_process_def split: prod.splits sum.splits)
  moreover have "wk_todo (new_worker cfg) = []" "wk_todo (run_loops (new_worker cfg)) = []"
    by (simp_all add: new_worker_def run_loops_def)
  ultimately show ?case using step_start [of "new_worker cfg"] by (auto simp: simulated_def)
next
  case (run_step evs p1 ev p2)
  with process_step_simulated [OF assms(1) run_step(2)] show ?case by (meson rtranclp_trans)
qed

section \<open>Properties\<close>

text \<open>
  C7: A worker that has been told to stop by a signal comes to its end. Whatever
  other processes do, and in whatever order its loops, tasks and callbacks go on, it takes only finitely many
  steps of its own after \<open>_running\<close> was cleared; and as long as it has not exited, one of its own steps is
  possible, so it is never stuck. When it has exited, no message is left in the hands of a loop: every message
  that it took from the broker, by polling or by reclaiming, had its task either return or be cancelled. (A task that is
  cancelled stops between two awaits; what it had done until then is not part of the step. \<open>stop\<close> and \<open>drain\<close>, which the
  process itself does not call, are not steps either.)
\<close>

theorem worker_shutdown_ends:
  assumes "0 < cfg_worker_concurrency cfg" and "process_run E cfg (worker_main E cfg now w) evs p"
    and "\<not> wk_running (pr_worker p)"
  shows "(\<forall>\<sigma> ev. \<sigma> 0 = p \<and> (\<forall>n. process_step E cfg (\<sigma> n) (ev n) (\<sigma> (Suc n))) \<longrightarrow> finite {n. own (ev n)}) \<and>
    (pr_phase p = Serving \<longrightarrow> (\<exists>ev p'. own ev \<and> process_step E cfg p ev p')) \<and>
    (pr_phase p \<noteq> Serving \<longrightarrow> sum_list (map took evs) = sum_list (map let_go evs))"
proof -
  note main = worker_main_inv [OF order_less_imp_le [OF assms(1)], of E now w]
  note inv = process_run_inv [OF assms(2) main(1)]
  have "pr_phase p \<noteq> Serving \<longrightarrow> held p = []" using inv by (auto simp: process_inv_def)
  with process_run_conserves [OF assms(2) main(1)] main(3)
  have "pr_phase p \<noteq> Serving \<longrightarrow> sum_list (map took evs) = sum_list (map let_go evs)" by simp
  moreover have "pr_phase p = Serving \<longrightarrow> (\<exists>ev p'. own ev \<and> process_step E cfg p ev p')"
    using serving_not_stuck [of p E cfg] inv main(2) assms(1) by simp
  moreover have "finite {n. own (ev n)}" if "\<sigma> 0 = p" "\<forall>n. process_step E cfg (\<sigma> n) (ev n) (\<sigma> (Suc n))" for \<sigma> ev
    using stopping_run_finite [of \<sigma> E cfg ev] that assms(3) by simp
  ultimately show ?thesis by blast
qed

text \<open>A server with one message that waits, and a library that reaches it.\<close>

definition demo_waiting :: "task_envelope keyspace" where
  "demo_waiting = publish ref_redis ref_codec ''default'' demo_envelope (snd (ensure_queue ref_redis ''default'' empty_keyspace))"

definition keyspace_library :: "(task_envelope keyspace, nat, string) redis_library" where
  "keyspace_library = \<lparr>rl_from_url = (\<lambda>_ _ _ s. (0, s)), rl_ping = (\<lambda>_ s. (Inr (), s)), rl_register_script = (\<lambda>_ src. src),
     rl_aclose = (\<lambda>_ s. (Inr (), s)), rl_read_text = Inr\<rparr>"

definition demo_deps :: "(task_envelope keyspace, task_envelope, ref_db, nat, string) deps" where
  "demo_deps = \<lparr>dp_library = keyspace_library, dp_redis = ref_redis, dp_postgres = ref_postgres, dp_codec = ref_codec,
     dp_text = demo_py, dp_registry = demo_reg, dp_dumps = (\<lambda>_. [])\<rparr>"

definition demo_world :: "(task_envelope keyspace, ref_db) world" where
  "demo_world = \<lparr>w_redis = demo_waiting, w_db = empty_ref_db\<rparr>"

lemma demo_ensure: "ensure_queue ref_redis ''default'' demo_waiting = (Inr (), demo_waiting)"
  by (simp add: demo_waiting_def ensure_queue_def ref_redis_def group_at_def empty_keyspace_def ks_xgroup_create_def stream_at_def
      empty_stream_def put_stream_def publish_def Let_def ks_xadd_def)

lemma demo_poll:
  "\<exists>m w1. poll_queue ref_redis ref_codec default_settings 8 ''default'' demo_world = ([m], w1) \<and> broker_msg_id m = 1 \<and>
     pending_ids (w_redis w1) ''default'' = [1]"
  by (simp add: poll_queue_def demo_world_def demo_waiting_def ensure_queue_def ref_redis_def group_at_def empty_keyspace_def
      ks_xgroup_create_def stream_at_def empty_stream_def put_stream_def publish_def lease_def Let_def ks_xadd_def
      ks_xreadgroup_def undelivered_def put_group_def queue_group_def pending_ids_def ref_codec_def default_settings_def)

lemma demo_start:
  "\<exists>p. worker_start demo_deps default_settings 0 (new_process default_settings demo_world) = (Inr (), p) \<and> pr_world p = demo_world"
  using demo_ensure
  by (simp add: worker_start_def new_process_def br_connect_def demo_deps_def keyspace_library_def new_redis_broker_def script_names_def
      load_lua_def default_settings_def demo_world_def pr_redis_def)

theorem worker_shutdown_ends_witness:
  "\<exists>p m evs. process_run demo_deps default_settings (worker_main demo_deps default_settings 0 demo_world) (evs @ [Exit [m]]) p \<and>
     pr_phase p = Exited None \<and> m = (''default'', 1) \<and> pending_ids (w_redis (pr_world p)) ''default'' = [1] \<and>
     sum_list (map took (evs @ [Exit [m]])) = sum_list (map let_go (evs @ [Exit [m]]))"
proof -
  obtain p0 where p0: "worker_start demo_deps default_settings 0 (new_process default_settings demo_world) = (Inr (), p0)"
    "pr_world p0 = demo_world" using demo_start by blast
  obtain m w1 where m: "poll_queue ref_redis ref_codec default_settings 8 ''default'' demo_world = ([m], w1)" "broker_msg_id m = 1"
    "pending_ids (w_redis w1) ''default'' = [1]" using demo_poll by blast
  have conc: "cfg_worker_queues default_settings = [''default'']" "cfg_worker_concurrency default_settings = 8"
    by (simp_all add: default_settings_def)
  let ?ref = "msg_ref (''default'', m)"
  obtain p where p: "process_run demo_deps default_settings (worker_main demo_deps default_settings 0 demo_world)
      ([Tick, Took [?ref], Tick, Signal, Tick, Tick, Tick, Tick, Tick] @ [Exit [?ref]]) p"
    "pr_phase p = Exited None" "pr_world p = w1" "\<not> wk_running (pr_worker p)"
    using sigterm_cancels_task [OF p0(1) conc(1), of m w1] p0(2) m(1) conc(2) by (auto simp: demo_deps_def)
  have "sum_list (map took ([Tick, Took [?ref], Tick, Signal, Tick, Tick, Tick, Tick, Tick] @ [Exit [?ref]])) =
      sum_list (map let_go ([Tick, Took [?ref], Tick, Signal, Tick, Tick, Tick, Tick, Tick] @ [Exit [?ref]]))"
    using worker_shutdown_ends [OF _ p(1,4)] p(2) conc(2) by simp
  with p m(2,3) show ?thesis by (metis msg_ref_def fst_conv snd_conv)
qed

end
