(* ===== verification/Http_Api.thy ===== *)
theory Http_Api
  imports Fleet Broker_Protocol Control_Contract "HOL-Library.Monad_Syntax"
begin

text \<open>
  The HTTP surface of the control plane: the routes that the decorators of \<open>dtq/control/app.py\<close> register,
  the request and response schemas of \<open>dtq/control/schemas.py\<close>, and a request from its path and body to the
  status and body of the answer, through the handlers of \<open>Control_Plane\<close> and \<open>Fleet\<close>. The router of FastAPI is a
  parameter: for the registered routes and a request it either names a route with the values of its path
  parameters or answers by itself (404, 405, the redirection of a trailing slash, \<open>/docs\<close> and \<open>/openapi.json\<close>,
  a CORS preflight). The locale \<open>http_router\<close> states what is relied on. Input that does not validate answers 422
  before the handler runs; an exception that no handler catches, and a result that does not validate, answer 500.
\<close>

section \<open>Routes\<close>

datatype http_method = GET | POST | DELETE | OtherMethod string

datatype endpoint =
    CreateTask | GetTask | CancelTask | CreateWorkflow | GetWorkflow | ListQueues | ListWorkers | GetDlq | RequeueDlq
  | EventStream | PrometheusMetrics | ChaosKillWorker | ChaosPauseQueue | ChaosInjectFailure

record route =
  rt_method :: http_method
  rt_path :: string
  rt_status :: nat
  rt_endpoint :: endpoint

definition route :: "http_method \<Rightarrow> string \<Rightarrow> nat \<Rightarrow> endpoint \<Rightarrow> route" where
  "route meth path status ep = \<lparr>rt_method = meth, rt_path = path, rt_status = status, rt_endpoint = ep\<rparr>"

text \<open>The routes in the order in which the module registers them; the status is 200 unless given.\<close>

definition task_routes :: "route list" where
  "task_routes =
     [route POST ''/v1/tasks'' 201 CreateTask, route GET ''/v1/tasks/{task_id}'' 200 GetTask,
      route DELETE ''/v1/tasks/{task_id}'' 200 CancelTask]"

definition workflow_routes :: "route list" where
  "workflow_routes =
     [route POST ''/v1/workflows'' 201 CreateWorkflow, route GET ''/v1/workflows/{workflow_id}'' 200 GetWorkflow]"

definition fleet_routes :: "route list" where
  "fleet_routes = [route GET ''/v1/queues'' 200 ListQueues, route GET ''/v1/workers'' 200 ListWorkers]"

definition dlq_routes :: "route list" where
  "dlq_routes = [route GET ''/v1/dlq/{queue}'' 200 GetDlq, route POST ''/v1/dlq/{queue}/requeue'' 200 RequeueDlq]"

definition monitor_routes :: "route list" where
  "monitor_routes = [route GET ''/v1/events'' 200 EventStream, route GET ''/metrics'' 200 PrometheusMetrics]"

definition chaos_routes :: "route list" where
  "chaos_routes =
     [route POST ''/v1/chaos/kill-worker'' 200 ChaosKillWorker, route POST ''/v1/chaos/pause-queue'' 200 ChaosPauseQueue,
      route POST ''/v1/chaos/inject-failure'' 200 ChaosInjectFailure]"

definition routes :: "settings \<Rightarrow> route list" where
  "routes cfg = task_routes @ workflow_routes @ fleet_routes @ dlq_routes @ monitor_routes @
     (if cfg_enable_chaos cfg then chaos_routes else [])"

section \<open>Request schemas\<close>

text \<open>
  The conversions of pydantic for the types of the fields: \<open>None\<close> is a value that does not validate.
  \<open>pd_retry\<close> is the \<open>retry\<close> dictionary of a step, of which the engine reads \<open>max_attempts\<close>; \<open>pd_iso\<close> renders
  a datetime in a response. A datetime is a point in time: a \<open>run_at\<close> without a time zone, which Python does not
  compare with \<open>datetime.now(timezone.utc)\<close>, is outside the model.
\<close>

record pydantic =
  pd_str :: "json \<Rightarrow> string option"
  pd_int :: "json \<Rightarrow> int option"
  pd_float :: "json \<Rightarrow> real option"
  pd_uuid :: "json \<Rightarrow> uuid option"
  pd_datetime :: "json \<Rightarrow> timestamp option"
  pd_retry :: "json \<Rightarrow> int option option"
  pd_iso :: "timestamp \<Rightarrow> string"

text \<open>A required field, a field with a default, \<open>T | None\<close>, a dictionary, a list.\<close>

definition field :: "(json \<Rightarrow> 'a option) \<Rightarrow> string \<Rightarrow> (string \<times> json) list \<Rightarrow> 'a option" where
  "field ty k kvs = (case map_of kvs k of None \<Rightarrow> None | Some v \<Rightarrow> ty v)"

definition field_or :: "'a \<Rightarrow> (json \<Rightarrow> 'a option) \<Rightarrow> string \<Rightarrow> (string \<times> json) list \<Rightarrow> 'a option" where
  "field_or d ty k kvs = (case map_of kvs k of None \<Rightarrow> Some d | Some v \<Rightarrow> ty v)"

definition nullable :: "(json \<Rightarrow> 'a option) \<Rightarrow> json \<Rightarrow> 'a option option" where
  "nullable ty v = (if v = JNull then Some None else map_option Some (ty v))"

fun as_dict :: "json \<Rightarrow> (string \<times> json) list option" where
  "as_dict (JObj kvs) = Some kvs"
| "as_dict _ = None"

fun all_some :: "'a option list \<Rightarrow> 'a list option" where
  "all_some [] = Some []"
| "all_some (x # xs) = (case x of None \<Rightarrow> None | Some a \<Rightarrow> map_option (Cons a) (all_some xs))"

fun as_list :: "(json \<Rightarrow> 'a option) \<Rightarrow> json \<Rightarrow> 'a list option" where
  "as_list ty (JArr vs) = all_some (map ty vs)"
| "as_list ty _ = None"

definition as_object :: "json \<Rightarrow> json option" where
  "as_object v = map_option JObj (as_dict v)"

definition parse_create_task :: "pydantic \<Rightarrow> json \<Rightarrow> create_task_request option" where
  "parse_create_task Y v = do {
     kvs \<leftarrow> as_dict v;
     queue \<leftarrow> field (pd_str Y) ''queue'' kvs;
     task_name \<leftarrow> field (pd_str Y) ''task_name'' kvs;
     payload \<leftarrow> field as_object ''payload'' kvs;
     dedup_key \<leftarrow> field_or None (nullable (pd_str Y)) ''dedup_key'' kvs;
     priority \<leftarrow> field_or 0 (pd_int Y) ''priority'' kvs;
     run_at \<leftarrow> field_or None (nullable (pd_datetime Y)) ''run_at'' kvs;
     mx \<leftarrow> field_or 5 (pd_int Y) ''max_attempts'' kvs;
     Some \<lparr>rq_queue = queue, rq_task_name = task_name, rq_payload = payload, rq_dedup_key = dedup_key,
       rq_priority = priority, rq_run_at = run_at, rq_max_attempts = mx\<rparr> }"

definition parse_workflow_step :: "pydantic \<Rightarrow> json \<Rightarrow> workflow_step option" where
  "parse_workflow_step Y v = do {
     kvs \<leftarrow> as_dict v;
     name \<leftarrow> field (pd_str Y) ''name'' kvs;
     task \<leftarrow> field (pd_str Y) ''task'' kvs;
     payload \<leftarrow> field_or (JObj []) as_object ''payload'' kvs;
     depends_on \<leftarrow> field_or [] (as_list (pd_str Y)) ''depends_on'' kvs;
     fan_out \<leftarrow> field_or None (nullable (pd_str Y)) ''fan_out'' kvs;
     retry \<leftarrow> field_or None (nullable (pd_retry Y)) ''retry'' kvs;
     Some \<lparr>st_name = name, st_task = task, st_payload = payload, st_depends_on = depends_on, st_fan_out = fan_out,
       st_retry = retry\<rparr> }"

definition parse_create_workflow :: "pydantic \<Rightarrow> json \<Rightarrow> (string \<times> workflow_step list) option" where
  "parse_create_workflow Y v = do {
     kvs \<leftarrow> as_dict v;
     name \<leftarrow> field (pd_str Y) ''name'' kvs;
     steps \<leftarrow> field (as_list (parse_workflow_step Y)) ''steps'' kvs;
     Some (name, steps) }"

definition parse_requeue :: "pydantic \<Rightarrow> json \<Rightarrow> uuid list option" where
  "parse_requeue Y v = do { kvs \<leftarrow> as_dict v; field (as_list (pd_uuid Y)) ''task_ids'' kvs }"

definition parse_kill_worker :: "pydantic \<Rightarrow> json \<Rightarrow> string option" where
  "parse_kill_worker Y v = do { kvs \<leftarrow> as_dict v; field (pd_str Y) ''worker_id'' kvs }"

definition parse_pause_queue :: "pydantic \<Rightarrow> json \<Rightarrow> (string \<times> real) option" where
  "parse_pause_queue Y v = do {
     kvs \<leftarrow> as_dict v;
     queue \<leftarrow> field (pd_str Y) ''queue'' kvs;
     duration_s \<leftarrow> field_or 30 (pd_float Y) ''duration_s'' kvs;
     Some (queue, duration_s) }"

definition parse_inject_failure :: "pydantic \<Rightarrow> json \<Rightarrow> (string \<times> string \<times> (string \<times> json) list \<times> string) option" where
  "parse_inject_failure Y v = do {
     kvs \<leftarrow> as_dict v;
     queue \<leftarrow> field (pd_str Y) ''queue'' kvs;
     task_name \<leftarrow> field (pd_str Y) ''task_name'' kvs;
     payload \<leftarrow> field_or [] as_dict ''payload'' kvs;
     error_type \<leftarrow> field_or ''InjectedError'' (pd_str Y) ''error_type'' kvs;
     Some (queue, task_name, payload, error_type) }"

section \<open>Responses\<close>

fun state_value :: "task_state \<Rightarrow> string" where
  "state_value PENDING = ''pending''"
| "state_value SCHEDULED = ''scheduled''"
| "state_value LEASED = ''leased''"
| "state_value SUCCEEDED = ''succeeded''"
| "state_value FAILED = ''failed''"
| "state_value DEAD = ''dead''"
| "state_value CANCELLED = ''cancelled''"

fun opt_json :: "('a \<Rightarrow> json) \<Rightarrow> 'a option \<Rightarrow> json" where
  "opt_json f None = JNull"
| "opt_json f (Some x) = f x"

abbreviation JInt :: "int \<Rightarrow> json" where "JInt n \<equiv> JNum (of_int n)"

definition create_task_response :: "uuid \<Rightarrow> bool \<Rightarrow> json" where
  "create_task_response task_id deduplicated = JObj [(''task_id'', JStr task_id), (''deduplicated'', JBool deduplicated)]"

definition create_workflow_response :: "uuid \<Rightarrow> json" where
  "create_workflow_response workflow_id = JObj [(''workflow_id'', JStr workflow_id)]"

definition attempt_json :: "pydantic \<Rightarrow> attempt_info \<Rightarrow> json" where
  "attempt_json Y a = JObj [(''attempt_no'', JInt (ai_attempt_no a)), (''worker_id'', JStr (ai_worker_id a)),
     (''fence'', JInt (ai_fence a)), (''started_at'', JStr (pd_iso Y (ai_started_at a))),
     (''finished_at'', opt_json (JStr \<circ> pd_iso Y) (ai_finished_at a)), (''outcome'', opt_json JStr (ai_outcome a)),
     (''error_type'', opt_json JStr (ai_error_type a)), (''error_repr'', opt_json JStr (ai_error_repr a))]"

definition task_detail_json :: "pydantic \<Rightarrow> task_detail \<Rightarrow> json" where
  "task_detail_json Y d = (let t = td_task d in JObj [(''id'', JStr (tr_id t)), (''queue'', JStr (tr_queue t)),
     (''task_name'', JStr (tr_task_name t)), (''payload'', tr_payload t), (''state'', JStr (state_value (tr_state t))),
     (''priority'', JInt (tr_priority t)), (''attempt'', JInt (tr_attempt t)), (''max_attempts'', JInt (tr_max_attempts t)),
     (''dedup_key'', opt_json JStr (tr_dedup_key t)), (''run_at'', opt_json (JStr \<circ> pd_iso Y) (tr_run_at t)),
     (''workflow_id'', opt_json JStr (tr_workflow_id t)), (''step_name'', opt_json JStr (tr_step_name t)),
     (''created_at'', JStr (pd_iso Y (tr_created_at t))), (''updated_at'', JStr (pd_iso Y (tr_updated_at t))),
     (''attempts'', JArr (map (attempt_json Y) (td_attempts d)))])"

definition workflow_detail_json :: "pydantic \<Rightarrow> workflow_detail \<Rightarrow> json" where
  "workflow_detail_json Y d = JObj [(''id'', JStr (wd_id d)), (''name'', JStr (wd_name d)), (''state'', JStr (wd_state d)),
     (''created_at'', JStr (pd_iso Y (wd_created_at d))),
     (''steps'', JArr (map (\<lambda>s. JObj [(''name'', JStr (ss_name s)), (''task_name'', JStr (ss_task_name s)),
        (''state'', JStr (state_value (ss_state s))), (''task_id'', opt_json JStr (ss_task_id s))]) (wd_steps d)))]"

text \<open>\<open>QueueInfoResponse\<close>: the handler gives the first three fields, the others keep their defaults.\<close>

definition queue_info :: "string \<times> nat \<times> nat \<Rightarrow> json" where
  "queue_info x = (case x of (queue, depth, in_flight) \<Rightarrow> JObj [(''queue'', JStr queue), (''depth'', JInt (int depth)),
     (''in_flight'', JInt (int in_flight)), (''throughput'', JNum 0), (''oldest_pending_age_s'', JNum 0), (''error_rate'', JNum 0)])"

definition worker_json :: "worker_info \<Rightarrow> json" where
  "worker_json w = JObj [(''worker_id'', JStr (wi_worker_id w)), (''queues'', JArr (map JStr (wi_queues w))),
     (''in_flight'', JInt (wi_in_flight w)), (''concurrency'', JInt (wi_concurrency w)),
     (''heartbeat_age_s'', JNum (wi_heartbeat_age_s w)), (''version'', JStr (wi_version w)), (''alive'', JBool (wi_alive w))]"

definition dlq_json :: "dlq_task \<Rightarrow> json" where
  "dlq_json d = JObj [(''task_id'', JStr (dl_task_id d)), (''queue'', JStr (dl_queue d)), (''task_name'', JStr (dl_task_name d)),
     (''payload'', dl_payload d), (''attempt'', JInt (dl_attempt d)), (''reason'', JStr [])]"

text \<open>A return annotation \<open>dict[str, str]\<close> is a response model: pydantic does not turn a number into a string.\<close>

definition str_dict :: "json \<Rightarrow> bool" where
  "str_dict v = (case v of JObj kvs \<Rightarrow> list_all (\<lambda>(k, x). case x of JStr s \<Rightarrow> True | _ \<Rightarrow> False) kvs | _ \<Rightarrow> False)"

section \<open>Requests\<close>

record request =
  http_method :: http_method
  http_path :: string
  http_body :: "json option"

datatype response = Response nat json | EventSource nat

text \<open>What the router makes of a request: a registered route with the values of its parameters, or an answer of its own.\<close>

datatype routing = Routed route "string list" | Answered response

type_synonym router = "route list \<Rightarrow> request \<Rightarrow> routing"

text \<open>The application: the module's \<open>_broker\<close> and the state that the handlers work on.\<close>

record ('b, 's, 'd) app =
  ap_broker :: "'b option"
  ap_plane :: "('s, 'd) plane"

text \<open>
  What the handlers are built on, and what a single call draws from its surroundings: the clock, fresh
  identifiers, and how the server and the clock go on while the presence keys are read. \<open>sv_client\<close> is the attribute \<open>client\<close> of a broker
  object, which may be missing or raise.
\<close>

record ('b, 's, 'v, 'd) services =
  sv_router :: router
  sv_client :: "'b \<Rightarrow> exn + unit"
  sv_redis :: "('s, 'v) redis"
  sv_postgres :: "'d postgres"
  sv_codec :: "'v codec"
  sv_pydantic :: pydantic
  sv_set_order :: "string list \<Rightarrow> string list"
  sv_show_names :: "string list \<Rightarrow> string"
  sv_scan :: "'s scan"
  sv_loads :: "string \<Rightarrow> exn + json"
  sv_worker_schema :: schema
  sv_generate_latest :: string

record 's call =
  cl_now :: timestamp
  cl_id :: uuid
  cl_fresh :: "nat \<Rightarrow> uuid"
  cl_meanwhile :: "nat \<Rightarrow> 's \<Rightarrow> 's"
  cl_clock :: "nat \<Rightarrow> timestamp"

definition detail :: "string \<Rightarrow> json" where
  "detail m = JObj [(''detail'', JStr m)]"

fun error_response :: "http_error \<Rightarrow> response" where
  "error_response (HTTPException status m) = Response status (detail m)"
| "error_response (InternalError e) = Response 500 (JStr ''Internal Server Error'')"

definition answer :: "nat \<Rightarrow> ('a \<Rightarrow> json) \<Rightarrow> http_error + 'a \<Rightarrow> response" where
  "answer status f r = (case r of Inl e \<Rightarrow> error_response e | Inr x \<Rightarrow> Response status (f x))"

text \<open>Input that does not validate, and a handler that asks for the broker first.\<close>

definition validated :: "'a option \<Rightarrow> ('a \<Rightarrow> response \<times> 'p) \<Rightarrow> 'p \<Rightarrow> response \<times> 'p" where
  "validated x f p = (case x of None \<Rightarrow> (Response 422 (detail ''validation error''), p) | Some a \<Rightarrow> f a)"

definition with_broker :: "'b option \<Rightarrow> ('p \<Rightarrow> response \<times> 'p) \<Rightarrow> 'p \<Rightarrow> response \<times> 'p" where
  "with_broker broker f p = (case get_broker broker of Inl e \<Rightarrow> (error_response (InternalError e), p) | Inr b \<Rightarrow> f p)"

definition with_client :: "('b \<Rightarrow> exn + unit) \<Rightarrow> 'b option \<Rightarrow> ('p \<Rightarrow> response \<times> 'p) \<Rightarrow> 'p \<Rightarrow> response \<times> 'p" where
  "with_client client broker f p = (case res_bind (get_broker broker) client of
     Inl e \<Rightarrow> (error_response (InternalError e), p) | Inr _ \<Rightarrow> f p)"

definition body :: "(json \<Rightarrow> 'a option) \<Rightarrow> request \<Rightarrow> 'a option" where
  "body parse req = Option.bind (http_body req) parse"

definition checked_dict :: "nat \<Rightarrow> json \<Rightarrow> response" where
  "checked_dict status v = (if str_dict v then Response status v else error_response (InternalError (ValidationError ''response'')))"

fun handle ::
  "('b, 's, 'v, 'd) services \<Rightarrow> settings \<Rightarrow> 's call \<Rightarrow> 'b option \<Rightarrow> request \<Rightarrow> nat \<Rightarrow> string list \<Rightarrow> endpoint \<Rightarrow>
   ('s, 'd) plane \<Rightarrow> response \<times> ('s, 'd) plane" where
  "handle S cfg c broker req status params CreateTask p =
     validated (body (parse_create_task (sv_pydantic S)) req) (\<lambda>rq. with_broker broker (\<lambda>p.
       case api_create_task (sv_redis S) (sv_postgres S) (sv_codec S) (cl_now c) (cl_id c) rq p of
         (r, p') \<Rightarrow> (answer status (\<lambda>(task_id, deduplicated). create_task_response task_id deduplicated) r, p')) p) p"
| "handle S cfg c broker req status params GetTask p =
     validated (pd_uuid (sv_pydantic S) (JStr (hd params))) (\<lambda>task_id.
       (answer status (task_detail_json (sv_pydantic S)) (api_get_task (sv_postgres S) task_id p), p)) p"
| "handle S cfg c broker req status params CancelTask p =
     validated (pd_uuid (sv_pydantic S) (JStr (hd params))) (\<lambda>task_id.
       case api_cancel_task (sv_postgres S) (cl_now c) task_id p of
         (r, p') \<Rightarrow> (answer status (\<lambda>i. JObj [(''task_id'', JStr i), (''cancelled'', JBool True)]) r, p')) p"
| "handle S cfg c broker req status params CreateWorkflow p =
     validated (body (parse_create_workflow (sv_pydantic S)) req) (\<lambda>(name, steps). with_broker broker (\<lambda>p.
       case api_create_workflow (sv_redis S) (sv_postgres S) (sv_codec S) (sv_set_order S) (sv_show_names S) (cl_now c)
              (cl_fresh c) (cl_id c) name steps p of
         (r, p') \<Rightarrow> (answer status create_workflow_response r, p')) p) p"
| "handle S cfg c broker req status params GetWorkflow p =
     validated (pd_uuid (sv_pydantic S) (JStr (hd params))) (\<lambda>workflow_id.
       (answer status (workflow_detail_json (sv_pydantic S)) (api_get_workflow (sv_postgres S) workflow_id p), p)) p"
| "handle S cfg c broker req status params ListQueues p =
     with_broker broker (\<lambda>p. (Response status (JArr (map queue_info (api_list_queues (sv_redis S) cfg p))), p)) p"
| "handle S cfg c broker req status params ListWorkers p =
     with_client (sv_client S) broker (\<lambda>p. (answer status (\<lambda>ws. JArr (map worker_json ws))
       (list_workers (sv_redis S) (sv_scan S) (sv_loads S) (sv_worker_schema S) cfg
          (\<lambda>i. cl_meanwhile c i (w_redis (pl_world p))) (cl_clock c)), p)) p"
| "handle S cfg c broker req status params GetDlq p =
     with_broker broker (\<lambda>p. (answer status (\<lambda>ds. JArr (map dlq_json ds))
       (api_get_dlq (sv_redis S) (sv_codec S) (hd params) p), p)) p"
| "handle S cfg c broker req status params RequeueDlq p =
     validated (body (parse_requeue (sv_pydantic S)) req) (\<lambda>task_ids. with_broker broker (\<lambda>p.
       case api_requeue_dlq (sv_redis S) (sv_postgres S) (sv_codec S) (cl_now c) (hd params) task_ids p of
         (r, p') \<Rightarrow> (answer status (\<lambda>(requeued, requested). JObj [(''requeued'', JInt (int requeued)),
           (''requested'', JInt (int requested))]) r, p')) p) p"
| "handle S cfg c broker req status params EventStream p =
     (case subscribe (pl_bus p) of (q, b) \<Rightarrow> (EventSource q, p\<lparr>pl_bus := b\<rparr>))"
| "handle S cfg c broker req status params PrometheusMetrics p = (Response status (JStr (sv_generate_latest S)), p)"
| "handle S cfg c broker req status params ChaosKillWorker p =
     validated (body (parse_kill_worker (sv_pydantic S)) req) (\<lambda>worker_id. with_client (sv_client S) broker (\<lambda>p.
       case api_chaos_kill_worker (sv_redis S) worker_id p of
         (w, p') \<Rightarrow> (checked_dict status (JObj [(''status'', JStr ''killed''), (''worker_id'', JStr w)]), p')) p) p"
| "handle S cfg c broker req status params ChaosPauseQueue p =
     validated (body (parse_pause_queue (sv_pydantic S)) req) (\<lambda>(queue, duration_s). with_client (sv_client S) broker (\<lambda>p.
       case api_chaos_pause_queue (sv_redis S) queue duration_s p of
         (Inl e, p') \<Rightarrow> (error_response e, p')
       | (Inr q, p') \<Rightarrow> (checked_dict status (JObj [(''status'', JStr ''paused''), (''queue'', JStr q),
           (''duration_s'', JNum duration_s)]), p')) p) p"
| "handle S cfg c broker req status params ChaosInjectFailure p =
     validated (body (parse_inject_failure (sv_pydantic S)) req) (\<lambda>(queue, task_name, payload, error_type).
       with_broker broker (\<lambda>p.
         case api_chaos_inject_failure (sv_redis S) (sv_codec S) (cl_now c) (cl_id c) queue task_name payload error_type p of
           (r, p') \<Rightarrow> (answer status (\<lambda>(i, ty). JObj [(''task_id'', JStr i), (''will_fail_with'', JStr ty)]) r, p')) p) p"

definition serve ::
  "('b, 's, 'v, 'd) services \<Rightarrow> settings \<Rightarrow> 's call \<Rightarrow> request \<Rightarrow> ('b, 's, 'd) app \<Rightarrow> response \<times> ('b, 's, 'd) app" where
  "serve S cfg c req a =
     (case sv_router S (routes cfg) req of
        Routed r params \<Rightarrow>
          (case handle S cfg c (ap_broker a) req (rt_status r) params (rt_endpoint r) (ap_plane a) of
             (resp, p) \<Rightarrow> (resp, a\<lparr>ap_plane := p\<rparr>))
      | Answered resp \<Rightarrow> (resp, a))"

text \<open>\<open>run\<close>: what \<open>uvicorn.run\<close> is called with (application, host, port, reload).\<close>

definition run_server :: "settings \<Rightarrow> string \<times> string \<times> int \<times> bool" where
  "run_server cfg = (''dtq.control.app:app'', cfg_control_host cfg, cfg_control_port cfg, True)"

section \<open>Routing\<close>

lemma split_on_none: "c \<notin> set s \<Longrightarrow> split_on c s = [s]"
  by (induction s) auto

text \<open>
  A path is an instance of a template when they agree segment by segment, but for the parameters in braces, each
  of which stands for a segment that is not empty.
\<close>

definition is_param :: "string \<Rightarrow> bool" where
  "is_param seg \<longleftrightarrow> has_prefix ''{'' seg"

fun instance_of :: "string list \<Rightarrow> string list \<Rightarrow> string list \<Rightarrow> bool" where
  "instance_of [] params [] \<longleftrightarrow> params = []"
| "instance_of (t # ts) params (p # ps) \<longleftrightarrow>
     (if is_param t then p \<noteq> [] \<and> params \<noteq> [] \<and> hd params = p \<and> instance_of ts (tl params) ps
      else t = p \<and> instance_of ts params ps)"
| "instance_of _ _ _ \<longleftrightarrow> False"

definition path_instance :: "string \<Rightarrow> string list \<Rightarrow> string \<Rightarrow> bool" where
  "path_instance template params path \<longleftrightarrow> instance_of (split_on CHR ''/'' template) params (split_on CHR ''/'' path)"

definition fits :: "request \<Rightarrow> route \<Rightarrow> string list \<Rightarrow> bool" where
  "fits req r params \<longleftrightarrow> rt_method r = http_method req \<and> path_instance (rt_path r) params (http_path req)"

text \<open>The pages that FastAPI serves by itself, before the routes of the application.\<close>

definition own_pages :: "string list" where
  "own_pages = [''/openapi.json'', ''/docs'', ''/docs/oauth2-redirect'', ''/redoc'']"

text \<open>
  What FastAPI documents of its router: a handler is called for a registered route and with the method of that
  route; a request that is not for one of its own pages and that fits a route goes to the first such route in
  the order of registration, with the values of the parameters. Nothing is assumed of other requests.
\<close>

locale http_router =
  fixes router :: router
  assumes registered: "router rs req = Routed r params \<Longrightarrow> r \<in> set rs \<and> rt_method r = http_method req"
    and first_fit: "fits req r params \<Longrightarrow> http_path req \<notin> set own_pages \<Longrightarrow>
      \<forall>r' \<in> set rs1. \<forall>params'. \<not> fits req r' params' \<Longrightarrow> router (rs1 @ r # rs2) req = Routed r params"

text \<open>Two templates without a common instance: they differ in length or in a literal segment.\<close>

fun clash :: "string list \<Rightarrow> string list \<Rightarrow> bool" where
  "clash [] [] = False"
| "clash (t # ts) (t' # ts') = (\<not> is_param t \<and> \<not> is_param t' \<and> t \<noteq> t' \<or> clash ts ts')"
| "clash _ _ = True"

lemma clash_no_instance:
  assumes "clash ts ts'" and "instance_of ts params ps"
  shows "\<not> instance_of ts' params' ps"
  using assms
proof (induction ps arbitrary: ts ts' params params')
  case Nil
  then show ?case by (cases ts; cases ts') simp_all
next
  case (Cons p ps)
  then show ?case by (cases ts; cases ts') (auto split: if_splits)
qed

definition disjoint :: "route \<Rightarrow> route \<Rightarrow> bool" where
  "disjoint r r' \<longleftrightarrow> rt_method r \<noteq> rt_method r' \<or> clash (split_on CHR ''/'' (rt_path r)) (split_on CHR ''/'' (rt_path r'))"

fun pairwise_disjoint :: "route list \<Rightarrow> bool" where
  "pairwise_disjoint [] = True"
| "pairwise_disjoint (r # rs) = (list_all (\<lambda>r'. disjoint r' r) rs \<and> pairwise_disjoint rs)"

lemmas route_defs = routes_def task_routes_def workflow_routes_def fleet_routes_def dlq_routes_def monitor_routes_def
  chaos_routes_def route_def

lemma routes_disjoint: "pairwise_disjoint (routes cfg)"
  by (cases "cfg_enable_chaos cfg") (simp_all add: route_defs disjoint_def is_param_def has_prefix_def)

lemma pairwise_disjoint_before: "pairwise_disjoint (rs1 @ r # rs2) \<Longrightarrow> r' \<in> set rs1 \<Longrightarrow> disjoint r r'"
  by (induction rs1) (auto simp: list_all_iff)

lemma disjoint_no_fit: "disjoint r r' \<Longrightarrow> fits req r params \<Longrightarrow> \<not> fits req r' params'"
  using clash_no_instance by (auto simp: disjoint_def fits_def path_instance_def)

text \<open>No page of FastAPI is an instance of a route of the application.\<close>

lemma routes_not_own:
  assumes "r \<in> set (routes cfg)" and "fits req r params"
  shows "http_path req \<notin> set own_pages"
proof
  assume "http_path req \<in> set own_pages"
  then consider "http_path req = ''/openapi.json''" | "http_path req = ''/docs''" | "http_path req = ''/docs/oauth2-redirect''"
    | "http_path req = ''/redoc''" by (auto simp: own_pages_def)
  then show False
    using assms by cases (auto simp: fits_def path_instance_def route_defs is_param_def has_prefix_def split: if_splits)
qed

context http_router begin

text \<open>No two routes of the application fit one request, so the order of their registration does not matter.\<close>

lemma routed:
  assumes "r \<in> set (routes cfg)" and "fits req r params"
  shows "router (routes cfg) req = Routed r params"
proof -
  obtain rs1 rs2 where rs: "routes cfg = rs1 @ r # rs2" using split_list [OF assms(1)] by blast
  have "\<not> fits req r' params'" if "r' \<in> set rs1" for r' params'
    using disjoint_no_fit [OF pairwise_disjoint_before assms(2)] routes_disjoint [of cfg] that by (simp add: rs)
  with first_fit [OF assms(2) routes_not_own [OF assms]] show ?thesis by (simp add: rs)
qed

lemma routed_path:
  assumes "r \<in> set (routes cfg)" and "http_method req = rt_method r" and "path_instance (rt_path r) params (http_path req)"
  shows "router (routes cfg) req = Routed r params"
  using routed [OF assms(1)] assms(2,3) by (simp add: fits_def)

lemma task_route_found:
  "http_method req = GET \<Longrightarrow> http_path req = ''/v1/tasks/'' @ i \<Longrightarrow> i \<noteq> [] \<Longrightarrow> CHR ''/'' \<notin> set i \<Longrightarrow>
    router (routes cfg) req = Routed (route GET ''/v1/tasks/{task_id}'' 200 GetTask) [i]"
  "http_method req = POST \<Longrightarrow> http_path req = ''/v1/tasks'' \<Longrightarrow>
    router (routes cfg) req = Routed (route POST ''/v1/tasks'' 201 CreateTask) []"
  by (rule routed_path;
      simp add: routes_def task_routes_def route_def path_instance_def split_on_none is_param_def has_prefix_def)+

end

text \<open>
  A router that does no more than that, for the examples: the first route that fits, else 404.
\<close>

fun match_segments :: "string list \<Rightarrow> string list \<Rightarrow> string list option" where
  "match_segments [] [] = Some []"
| "match_segments (t # ts) (p # ps) =
     (if is_param t then (if p = [] then None else map_option (Cons p) (match_segments ts ps))
      else if t = p then match_segments ts ps else None)"
| "match_segments _ _ = None"

fun ref_router :: router where
  "ref_router [] req = Answered (Response 404 (JObj [(''detail'', JStr ''Not Found'')]))"
| "ref_router (r # rs) req =
     (case match_segments (split_on CHR ''/'' (rt_path r)) (split_on CHR ''/'' (http_path req)) of
        None \<Rightarrow> ref_router rs req
      | Some params \<Rightarrow> if rt_method r = http_method req then Routed r params else ref_router rs req)"

lemma match_segments_instance: "match_segments ts ps = Some params \<longleftrightarrow> instance_of ts params ps"
proof (induction ts ps arbitrary: params rule: match_segments.induct)
  case (2 t ts p ps)
  then show ?case by (cases params) auto
qed auto

interpretation ref_http: http_router ref_router
proof
  show "ref_router rs req = Routed r params \<Longrightarrow> r \<in> set rs \<and> rt_method r = http_method req" for rs req r params
    by (induction rs) (auto split: option.splits if_splits)
  show "ref_router (rs1 @ r # rs2) req = Routed r params"
    if "fits req r params" "\<forall>r' \<in> set rs1. \<forall>params'. \<not> fits req r' params'" for req r params rs1 rs2
    using that(2)
  proof (induction rs1)
    case Nil
    then show ?case using that(1) by (simp add: fits_def path_instance_def match_segments_instance [symmetric])
  next
    case (Cons r' rs1)
    then show ?case
      by (auto simp: fits_def path_instance_def match_segments_instance [symmetric] split: option.split)
  qed
qed

section \<open>Which routes there are\<close>

definition chaos_endpoint :: "endpoint \<Rightarrow> bool" where
  "chaos_endpoint ep \<longleftrightarrow> ep = ChaosKillWorker \<or> ep = ChaosPauseQueue \<or> ep = ChaosInjectFailure"

lemma chaos_route:
  assumes "r \<in> set (routes cfg)" and "chaos_endpoint (rt_endpoint r)"
  shows "cfg_enable_chaos cfg"
  using assms by (auto simp: route_defs chaos_endpoint_def split: if_splits)

lemma serve_matched:
  assumes "sv_router S (routes cfg) req = Routed r params"
  shows "serve S cfg c req a = (case handle S cfg c (ap_broker a) req (rt_status r) params (rt_endpoint r) (ap_plane a) of
      (resp, p) \<Rightarrow> (resp, a\<lparr>ap_plane := p\<rparr>))"
    and "ap_plane (snd (serve S cfg c req a)) = snd (handle S cfg c (ap_broker a) req (rt_status r) params (rt_endpoint r) (ap_plane a))"
  using assms by (simp_all add: serve_def split: prod.split)

lemma get_route:
  assumes "r \<in> set (routes cfg)" and "rt_method r = GET"
  shows "rt_endpoint r \<in> {GetTask, GetWorkflow, ListQueues, ListWorkers, GetDlq, EventStream, PrometheusMetrics}"
  using assms by (auto simp: route_defs split: if_splits)

lemma route_method: "r \<in> set (routes cfg) \<Longrightarrow> rt_method r \<in> {GET, POST, DELETE}"
  by (auto simp: route_defs split: if_splits)

lemma handle_get:
  assumes "ep \<in> {GetTask, GetWorkflow, ListQueues, ListWorkers, GetDlq, EventStream, PrometheusMetrics}"
  shows "pl_world (snd (handle S cfg c broker req status params ep p)) = pl_world p"
  using assms by (auto simp: validated_def with_broker_def with_client_def split: option.split sum.split prod.split)

section \<open>Endpoints that need Redis\<close>

text \<open>
  The factory may give the control plane a Kafka or a RabbitMQ broker, which have no attribute \<open>client\<close>. The
  fleet is read through it, whichever broker carries the tasks.
\<close>

fun client_of :: "backend \<Rightarrow> exn + unit" where
  "client_of (RedisBroker url) = Inr ()"
| "client_of (KafkaBroker url) = Inl (PyAttributeError ''KafkaBroker object has no attribute client'')"
| "client_of (RabbitMQBroker url) = Inl (PyAttributeError ''RabbitMQBroker object has no attribute client'')"

lemma workers_need_redis:
  assumes "create_broker repr cfg = Inr b" and "lower (cfg_broker_backend cfg) \<noteq> ''redis''" and "ap_broker a = Some b"
    and "sv_client S = client_of" and "http_method req = GET" and "http_path req = ''/v1/workers''"
    and "http_router (sv_router S)"
  shows "serve S cfg c req a = (Response 500 (JStr ''Internal Server Error''), a)"
proof -
  let ?r = "route GET ''/v1/workers'' 200 ListWorkers"
  have d: "sv_router S (routes cfg) req = Routed ?r []"
    by (rule http_router.routed_path [OF assms(7)])
      (simp_all add: assms(5,6) routes_def fleet_routes_def route_def path_instance_def is_param_def has_prefix_def)
  obtain e where "client_of b = Inl e"
    using assms(1,2) by (auto simp: create_broker_def Let_def split: if_splits)
  then show ?thesis using assms(3,4) by (simp add: serve_matched(1) [OF d] route_def with_client_def get_broker_def)
qed

section \<open>Creating a task and reading it back\<close>

definition requested_row :: "timestamp \<Rightarrow> uuid \<Rightarrow> create_task_request \<Rightarrow> task_row" where
  "requested_row now i rq = \<lparr>tr_id = i, tr_queue = rq_queue rq, tr_task_name = rq_task_name rq, tr_payload = rq_payload rq,
     tr_state = (if rq_run_at rq = None then PENDING else SCHEDULED), tr_priority = rq_priority rq, tr_attempt = 0,
     tr_max_attempts = rq_max_attempts rq, tr_dedup_key = rq_dedup_key rq, tr_run_at = rq_run_at rq, tr_workflow_id = None,
     tr_step_name = None, tr_created_at = now, tr_updated_at = now\<rparr>"

lemma create_task_new_row:
  assumes "create_task P now i (rq_queue rq) (rq_task_name rq) (rq_payload rq) (rq_dedup_key rq) (rq_priority rq)
      (rq_max_attempts rq) (rq_run_at rq) None None d = Inr ((row, False), d')"
  shows "row = requested_row now i rq"
  using assms
  by (auto simp: create_task_def Let_def tx_defs requested_row_def split: sum.splits option.splits if_splits)

lemma api_create_task_row:
  assumes "postgres_service P D" and "api_create_task R P C now tid rq p = (Inr (i, False), p')"
  shows "i = tid \<and> tasks (D (w_db (pl_world p'))) tid = Some (requested_row now tid rq)"
proof -
  let ?tx = "create_task P now tid (rq_queue rq) (rq_task_name rq) (rq_payload rq) (rq_dedup_key rq) (rq_priority rq)
      (rq_max_attempts rq) (rq_run_at rq) None None"
  obtain row d1 where run: "run_tx P ?tx (w_db (pl_world p)) = (Inr (row, False), d1)"
      and p': "w_db (pl_world p') = d1" "i = tr_id row"
    using assms(2) by (auto simp: api_create_task_def Let_def pl_defs split: prod.splits sum.splits option.splits if_splits)
  then obtain d2 where d2: "?tx (w_db (pl_world p)) = Inr ((row, False), d2)" "D d1 = D d2"
    using postgres_service.run_tx_Inr [OF assms(1), of ?tx "w_db (pl_world p)"] by (metis fst_conv snd_conv)
  from create_task_new_row [OF d2(1)] postgres_service.create_task_cases [OF assms(1) d2(1)] show ?thesis
    using p' d2(2) by simp
qed

lemma api_get_task_row:
  assumes "postgres_up P D" and "tasks (D (w_db (pl_world p))) i = Some row"
  shows "\<exists>ats. api_get_task P i p = Inr \<lparr>td_task = row, td_attempts = ats\<rparr>"
proof -
  obtain ts where ts: "sel_tasks P (\<lambda>r. tr_id r = i) (w_db (pl_world p)) = Inr ts" using postgres_up.sel_up(1) [OF assms(1)] by blast
  obtain as where as: "sel_attempts P (\<lambda>r. ar_task_id r = i) (w_db (pl_world p)) = Inr as" using postgres_up.sel_up(2) [OF assms(1)] by blast
  have "postgres_service P D" using assms(1) by (simp add: postgres_up_def)
  from postgres_service.task_rows [OF this ts] assms(2) have "ts = [row]" by simp
  then show ?thesis by (simp add: api_get_task_def get_task_def get_attempts_def tx_defs ts as)
qed

lemma answer_created:
  assumes "answer status (\<lambda>(i, dup). create_task_response i dup) r = Response status (create_task_response i dup)"
  shows "r = Inr (i, dup)"
proof (cases r)
  case (Inl e)
  with assms show ?thesis by (cases e) (simp_all add: answer_def create_task_response_def detail_def)
next
  case (Inr x)
  with assms show ?thesis by (cases x) (simp add: answer_def create_task_response_def)
qed

section \<open>Properties\<close>

text \<open>
  C21: The HTTP interface. With a router that keeps what FastAPI documents, a request whose method and path fit a
  registered route is handled by the handler of that route with the path parameters it names, wherever the route
  stands in the order of registration; Redis and the database only ever change through a request that the router
  gave to a registered route with the method \<open>POST\<close> or \<open>DELETE\<close>, so neither a \<open>GET\<close> nor anything that the
  router answers by itself changes them; and without \<open>enable_chaos\<close> no request reaches a chaos endpoint.
\<close>

theorem http_interface_contract:
  assumes "http_router (sv_router S)"
  shows "(\<forall>r params. r \<in> set (routes cfg) \<and> fits req r params \<longrightarrow>
      (\<exists>resp p. handle S cfg c (ap_broker a) req (rt_status r) params (rt_endpoint r) (ap_plane a) = (resp, p) \<and>
        serve S cfg c req a = (resp, a\<lparr>ap_plane := p\<rparr>))) \<and>
    (pl_world (ap_plane (snd (serve S cfg c req a))) \<noteq> pl_world (ap_plane a) \<longrightarrow>
      (\<exists>r params. sv_router S (routes cfg) req = Routed r params \<and> r \<in> set (routes cfg) \<and>
        http_method req = rt_method r \<and> rt_method r \<in> {POST, DELETE})) \<and>
    (\<forall>r params. sv_router S (routes cfg) req = Routed r params \<and> chaos_endpoint (rt_endpoint r) \<longrightarrow> cfg_enable_chaos cfg)"
proof (intro conjI allI impI)
  show "\<exists>resp p. handle S cfg c (ap_broker a) req (rt_status r) params (rt_endpoint r) (ap_plane a) = (resp, p) \<and>
      serve S cfg c req a = (resp, a\<lparr>ap_plane := p\<rparr>)" if "r \<in> set (routes cfg) \<and> fits req r params" for r params
    using serve_matched(1) [OF http_router.routed [OF assms], of r cfg req params] that by (auto split: prod.split)
  show "cfg_enable_chaos cfg" if "sv_router S (routes cfg) req = Routed r params \<and> chaos_endpoint (rt_endpoint r)" for r params
    using that http_router.registered [OF assms] chaos_route by blast
  show "\<exists>r params. sv_router S (routes cfg) req = Routed r params \<and> r \<in> set (routes cfg) \<and>
      http_method req = rt_method r \<and> rt_method r \<in> {POST, DELETE}"
    if "pl_world (ap_plane (snd (serve S cfg c req a))) \<noteq> pl_world (ap_plane a)"
  proof (cases "sv_router S (routes cfg) req")
    case (Routed r params)
    note r = http_router.registered [OF assms Routed]
    have "rt_method r \<noteq> GET"
      using handle_get [OF get_route] serve_matched(2) [OF Routed] r that by metis
    with route_method [of r cfg] r have "rt_method r \<in> {POST, DELETE}" by blast
    with r Routed show ?thesis by (intro exI [of _ r] exI [of _ params]) simp
  qed (use that in \<open>simp add: serve_def\<close>)
qed

text \<open>Services on the reference server and database, with pydantic taking values of the declared types.\<close>

definition demo_pydantic :: pydantic where
  "demo_pydantic = \<lparr>pd_str = (\<lambda>v. case v of JStr s \<Rightarrow> Some s | _ \<Rightarrow> None), pd_int = (\<lambda>v. case v of JNum x \<Rightarrow> Some \<lfloor>x\<rfloor> | _ \<Rightarrow> None),
     pd_float = (\<lambda>v. case v of JNum x \<Rightarrow> Some x | _ \<Rightarrow> None), pd_uuid = (\<lambda>v. case v of JStr s \<Rightarrow> Some s | _ \<Rightarrow> None),
     pd_datetime = (\<lambda>v. case v of JNum x \<Rightarrow> Some x | _ \<Rightarrow> None), pd_retry = (\<lambda>_. Some None), pd_iso = (\<lambda>_. [])\<rparr>"

definition demo_services :: "(unit, task_envelope keyspace, task_envelope, ref_db) services" where
  "demo_services = \<lparr>sv_router = ref_router, sv_client = Inr, sv_redis = ref_redis, sv_postgres = ref_postgres, sv_codec = ref_codec, sv_pydantic = demo_pydantic,
     sv_set_order = id, sv_show_names = concat, sv_scan = (\<lambda>_ _. []), sv_loads = (\<lambda>_. Inr JNull), sv_worker_schema = (\<lambda>_ _ _ _. Inr ([], 0, 0, [])),
     sv_generate_latest = []\<rparr>"

definition demo_call :: "task_envelope keyspace call" where
  "demo_call = \<lparr>cl_now = 0, cl_id = ''t1'', cl_fresh = (\<lambda>_. ''u''), cl_meanwhile = (\<lambda>_ s. s), cl_clock = (\<lambda>_. 0)\<rparr>"

lemma demo_router: "http_router (sv_router demo_services)"
  by (simp add: demo_services_def ref_http.http_router_axioms)

definition demo_app :: "(unit, task_envelope keyspace, ref_db) app" where
  "demo_app = \<lparr>ap_broker = Some (), ap_plane = demo_plane\<rparr>"

definition kill_request :: request where
  "kill_request = \<lparr>http_method = POST, http_path = ''/v1/chaos/kill-worker'', http_body = Some (JObj [(''worker_id'', JStr ''w1'')])\<rparr>"

definition with_chaos :: settings where
  "with_chaos = default_settings\<lparr>cfg_enable_chaos := True\<rparr>"

text \<open>The same request reaches the handler where chaos is enabled, and no chaos endpoint where it is not.\<close>

theorem http_interface_contract_witness:
  "(\<exists>resp p. handle demo_services with_chaos demo_call (Some ()) kill_request 200 [] ChaosKillWorker demo_plane = (resp, p) \<and>
      serve demo_services with_chaos demo_call kill_request demo_app = (resp, demo_app\<lparr>ap_plane := p\<rparr>)) \<and>
    (\<nexists>r params. sv_router demo_services (routes default_settings) kill_request = Routed r params \<and> chaos_endpoint (rt_endpoint r))"
proof -
  let ?r = "route POST ''/v1/chaos/kill-worker'' 200 ChaosKillWorker"
  have "?r \<in> set (routes with_chaos)" by (simp add: routes_def chaos_routes_def with_chaos_def)
  moreover have "fits kill_request ?r []"
    by (simp add: fits_def path_instance_def kill_request_def route_def is_param_def has_prefix_def)
  ultimately have "\<exists>resp p. handle demo_services with_chaos demo_call (ap_broker demo_app) kill_request (rt_status ?r) []
      (rt_endpoint ?r) (ap_plane demo_app) = (resp, p) \<and>
      serve demo_services with_chaos demo_call kill_request demo_app = (resp, demo_app\<lparr>ap_plane := p\<rparr>)"
    using http_interface_contract [OF demo_router, of with_chaos kill_request demo_call demo_app] by blast
  moreover have "rt_status ?r = 200" "rt_endpoint ?r = ChaosKillWorker" by (simp_all add: route_def)
  moreover have "ap_broker demo_app = Some ()" "ap_plane demo_app = demo_plane" by (simp_all add: demo_app_def)
  moreover have "\<not> cfg_enable_chaos default_settings" by (simp add: default_settings_def)
  ultimately show ?thesis
    using http_interface_contract [OF demo_router, of default_settings kill_request demo_call demo_app] by simp blast
qed

text \<open>
  Pausing a queue through the chaos endpoint always answers with an internal error, although it takes effect. The
  handler returns the number \<open>duration_s\<close> under an annotation that only admits strings, so its result does not validate;
  the key that marks the queue as paused has been written by then, with the whole seconds of the duration as its
  expiry.
\<close>

lemma pause_queue_answers_500:
  assumes "redis_service (sv_redis S) V before" and "cfg_enable_chaos cfg" and "ap_broker a = Some b" and "sv_client S b = Inr ()"
    and "http_method req = POST" and "http_path req = ''/v1/chaos/pause-queue''"
    and "body (parse_pause_queue (sv_pydantic S)) req = Some (q, d)" and "http_router (sv_router S)"
  shows "\<exists>a'. serve S cfg c req a = (Response 500 (JStr ''Internal Server Error''), a') \<and>
    (1 \<le> d \<longrightarrow> strs (V (w_redis (pl_world (ap_plane a')))) (pause_key q) = Some (''1'', Some (nat (1000 * \<lfloor>d\<rfloor>))))"
proof -
  let ?r = "route POST ''/v1/chaos/pause-queue'' 200 ChaosPauseQueue"
  have d: "sv_router S (routes cfg) req = Routed ?r []"
    by (rule http_router.routed_path [OF assms(8)])
      (simp_all add: assms(2,5,6) routes_def chaos_routes_def route_def path_instance_def is_param_def has_prefix_def)
  let ?k = "r_set_px (sv_redis S) (pause_key q) ''1'' (1000 * (if d < 0 then \<lceil>d\<rceil> else \<lfloor>d\<rfloor>)) (w_redis (pl_world (ap_plane a)))"
  have "V (snd ?k) = ks_set (pause_key q) ''1'' (nat (1000 * \<lfloor>d\<rfloor>)) (V (w_redis (pl_world (ap_plane a))))" if "1 \<le> d"
    using redis_service.set_px_ok [OF assms(1), of "pause_key q" "1000 * \<lfloor>d\<rfloor>" "''1''" "w_redis (pl_world (ap_plane a))"] that
    by simp
  then show ?thesis
    using assms(3,4,7)
    by (auto simp: serve_matched(1) [OF d] route_def validated_def with_client_def get_broker_def api_chaos_pause_queue_def Let_def
        checked_dict_def str_dict_def pl_redis_def ks_set_def split: prod.splits sum.splits)
qed

text \<open>
  C20: A task that was created over HTTP can be read back. When \<open>POST /v1/tasks\<close> with a valid body answers 201 with a new
  identifier, \<open>GET /v1/tasks/{id}\<close> on that identifier answers 200 with exactly the requested queue, name, payload, priority,
  key, time and number of attempts, in state \<open>pending\<close> or \<open>scheduled\<close> and with attempt 0, and changes nothing.
\<close>

theorem created_task_readable:
  assumes "postgres_up (sv_postgres S) D" and "http_router (sv_router S)"
    and "http_method req = POST" and "http_path req = ''/v1/tasks''" and "body (parse_create_task (sv_pydantic S)) req = Some rq"
    and "serve S cfg c req a = (Response 201 (create_task_response (cl_id c) False), a')"
    and "pd_uuid (sv_pydantic S) (JStr (cl_id c)) = Some (cl_id c)" and "cl_id c \<noteq> []" and "CHR ''/'' \<notin> set (cl_id c)"
    and "http_method req' = GET" and "http_path req' = ''/v1/tasks/'' @ cl_id c"
  shows "\<exists>ats. serve S cfg c' req' a' = (Response 200 (task_detail_json (sv_pydantic S)
    \<lparr>td_task = requested_row (cl_now c) (cl_id c) rq, td_attempts = ats\<rparr>), a')"
proof -
  note post = serve_matched(1) [where S = S, OF http_router.task_route_found(2) [OF assms(2) assms(3,4)]]
  obtain r p' where api: "api_create_task (sv_redis S) (sv_postgres S) (sv_codec S) (cl_now c) (cl_id c) rq (ap_plane a) = (r, p')"
    by fastforce
  then have "answer 201 (\<lambda>(i, dup). create_task_response i dup) r = Response 201 (create_task_response (cl_id c) False) \<and> ap_plane a' = p'"
    using assms(5,6) by (cases "ap_broker a") (auto simp: post route_def validated_def with_broker_def get_broker_def)
  with api have "api_create_task (sv_redis S) (sv_postgres S) (sv_codec S) (cl_now c) (cl_id c) rq (ap_plane a) =
      (Inr (cl_id c, False), ap_plane a')"
    using answer_created by blast
  from api_create_task_row [OF _ this] assms(1)
  have row: "tasks (D (w_db (pl_world (ap_plane a')))) (cl_id c) = Some (requested_row (cl_now c) (cl_id c) rq)"
    by (simp add: postgres_up_def)
  note get = serve_matched(1) [OF http_router.task_route_found(1) [OF assms(2) assms(10,11) assms(8,9)], of cfg c' a']
  from get api_get_task_row [OF assms(1) row] assms(7) show ?thesis
    by (auto simp: route_def validated_def answer_def)
qed

definition create_request :: request where
  "create_request = \<lparr>http_method = POST, http_path = ''/v1/tasks'', http_body = Some (JObj [(''queue'', JStr ''default''),
     (''task_name'', JStr ''mail''), (''payload'', JObj [])])\<rparr>"

definition read_request :: request where
  "read_request = \<lparr>http_method = GET, http_path = ''/v1/tasks/t1'', http_body = None\<rparr>"

lemma demo_parse: "body (parse_create_task (sv_pydantic demo_services)) create_request = Some demo_request"
  by (simp add: body_def parse_create_task_def create_request_def demo_services_def demo_pydantic_def field_def field_or_def
      as_object_def demo_request_def)

lemma demo_created:
  "\<exists>a'. serve demo_services default_settings demo_call create_request demo_app = (Response 201 (create_task_response ''t1'' False), a')"
proof -
  have "sv_router demo_services (routes default_settings) create_request = Routed (route POST ''/v1/tasks'' 201 CreateTask) []"
    by (rule http_router.task_route_found(2) [OF demo_router]) (simp_all add: create_request_def)
  note served = serve_matched(1) [OF this, of demo_call demo_app]
  obtain p' where "demo_accept = (Inr (''t1'', False), p')" using demo_accept_ok by (cases demo_accept) auto
  then show ?thesis unfolding served
    by (simp add: route_def validated_def demo_parse with_broker_def get_broker_def demo_app_def demo_call_def answer_def)
      (simp add: demo_services_def)
qed

theorem created_task_readable_witness:
  "\<exists>a' ats. serve demo_services default_settings demo_call create_request demo_app = (Response 201 (create_task_response ''t1'' False), a') \<and>
     serve demo_services default_settings demo_call read_request a' = (Response 200 (task_detail_json demo_pydantic
       \<lparr>td_task = requested_row 0 ''t1'' demo_request, td_attempts = ats\<rparr>), a')"
proof -
  obtain a' where a': "serve demo_services default_settings demo_call create_request demo_app =
      (Response 201 (create_task_response (cl_id demo_call) False), a')" using demo_created by (auto simp: demo_call_def)
  have "postgres_up (sv_postgres demo_services) ref_view" using ref_postgres_up by (simp add: demo_services_def)
  from created_task_readable [OF this demo_router _ _ demo_parse a', of read_request demo_call] a' show ?thesis
    by (auto simp: create_request_def read_request_def demo_call_def demo_services_def demo_pydantic_def)
qed

end
