(* ===== verification/Fan_Out.thy ===== *)
theory Fan_Out
  imports System
begin

text \<open>
  Workflows with a fan-out step in the whole deployment: no interleaving of workers, schedulers and API calls completes one.
  What the other operations do to such a workflow is the relation \<open>wf_quiet\<close>; the engine itself is in \<open>Engine_Contract\<close>.
\<close>

section \<open>Operations that leave a workflow alone\<close>

definition wf_quiet :: "uuid \<Rightarrow> string \<Rightarrow> db \<Rightarrow> db \<Rightarrow> bool" where
  "wf_quiet wid n b b' \<longleftrightarrow> workflows b' wid = workflows b wid \<and>
     (named_tasks b wid n = {} \<longrightarrow> named_tasks b' wid n = {})"

interpretation quiet: history "D :: 'd \<Rightarrow> db" "wf_quiet wid n" for D wid n
  by unfold_locales (auto simp: wf_quiet_def)

definition stays_stuck :: "uuid \<Rightarrow> string \<Rightarrow> db \<Rightarrow> db \<Rightarrow> bool" where
  "stays_stuck wid n b b' \<longleftrightarrow> (fan_stuck b wid n \<longrightarrow> fan_stuck b' wid n)"

interpretation stuck: history "D :: 'd \<Rightarrow> db" "stays_stuck wid n" for D wid n
  by unfold_locales (auto simp: stays_stuck_def)

lemma quiet_stuck: "wf_quiet wid n b b' \<Longrightarrow> stays_stuck wid n b b'"
  by (auto simp: wf_quiet_def stays_stuck_def fan_stuck_def)

lemma keeps_stuck: "tx_keeps D (wf_quiet wid n) t \<Longrightarrow> tx_keeps D (stays_stuck wid n) t"
  unfolding tx_keeps_def by (blast intro: quiet_stuck)

context postgres_service
begin

lemma quiet_ins [tx_keeps_intros]:
  "tr_workflow_id t = None \<Longrightarrow> tx_keeps D (wf_quiet wid n) (tx_exec (ins_task P t))"
  "tx_keeps D (wf_quiet wid n) (tx_exec (ins_attempt P a))"
  "tx_keeps D (wf_quiet wid n) (tx_exec (ins_effect P e))"
  by (auto simp: tx_keeps_def tx_exec_def wf_quiet_def named_tasks_def ran_def split: sum.splits if_splits
      dest!: ins_task ins_attempt ins_effect)

lemma quiet_upd_tasks [tx_keeps_intros]:
  assumes "\<And>r. task_evolves r (f r)"
  shows "tx_keeps D (wf_quiet wid n) (tx_update (upd_tasks P p f))"
proof -
  have f: "tr_id (f r) = tr_id r" "tr_workflow_id (f r) = tr_workflow_id r" "tr_step_name (f r) = tr_step_name r" for r
    using assms by (simp_all add: task_evolves_def)
  have "wf_quiet wid n (D d) (D d')" if "upd_tasks P p f d = Inr (k, d')" for k d d'
  proof -
    have D: "D d' = (D d)\<lparr>tasks := upd_map p f (tasks (D d))\<rparr>" using upd_tasks [OF that f(1)] by simp
    have "named_tasks (D d') wid n = {}" if "named_tasks (D d) wid n = {}"
    proof (rule ccontr)
      assume "named_tasks (D d') wid n \<noteq> {}"
      then obtain j t where "tasks (D d) j = Some t" "tr_workflow_id t = Some wid" "tr_step_name t = Some n"
        by (auto simp: D named_tasks_def upd_map_def ran_def f split: if_splits)
      with that show False by (auto simp: named_tasks_def ran_def)
    qed
    then show ?thesis by (simp add: wf_quiet_def D)
  qed
  then show ?thesis by (auto simp: tx_keeps_def tx_update_def)
qed

lemma quiet_upd_attempts [tx_keeps_intros]:
  assumes "\<And>r. attempt_evolves r (f r)"
  shows "tx_keeps D (wf_quiet wid n) (tx_update (upd_attempts P p f))"
proof -
  have "attempt_key (f r) = attempt_key r" for r using assms by (simp add: attempt_evolves_def attempt_key_def)
  then show ?thesis by (auto simp: tx_keeps_def tx_update_def wf_quiet_def named_tasks_def dest!: upd_attempts)
qed

lemma quiet_ops:
  "tx_keeps D (wf_quiet wid n) (create_task P now i q nm pl dk pr mx ra None None)"
  "tx_keeps D (wf_quiet wid n) (update_task_state P now i st a)"
  "tx_keeps D (wf_quiet wid n) (cancel_task P now i)"
  "tx_keeps D (wf_quiet wid n) (create_attempt P now i k wk f)"
  "tx_keeps D (wf_quiet wid n) (close_attempt P now i k oc et er)"
  "tx_keeps D (wf_quiet wid n) (commit_effect P now key i f res)"
  unfolding create_task_def update_task_state_def cancel_task_def create_attempt_def close_attempt_def commit_effect_def Let_def
  by (intro tx_keeps_intros; simp add: task_evolves_def attempt_evolves_def split: option.split)+

section \<open>The engine\<close>

lemma advance_other:
  assumes "wid' \<noteq> wid"
  shows "wf_quiet wid n (D (w_db w)) (D (w_db (snd (advance R P C now fresh wid' w))))"
proof (cases "\<exists>row. workflows (D (w_db w)) wid' = Some row \<and> wr_state row = ''running''")
  case True
  then obtain row where row: "workflows (D (w_db w)) wid' = Some row" "wr_state row = ''running''" by blast
  let ?b' = "D (w_db (snd (advance R P C now fresh wid' w)))"
  have st: "wf_quiet wid n b (wf_set_state wid' st b)" if "\<And>r. workflows b wid = Some r \<Longrightarrow> wr_id r = wid" for st b
    using assms that by (cases "workflows b wid") (auto simp: wf_quiet_def wf_set_state_def upd_map_def named_tasks_def)
  have la: "wf_quiet wid n b b'" if "launches (launch_ok wid' S) b b'" for S b b'
    using that assms unfolding wf_quiet_def launches_def named_tasks_def launch_ok_def launched_by_def ran_def by fastforce
  from advance_db [OF row, of R C now fresh] consider "?b' = D (w_db w)" | x where "?b' = wf_set_state wid' x (D (w_db w))"
    | "launches (launch_ok wid' (may_launch (D (w_db w)) wid' (snd (wr_spec row)))) (D (w_db w)) ?b'"
    unfolding advance_ok_def by blast
  then show ?thesis
  proof cases
    case 1
    then show ?thesis by (simp add: quiet.G_refl)
  next
    case 2
    then show ?thesis using st [OF keyed(4)] by simp
  next
    case 3
    then show ?thesis by (rule la)
  qed
next
  case False
  then have "w_db (snd (advance R P C now fresh wid' w)) = w_db w" by (intro advance_idle) auto
  then show ?thesis by (simp add: quiet.G_refl)
qed

lemma advance_stuck: "stays_stuck wid n (D (w_db w)) (D (w_db (snd (advance R P C now fresh wid' w))))"
proof (cases "wid' = wid")
  case True
  then show ?thesis using fan_stuck_kept [OF postgres_service_axioms, of w wid n R C now fresh] by (simp add: stays_stuck_def)
next
  case False
  then show ?thesis by (intro quiet_stuck advance_other)
qed

text \<open>A workflow that is created gets a new row.\<close>

lemma create_workflow_row:
  assumes "D' = D (snd (run_tx P (create_workflow P now wid name spec) d))"
  shows "D' = D d \<or> workflows (D d) wid = None \<and> D' = (D d)\<lparr>workflows := (workflows (D d))(wid \<mapsto>
    \<lparr>wr_id = wid, wr_name = name, wr_spec = spec, wr_state = ''running'', wr_created_at = now\<rparr>)\<rparr>"
proof -
  let ?wf = "\<lparr>wr_id = wid, wr_name = name, wr_spec = spec, wr_state = ''running'', wr_created_at = now\<rparr>"
  let ?G = "\<lambda>b b'. b' = b \<or> workflows b wid = None \<and> b' = b\<lparr>workflows := (workflows b)(wid \<mapsto> ?wf)\<rparr>"
  have "history ?G" by unfold_locales auto
  moreover have "tx_keeps D ?G (create_workflow P now wid name spec)"
    by (auto simp: tx_keeps_def create_workflow_def tx_defs Let_def split: sum.splits dest!: ins_workflow) (auto simp: workflow_ok_def)
  ultimately show ?thesis unfolding assms by (rule run_tx_keeps)
qed

lemma submit_stuck: "stays_stuck wid n (D (w_db w)) (D (w_db (snd (submit R P C iter sh now fresh wid' name steps w))))"
proof -
  obtain c d where run: "run_tx P (create_workflow P now wid' name (name, steps)) (w_db w) = (c, d)" by fastforce
  have one: "stays_stuck wid n (D (w_db w)) (D d)"
    using create_workflow_row [OF refl, of now wid' name "(name, steps)" "w_db w"] run
    by (cases "wid' = wid") (auto simp: stays_stuck_def fan_stuck_def named_tasks_def)
  from stuck.G_trans [OF one] advance_stuck [of wid n "w\<lparr>w_db := d\<rparr>" R C now fresh wid'] one stuck.G_refl
  show ?thesis by (auto simp: submit_def run split: option.splits sum.splits prod.splits)
qed

text \<open>What a submission leaves on record.\<close>

lemma submit_fan_stuck:
  assumes "workflows (D (w_db w)) wid = None" and "named_tasks (D (w_db w)) wid n = {}"
    and "\<forall>step \<in> set steps. \<not> launch_name step n" and "\<exists>step \<in> set steps. ws_name step = n"
    and "workflows (D (w_db (snd (submit R P C iter sh now fresh wid name steps w)))) wid \<noteq> None"
  shows "fan_stuck (D (w_db (snd (submit R P C iter sh now fresh wid name steps w)))) wid n"
proof -
  obtain c d where run: "run_tx P (create_workflow P now wid name (name, steps)) (w_db w) = (c, d)" by fastforce
  have row: "D d = D (w_db w) \<or> fan_stuck (D d) wid n"
    using create_workflow_row [OF refl, of now wid name "(name, steps)" "w_db w"] run assms(2-4)
    by (auto simp: fan_stuck_def named_tasks_def)
  have adv: "D d = D (w_db w) \<Longrightarrow> w_db (snd (advance R P C now fresh wid (w\<lparr>w_db := d\<rparr>))) = d"
    using advance_idle [of "w\<lparr>w_db := d\<rparr>" wid R C now fresh] assms(1) by simp
  have "fan_stuck (D d) wid n \<Longrightarrow> fan_stuck (D (w_db (snd (advance R P C now fresh wid (w\<lparr>w_db := d\<rparr>))))) wid n"
    using fan_stuck_kept [OF postgres_service_axioms, of "w\<lparr>w_db := d\<rparr>"] by simp
  with row adv assms(1,5) show ?thesis
    by (auto simp: submit_def run split: option.splits sum.splits prod.splits)
qed

end

context postgres_up
begin

lemma submit_on_record:
  assumes "workflows (D (w_db w)) wid = None" and "validate_dag iter sh steps = Some (Inr order)"
  shows "workflows (D (w_db (snd (submit R P C iter sh now fresh wid name steps w)))) wid \<noteq> None"
proof -
  obtain row d where run: "run_tx P (create_workflow P now wid name (name, steps)) (w_db w) = (Inr row, d)"
      and d: "workflows (D d) wid = Some row"
    using create_workflow_up [OF assms(1)] by fastforce
  have "evolves (D d) (D (w_db (snd (advance R P C now fresh wid (w\<lparr>w_db := d\<rparr>)))))"
    using advance_evolves [of "w\<lparr>w_db := d\<rparr>"] by simp
  then have "workflows (D (w_db (snd (advance R P C now fresh wid (w\<lparr>w_db := d\<rparr>))))) wid \<noteq> None"
    using d by (auto simp: evolves_def elim: rows_evolveE)
  then show ?thesis using assms(2) run by (auto simp: submit_def split: sum.splits prod.splits)
qed

end

lemma sys_history_stuck:
  assumes "postgres_service (dep_db dep) D"
  shows "sys_history dep D (stays_stuck wid n)"
  by (intro sys_history.intro sys_history_axioms.intro assms stuck.history_axioms keeps_stuck
      postgres_service.quiet_ops [OF assms] postgres_service.advance_stuck [OF assms] postgres_service.submit_stuck [OF assms])

interpretation demo_stuck: sys_history demo_dep ref_view "stays_stuck wid n" for wid n
  by (rule sys_history_stuck) simp

section \<open>Properties\<close>

text \<open>
  C32: A workflow with a fan-out step is never completed. Let a workflow be created by a request that has a fan-out step,
  under whose bare name no step of the request launches tasks (no step without \<open>fan_out\<close> has the same
  name, and it is not the indexed name of another fan-out step). Whatever the workers, the scheduler, the
  reclaimer and the other API calls do afterwards, in any order and however its tasks end, its state is never
  \<open>completed\<close>: no task ever carries the name of the step, which \<open>advance\<close> waits for.
\<close>

theorem fan_out_never_completes:
  assumes "postgres_service (dep_db dep) D" and "db_wf (D (w_db (pl_world p)))" and "workflows (D (w_db (pl_world p))) wid = None"
    and "step \<in> set steps" and "opt_truthy (st_fan_out step)"
    and "\<forall>s \<in> set steps. \<not> launch_name (model_dump s) (st_name step)"
    and "p1 = snd (sys_do dep (SCreateWorkflow now fresh wid name steps) p)" and "workflows (D (w_db (pl_world p1))) wid \<noteq> None"
    and "workflows (D (w_db (pl_world (snd (sys_run dep ops p1))))) wid = Some row"
  shows "wr_state row \<noteq> ''completed'' \<and> named_tasks (D (w_db (pl_world (snd (sys_run dep ops p1))))) wid (st_name step) = {}"
proof -
  let ?submit = "submit (dep_redis dep) (dep_db dep) (dep_codec dep) (dep_iter dep) (dep_show dep) now fresh wid name (map model_dump steps) (pl_world p)"
  have p1: "pl_world p1 = snd ?submit"
    by (auto simp: assms(7) api_create_workflow_def split: prod.splits sum.splits)
  have "named_tasks (D (w_db (pl_world p))) wid (st_name step) = {}"
    using assms(2,3) unfolding db_wf_def named_tasks_def ran_def by fastforce
  moreover have "\<exists>s \<in> set (map model_dump steps). ws_name s = st_name step" using assms(4) by (auto simp: model_dump_def)
  moreover have "\<forall>s \<in> set (map model_dump steps). \<not> launch_name s (st_name step)" using assms(6) by simp
  ultimately have "fan_stuck (D (w_db (pl_world p1))) wid (st_name step)"
    using assms(8) unfolding p1 by (intro postgres_service.submit_fan_stuck [OF assms(1,3)])
  then have "fan_stuck (D (w_db (pl_world (snd (sys_run dep ops p1))))) wid (st_name step)"
    using sys_history.sys_run_keeps [OF sys_history_stuck [OF assms(1)]] unfolding stays_stuck_def by blast
  then show ?thesis using assms(9) by (auto simp: fan_stuck_def)
qed


text \<open>A request with a step \<open>a\<close> and a step \<open>b\<close> that fans out over a list in the result of \<open>a\<close>.\<close>

definition demo_fan :: "workflow_step list" where
  "demo_fan = [(demo_request_step ''a'' [])\<lparr>st_retry := Some (Some 3)\<rparr>,
     (demo_request_step ''b'' [''a''])\<lparr>st_fan_out := Some ''items'', st_retry := Some (Some 3)\<rparr>]"

definition demo_fan_site :: "(task_envelope keyspace, ref_db) plane" where
  "demo_fan_site = snd (sys_do demo_dep (SCreateWorkflow 0 (\<lambda>n. replicate (Suc n) CHR ''u'') ''wf'' ''w'' demo_fan) demo_plane)"

lemma demo_fan_recorded: "workflows (ref_view (w_db (pl_world demo_fan_site))) ''wf'' \<noteq> None"
proof -
  have "set (edges_of (map model_dump demo_fan)) = {(''a'', ''b'')}"
    by (simp add: edges_of_def demo_fan_def demo_request_step_def model_dump_def deps_of_def)
  then have "acyclic (set (edges_of (map model_dump demo_fan)))" by (simp add: acyclic_insert) (simp add: acyclic_def)
  moreover have "deps_known (map model_dump demo_fan)"
    by (simp add: deps_known_def demo_fan_def demo_request_step_def model_dump_def deps_of_def)
  ultimately obtain order where "validate_dag (\<lambda>xs. xs) concat (map model_dump demo_fan) = Some (Inr order)"
    using validate_dag_cases [OF iter_ok_id, of "map model_dump demo_fan" concat] by auto
  from postgres_up.submit_on_record [OF ref_postgres_up _ this, of "pl_world demo_plane" "''wf''" ref_redis ref_codec 0
      "\<lambda>n. replicate (Suc n) CHR ''u''" "''w''"]
  show ?thesis
    by (auto simp: demo_fan_site_def demo_dep_def api_create_workflow_def demo_plane_def ref_view_def empty_ref_db_def
        split: prod.splits sum.splits)
qed

theorem fan_out_never_completes_witness:
  "\<exists>row. workflows (ref_view (w_db (pl_world (snd (sys_run demo_dep [STaskCompleted 1 (\<lambda>_. ''v'') ''u'', SElapse 5] demo_fan_site)))))
     ''wf'' = Some row \<and> wr_state row \<noteq> ''completed''"
proof -
  let ?ops = "[STaskCompleted 1 (\<lambda>_. ''v'') ''u'', SElapse 5]"
  let ?b = "ref_view (w_db (pl_world (snd (sys_run demo_dep ?ops demo_fan_site))))"
  have "evolves (ref_view (w_db (pl_world demo_fan_site))) ?b" by (rule demo_history.sys_run_keeps)
  then obtain row where row: "workflows ?b ''wf'' = Some row"
    using demo_fan_recorded by (auto simp: evolves_def elim: rows_evolveE)
  have db: "db_wf (ref_view (w_db (pl_world demo_plane)))" "workflows (ref_view (w_db (pl_world demo_plane))) ''wf'' = None"
    by (simp_all add: db_wf_def ref_view_def demo_plane_def empty_ref_db_def)
  have "demo_fan ! 1 \<in> set demo_fan" "opt_truthy (st_fan_out (demo_fan ! 1))"
      "\<forall>s \<in> set demo_fan. \<not> launch_name (model_dump s) (st_name (demo_fan ! 1))"
    by (simp_all add: demo_fan_def demo_request_step_def opt_truthy_def launch_name_def model_dump_def fan_step_name_neq [symmetric])
  from fan_out_never_completes [OF _ db this demo_fan_site_def demo_fan_recorded row] row show ?thesis by simp
qed

end
