(* ===== verification/Requeue.thy ===== *)
theory Requeue
  imports System
begin

text \<open>
  Requeueing dead letters: which messages \<open>POST /v1/dlq/{queue}/requeue\<close> publishes, and what becomes of them and of
  their retries. The attempt of a requeued message starts at 0 again while the rows of the earlier attempts stay.
\<close>

section \<open>What is published\<close>

context postgres_service
begin

lemma get_task_row: "get_task P i d = Inr (row, d') \<Longrightarrow> d' = d \<and> tasks (D d) i = Some row"
  using task_rows [of i d]
  by (auto simp: get_task_def tx_defs split: sum.splits option.splits)

lemma update_task_state_rows:
  assumes "update_task_state P now i st a d = Inr (u, d')" and "tasks (D d') j = Some t'"
  shows "\<exists>t. tasks (D d) j = Some t \<and> tr_max_attempts t = tr_max_attempts t'"
  using assms(2) unfolding update_task_state_spec [OF assms(1)]
  by (auto simp: spec_state_def upd_map_def Let_def split: if_splits option.splits)

lemma requeue_loop_published:
  assumes "requeue_loop R P C now q is n a d p = (n', a', d', p')"
  shows "\<exists>es. w_redis (pl_world p') = fold (publish R C q) es (w_redis (pl_world p)) \<and> n' = n + length es \<and>
    (\<forall>e \<in> set es. \<exists>i row t. i \<in> set is \<and> e = requeue_envelope now q i row \<and> tasks (D d) i = Some t \<and>
       tr_max_attempts row = tr_max_attempts t)"
  using assms
proof (induction "is" arbitrary: n a d p)
  case (Cons i "is")
  let ?t = "tx_bind (get_task P i) (\<lambda>row. tx_bind (update_task_state P now i PENDING (Some 0)) (\<lambda>_. tx_return row))"
  show ?case
  proof (cases "a \<or> (\<exists>e. ?t d = Inl e)")
    case True
    then obtain a1 where "requeue_loop R P C now q is n a1 d p = (n', a', d', p')" using Cons.prems by (auto split: if_splits)
    from Cons.IH [OF this] show ?thesis by fastforce
  next
    case False
    then obtain row d1 where t: "?t d = Inr (row, d1)" by (metis sum.exhaust prod.exhaust)
    then obtain u where row: "tasks (D d) i = Some row" and upd: "update_task_state P now i PENDING (Some 0) d = Inr (u, d1)"
      using get_task_row by (auto simp: tx_bind_def tx_return_def split: sum.splits prod.splits)
    let ?e = "requeue_envelope now q i row"
    from t False Cons.prems obtain p1 where p1: "requeue_loop R P C now q is (n + 1) False d1 p1 = (n', a', d', p')"
        "w_redis (pl_world p1) = publish R C q ?e (w_redis (pl_world p))"
      by (auto simp: Let_def pl_defs)
    from Cons.IH [OF p1(1)] obtain es where es: "w_redis (pl_world p') = fold (publish R C q) es (w_redis (pl_world p1))"
        "n' = n + 1 + length es" "\<forall>e \<in> set es. \<exists>i row t. i \<in> set is \<and> e = requeue_envelope now q i row \<and> tasks (D d1) i = Some t \<and>
          tr_max_attempts row = tr_max_attempts t" by blast
    have "\<exists>j row t. j \<in> set (i # is) \<and> e = requeue_envelope now q j row \<and> tasks (D d) j = Some t \<and> tr_max_attempts row = tr_max_attempts t"
      if "e \<in> set (?e # es)" for e
      using that es(3) row update_task_state_rows [OF upd] by (metis list.set_intros set_ConsD)
    then show ?thesis using es(1,2) p1(2) by (intro exI [of _ "?e # es"]) auto
  qed
qed simp

lemma requeue_published:
  assumes "api_requeue_dlq R P C now q ids p = (r, p')"
  shows "\<exists>es. w_redis (pl_world p') = fold (publish R C q) es (w_redis (pl_world p)) \<and>
    (\<forall>e \<in> set es. \<exists>i row t. i \<in> set ids \<and> e = requeue_envelope now q i row \<and> tasks (D (w_db (pl_world p))) i = Some t \<and>
       tr_max_attempts row = tr_max_attempts t)"
proof -
  obtain n a d1 p1 where loop: "requeue_loop R P C now q ids 0 False (w_db (pl_world p)) p = (n, a, d1, p1)"
    by (cases "requeue_loop R P C now q ids 0 False (w_db (pl_world p)) p")
  have "w_redis (pl_world p') = w_redis (pl_world p1)"
    using assms by (auto simp: api_requeue_dlq_def loop Let_def pl_defs split: if_splits prod.splits sum.splits)
  with requeue_loop_published [OF loop] show ?thesis by auto
qed

lemma requeue_evolves:
  assumes "api_requeue_dlq R P C now q ids p = (r, p')"
  shows "evolves (D (w_db (pl_world p))) (D (w_db (pl_world p')))"
proof -
  let ?dep = "\<lparr>dep_redis = R, dep_db = P, dep_codec = C, dep_iter = (\<lambda>xs. xs), dep_show = concat, dep_dumps = (\<lambda>_. [])\<rparr>"
  have "sys_history ?dep D evolves" by (rule sys_history_evolves) (simp add: postgres_service_axioms)
  from sys_history.requeue_keeps [OF this, of p R C now q ids] show ?thesis by (simp add: assms)
qed

end

section \<open>Properties\<close>

text \<open>
  C31: A task that used up its attempts is not saved by requeueing it. \<open>POST /v1/dlq/{queue}/requeue\<close> publishes, for tasks it
  was asked for, envelopes with the attempt reset to 0; the rows of the earlier attempts stay. If all attempts from 1 to
  \<open>max_attempts\<close> of such a task are on record, as they are when it was dead-lettered for exhausting them, then no execution of
  its requeued envelope, nor of any retry that processing it or its retries put into the schedule, is a success, whenever a worker
  takes it and however other processes interleave: recording the attempt fails and no handler runs.
\<close>

theorem requeued_task_never_succeeds:
  assumes "redis_service R V before" and "postgres_service P D" and "codec_ok C" and "\<And>a. itf_ok D (itf a)"
    and "api_requeue_dlq R P C now q ids p = (r, p')"
  shows "\<exists>es. w_redis (pl_world p') = fold (publish R C q) es (w_redis (pl_world p)) \<and>
    (\<forall>e \<in> set es. env_task_id e \<in> set ids \<and> env_attempt e = 0 \<and>
      (\<exists>t. tasks (D (w_db (pl_world p))) (env_task_id e) = Some t \<and>
        (1 \<le> tr_max_attempts t \<and>
         (\<forall>n. 1 \<le> n \<and> n \<le> tr_max_attempts t \<longrightarrow> attempts (D (w_db (pl_world p))) (env_task_id e, n) \<noteq> None) \<longrightarrow>
         (\<forall>cs j w. cs ! 0 = e \<and> j < length cs \<and> (\<forall>k. Suc k < length cs \<longrightarrow> retried R V P C q (cs ! k) (cs ! Suc k)) \<and>
            evolves (D (w_db (pl_world p'))) (D (w_db w)) \<longrightarrow>
            (\<forall>er. fst (execute R P ex py reg clk itf ticks (cs ! j) w) \<noteq> Inr (True, er)) \<and>
            execute R P ex py reg clk itf ticks (cs ! j) w = execute R P ex py reg' clk itf ticks' (cs ! j) w))))"
proof -
  obtain es where es: "w_redis (pl_world p') = fold (publish R C q) es (w_redis (pl_world p))"
      "\<forall>e \<in> set es. \<exists>i row t. i \<in> set ids \<and> e = requeue_envelope now q i row \<and> tasks (D (w_db (pl_world p))) i = Some t \<and>
         tr_max_attempts row = tr_max_attempts t"
    using postgres_service.requeue_published [OF assms(2,5)] by blast
  have "env_task_id e \<in> set ids \<and> env_attempt e = 0 \<and> (\<exists>t. tasks (D (w_db (pl_world p))) (env_task_id e) = Some t \<and>
      policy_max_attempts (env_retry_policy e) = tr_max_attempts t)" if "e \<in> set es" for e
    using es(2) that by (fastforce simp: requeue_envelope_def new_envelope_def)
  moreover have "(\<forall>er. fst (execute R P ex py reg clk itf ticks (cs ! j) w) \<noteq> Inr (True, er)) \<and>
      execute R P ex py reg clk itf ticks (cs ! j) w = execute R P ex py reg' clk itf ticks' (cs ! j) w"
    if e: "cs ! 0 = e" "env_attempt e = 0" "policy_max_attempts (env_retry_policy e) = mx" "1 \<le> mx"
      and rows: "\<forall>n. 1 \<le> n \<and> n \<le> mx \<longrightarrow> attempts (D (w_db (pl_world p))) (env_task_id e, n) \<noteq> None"
      and cs: "j < length cs" "\<forall>k. Suc k < length cs \<longrightarrow> retried R V P C q (cs ! k) (cs ! Suc k)"
      and w: "evolves (D (w_db (pl_world p'))) (D (w_db w))" for e mx cs j w
  proof -
    have c: "cs ! j = e\<lparr>env_attempt := int j\<rparr>" "0 < j \<longrightarrow> int j < mx"
      using retry_chain_attempts [OF assms(1,3) cs(2,1)] e by simp_all
    have "attempts (D (w_db (pl_world p))) (env_task_id e, int j + 1) \<noteq> None" using rows c(2) e(4) by (cases j) auto
    then have "attempts (D (w_db w)) (env_task_id (cs ! j), attempt_no (cs ! j)) \<noteq> None"
      using evolves_trans [OF postgres_service.requeue_evolves [OF assms(2,5)] w]
      by (force simp: c attempt_no_def evolves_def rows_evolve_def)
    from recorded_attempt [where itf = itf, OF assms(2,4) this] show ?thesis by blast
  qed
  ultimately show ?thesis using es(1) by (intro exI [of _ es]) fastforce
qed

text \<open>A dead task with its only attempt on record.\<close>

definition demo_dead :: "(task_envelope keyspace, ref_db) plane" where
  "demo_dead = demo_plane\<lparr>pl_world := \<lparr>w_redis = empty_keyspace, w_db = empty_ref_db
     \<lparr>rd_tasks := [\<lparr>tr_id = ''t1'', tr_queue = ''default'', tr_task_name = ''mail'', tr_payload = JObj [],
        tr_state = DEAD, tr_priority = 0, tr_attempt = 1, tr_max_attempts = 1, tr_dedup_key = None, tr_run_at = None,
        tr_workflow_id = None, tr_step_name = None, tr_created_at = 0, tr_updated_at = 1\<rparr>],
      rd_attempts := [\<lparr>ar_task_id = ''t1'', ar_attempt_no = 1, ar_worker_id = ''w1'', ar_fence = 1,
        ar_started_at = 0, ar_finished_at = Some 1, ar_outcome = Some ''failed'', ar_error_type = None,
        ar_error_repr = None\<rparr>]\<rparr>\<rparr>\<rparr>"

abbreviation demo_requeue where
  "demo_requeue \<equiv> api_requeue_dlq ref_redis ref_postgres ref_codec 2 ''default'' [''t1''] demo_dead"

lemma demo_requeue_ok: "fst demo_requeue = Inr (1, 1)"
  by (simp add: api_requeue_dlq_def demo_dead_def demo_plane_def empty_ref_db_def Let_def eval_db get_task_def
      sql_update_def pl_defs)

theorem requeued_task_never_succeeds_witness:
  "fst demo_requeue = Inr (1, 1) \<and>
   (\<exists>es. w_redis (pl_world (snd demo_requeue)) = fold (publish ref_redis ref_codec ''default'') es (w_redis (pl_world demo_dead)) \<and>
     (\<forall>e \<in> set es. env_task_id e = ''t1'' \<and>
       fst (execute ref_redis ref_postgres demo_ex demo_py demo_reg (\<lambda>_. 3) (\<lambda>_ w. w) [] e (pl_world (snd demo_requeue))) \<noteq> Inr (True, None)))"
proof -
  let ?b = "ref_view (w_db (pl_world demo_dead))"
  have "\<exists>a. attempts ?b (''t1'', 1) = Some a" "\<And>t. tasks ?b ''t1'' = Some t \<Longrightarrow> tr_max_attempts t = 1"
    by (auto simp: demo_dead_def ref_view_def indexed_Cons attempt_key_def split: if_splits)
  then have rows: "1 \<le> tr_max_attempts t \<and> (\<forall>n. 1 \<le> n \<and> n \<le> tr_max_attempts t \<longrightarrow> attempts ?b (''t1'', n) \<noteq> None)"
    if "tasks ?b ''t1'' = Some t" for t
    using that by (metis order_antisym order_refl option.distinct(1))
  obtain es where es: "w_redis (pl_world (snd demo_requeue)) = fold (publish ref_redis ref_codec ''default'') es (w_redis (pl_world demo_dead))"
      and all: "\<forall>e \<in> set es. env_task_id e \<in> set [''t1''] \<and> env_attempt e = 0 \<and> (\<exists>t. tasks ?b (env_task_id e) = Some t \<and>
        (1 \<le> tr_max_attempts t \<and> (\<forall>n. 1 \<le> n \<and> n \<le> tr_max_attempts t \<longrightarrow> attempts ?b (env_task_id e, n) \<noteq> None) \<longrightarrow>
         (\<forall>cs j (w :: (task_envelope keyspace, ref_db) world). cs ! 0 = e \<and> j < length cs \<and>
            (\<forall>k. Suc k < length cs \<longrightarrow> retried ref_redis id ref_postgres ref_codec ''default'' (cs ! k) (cs ! Suc k)) \<and>
            evolves (ref_view (w_db (pl_world (snd demo_requeue)))) (ref_view (w_db w)) \<longrightarrow>
            (\<forall>er. fst (execute ref_redis ref_postgres demo_ex demo_py demo_reg (\<lambda>_. 3) (\<lambda>_ w. w) [] (cs ! j) w) \<noteq> Inr (True, er)) \<and>
            execute ref_redis ref_postgres demo_ex demo_py demo_reg (\<lambda>_. 3) (\<lambda>_ w. w) [] (cs ! j) w =
              execute ref_redis ref_postgres demo_ex demo_py demo_reg (\<lambda>_. 3) (\<lambda>_ w. w) [] (cs ! j) w)))"
    using requeued_task_never_succeeds [where itf = "\<lambda>_ w. w" and ex = demo_ex and py = demo_py and reg = demo_reg and reg' = demo_reg
        and clk = "\<lambda>_. 3" and ticks = "[]" and ticks' = "[]" and now = 2 and q = "''default''" and ids = "[''t1'']" and p = demo_dead,
        OF ref_redis_service ref_postgres_service codec_ok_ref itf_ok_id prod.collapse [symmetric]]
    by (elim exE conjE) (rule that)
  have "env_task_id e = ''t1'' \<and>
      fst (execute ref_redis ref_postgres demo_ex demo_py demo_reg (\<lambda>_. 3) (\<lambda>_ w. w) [] e (pl_world (snd demo_requeue))) \<noteq> Inr (True, None)"
    if "e \<in> set es" for e
  proof -
    from all that obtain t where "env_task_id e = ''t1''" "tasks ?b ''t1'' = Some t" by force
    with all [rule_format, OF that] rows [of t] have "\<forall>cs j (w :: (task_envelope keyspace, ref_db) world). cs ! 0 = e \<and> j < length cs \<and>
        (\<forall>k. Suc k < length cs \<longrightarrow> retried ref_redis id ref_postgres ref_codec ''default'' (cs ! k) (cs ! Suc k)) \<and>
        evolves (ref_view (w_db (pl_world (snd demo_requeue)))) (ref_view (w_db w)) \<longrightarrow>
        (\<forall>er. fst (execute ref_redis ref_postgres demo_ex demo_py demo_reg (\<lambda>_. 3) (\<lambda>_ w. w) [] (cs ! j) w) \<noteq> Inr (True, er))"
      by auto
    from this [rule_format, of "[e]" 0] \<open>env_task_id e = ''t1''\<close> show ?thesis by simp
  qed
  with es show ?thesis using demo_requeue_ok by blast
qed

end
