(* ===== verification/Spec2Isabelle.thy ===== *)
theory Spec2Isabelle
  imports System Queue_Order Fleet Grpc_Control Broker_Factory Task_Lifecycle Failure_Lifecycle Crash_Recovery Workflow_Progress Metrics Tracing
    Broker_Connection Broker_Protocol Logging_Setup Schema Worker_Process Http_Api Fan_Out Requeue
begin

text \<open>
  A verification of the distributed task queue \<open>dtq\<close>.

  The program. A control plane (\<open>dtq/control\<close>) accepts tasks and workflows, records them in Postgres
  and sends a message per task to a broker queue. Workers (\<open>dtq/worker\<close>) poll the queues, take a
  lease of the task with a fencing token, record the attempt, run the handler under a heartbeat that
  renews the lease, commit the effect with the fence, release the lease and acknowledge the message;
  a failure is scheduled again with a jittered delay or dead-lettered. Reclaimers take over the
  messages of workers that died, schedulers move due tasks to their queue. The promise is delivery at
  least once and an effect exactly once per key.

  The external services are parameters: a Redis server is a record of its commands whose laws are the
  locale \<open>redis_service\<close>, a Postgres database is a record of its statements whose laws are
  \<open>postgres_service\<close> (any statement may raise; a commit that raises may have happened) and, where a
  theorem needs a database that answers, \<open>postgres_up\<close>; pydantic's serialisation is a codec. Each has
  a reference instance that satisfies its laws and carries the witnesses. Identifiers, clocks, random
  draws, iteration orders of Python sets and handlers are arguments.

  \<^item> \<open>Prelude\<close>: lists, decimal numerals, splitting of strings, collections of proof rules.
  \<^item> \<open>Core_Models\<close>: \<open>dtq/core\<close> (\<open>models.py\<close>, \<open>exceptions.py\<close>, \<open>config.py\<close>, \<open>backoff.py\<close>); the range of the
    retry delay.
  \<^item> \<open>Redis_Service\<close>: the keys of the broker and what the Redis commands do to a keyspace.
  \<^item> \<open>Redis_Broker\<close>: \<open>dtq/broker/redis_broker.py\<close> and its Lua scripts, one definition per method.
  \<^item> \<open>Lease_Lock\<close>: the scripts refine an abstract lock that expires; only its owner releases or
    renews a lease.
  \<^item> \<open>Broker_Delivery\<close>: the contract of delivery at least once as a locale, interpreted by the broker, for sequences of all
    operations on a queue; reclaiming and the schedule; \<open>Queue_Order\<close>: first deliveries are what publications and
    promotions put on the stream, in order, and no scheduled task is lost.
  \<^item> \<open>Postgres_Service\<close>: \<open>dtq/store/tables.py\<close> and the constraints of the migration.
  \<^item> \<open>Schema\<close>: the migration \<open>001_initial.py\<close>, the declared tables and \<open>init_db\<close> as statements on a catalog with the
    laws \<open>ddl_service\<close>, and the Alembic environment \<open>env.py\<close>; the migration creates what the models declare but for seven
    details that are spelled out, and can be undone.
  \<^item> \<open>Repository\<close>: \<open>dtq/store/repository.py\<close> and \<open>database.py\<close> as transactions; \<open>Store_Contract\<close>: what every transaction
    keeps (\<open>evolves\<close>: rows are not deleted, their identity and the effects never change), and what
    committing, creating and cancelling do.
  \<^item> \<open>Executor\<close>, \<open>Executor_Contract\<close>: \<open>dtq/worker/registry.py\<close> and \<open>executor.py\<close>. An execution is cut at
    the points where the coroutine gives up control; between two of them other processes may do
    whatever keeps the history of the database.
  \<^item> \<open>Worker_Loop\<close>, \<open>Worker_Contract\<close>: \<open>dtq/worker/loop.py\<close>: processing a message, the four loops, the
    semaphore as a state machine. What other processes may do to a queue meanwhile is a relation (locale \<open>queue_rely\<close>);
    when a message is acknowledged, what a poll takes, and that retries end.
  \<^item> \<open>Dag\<close>: \<open>dtq/workflow/dag.py\<close>. The loop of Kahn's algorithm runs on fuel, the number of steps,
    which \<open>kahn_total\<close> proves to be enough.
  \<^item> \<open>Workflow_Engine\<close>, \<open>Engine_Contract\<close>: \<open>dtq/workflow/engine.py\<close>.
  \<^item> \<open>Event_Bus\<close>: \<open>dtq/control/events.py\<close>.
  \<^item> \<open>Control_Plane\<close>, \<open>Control_Contract\<close>: the handlers of \<open>dtq/control/app.py\<close> with the schemas of
    \<open>schemas.py\<close>.
  \<^item> \<open>System\<close>: the whole deployment as sequences of the steps of all processes; what no interleaving
    breaks: increasing fences, exclusive leases, effects that stay, and the rejection of a zombie (locale \<open>sys_history\<close>: a
    relation that every operation keeps is kept by every run).
    \<open>Fan_Out\<close>: a workflow with a fan-out step in the deployment; \<open>Requeue\<close>: what becomes of requeued dead letters.
  \<^item> \<open>Task_Lifecycle\<close>: one task through all components: a request that is accepted, polled, leased,
    recorded, run, committed, released and acknowledged, with what every store holds at the end.
    \<open>Failure_Lifecycle\<close>: a task that keeps failing, through its retries to the dead letters.
    \<open>Crash_Recovery\<close>: a task whose worker dies, at any step, and the worker that takes it over.
  \<^item> \<open>Workflow_Progress\<close>: \<open>advance\<close> refines a step of an abstract scheduler, and a valid workflow whose
    tasks succeed is completed after as many rounds as it has steps.
  \<^item> \<open>Fleet\<close>: \<open>dtq/worker/__main__.py\<close>, the listing of the workers and the event stream of
    \<open>dtq/control/app.py\<close>; the listing follows the history of heartbeats. The scan of the keys is a parameter with the
    law \<open>scan_ok\<close>.
  \<^item> \<open>Grpc_Control\<close>: \<open>dtq/control/grpc_server.py\<close> and \<open>dtq/worker/grpc_client.py\<close>: the registry of worker
    sessions (objects in a store, since a stream may still hold one that was replaced), commands,
    streams and the client; commands arrive in order and once, and who is reachable after a stream
    ends.
  \<^item> \<open>Kafka_Broker\<close>, \<open>RabbitMQ_Broker\<close>, \<open>Broker_Factory\<close>: the alternative backends
    \<open>dtq/broker/kafka_broker.py\<close> and \<open>rabbitmq_broker.py\<close>, and \<open>factory.py\<close>. A Kafka cluster is a
    parameter with the laws \<open>kafka_service\<close> (logs only grow, positions and commits belong to a group)
    and \<open>kafka_up\<close> (calls return, a send appends once); a RabbitMQ server is a record of calls without laws, whose deliveries between two
    looks at a buffer are an argument. What an acknowledgement commits, what promoting conserves, the
    order of a lease.
  \<^item> \<open>Broker_Connection\<close>: \<open>connect\<close> and \<open>close\<close> of the three adapters, over client libraries that may raise at
    every call, the locale \<open>broker_connection\<close> that all three interpret, \<open>get_broker\<close> and \<open>lifespan\<close> of
    \<open>dtq/control/app.py\<close>; which methods work before, during and after a connection.
  \<^item> \<open>Broker_Protocol\<close>: the protocol of \<open>dtq/broker/base.py\<close> as a record of methods and the three adapters as its
    values, with what each does without a connection; the locale \<open>lease_contract\<close> (a call returns at most \<open>count\<close>
    messages), which every Redis server and every Kafka cluster with their laws and every RabbitMQ channel satisfy.
  \<^item> \<open>Worker_Process\<close>: a worker from its command line to its exit: \<open>main\<close>, \<open>start\<close>, \<open>stop\<close>, the positions of the four
    loops, tasks, callbacks and signals as a labelled step relation over an open world. After a signal the process
    takes finitely many steps and is never stuck; it drops no message silently; it is simulated by the state machine
    of \<open>Worker_Loop\<close>; and it cancels the tasks in flight.
  \<^item> \<open>Http_Api\<close>: the routes, the request and response schemas and a request from its path and body to its answer,
    through the handlers, over a router with the laws \<open>http_router\<close>; the routes are unambiguous, the chaos endpoints
    guarded, only \<open>POST\<close> and \<open>DELETE\<close> change anything, and a task that was created can be read back.
  \<^item> \<open>Metrics\<close>: \<open>dtq/observability/metrics.py\<close> over a Prometheus client with the laws \<open>prometheus_client\<close>:
    no recording function can raise, and the counts, values, buckets and sums that the registry shows after any sequence of them.
  \<^item> \<open>Tracing\<close>: \<open>dtq/observability/tracing.py\<close> over an OpenTelemetry SDK with the laws \<open>otel_sdk\<close>: extracting
    and linking undo injecting.
  \<^item> \<open>Logging_Setup\<close>: \<open>dtq/observability/logging.py\<close> and the worker's own set-up.

  Bounds. The fence counter is a 64-bit integer of Redis; the theorems about leases assume fewer than
  \<open>10\<^sup>1\<^sup>4\<close> acquisitions, because from there on Lua's \<open>tostring\<close> of a fence differs from Python's \<open>str\<close>.
  Integer columns have the ranges of their SQL types. Timestamps and delays are real numbers, not
  floating-point ones; the \<open>OverflowError\<close> of a float times a large power of two is modelled.

  Not modelled, because it is behaviour of a library that the program only configures: the text that the metrics
  endpoint renders, the SQL that Alembic renders offline, the connection pool of SQLAlchemy, the router of FastAPI with CORS
  and its own pages (a parameter), the parsing of options by click. Log lines are left out: they change nothing. A \<open>run_at\<close> without a time zone is
  outside the model. A Redis command answers, with a value or an error reply: lost
  connections are modelled in \<open>Broker_Connection\<close> only. No module of the program calls the tracing and
  the metrics functions, so the other theories do not either. Transactions of different sessions are
  taken one after the other, and a transaction has one timestamp.
\<close>

end
